(* ===== verification/Prelude.thy ===== *)
theory Prelude imports Complex_Main begin

text \<open>
  The shared vocabulary of the development.

  \<^item> Python's exceptions are the values of \<open>exn\<close>, and a piece of code that may raise and that
    mutates a state of type \<open>'s\<close> is an action \<open>('s, 'a) act\<close>: it returns the exception or the
    result together with the state it leaves behind. As in Python, what was written before the
    exception stays written.
  \<^item> \<open>run_all\<close> runs statements one after the other and stops at the first that raises;
    \<open>and_then\<close> passes a result on; \<open>ask\<close> reads the current state.
  \<^item> The locale \<open>frame\<close> is the contract of a two-state relation that is reflexive and transitive;
    inside it every combinator is shown to stay inside the relation, so that a fact about a whole
    handler reduces to one fact per primitive operation.
  \<^item> Python's \<open>dict\<close>, where the insertion order matters, is an association list (\<open>dict_setdefault\<close>,
    \<open>dict_pop\<close>); \<open>float\<close> is the type of rationals, so arithmetic is exact; \<open>round(x, 2)\<close> is
    \<open>round2\<close>, which rounds halves to the even neighbour as Python does.
\<close>

section \<open>Exceptions and actions\<close>

datatype exn =
    ValueError | KeyError | IndexError | TypeError | AttributeError | NotImplementedError
  | ValidationError | RuntimeError | RecursionError | CompileError | IntegrityError
  | UnboundLocalError | InvalidRequestError | DataError | Diverge

text \<open>\<open>Diverge\<close> is no Python exception: it marks a loop that used up the fuel it was given.\<close>

type_synonym ('s, 'a) act = "'s \<Rightarrow> (exn + 'a) \<times> 's"

definition ret :: "'a \<Rightarrow> ('s, 'a) act" where
  "ret v s = (Inr v, s)"

definition raise :: "exn \<Rightarrow> ('s, 'a) act" where
  "raise e s = (Inl e, s)"

definition and_then :: "('s, 'a) act \<Rightarrow> ('a \<Rightarrow> ('s, 'b) act) \<Rightarrow> ('s, 'b) act" where
  "and_then m k s = (case m s of (Inl e, t) \<Rightarrow> (Inl e, t) | (Inr v, t) \<Rightarrow> k v t)"

definition ask :: "('s \<Rightarrow> ('s, 'a) act) \<Rightarrow> ('s, 'a) act" where
  "ask f s = f s s"

definition upd :: "('s \<Rightarrow> 's) \<Rightarrow> ('s, unit) act" where
  "upd f s = (Inr (), f s)"

definition of_res :: "exn + 'a \<Rightarrow> ('s, 'a) act" where
  "of_res r s = (r, s)"

definition only_if :: "bool \<Rightarrow> ('s, unit) act \<Rightarrow> ('s, unit) act" where
  "only_if b m = (if b then m else ret ())"

fun run_all :: "('s, unit) act list \<Rightarrow> ('s, unit) act" where
  "run_all [] s = (Inr (), s)"
| "run_all (m # ms) s = (case m s of (Inl e, t) \<Rightarrow> (Inl e, t) | (Inr _, t) \<Rightarrow> run_all ms t)"

text \<open>The equations that evaluate an action, collected so that a proof can ask for them by name.\<close>

named_theorems act_simps \<open>evaluation of actions\<close>

declare ret_def [act_simps] raise_def [act_simps] and_then_def [act_simps] ask_def [act_simps]
  upd_def [act_simps] of_res_def [act_simps] only_if_def [act_simps]

lemma run_all_append:
  "run_all (ms @ ns) s =
     (case run_all ms s of (Inl e, t) \<Rightarrow> (Inl e, t) | (Inr _, t) \<Rightarrow> run_all ns t)"
  by (induction ms arbitrary: s) (auto split: prod.splits sum.splits)

lemma run_all_Cons: "run_all (m # ms) = and_then m (\<lambda>_. run_all ms)"
  by (rule ext) (auto simp: and_then_def split: prod.splits sum.splits)

lemma and_then_raise [simp]: "and_then (raise e) k = raise e"
  by (rule ext) (simp add: act_simps)

lemma and_then_ret [simp]: "and_then (ret v) k = k v"
  by (rule ext) (simp add: act_simps)

lemma and_then_assoc: "and_then (and_then m k) h = and_then m (\<lambda>v. and_then (k v) h)"
  by (rule ext) (auto simp: act_simps split: prod.splits sum.splits)

section \<open>Frames: relations every action of a group stays inside\<close>

definition stays :: "('s \<Rightarrow> 's \<Rightarrow> bool) \<Rightarrow> ('s, 'a) act \<Rightarrow> bool" where
  "stays R m \<longleftrightarrow> (\<forall>s. R s (snd (m s)))"

lemma staysI: "(\<And>s. R s (snd (m s))) \<Longrightarrow> stays R m"
  by (simp add: stays_def)

lemma staysD: "stays R m \<Longrightarrow> m s = (r, t) \<Longrightarrow> R s t"
  unfolding stays_def by (metis snd_conv)

locale frame =
  fixes R :: "'s \<Rightarrow> 's \<Rightarrow> bool"
  assumes frame_refl: "R s s"
    and frame_trans: "R s t \<Longrightarrow> R t u \<Longrightarrow> R s u"
begin

lemma stays_ret: "stays R (ret v)"
  by (rule staysI) (simp add: ret_def frame_refl)

lemma stays_raise: "stays R (raise e)"
  by (rule staysI) (simp add: raise_def frame_refl)

lemma stays_of_res: "stays R (of_res r)"
  by (rule staysI) (simp add: of_res_def frame_refl)

lemma stays_and_then:
  assumes m: "stays R m" and k: "\<And>v. stays R (k v)"
  shows "stays R (and_then m k)"
proof (rule staysI)
  fix s
  obtain r t where ms: "m s = (r, t)" by fastforce
  with m have st: "R s t" by (rule staysD)
  show "R s (snd (and_then m k s))"
  proof (cases r)
    case (Inl e)
    with ms st show ?thesis by (simp add: and_then_def)
  next
    case (Inr v)
    moreover have "R t (snd (k v t))" using k by (simp add: stays_def)
    ultimately show ?thesis using ms st frame_trans by (auto simp: and_then_def)
  qed
qed

lemma stays_ask: "(\<And>s. stays R (f s)) \<Longrightarrow> stays R (ask f)"
  by (rule staysI) (simp add: ask_def stays_def)

lemma stays_only_if: "stays R m \<Longrightarrow> stays R (only_if b m)"
  by (simp add: only_if_def stays_ret)

lemma stays_run_all: "(\<And>m. m \<in> set ms \<Longrightarrow> stays R m) \<Longrightarrow> stays R (run_all ms)"
proof (induction ms)
  case Nil
  show ?case by (rule staysI) (simp add: frame_refl)
next
  case (Cons m ms)
  then show ?case by (simp add: run_all_Cons stays_and_then)
qed

lemma stays_Nil: "stays R (run_all [])"
  by (rule stays_run_all) simp

lemma stays_Cons: "stays R m \<Longrightarrow> stays R (run_all ms) \<Longrightarrow> stays R (run_all (m # ms))"
  by (simp add: run_all_Cons stays_and_then)

lemma stays_if: "(b \<Longrightarrow> stays R m) \<Longrightarrow> (\<not> b \<Longrightarrow> stays R n) \<Longrightarrow> stays R (if b then m else n)"
  by simp

lemma stays_option: "stays R m \<Longrightarrow> (\<And>v. stays R (f v)) \<Longrightarrow> stays R (case v of None \<Rightarrow> m | Some w \<Rightarrow> f w)"
  by (cases v) simp_all

lemma stays_pair: "(\<And>a b. stays R (f a b)) \<Longrightarrow> stays R (case v of (a, b) \<Rightarrow> f a b)"
  by (cases v) simp

lemmas stays_basic =
  stays_ret stays_raise stays_of_res stays_and_then stays_ask stays_only_if stays_Nil stays_Cons
  stays_if stays_option stays_pair

lemmas stays_intros =
  stays_ret stays_raise stays_of_res stays_and_then stays_ask stays_only_if stays_run_all

end

text \<open>
  An invariant is the relation "if it held before, it holds after"; the frame contract for it is
  immediate.
\<close>

definition inv_rel :: "('s \<Rightarrow> bool) \<Rightarrow> 's \<Rightarrow> 's \<Rightarrow> bool" where
  "inv_rel I s t \<longleftrightarrow> (I s \<longrightarrow> I t)"

lemma frame_inv_rel: "frame (inv_rel I)"
  by unfold_locales (auto simp: inv_rel_def)

lemma stays_inv_relD: "stays (inv_rel I) m \<Longrightarrow> m s = (r, t) \<Longrightarrow> I s \<Longrightarrow> I t"
  by (auto dest: staysD simp: inv_rel_def)

section \<open>Dictionaries that remember insertion order\<close>

definition dict_setdefault :: "('k \<times> 'v) list \<Rightarrow> 'k \<Rightarrow> 'v \<Rightarrow> ('k \<times> 'v) list" where
  "dict_setdefault d k v = (if k \<in> fst ` set d then d else d @ [(k, v)])"

lemma key_of_pair: "(k, v) \<in> set xs \<Longrightarrow> k \<in> fst ` set xs"
  by force

definition dict_pop :: "('k \<times> 'v) list \<Rightarrow> 'k \<Rightarrow> ('k \<times> 'v) list" where
  "dict_pop d k = filter (\<lambda>kv. fst kv \<noteq> k) d"

lemma map_of_dict_setdefault:
  "map_of (dict_setdefault d k v) = (if map_of d k = None then (map_of d)(k \<mapsto> v) else map_of d)"
proof (cases "k \<in> fst ` set d")
  case True
  then have "map_of d k \<noteq> None" by (simp add: map_of_eq_None_iff)
  with True show ?thesis by (auto simp: dict_setdefault_def)
next
  case False
  then have "map_of d k = None" by (simp add: map_of_eq_None_iff)
  with False show ?thesis
    by (auto simp: dict_setdefault_def map_add_def fun_eq_iff split: option.splits)
qed

lemma map_of_dict_pop: "map_of (dict_pop d k) = (map_of d)(k := None)"
  by (induction d) (auto simp: dict_pop_def fun_eq_iff)

lemma dict_pop_absent: "k \<notin> fst ` set d \<Longrightarrow> dict_pop d k = d"
  unfolding dict_pop_def by (rule filter_True) auto

fun dict_put :: "('k \<times> 'v) list \<Rightarrow> 'k \<Rightarrow> 'v \<Rightarrow> ('k \<times> 'v) list" where
  "dict_put [] k v = [(k, v)]"
| "dict_put (kv # d) k v = (if fst kv = k then (k, v) # d else kv # dict_put d k v)"

lemma set_dict_put: "kv \<in> set (dict_put d k v) \<Longrightarrow> kv = (k, v) \<or> kv \<in> set d"
  by (induction d) (auto split: if_splits)

lemma keys_dict_put [simp]: "fst ` set (dict_put d k v) = insert k (fst ` set d)"
  by (induction d) auto

lemma map_of_dict_put: "map_of (dict_put d k v) = (map_of d)(k \<mapsto> v)"
  by (induction d) (auto simp: fun_eq_iff)

lemma distinct_dict_put: "distinct (map fst d) \<Longrightarrow> distinct (map fst (dict_put d k v))"
  by (induction d) auto


lemma distinct_dict_setdefault:
  "distinct (map fst d) \<Longrightarrow> distinct (map fst (dict_setdefault d k v))"
  by (auto simp: dict_setdefault_def)

lemma distinct_dict_pop: "distinct (map fst d) \<Longrightarrow> distinct (map fst (dict_pop d k))"
  by (induction d) (auto simp: dict_pop_def)

section \<open>Rounding to two decimals\<close>

definition round_half_even :: "rat \<Rightarrow> int" where
  "round_half_even x =
     (let f = \<lfloor>x\<rfloor>; d = x - of_int f
      in if d < 1 / 2 then f else if 1 / 2 < d then f + 1 else if even f then f else f + 1)"

definition round2 :: "rat \<Rightarrow> rat" where
  "round2 x = of_int (round_half_even (100 * x)) / 100"

lemma round_half_even_of_int [simp]: "round_half_even (of_int n) = n"
  by (simp add: round_half_even_def)

lemma round_half_even_close: "\<bar>of_int (round_half_even x) - x\<bar> \<le> 1 / 2"
proof -
  have "of_int \<lfloor>x\<rfloor> \<le> x" and "x < of_int \<lfloor>x\<rfloor> + 1" by linarith+
  then show ?thesis by (auto simp: round_half_even_def Let_def)
qed

lemma round2_close: "\<bar>round2 x - x\<bar> \<le> 1 / 200"
proof -
  have "\<bar>of_int (round_half_even (100 * x)) - 100 * x\<bar> \<le> 1 / 2"
    by (rule round_half_even_close)
  then show ?thesis by (simp add: round2_def abs_le_iff field_simps)
qed

lemma round2_idem [simp]: "round2 (round2 x) = round2 x"
  by (simp add: round2_def)

end
