(* ===== verification/Sorted_Dict.thy ===== *)
theory Sorted_Dict imports Prelude begin

text \<open>
  The interface of \<open>sortedcontainers.SortedDict\<close>, the third-party container the order book keeps its
  price levels in. It is a parameter of the model: the record \<open>('m, 'v) sdict\<close> holds the operations
  the order book calls and the locale \<open>sorted_dict\<close> states the documented behaviour the code relies
  on, for the values that satisfy a well-formedness predicate \<open>ok\<close>. \<open>peekitem\<close> and \<open>len\<close> are defined by
  the item view, as the package documents them. The association list kept in key order
  (\<open>alist_sdict\<close>) is an instance of the interface.
\<close>

section \<open>The operations\<close>

record ('m, 'v) sdict =
  sd_empty :: "'m"
  sd_lookup :: "'m \<Rightarrow> rat \<Rightarrow> 'v option"
  sd_store :: "'m \<Rightarrow> rat \<Rightarrow> 'v \<Rightarrow> 'm"
  sd_pop :: "'m \<Rightarrow> rat \<Rightarrow> 'm"
  sd_items :: "'m \<Rightarrow> (rat \<times> 'v) list"

definition sd_len :: "('m, 'v) sdict \<Rightarrow> 'm \<Rightarrow> nat" where
  "sd_len d m = length (sd_items d m)"

definition sd_keys :: "('m, 'v) sdict \<Rightarrow> 'm \<Rightarrow> rat list" where
  "sd_keys d m = map fst (sd_items d m)"

lemma length_sd_keys [simp]: "length (sd_keys d m) = sd_len d m"
  by (simp add: sd_keys_def sd_len_def)

text \<open>\<open>peekitem\<close> takes Python's indices: negative ones count from the end.\<close>

definition peekitem :: "('m, 'v) sdict \<Rightarrow> 'm \<Rightarrow> int \<Rightarrow> exn + rat \<times> 'v" where
  "peekitem d m i =
     (let xs = sd_items d m; j = (if i < 0 then int (length xs) + i else i)
      in if 0 \<le> j \<and> j < int (length xs) then Inr (xs ! nat j) else Inl IndexError)"

section \<open>The laws\<close>

locale sorted_dict =
  fixes d :: "('m, 'v) sdict" and ok :: "'m \<Rightarrow> bool"
  assumes ok_empty: "ok (sd_empty d)"
    and ok_store: "ok m \<Longrightarrow> ok (sd_store d m k v)"
    and ok_pop: "ok m \<Longrightarrow> ok (sd_pop d m k)"
    and lookup_empty: "sd_lookup d (sd_empty d) k = None"
    and lookup_store: "ok m \<Longrightarrow> sd_lookup d (sd_store d m k v) k' = (if k' = k then Some v else sd_lookup d m k')"
    and lookup_pop: "ok m \<Longrightarrow> sd_lookup d (sd_pop d m k) k' = (if k' = k then None else sd_lookup d m k')"
    and items_lookup: "ok m \<Longrightarrow> map_of (sd_items d m) k = sd_lookup d m k"
    and items_sorted: "ok m \<Longrightarrow> sorted_wrt (<) (map fst (sd_items d m))"
begin

lemma keys_lookup: "ok m \<Longrightarrow> k \<in> set (sd_keys d m) \<longleftrightarrow> sd_lookup d m k \<noteq> None"
  unfolding sd_keys_def by (metis items_lookup map_of_eq_None_iff list.set_map)

lemma keys_sorted: "ok m \<Longrightarrow> sorted (sd_keys d m)" "ok m \<Longrightarrow> distinct (sd_keys d m)"
  using items_sorted by (auto simp: sd_keys_def strict_sorted_iff)

lemma keys_mono: "ok m \<Longrightarrow> i < j \<Longrightarrow> j < sd_len d m \<Longrightarrow> sd_keys d m ! i < sd_keys d m ! j"
  using items_sorted[of m] by (simp add: sd_keys_def sd_len_def sorted_wrt_iff_nth_less)

lemma lookup_key_nth: "ok m \<Longrightarrow> sd_lookup d m k \<noteq> None \<Longrightarrow> \<exists>i < sd_len d m. sd_keys d m ! i = k"
  using keys_lookup[of m k] in_set_conv_nth[of k "sd_keys d m"] by (metis length_sd_keys)

lemma nth_key_lookup: "ok m \<Longrightarrow> i < sd_len d m \<Longrightarrow> sd_lookup d m (sd_keys d m ! i) \<noteq> None"
  using keys_lookup[of m "sd_keys d m ! i"] by (simp add: sd_keys_def sd_len_def)

text \<open>Popping a key shrinks the dictionary by one.\<close>

lemma set_keys_pop: "ok m \<Longrightarrow> set (sd_keys d (sd_pop d m k)) = set (sd_keys d m) - {k}"
  using keys_lookup[OF ok_pop, of m] keys_lookup[of m] by (auto simp: lookup_pop split: if_splits)

lemma set_keys_store: "ok m \<Longrightarrow> set (sd_keys d (sd_store d m k v)) = insert k (set (sd_keys d m))"
  using keys_lookup[OF ok_store, of m] keys_lookup[of m] by (auto simp: lookup_store split: if_splits)

lemma sd_len_card: "ok m \<Longrightarrow> sd_len d m = card (set (sd_keys d m))"
  using keys_sorted(2)[of m] by (simp add: distinct_card)

end

section \<open>An instance: the association list in key order\<close>

fun alist_store :: "(rat \<times> 'v) list \<Rightarrow> rat \<Rightarrow> 'v \<Rightarrow> (rat \<times> 'v) list" where
  "alist_store [] k v = [(k, v)]"
| "alist_store ((a, w) # m) k v =
     (if k < a then (k, v) # (a, w) # m else if k = a then (k, v) # m else (a, w) # alist_store m k v)"

definition alist_sdict :: "((rat \<times> 'v) list, 'v) sdict" where
  "alist_sdict = \<lparr> sd_empty = [], sd_lookup = map_of, sd_store = alist_store,
                   sd_pop = dict_pop, sd_items = (\<lambda>m. m) \<rparr>"

definition alist_ok :: "(rat \<times> 'v) list \<Rightarrow> bool" where
  "alist_ok m = sorted_wrt (<) (map fst m)"

lemma set_fst_alist_store: "fst ` set (alist_store m k v) = insert k (fst ` set m)"
  by (induction m k v rule: alist_store.induct) auto

lemma alist_ok_store: "alist_ok m \<Longrightarrow> alist_ok (alist_store m k v)"
  by (induction m k v rule: alist_store.induct)
     (auto simp: alist_ok_def set_fst_alist_store less_trans)

lemma map_of_alist_store:
  "alist_ok m \<Longrightarrow> map_of (alist_store m k v) k' = (if k' = k then Some v else map_of m k')"
proof (induction m k v rule: alist_store.induct)
  case (2 a w m k v)
  then show ?case by (auto simp: alist_ok_def)
qed simp

lemma alist_ok_pop: "alist_ok m \<Longrightarrow> alist_ok (dict_pop m k)"
  by (induction m) (auto simp: alist_ok_def dict_pop_def)

interpretation al: sorted_dict alist_sdict alist_ok
proof unfold_locales
  show "alist_ok (sd_empty alist_sdict)" by (simp add: alist_sdict_def alist_ok_def)
qed (auto simp: alist_sdict_def alist_ok_store alist_ok_pop map_of_alist_store map_of_dict_pop,
     auto simp: alist_ok_def)

end
