(* ===== verification/Price_Level.thy ===== *)
theory Price_Level imports Prelude begin

text \<open>
  \<open>engine/orderbook/price_level_node.py\<close> and \<open>price_level.py\<close>: the doubly linked list of the orders
  that rest at one price.

  The node objects live in a heap, a list indexed by address, because removed nodes stay reachable
  from a generator that is iterating over the level and keep their old \<open>next\<close>. A node holds the
  address of its order object. A level has its \<open>head\<close>, its \<open>tail\<close> and the \<open>tracker\<close> from order ids
  to nodes. \<open>level_repr ns l xs\<close> says that, in the heap \<open>ns\<close>, the level \<open>l\<close> is the queue \<open>xs\<close> of
  (order id, node address) pairs, oldest first; the lemmas show that \<open>append\<close> is insertion at the
  back, \<open>remove\<close> is deletion, that both leave every other level's nodes alone and that following
  \<open>next\<close> from the head visits the queue in order.
\<close>

section \<open>Nodes and levels\<close>

record node =
  n_order :: nat
  n_prev :: "nat option"
  n_next :: "nat option"

record price_level =
  lv_head :: "nat option"
  lv_tail :: "nat option"
  lv_tracker :: "string \<Rightarrow> nat option"

definition new_level :: price_level where
  "new_level = \<lparr> lv_head = None, lv_tail = None, lv_tracker = (\<lambda>_. None) \<rparr>"

definition set_next :: "node list \<Rightarrow> nat \<Rightarrow> nat option \<Rightarrow> node list" where
  "set_next ns a v = ns[a := (ns ! a)\<lparr> n_next := v \<rparr>]"

definition set_prev :: "node list \<Rightarrow> nat \<Rightarrow> nat option \<Rightarrow> node list" where
  "set_prev ns a v = ns[a := (ns ! a)\<lparr> n_prev := v \<rparr>]"

definition level_append ::
    "node list \<Rightarrow> price_level \<Rightarrow> string \<Rightarrow> nat \<Rightarrow> exn + node list \<times> price_level" where
  "level_append ns l i r =
     (if lv_tracker l i \<noteq> None then Inl ValueError
      else let a = length ns;
               ns1 = ns @ [\<lparr> n_order = r, n_prev = None, n_next = None \<rparr>]
           in case (lv_head l, lv_tail l) of
                (None, _) \<Rightarrow>
                  Inr (ns1, l\<lparr> lv_head := Some a, lv_tail := Some a,
                               lv_tracker := (lv_tracker l)(i \<mapsto> a) \<rparr>)
              | (Some _, Some t) \<Rightarrow>
                  Inr (set_prev (set_next ns1 t (Some a)) a (Some t),
                       l\<lparr> lv_tail := Some a, lv_tracker := (lv_tracker l)(i \<mapsto> a) \<rparr>)
              | (Some _, None) \<Rightarrow> Inl AttributeError)"

definition level_remove ::
    "node list \<Rightarrow> price_level \<Rightarrow> string \<Rightarrow> exn + node list \<times> price_level" where
  "level_remove ns l i =
     (case lv_tracker l i of
        None \<Rightarrow> Inl KeyError
      | Some a \<Rightarrow>
          let p = n_prev (ns ! a);
              ns1 = (case p of None \<Rightarrow> ns | Some b \<Rightarrow> set_next ns b (n_next (ns ! a)));
              n = n_next (ns1 ! a);
              ns2 = (case n of None \<Rightarrow> ns1 | Some c \<Rightarrow> set_prev ns1 c (n_prev (ns1 ! a)));
              l1 = (if lv_head l = Some a then l\<lparr> lv_head := n_next (ns2 ! a) \<rparr> else l);
              l2 = (if lv_tail l1 = Some a then l1\<lparr> lv_tail := n_prev (ns2 ! a) \<rparr> else l1)
          in Inr (ns2, l2\<lparr> lv_tracker := (lv_tracker l2)(i := None) \<rparr>))"

definition level_bool :: "price_level \<Rightarrow> bool" where
  "level_bool l = (lv_head l \<noteq> None)"

text \<open>Walking the list from a node, as the serialiser and the level iterator do.\<close>

fun walk :: "nat \<Rightarrow> node list \<Rightarrow> nat option \<Rightarrow> nat list" where
  "walk 0 ns c = []"
| "walk (Suc k) ns None = []"
| "walk (Suc k) ns (Some a) = a # walk k ns (n_next (ns ! a))"

section \<open>What a level represents\<close>

definition hd_opt :: "'a list \<Rightarrow> 'a option" where
  "hd_opt xs = (case xs of [] \<Rightarrow> None | x # _ \<Rightarrow> Some x)"

definition last_opt :: "'a list \<Rightarrow> 'a option" where
  "last_opt xs = (if xs = [] then None else Some (last xs))"

lemma hd_opt_simps [simp]: "hd_opt [] = None" "hd_opt (x # xs) = Some x"
  by (simp_all add: hd_opt_def)

lemma last_opt_simps [simp]:
  "last_opt [] = None" "last_opt [x] = Some x" "last_opt (xs @ [x]) = Some x"
  by (simp_all add: last_opt_def)

lemma hd_opt_append: "hd_opt (xs @ ys) = (if xs = [] then hd_opt ys else hd_opt xs)"
  by (cases xs) simp_all

lemma last_opt_append: "last_opt (xs @ ys) = (if ys = [] then last_opt xs else last_opt ys)"
  by (simp add: last_opt_def)

lemma hd_opt_None [simp]: "hd_opt xs = None \<longleftrightarrow> xs = []"
  by (cases xs) simp_all

text \<open>\<open>dll ns p as n\<close>: the addresses \<open>as\<close> form a doubly linked segment, entered from \<open>p\<close> and left to \<open>n\<close>.\<close>

fun dll :: "node list \<Rightarrow> nat option \<Rightarrow> nat list \<Rightarrow> nat option \<Rightarrow> bool" where
  "dll ns p [] n = True"
| "dll ns p (a # as) n =
     (a < length ns \<and> n_prev (ns ! a) = p
      \<and> n_next (ns ! a) = (if as = [] then n else hd_opt as) \<and> dll ns (Some a) as n)"

definition level_repr :: "node list \<Rightarrow> price_level \<Rightarrow> (string \<times> nat) list \<Rightarrow> bool" where
  "level_repr ns l xs \<longleftrightarrow>
     dll ns None (map snd xs) None \<and> lv_head l = hd_opt (map snd xs) \<and> lv_tail l = last_opt (map snd xs)
     \<and> lv_tracker l = map_of xs \<and> distinct (map fst xs) \<and> distinct (map snd xs)"

lemma dll_bound: "dll ns p as n \<Longrightarrow> a \<in> set as \<Longrightarrow> a < length ns"
  by (induction as arbitrary: p) auto

lemma dll_cong:
  "dll ns p as n \<Longrightarrow> length ns \<le> length ms \<Longrightarrow> (\<And>a. a \<in> set as \<Longrightarrow> ms ! a = ns ! a)
   \<Longrightarrow> dll ms p as n"
  by (induction as arbitrary: p) auto

lemma dll_append:
  "dll ns p (as @ bs) n \<longleftrightarrow>
     dll ns p as (if bs = [] then n else hd_opt bs) \<and>
     dll ns (if as = [] then p else last_opt as) bs n"
proof (induction as arbitrary: p)
  case (Cons a as)
  then show ?case by (auto simp: hd_opt_append last_opt_def)
qed simp

section \<open>The heap updates on a segment\<close>

lemma length_set [simp]:
  "length (set_next ns a v) = length ns" "length (set_prev ns a v) = length ns"
  by (simp_all add: set_next_def set_prev_def)

lemma nth_set_next [simp]:
  "b < length ns \<Longrightarrow> set_next ns a v ! b = (if a = b then (ns ! b)\<lparr> n_next := v \<rparr> else ns ! b)"
  by (simp add: set_next_def nth_list_update)

lemma nth_set_prev [simp]:
  "b < length ns \<Longrightarrow> set_prev ns a v ! b = (if a = b then (ns ! b)\<lparr> n_prev := v \<rparr> else ns ! b)"
  by (simp add: set_prev_def nth_list_update)

lemma dll_set_next_last:
  assumes "dll ns p (as @ [t]) n" and "t \<notin> set as"
  shows "dll (set_next ns t v) p (as @ [t]) v"
proof -
  have "dll ns p as (Some t)" "t < length ns" using assms(1) by (auto simp: dll_append)
  moreover have "\<And>a. a \<in> set as \<Longrightarrow> a < length ns" using assms(1) by (auto dest: dll_bound)
  ultimately have "dll (set_next ns t v) p as (Some t)"
    using assms(2) by (auto elim!: dll_cong[of ns])
  moreover have "n_prev (ns ! t) = (if as = [] then p else last_opt as)"
    using assms(1) by (simp add: dll_append)
  ultimately show ?thesis using \<open>t < length ns\<close> by (simp add: dll_append)
qed

lemma dll_set_prev_first:
  assumes "dll ns p (c # cs) n" and "c \<notin> set cs"
  shows "dll (set_prev ns c v) v (c # cs) n"
proof -
  have "dll ns (Some c) cs n" "c < length ns" using assms(1) by auto
  moreover have "\<And>a. a \<in> set cs \<Longrightarrow> a < length ns" using assms(1) by (auto dest: dll_bound)
  ultimately have "dll (set_prev ns c v) (Some c) cs n"
    using assms(2) by (auto elim!: dll_cong[of ns])
  moreover have "n_next (ns ! c) = (if cs = [] then n else hd_opt cs)" using assms(1) by simp
  ultimately show ?thesis using \<open>c < length ns\<close> by simp
qed

text \<open>
  What an operation on a level with the nodes \<open>A\<close> may change of the heap: no node loses its order, no
  node outside \<open>A\<close> changes, and the heap only grows.
\<close>

definition node_frame :: "node list \<Rightarrow> node list \<Rightarrow> nat set \<Rightarrow> bool" where
  "node_frame ns ms A \<longleftrightarrow>
     length ns \<le> length ms \<and>
     (\<forall>b < length ns. n_order (ms ! b) = n_order (ns ! b) \<and> (b \<notin> A \<longrightarrow> ms ! b = ns ! b))"

definition next_up :: "node list \<Rightarrow> bool" where
  "next_up ns \<longleftrightarrow> (\<forall>a < length ns. \<forall>b. n_next (ns ! a) = Some b \<longrightarrow> a < b \<and> b < length ns)"

lemma level_repr_bound: "level_repr ns l xs \<Longrightarrow> a \<in> snd ` set xs \<Longrightarrow> a < length ns"
  unfolding level_repr_def by (metis dll_bound list.set_map)

lemma level_repr_frame:
  assumes "level_repr ns l xs" and "node_frame ns ms A" and "A \<inter> snd ` set xs = {}"
  shows "level_repr ms l xs"
proof -
  have "dll ms None (map snd xs) None"
  proof (rule dll_cong)
    show "dll ns None (map snd xs) None" using assms(1) by (simp add: level_repr_def)
    show "length ns \<le> length ms" using assms(2) by (simp add: node_frame_def)
    fix a assume "a \<in> set (map snd xs)"
    then have "a < length ns" "a \<notin> A" using assms level_repr_bound[OF assms(1)] by auto
    then show "ms ! a = ns ! a" using assms(2) by (simp add: node_frame_def)
  qed
  then show ?thesis using assms(1) by (simp add: level_repr_def)
qed

lemma level_repr_new [simp]: "level_repr ns new_level []"
  by (simp add: level_repr_def new_level_def fun_eq_iff)

lemma level_repr_bool: "level_repr ns l xs \<Longrightarrow> level_bool l \<longleftrightarrow> xs \<noteq> []"
  by (auto simp: level_repr_def level_bool_def)

lemma level_repr_tracker:
  "level_repr ns l xs \<Longrightarrow> lv_tracker l i = Some a \<longleftrightarrow> (i, a) \<in> set xs"
  by (simp add: level_repr_def)

lemma level_repr_untracked:
  "level_repr ns l xs \<Longrightarrow> lv_tracker l i = None \<longleftrightarrow> i \<notin> fst ` set xs"
  by (simp add: level_repr_def map_of_eq_None_iff)

section \<open>Appending\<close>

lemma dll_extend:
  "dll ns p as n \<Longrightarrow> dll (ns @ [v]) p as n"
  by (rule dll_cong[of ns]) (auto simp: nth_append dest: dll_bound[of ns p as n])

lemma level_append_empty:
  assumes "level_repr ns l []"
  shows "level_append ns l i r =
           Inr (ns @ [\<lparr> n_order = r, n_prev = None, n_next = None \<rparr>],
                l\<lparr> lv_head := Some (length ns), lv_tail := Some (length ns),
                   lv_tracker := (lv_tracker l)(i \<mapsto> length ns) \<rparr>)"
  using assms by (simp add: level_repr_def level_append_def Let_def)

lemma level_append_nonempty:
  assumes "level_repr ns l (xs @ [(j, t)])" and "i \<notin> fst ` set (xs @ [(j, t)])"
  shows "level_append ns l i r =
           Inr (set_prev (set_next (ns @ [\<lparr> n_order = r, n_prev = None, n_next = None \<rparr>]) t (Some (length ns)))
                  (length ns) (Some t),
                l\<lparr> lv_tail := Some (length ns), lv_tracker := (lv_tracker l)(i \<mapsto> length ns) \<rparr>)"
proof -
  have "lv_tracker l i = None" using assms by (simp add: level_repr_untracked)
  moreover have "lv_head l \<noteq> None" "lv_tail l = Some t"
    using assms(1) by (auto simp: level_repr_def hd_opt_append)
  ultimately show ?thesis by (auto simp: level_append_def Let_def)
qed

lemma map_of_snoc: "i \<notin> fst ` set xs \<Longrightarrow> map_of (xs @ [(i, a)]) = (map_of xs)(i \<mapsto> a)"
  by (induction xs) (auto simp: fun_eq_iff)

lemma level_append_refines:
  assumes R: "level_repr ns l xs" and new: "i \<notin> fst ` set xs"
  shows "\<exists>ms k. level_append ns l i r = Inr (ms, k) \<and> level_repr ms k (xs @ [(i, length ns)])
           \<and> node_frame ns ms (snd ` set xs) \<and> length ms = Suc (length ns) \<and> n_order (ms ! length ns) = r"
proof (cases xs rule: rev_cases)
  case Nil
  let ?ms = "ns @ [\<lparr> n_order = r, n_prev = None, n_next = None \<rparr>]"
  have "node_frame ns ?ms (snd ` set xs)" by (simp add: node_frame_def nth_append)
  then show ?thesis
    using R Nil by (simp add: level_append_empty) (simp add: level_repr_def)
next
  case (snoc ys jt)
  obtain j t where jt: "jt = (j, t)" by fastforce
  let ?a = "length ns"
  let ?n1 = "ns @ [\<lparr> n_order = r, n_prev = None, n_next = None \<rparr>]"
  let ?n2 = "set_next ?n1 t (Some ?a)"
  let ?n3 = "set_prev ?n2 ?a (Some t)"
  have R': "level_repr ns l (ys @ [(j, t)])" using R snoc jt by simp
  then have seg: "dll ns None (map snd ys @ [t]) None" and t: "t < ?a" "t \<notin> set (map snd ys)"
    using level_repr_bound[OF R', of t] by (auto simp: level_repr_def)
  have "dll ?n2 None (map snd ys @ [t]) (Some ?a)"
    by (rule dll_set_next_last[OF dll_extend[OF seg] t(2)])
  then have "dll ?n3 None (map snd ys @ [t]) (Some ?a)"
  proof (rule dll_cong)
    fix b assume "b \<in> set (map snd ys @ [t])"
    then have "b < ?a" by (rule dll_bound[OF seg])
    then show "?n3 ! b = ?n2 ! b" by simp
  qed simp
  moreover have "dll ?n3 (Some t) [?a] None" using t by simp
  ultimately have "dll ?n3 None (map snd (xs @ [(i, ?a)])) None"
    using snoc jt dll_append[of ?n3 None "map snd ys @ [t]" "[?a]" None] by simp
  moreover have "?a \<notin> snd ` set xs" using level_repr_bound[OF R] by blast
  moreover have "node_frame ns ?n3 (snd ` set xs)"
    using t snoc jt by (auto simp: node_frame_def nth_append)
  moreover have "hd_opt (map snd (xs @ [(i, ?a)])) = lv_head l"
    using R snoc by (simp add: level_repr_def hd_opt_append)
  moreover have "map_of (xs @ [(i, ?a)]) = (lv_tracker l)(i \<mapsto> ?a)"
    using R new map_of_snoc[of i xs ?a] unfolding level_repr_def by metis
  ultimately have "level_repr ?n3 (l\<lparr> lv_tail := Some ?a, lv_tracker := (lv_tracker l)(i \<mapsto> ?a) \<rparr>)
                     (xs @ [(i, ?a)])" and "node_frame ns ?n3 (snd ` set xs)"
    using R new by (simp_all add: level_repr_def)
  moreover have "n_order (?n3 ! ?a) = r" using t by simp
  ultimately show ?thesis
    using level_append_nonempty[OF R'] new snoc jt by auto
qed

section \<open>Removing\<close>

text \<open>The heap that \<open>remove\<close> leaves behind, for a node \<open>a\<close> between \<open>p\<close> and \<open>n\<close>.\<close>

definition unlink :: "node list \<Rightarrow> nat option \<Rightarrow> nat option \<Rightarrow> node list" where
  "unlink ns p n =
     (let ns1 = (case p of None \<Rightarrow> ns | Some b \<Rightarrow> set_next ns b n)
      in case n of None \<Rightarrow> ns1 | Some c \<Rightarrow> set_prev ns1 c p)"

lemma length_unlink [simp]: "length (unlink ns p n) = length ns"
  by (simp add: unlink_def Let_def split: option.splits)

lemma nth_unlink:
  "a < length ns \<Longrightarrow> unlink ns p n ! a =
     (if n = Some a
      then (if p = Some a then (ns ! a)\<lparr> n_next := n \<rparr> else ns ! a)\<lparr> n_prev := p \<rparr>
      else if p = Some a then (ns ! a)\<lparr> n_next := n \<rparr> else ns ! a)"
  by (auto simp: unlink_def split: option.splits)

lemma unlink_other:
  "a < length ns \<Longrightarrow> p \<noteq> Some a \<Longrightarrow> n \<noteq> Some a \<Longrightarrow> unlink ns p n ! a = ns ! a"
  by (simp add: nth_unlink)

lemma dll_unlink_left:
  assumes "dll ns p as (Some a)" and "n \<notin> Some ` set as" and "distinct as"
  shows "dll (unlink ns (last_opt as) n) p as n"
proof (cases as rule: rev_cases)
  case Nil
  then show ?thesis by simp
next
  case (snoc bs t)
  have "dll (set_next ns t n) p (bs @ [t]) n"
    using assms snoc by (intro dll_set_next_last) auto
  then show ?thesis
    unfolding snoc
  proof (rule dll_cong)
    fix b assume b: "b \<in> set (bs @ [t])"
    then have "b < length ns" using dll_bound[OF assms(1)] snoc by simp
    moreover have "n \<noteq> Some b" using b assms(2) snoc by auto
    ultimately show "unlink ns (last_opt (bs @ [t])) n ! b = set_next ns t n ! b"
      by (simp add: nth_unlink)
  qed simp
qed

lemma dll_unlink_right:
  assumes "dll ns (Some a) as q" and "p \<notin> Some ` set as" and "distinct as"
  shows "dll (unlink ns p (hd_opt as)) p as q"
proof (cases as)
  case Nil
  then show ?thesis by simp
next
  case (Cons c cs)
  have "dll (set_prev ns c p) p (c # cs) q"
    using assms Cons by (intro dll_set_prev_first) auto
  then show ?thesis
    unfolding Cons
  proof (rule dll_cong)
    fix b assume b: "b \<in> set (c # cs)"
    then have "b < length ns" using dll_bound[OF assms(1)] Cons by simp
    moreover have "p \<noteq> Some b" using b assms(2) Cons by auto
    ultimately show "unlink ns p (hd_opt (c # cs)) ! b = set_prev ns c p ! b"
      by (simp add: nth_unlink)
  qed simp
qed

lemma last_opt_in: "last_opt xs = Some x \<Longrightarrow> x \<in> set xs"
  by (auto simp: last_opt_def split: if_splits)

lemma hd_opt_in: "hd_opt xs = Some x \<Longrightarrow> x \<in> set xs"
  by (cases xs) auto

lemma dll_unlink:
  assumes "dll ns None (as @ a # bs) None" and "distinct (as @ a # bs)"
  shows "dll (unlink ns (last_opt as) (hd_opt bs)) None (as @ bs) None"
proof -
  have "dll ns None as (Some a)" "dll ns (Some a) bs None"
    using assms(1) by (auto simp: dll_append)
  then have "dll (unlink ns (last_opt as) (hd_opt bs)) None as (hd_opt bs)"
            "dll (unlink ns (last_opt as) (hd_opt bs)) (last_opt as) bs None"
    using assms(2) by (auto intro!: dll_unlink_left dll_unlink_right dest: last_opt_in hd_opt_in)
  then show ?thesis by (cases "bs = []"; cases "as = []") (auto simp: dll_append)
qed

lemma dll_middle:
  assumes "dll ns None (as @ a # bs) None"
  shows "a < length ns \<and> n_prev (ns ! a) = last_opt as \<and> n_next (ns ! a) = hd_opt bs"
  using assms by (cases "as = []") (auto simp: dll_append)

lemma level_remove_eq:
  assumes "lv_tracker l i = Some a" "a < length ns" "n_prev (ns ! a) = p" "n_next (ns ! a) = n"
    and "p \<noteq> Some a" "n \<noteq> Some a"
  shows "level_remove ns l i =
           Inr (unlink ns p n,
                l\<lparr> lv_head := (if lv_head l = Some a then n else lv_head l),
                   lv_tail := (if lv_tail l = Some a then p else lv_tail l),
                   lv_tracker := (lv_tracker l)(i := None) \<rparr>)"
  using assms by (cases p; cases n) (auto simp: level_remove_def unlink_def Let_def)

lemma level_remove_unlink:
  assumes R: "level_repr ns l (xs @ (i, a) # ys)"
  defines "as \<equiv> map snd xs" and "bs \<equiv> map snd ys"
  shows "\<exists>k. level_remove ns l i = Inr (unlink ns (last_opt as) (hd_opt bs), k)
           \<and> lv_head k = hd_opt (as @ bs) \<and> lv_tail k = last_opt (as @ bs)
           \<and> lv_tracker k = (lv_tracker l)(i := None)"
proof -
  have seg: "dll ns None (as @ a # bs) None" and di: "distinct (as @ a # bs)"
    and hd: "lv_head l = hd_opt (as @ [a])" and tl: "lv_tail l = last_opt (a # bs)"
    using R by (auto simp: level_repr_def as_def bs_def hd_opt_append last_opt_append)
  have tr: "lv_tracker l i = Some a" using R by (simp add: level_repr_tracker)
  note mid = dll_middle[OF seg]
  have ne: "last_opt as \<noteq> Some a" "hd_opt bs \<noteq> Some a"
    using di by (auto dest: last_opt_in hd_opt_in)
  have "lv_head l = Some a \<longleftrightarrow> as = []"
    using hd di by (cases as) auto
  moreover have "lv_tail l = Some a \<longleftrightarrow> bs = []"
    using tl di by (cases bs rule: rev_cases) (auto simp: last_opt_def)
  ultimately show ?thesis
    using level_remove_eq[OF tr _ _ _ ne] mid hd tl
    by (auto simp: hd_opt_append last_opt_append last_opt_def)
qed

lemma dict_pop_mid:
  assumes "distinct (map fst (xs @ (i, a) # ys))"
  shows "dict_pop (xs @ (i, a) # ys) i = xs @ ys"
proof -
  have "filter (\<lambda>kv. fst kv \<noteq> i) xs = xs" "filter (\<lambda>kv. fst kv \<noteq> i) ys = ys"
    using assms by (auto intro!: filter_True)
  then show ?thesis by (simp add: dict_pop_def)
qed

lemma level_remove_refines:
  assumes R: "level_repr ns l xs" and i: "i \<in> fst ` set xs"
  shows "\<exists>ms k. level_remove ns l i = Inr (ms, k) \<and> level_repr ms k (dict_pop xs i)
           \<and> node_frame ns ms (snd ` set xs) \<and> length ms = length ns"
proof -
  obtain ys a zs where xs: "xs = ys @ (i, a) # zs"
    using i by (metis (no_types) imageE split_list prod.collapse)
  have di: "distinct (map fst (ys @ (i, a) # zs))" "distinct (map snd (ys @ (i, a) # zs))"
    and tr: "lv_tracker l = map_of (ys @ (i, a) # zs)"
    using R xs by (auto simp: level_repr_def)
  let ?p = "last_opt (map snd ys)" and ?n = "hd_opt (map snd zs)"
  have "dll (unlink ns ?p ?n) None (map snd ys @ map snd zs) None"
    using R xs by (intro dll_unlink) (auto simp: level_repr_def)
  moreover obtain k where "level_remove ns l i = Inr (unlink ns ?p ?n, k)"
      "lv_head k = hd_opt (map snd ys @ map snd zs)" "lv_tail k = last_opt (map snd ys @ map snd zs)"
      "lv_tracker k = (lv_tracker l)(i := None)"
    using level_remove_unlink R xs by metis
  moreover have "node_frame ns (unlink ns ?p ?n) (snd ` set xs)"
  proof -
    have "?p = Some b \<Longrightarrow> b \<in> snd ` set xs" "?n = Some b \<Longrightarrow> b \<in> snd ` set xs" for b
      using last_opt_in[of "map snd ys" b] hd_opt_in[of "map snd zs" b] by (auto simp: xs)
    then show ?thesis
      unfolding node_frame_def using unlink_other[of _ ns ?p ?n] by (auto simp: nth_unlink)
  qed
  moreover have "map_of (ys @ zs) = (lv_tracker l)(i := None)"
    using tr map_of_dict_pop[of xs i] dict_pop_mid[OF di(1)] by (simp add: xs)
  ultimately show ?thesis
    using di by (auto simp: xs level_repr_def dict_pop_mid[OF di(1)])
qed

lemma level_remove_unknown:
  "level_repr ns l xs \<Longrightarrow> i \<notin> fst ` set xs \<Longrightarrow> level_remove ns l i = Inl KeyError"
  by (simp add: level_remove_def level_repr_untracked[symmetric])

lemma level_append_duplicate:
  "level_repr ns l xs \<Longrightarrow> i \<in> fst ` set xs \<Longrightarrow> level_append ns l i r = Inl ValueError"
  using level_repr_untracked[of ns l xs i] by (simp add: level_append_def)

section \<open>Walking\<close>

lemma walk_dll: "dll ns p as None \<Longrightarrow> length as \<le> k \<Longrightarrow> walk k ns (hd_opt as) = as"
proof (induction as arbitrary: p k)
  case Nil
  then show ?case by (cases k) auto
next
  case (Cons a as)
  then obtain k' where "k = Suc k'" by (cases k) auto
  with Cons show ?case by (cases "as = []") auto
qed

text \<open>The heap has one node per live entry, so its size is enough fuel for the walk.\<close>

lemma level_walk:
  assumes "level_repr ns l xs"
  shows "walk (length ns) ns (lv_head l) = map snd xs"
proof -
  have "set (map snd xs) \<subseteq> {..<length ns}" using level_repr_bound[OF assms] by auto
  then have "length (map snd xs) \<le> length ns"
    using assms card_mono[of "{..<length ns}" "set (map snd xs)"] distinct_card[of "map snd xs"]
    by (simp add: level_repr_def)
  then show ?thesis using assms walk_dll unfolding level_repr_def by metis
qed

section \<open>Addresses grow along \<open>next\<close>\<close>

lemma next_up_Nil [simp]: "next_up []"
  by (simp add: next_up_def)

lemma next_up_D: "next_up ns \<Longrightarrow> a < length ns \<Longrightarrow> n_next (ns ! a) = Some b \<Longrightarrow> a < b \<and> b < length ns"
  unfolding next_up_def by blast

lemma next_up_I:
  "(\<And>a b. a < length ns \<Longrightarrow> n_next (ns ! a) = Some b \<Longrightarrow> a < b \<and> b < length ns) \<Longrightarrow> next_up ns"
  unfolding next_up_def by blast

lemma next_up_snoc: "next_up ns \<Longrightarrow> next_up (ns @ [\<lparr> n_order = r, n_prev = p, n_next = None \<rparr>])"
proof (rule next_up_I)
  fix a b
  let ?ms = "ns @ [\<lparr> n_order = r, n_prev = p, n_next = None \<rparr>]"
  assume up: "next_up ns" and a: "a < length ?ms" and n: "n_next (?ms ! a) = Some b"
  then have "a < length ns" "n_next (ns ! a) = Some b" by (auto simp: nth_append less_Suc_eq)
  from next_up_D[OF up this] show "a < b \<and> b < length ?ms" by simp
qed

lemma next_up_set_prev: "next_up ns \<Longrightarrow> next_up (set_prev ns c v)"
proof (rule next_up_I, unfold length_set)
  fix a b assume up: "next_up ns" and a: "a < length ns" and n: "n_next (set_prev ns c v ! a) = Some b"
  then have "n_next (ns ! a) = Some b" by (simp split: if_splits)
  then show "a < b \<and> b < length ns" using next_up_D[OF up a] by blast
qed

lemma next_up_set_next:
  assumes up: "next_up ns" and v: "\<And>b. v = Some b \<Longrightarrow> c < b \<and> b < length ns"
  shows "next_up (set_next ns c v)"
proof (rule next_up_I, unfold length_set)
  fix a b assume a: "a < length ns" and n: "n_next (set_next ns c v ! a) = Some b"
  show "a < b \<and> b < length ns"
  proof (cases "a = c")
    case True
    then show ?thesis using a n v by simp
  next
    case False
    then have "n_next (ns ! a) = Some b" using a n by simp
    then show ?thesis using next_up_D[OF up a] by blast
  qed
qed

lemma next_up_append:
  assumes "level_repr ns l xs" and "next_up ns" and "level_append ns l i r = Inr (ms, k)"
  shows "next_up ms"
proof (cases xs rule: rev_cases)
  case Nil
  then have "ms = ns @ [\<lparr> n_order = r, n_prev = None, n_next = None \<rparr>]"
    using assms level_append_empty[of ns l i r] by simp
  then show ?thesis
    using next_up_snoc[OF assms(2)] by simp
next
  case (snoc ys jt)
  obtain j t where jt: "jt = (j, t)" by fastforce
  have new: "i \<notin> fst ` set xs" using assms level_append_duplicate by fastforce
  have t: "t < length ns" using level_repr_bound[OF assms(1), of t] snoc jt by simp
  have "ms = set_prev (set_next (ns @ [\<lparr> n_order = r, n_prev = None, n_next = None \<rparr>]) t (Some (length ns)))
               (length ns) (Some t)"
    using level_append_nonempty[of ns l ys j t i r] assms snoc jt new by simp
  then show ?thesis
    using t by (auto intro!: next_up_set_prev next_up_set_next next_up_snoc assms(2))
qed

lemma next_up_remove:
  assumes R: "level_repr ns l xs" and up: "next_up ns" and rm: "level_remove ns l i = Inr (ms, k)"
  shows "next_up ms"
proof -
  have "i \<in> fst ` set xs" using level_remove_unknown[OF R] rm by fastforce
  then obtain ys a zs where xs: "xs = ys @ (i, a) # zs"
    by (metis (no_types) imageE split_list prod.collapse)
  let ?as = "map snd ys" and ?bs = "map snd zs"
  have ms: "ms = unlink ns (last_opt ?as) (hd_opt ?bs)"
    using level_remove_unlink[of ns l ys i a zs] R rm xs by auto
  have seg: "dll ns None (?as @ a # ?bs) None" using R xs by (simp add: level_repr_def)
  have up2: "b < c \<and> c < length ns" if p: "last_opt ?as = Some b" and n: "hd_opt ?bs = Some c" for b c
  proof -
    have "b < length ns" "n_next (ns ! b) = Some a"
    proof -
      have "?as = butlast ?as @ [b]"
        using p append_butlast_last_id[of ?as] unfolding last_opt_def by (metis option.distinct(1) option.inject)
      then have "dll ns None (butlast ?as @ b # a # ?bs) None" using seg by (metis append.assoc append_Cons append_Nil)
      from dll_middle[OF this] show "b < length ns" "n_next (ns ! b) = Some a" by simp_all
    qed
    then have "b < a" using next_up_D[OF up] by blast
    moreover have "a < c \<and> c < length ns" using dll_middle[OF seg] n next_up_D[OF up, of a c] by simp
    ultimately show ?thesis by simp
  qed
  have "next_up (case last_opt ?as of None \<Rightarrow> ns | Some b \<Rightarrow> set_next ns b (hd_opt ?bs))"
    using up up2 by (auto split: option.split intro: next_up_set_next)
  then show ?thesis
    unfolding ms unlink_def by (auto simp: Let_def split: option.split intro: next_up_set_prev)
qed

section \<open>What the two operations promise\<close>

text \<open>
  Appending an order to a level that represents a queue either raises ValueError, exactly when the
  order id is already queued, or puts the order at the end of the queue: the new heap represents the
  longer queue, the new node holds the order, and no node of another level has changed.
\<close>

theorem level_append_correct:
  assumes "level_repr ns l xs"
  shows "case level_append ns l i r of
           Inl e \<Rightarrow> e = ValueError \<and> i \<in> fst ` set xs
         | Inr (ms, k) \<Rightarrow> i \<notin> fst ` set xs \<and> level_repr ms k (xs @ [(i, length ns)])
             \<and> n_order (ms ! length ns) = r \<and> node_frame ns ms (snd ` set xs)"
  using level_append_refines[OF assms, of i r] level_append_duplicate[OF assms, of i r]
  by (cases "i \<in> fst ` set xs") auto

definition two_nodes :: "node list" where
  "two_nodes = [\<lparr> n_order = 7, n_prev = None, n_next = Some 1 \<rparr>, \<lparr> n_order = 8, n_prev = Some 0, n_next = None \<rparr>]"

definition two_level :: price_level where
  "two_level = \<lparr> lv_head = Some 0, lv_tail = Some 1, lv_tracker = [''a'' \<mapsto> 0, ''b'' \<mapsto> 1] \<rparr>"

lemma two_level_repr: "level_repr two_nodes two_level [(''a'', 0), (''b'', 1)]"
  by (simp add: level_repr_def two_nodes_def two_level_def fun_eq_iff last_opt_def)

theorem level_append_correct_witness:
  "\<exists>ms k. level_append two_nodes two_level ''c'' 9 = Inr (ms, k)
     \<and> level_repr ms k [(''a'', 0), (''b'', 1), (''c'', 2)] \<and> n_order (ms ! 2) = 9"
  using level_append_correct[OF two_level_repr, of "''c''" 9]
  by (auto simp: two_nodes_def two_level_def level_append_def Let_def numeral_2_eq_2 split: sum.splits)

text \<open>
  Removing an order from a level that represents a queue either raises KeyError, exactly when the
  order id is not queued, or takes the order out of the queue and leaves the other orders in their
  order: the pointers around the removed node, the head, the tail and the tracker agree with the
  shorter queue, and no node of another level has changed.
\<close>

theorem level_remove_correct:
  assumes "level_repr ns l xs"
  shows "case level_remove ns l i of
           Inl e \<Rightarrow> e = KeyError \<and> i \<notin> fst ` set xs
         | Inr (ms, k) \<Rightarrow> i \<in> fst ` set xs \<and> level_repr ms k (filter (\<lambda>e. fst e \<noteq> i) xs)
             \<and> node_frame ns ms (snd ` set xs) \<and> length ms = length ns"
proof (cases "i \<in> fst ` set xs")
  case True
  then obtain ms k where "level_remove ns l i = Inr (ms, k)" "level_repr ms k (dict_pop xs i)"
      "node_frame ns ms (snd ` set xs)" "length ms = length ns"
    using level_remove_refines[OF assms] by blast
  then show ?thesis using True by (simp add: dict_pop_def)
next
  case False
  then show ?thesis using level_remove_unknown[OF assms] by simp
qed

theorem level_remove_correct_witness:
  "\<exists>ms k. level_remove two_nodes two_level ''a'' = Inr (ms, k) \<and> level_repr ms k [(''b'', 1)]"
  using level_remove_correct[OF two_level_repr, of "''a''"]
  by (auto simp: two_nodes_def two_level_def level_remove_def Let_def split: sum.splits)

end
