(* ===== verification/Engine_Types.thy ===== *)
theory Engine_Types imports Prelude begin

text \<open>
  \<open>engine/enums.py\<close>, \<open>engine/types.py\<close> and \<open>engine/commands.py\<close>: the enumerations, the result of a
  match and the commands the engine receives. A string enumeration is a datatype together with the
  string its members have; a command is the dictionary form that arrives from the message queue,
  with one constructor per command class.
\<close>

section \<open>Enumerations\<close>

datatype side = BID | ASK

datatype order_type = MARKET | LIMIT | STOP

datatype strategy_type = SINGLE | OCO | OTO | OTOCO

datatype liquidity_role = MAKER | TAKER

datatype order_status = PENDING | PLACED | PARTIALLY_FILLED | FILLED | CANCELLED

datatype instrument_status = DEAD | ALIVE

datatype command_type = NEW_ORDER | CANCEL_ORDER | MODIFY_ORDER | NEW_INSTRUMENT

datatype match_outcome = FAILURE | PARTIAL | SUCCESS | INSUFFICIENT_BALANCE

datatype event_category = ORDER_CAT | BALANCE_CAT | COMMAND_CAT | TRADE_CAT

fun opposite :: "side \<Rightarrow> side" where
  "opposite BID = ASK"
| "opposite ASK = BID"

lemma opposite_opposite [simp]: "opposite (opposite sd) = sd"
  by (cases sd) simp_all

lemma side_neq [simp]: "sd \<noteq> BID \<longleftrightarrow> sd = ASK" "sd \<noteq> ASK \<longleftrightarrow> sd = BID"
  by (cases sd; simp)+

section \<open>Time frames\<close>

datatype time_frame = M1 | M5 | M15 | H1 | H4 | D1

fun time_frame_value :: "time_frame \<Rightarrow> string" where
  "time_frame_value M1 = ''1m''"
| "time_frame_value M5 = ''5m''"
| "time_frame_value M15 = ''15m''"
| "time_frame_value H1 = ''1h''"
| "time_frame_value H4 = ''4h''"
| "time_frame_value D1 = ''1d''"

text \<open>\<open>int(s)\<close> on a string of decimal digits; anything else raises.\<close>

fun parse_digits :: "nat \<Rightarrow> string \<Rightarrow> exn + nat" where
  "parse_digits acc [] = Inr acc"
| "parse_digits acc (c # cs) =
     (let v = (of_char c :: nat)
      in if 48 \<le> v \<and> v \<le> 57 then parse_digits (10 * acc + (v - 48)) cs else Inl ValueError)"

definition parse_int :: "string \<Rightarrow> exn + nat" where
  "parse_int s = (if s = [] then Inl ValueError else parse_digits 0 s)"

definition get_seconds :: "time_frame \<Rightarrow> exn + nat" where
  "get_seconds tf =
     (let unit = last (time_frame_value tf)
      in case parse_int (butlast (time_frame_value tf)) of
           Inl e \<Rightarrow> Inl e
         | Inr amount \<Rightarrow>
             if unit = CHR ''m'' then Inr (amount * 60)
             else if unit = CHR ''h'' then Inr (amount * 3600)
             else if unit = CHR ''d'' then Inr (amount * 86400)
             else Inl ValueError)"

text \<open>The interval string: the amount prints back to the digits it was read from.\<close>

definition to_interval :: "time_frame \<Rightarrow> exn + nat \<times> string" where
  "to_interval tf =
     (let unit = last (time_frame_value tf)
      in case parse_int (butlast (time_frame_value tf)) of
           Inl e \<Rightarrow> Inl e
         | Inr amount \<Rightarrow>
             if unit = CHR ''m'' then Inr (amount, ''minute'')
             else if unit = CHR ''h'' then Inr (amount, ''hour'')
             else if unit = CHR ''d'' then Inr (amount, ''day'')
             else Inl ValueError)"

definition unit_seconds :: "string \<Rightarrow> nat" where
  "unit_seconds u = (if u = ''minute'' then 60 else if u = ''hour'' then 3600 else 86400)"

lemma get_seconds_total:
  "\<exists>n u. to_interval tf = Inr (n, u) \<and> 0 < n \<and> get_seconds tf = Inr (n * unit_seconds u)"
  by (cases tf)
     (simp_all add: get_seconds_def to_interval_def parse_int_def unit_seconds_def Let_def)

section \<open>Results and commands\<close>

record match_result =
  mr_outcome :: match_outcome
  mr_quantity :: rat
  mr_price :: "rat option"

text \<open>
  The order dictionary a command carries. \<open>executed_quantity\<close> may be missing, which is \<open>None\<close>.
\<close>

record order_dict =
  od_order_id :: string
  od_user_id :: string
  od_symbol :: string
  od_side :: side
  od_order_type :: order_type
  od_quantity :: rat
  od_limit_price :: "rat option"
  od_stop_price :: "rat option"
  od_status :: string
  od_strategy_type :: strategy_type
  od_executed_quantity :: "rat option"
  od_avg_fill_price :: "rat option"

datatype new_order =
    NewSingle (ns_order: order_dict)
  | NewOCO (no_legs: "order_dict list")
  | NewOTO (nt_parent: order_dict) (nt_child: order_dict)
  | NewOTOCO (nc_parent: order_dict) (nc_legs: "order_dict list")

datatype command_body =
    NewOrderCommand (new_strategy: strategy_type) (new_body: new_order)
  | CancelOrderCommand (cancel_id: string)
  | ModifyOrderCommand (modify_id: string) (modify_limit: "rat option") (modify_stop: "rat option")
  | NewInstrumentCommand

record command =
  cmd_id :: string
  cmd_body :: command_body

end
