(* ===== verification/Order_Book.thy ===== *)
theory Order_Book imports Sorted_Dict Price_Level Engine_Types begin

text \<open>
  \<open>engine/orderbook/orderbook.py\<close> and the crossing tests of \<open>engine/utils.py\<close>. The two sides of the
  book are sorted dictionaries from prices to levels (the parameter \<open>d\<close> of every operation is the
  sorted-dictionary interface); the best bid and ask are cached next to them; the heap of list nodes
  is part of the book. An order is passed as the three things the book uses of it: its id, its side
  and the address of the order object. Both updates return what the code leaves behind when it
  raises: \<open>append\<close> has already written the best price and created the level by then.

  \<open>book_repr\<close> relates a book to an abstract one, which maps a side and a price to the queue resting
  there, and includes the invariants the code maintains: no empty level, cached best prices, the
  levels' nodes are disjoint. Inside the locale \<open>sorted_dict\<close> every update is shown to implement its
  abstract counterpart.
\<close>

section \<open>The book\<close>

record 'm orderbook =
  ob_bids :: "'m"
  ob_asks :: "'m"
  ob_best_bid :: "rat option"
  ob_best_ask :: "rat option"
  ob_starting_price :: rat
  ob_cur_price :: rat
  ob_nodes :: "node list"

type_synonym 'm levels = "('m, price_level) sdict"

definition new_orderbook :: "'m levels \<Rightarrow> rat \<Rightarrow> 'm orderbook" where
  "new_orderbook d p =
     \<lparr> ob_bids = sd_empty d, ob_asks = sd_empty d, ob_best_bid = None, ob_best_ask = None,
       ob_starting_price = p, ob_cur_price = round2 p, ob_nodes = [] \<rparr>"

definition side_levels :: "'m orderbook \<Rightarrow> side \<Rightarrow> 'm" where
  "side_levels ob sd = (case sd of BID \<Rightarrow> ob_bids ob | ASK \<Rightarrow> ob_asks ob)"

definition put_levels :: "side \<Rightarrow> 'm \<Rightarrow> 'm orderbook \<Rightarrow> 'm orderbook" where
  "put_levels sd m ob = (case sd of BID \<Rightarrow> ob\<lparr> ob_bids := m \<rparr> | ASK \<Rightarrow> ob\<lparr> ob_asks := m \<rparr>)"

definition best_price :: "'m orderbook \<Rightarrow> side \<Rightarrow> rat option" where
  "best_price ob sd = (case sd of BID \<Rightarrow> ob_best_bid ob | ASK \<Rightarrow> ob_best_ask ob)"

definition put_best :: "side \<Rightarrow> rat option \<Rightarrow> 'm orderbook \<Rightarrow> 'm orderbook" where
  "put_best sd b ob = (case sd of BID \<Rightarrow> ob\<lparr> ob_best_bid := b \<rparr> | ASK \<Rightarrow> ob\<lparr> ob_best_ask := b \<rparr>)"

definition better :: "side \<Rightarrow> rat \<Rightarrow> rat \<Rightarrow> bool" where
  "better sd p q = (case sd of BID \<Rightarrow> q < p | ASK \<Rightarrow> p < q)"

text \<open>\<open>append\<close>: a price that is no number raises before anything is written.\<close>

definition ob_append ::
    "'m levels \<Rightarrow> 'm orderbook \<Rightarrow> string \<Rightarrow> side \<Rightarrow> nat \<Rightarrow> rat option \<Rightarrow> (exn + unit) \<times> 'm orderbook" where
  "ob_append d ob i sd r price =
     (case price of
        None \<Rightarrow> (Inl ValueError, ob)
      | Some p \<Rightarrow>
          let ob1 = (case best_price ob sd of
                       None \<Rightarrow> put_best sd (Some p) ob
                     | Some b \<Rightarrow> if better sd p b then put_best sd (Some p) ob else ob);
              lv = (case sd_lookup d (side_levels ob sd) p of None \<Rightarrow> new_level | Some l \<Rightarrow> l)
          in case level_append (ob_nodes ob) lv i r of
               Inl e \<Rightarrow> (Inl e, put_levels sd (sd_store d (side_levels ob sd) p lv) ob1)
             | Inr (ns, l) \<Rightarrow>
                 (Inr (), (put_levels sd (sd_store d (side_levels ob sd) p l) ob1)\<lparr> ob_nodes := ns \<rparr>))"

text \<open>
  \<open>remove\<close>: the best price moves to the neighbour of the emptied level, read before the level is
  popped.
\<close>

definition next_best :: "'m levels \<Rightarrow> 'm \<Rightarrow> side \<Rightarrow> rat \<Rightarrow> rat option \<Rightarrow> exn + rat option" where
  "next_best d m sd p cur =
     (let first = (case sd of BID \<Rightarrow> -1 | ASK \<Rightarrow> 0); second = (case sd of BID \<Rightarrow> -2 | ASK \<Rightarrow> 1)
      in case peekitem d m first of
           Inl e \<Rightarrow> Inl e
         | Inr (k, _) \<Rightarrow>
             if p = k
             then if 2 \<le> sd_len d m
                  then (case peekitem d m second of Inl e \<Rightarrow> Inl e | Inr (k', _) \<Rightarrow> Inr (Some k'))
                  else Inr None
             else Inr cur)"

definition ob_remove ::
    "'m levels \<Rightarrow> 'm orderbook \<Rightarrow> string \<Rightarrow> side \<Rightarrow> rat option \<Rightarrow> (exn + unit) \<times> 'm orderbook" where
  "ob_remove d ob i sd price =
     (case price of
        None \<Rightarrow> (Inr (), ob)
      | Some p \<Rightarrow>
          (case sd_lookup d (side_levels ob sd) p of
             None \<Rightarrow> (Inr (), ob)
           | Some lv \<Rightarrow>
               (case level_remove (ob_nodes ob) lv i of
                  Inl e \<Rightarrow> (Inl e, ob)
                | Inr (ns, l) \<Rightarrow>
                    let m = sd_store d (side_levels ob sd) p l;
                        ob1 = (put_levels sd m ob)\<lparr> ob_nodes := ns \<rparr>
                    in if level_bool l then (Inr (), ob1)
                       else (case next_best d m sd p (best_price ob sd) of
                               Inl e \<Rightarrow> (Inl e, ob1)
                             | Inr b \<Rightarrow> (Inr (), put_levels sd (sd_pop d m p) (put_best sd b ob1))))))"

definition set_price :: "rat \<Rightarrow> 'm orderbook \<Rightarrow> 'm orderbook" where
  "set_price p ob = ob\<lparr> ob_cur_price := round2 p \<rparr>"

text \<open>
  \<open>get_orders\<close> is a generator. Its first node is looked up when the loop starts, and the \<open>next\<close> of a
  node is read when the loop body for that node is over, in the book of that moment. \<open>get_orders\<close>
  is what it yields when nothing changes the book in between.
\<close>

definition orders_start :: "'m levels \<Rightarrow> 'm orderbook \<Rightarrow> rat \<Rightarrow> side \<Rightarrow> nat option" where
  "orders_start d ob p sd =
     (case sd_lookup d (side_levels ob sd) p of None \<Rightarrow> None | Some l \<Rightarrow> lv_head l)"

definition orders_next :: "'m orderbook \<Rightarrow> nat \<Rightarrow> nat option" where
  "orders_next ob a = n_next (ob_nodes ob ! a)"

definition get_orders :: "'m levels \<Rightarrow> 'm orderbook \<Rightarrow> rat \<Rightarrow> side \<Rightarrow> nat list" where
  "get_orders d ob p sd =
     map (\<lambda>a. n_order (ob_nodes ob ! a)) (walk (length (ob_nodes ob)) (ob_nodes ob) (orders_start d ob p sd))"

section \<open>Crossing\<close>

text \<open>Comparing a missing price with a number raises \<open>TypeError\<close>; nothing is compared on an empty side.\<close>

definition limit_crossable :: "rat option \<Rightarrow> side \<Rightarrow> 'm orderbook \<Rightarrow> exn + bool" where
  "limit_crossable price sd ob =
     (case best_price ob (opposite sd) of
        None \<Rightarrow> Inr False
      | Some b \<Rightarrow>
          (case price of None \<Rightarrow> Inl TypeError
                       | Some p \<Rightarrow> Inr (case sd of BID \<Rightarrow> b \<le> p | ASK \<Rightarrow> p \<le> b)))"

definition stop_crossable :: "rat option \<Rightarrow> side \<Rightarrow> 'm orderbook \<Rightarrow> exn + bool" where
  "stop_crossable price sd ob =
     (case best_price ob (opposite sd) of
        None \<Rightarrow> Inr False
      | Some b \<Rightarrow>
          (case price of None \<Rightarrow> Inl TypeError
                       | Some p \<Rightarrow> Inr (case sd of BID \<Rightarrow> p \<le> b | ASK \<Rightarrow> b \<le> p)))"

section \<open>Reading an updated book\<close>

lemma put_levels_simps [simp]:
  "side_levels (put_levels sd m ob) sd' = (if sd = sd' then m else side_levels ob sd')"
  "best_price (put_levels sd m ob) sd' = best_price ob sd'"
  "ob_nodes (put_levels sd m ob) = ob_nodes ob"
  "ob_cur_price (put_levels sd m ob) = ob_cur_price ob"
  by (cases sd; cases sd'; simp add: put_levels_def side_levels_def best_price_def)+

lemma put_best_simps [simp]:
  "side_levels (put_best sd b ob) sd' = side_levels ob sd'"
  "best_price (put_best sd b ob) sd' = (if sd = sd' then b else best_price ob sd')"
  "ob_nodes (put_best sd b ob) = ob_nodes ob"
  "ob_cur_price (put_best sd b ob) = ob_cur_price ob"
  by (cases sd; cases sd'; simp add: put_best_def side_levels_def best_price_def)+

lemma put_nodes_simps [simp]:
  "side_levels (ob\<lparr> ob_nodes := ns \<rparr>) sd = side_levels ob sd"
  "best_price (ob\<lparr> ob_nodes := ns \<rparr>) sd = best_price ob sd"
  by (cases sd; simp add: side_levels_def best_price_def)+

lemma orderbook_eqI:
  "(\<And>sd. side_levels ob sd = side_levels ob' sd) \<Longrightarrow> (\<And>sd. best_price ob sd = best_price ob' sd)
   \<Longrightarrow> ob_nodes ob = ob_nodes ob' \<Longrightarrow> ob_cur_price ob = ob_cur_price ob'
   \<Longrightarrow> ob_starting_price ob = ob_starting_price ob' \<Longrightarrow> (ob :: 'm orderbook) = ob'"
  by (rule orderbook.equality)
     (metis best_price_def side_levels_def side.simps(3,4) old.unit.exhaust)+

section \<open>The abstract book\<close>

type_synonym queue = "(string \<times> nat) list"
type_synonym abs_book = "side \<Rightarrow> rat \<Rightarrow> queue"

definition is_best :: "side \<Rightarrow> (rat \<Rightarrow> bool) \<Rightarrow> rat option \<Rightarrow> bool" where
  "is_best sd L b =
     (case b of None \<Rightarrow> (\<forall>p. \<not> L p) | Some p \<Rightarrow> L p \<and> (\<forall>q. L q \<longrightarrow> \<not> better sd q p))"

definition book_repr :: "'m levels \<Rightarrow> ('m \<Rightarrow> bool) \<Rightarrow> 'm orderbook \<Rightarrow> abs_book \<Rightarrow> bool" where
  "book_repr d ok ob ab \<longleftrightarrow>
     (\<forall>sd. ok (side_levels ob sd))
     \<and> (\<forall>sd p. case sd_lookup d (side_levels ob sd) p of
                 None \<Rightarrow> ab sd p = []
               | Some l \<Rightarrow> ab sd p \<noteq> [] \<and> level_repr (ob_nodes ob) l (ab sd p))
     \<and> (\<forall>sd p sd' p'. (sd, p) \<noteq> (sd', p') \<longrightarrow> snd ` set (ab sd p) \<inter> snd ` set (ab sd' p') = {})
     \<and> (\<forall>sd. is_best sd (\<lambda>p. ab sd p \<noteq> []) (best_price ob sd))
     \<and> next_up (ob_nodes ob)"

definition ab_put :: "abs_book \<Rightarrow> side \<Rightarrow> rat \<Rightarrow> queue \<Rightarrow> abs_book" where
  "ab_put ab sd p q = ab(sd := (ab sd)(p := q))"

definition ab_append :: "abs_book \<Rightarrow> side \<Rightarrow> rat \<Rightarrow> string \<Rightarrow> nat \<Rightarrow> abs_book" where
  "ab_append ab sd p i a = ab_put ab sd p (ab sd p @ [(i, a)])"

definition ab_remove :: "abs_book \<Rightarrow> side \<Rightarrow> rat \<Rightarrow> string \<Rightarrow> abs_book" where
  "ab_remove ab sd p i = ab_put ab sd p (dict_pop (ab sd p) i)"

lemma ab_put_apply [simp]: "ab_put ab sd p q sd' p' = (if sd' = sd \<and> p' = p then q else ab sd' p')"
  by (simp add: ab_put_def)

lemma ab_put_same [simp]: "ab_put ab sd p (ab sd p) = ab"
  by (simp add: ab_put_def)

lemma is_best_unique: "is_best sd L b \<Longrightarrow> is_best sd L b' \<Longrightarrow> b = b'"
  by (cases sd; cases b; cases b') (auto simp: is_best_def better_def not_less intro: antisym)

lemma is_best_insert:
  assumes "is_best sd L b"
  shows "is_best sd (\<lambda>q. q = p \<or> L q)
           (case b of None \<Rightarrow> Some p | Some k \<Rightarrow> if better sd p k then Some p else b)"
proof (cases b)
  case None
  then show ?thesis using assms by (auto simp: is_best_def better_def split: side.splits)
next
  case (Some k)
  then show ?thesis
    using assms by (cases sd) (auto simp: is_best_def better_def split: if_splits)
qed

section \<open>Every update implements its abstract counterpart\<close>

locale order_book = sorted_dict d ok for d :: "'m levels" and ok :: "'m \<Rightarrow> bool"
begin

lemma repr_new: "book_repr d ok (new_orderbook d p) (\<lambda>_ _. [])"
proof -
  have "side_levels (new_orderbook d p) sd = sd_empty d" "best_price (new_orderbook d p) sd = None" for sd
    by (cases sd; simp add: new_orderbook_def side_levels_def best_price_def)+
  then show ?thesis
    using ok_empty by (simp add: book_repr_def lookup_empty is_best_def) (simp add: new_orderbook_def)
qed

lemma repr_ok: "book_repr d ok ob ab \<Longrightarrow> ok (side_levels ob sd)"
  by (simp add: book_repr_def)

lemma repr_case:
  "book_repr d ok ob ab \<Longrightarrow>
     case sd_lookup d (side_levels ob sd) p of
       None \<Rightarrow> ab sd p = []
     | Some l \<Rightarrow> ab sd p \<noteq> [] \<and> level_repr (ob_nodes ob) l (ab sd p)"
  by (simp add: book_repr_def)

lemma repr_None: "book_repr d ok ob ab \<Longrightarrow> sd_lookup d (side_levels ob sd) p = None \<longleftrightarrow> ab sd p = []"
  using repr_case[of ob ab sd p] by (auto split: option.splits)

lemma repr_Some:
  "book_repr d ok ob ab \<Longrightarrow> sd_lookup d (side_levels ob sd) p = Some l \<Longrightarrow> level_repr (ob_nodes ob) l (ab sd p)"
  using repr_case[of ob ab sd p] by simp

lemma repr_disjoint:
  "book_repr d ok ob ab \<Longrightarrow> (sd, p) \<noteq> (sd', p') \<Longrightarrow> snd ` set (ab sd p) \<inter> snd ` set (ab sd' p') = {}"
  unfolding book_repr_def by blast

lemma repr_best: "book_repr d ok ob ab \<Longrightarrow> is_best sd (\<lambda>p. ab sd p \<noteq> []) (best_price ob sd)"
  by (simp add: book_repr_def)

lemma repr_next_up: "book_repr d ok ob ab \<Longrightarrow> next_up (ob_nodes ob)"
  by (simp add: book_repr_def)

text \<open>The level found at a price, or the fresh one \<open>setdefault\<close> would create.\<close>

lemma repr_level:
  assumes "book_repr d ok ob ab"
  shows "level_repr (ob_nodes ob)
           (case sd_lookup d (side_levels ob sd) p of None \<Rightarrow> new_level | Some l \<Rightarrow> l) (ab sd p)"
  using repr_None[OF assms, of sd p] repr_Some[OF assms, of sd p]
  by (auto split: option.splits)

lemma repr_bound: "book_repr d ok ob ab \<Longrightarrow> a \<in> snd ` set (ab sd p) \<Longrightarrow> a < length (ob_nodes ob)"
  using repr_level[of ob ab sd p] by (rule level_repr_bound)

text \<open>Replacing the queue at one place, in the dictionary and in the heap.\<close>

lemma repr_put:
  assumes R: "book_repr d ok ob ab"
    and lv: "\<And>sd'. side_levels ob' sd' = (if sd' = sd then m else side_levels ob sd')"
    and okm: "ok m"
    and lk: "\<And>p'. sd_lookup d m p' =
               (if p' = p then (if q = [] then None else Some l) else sd_lookup d (side_levels ob sd) p')"
    and fr: "node_frame (ob_nodes ob) (ob_nodes ob') (snd ` set (ab sd p))"
    and q: "q \<noteq> [] \<Longrightarrow> level_repr (ob_nodes ob') l q"
    and own: "\<And>a. a \<in> snd ` set q \<Longrightarrow> a \<in> snd ` set (ab sd p) \<or> length (ob_nodes ob) \<le> a"
    and best: "\<And>sd'. is_best sd' (\<lambda>p'. ab_put ab sd p q sd' p' \<noteq> []) (best_price ob' sd')"
    and up: "next_up (ob_nodes ob')"
  shows "book_repr d ok ob' (ab_put ab sd p q)"
  unfolding book_repr_def
proof (intro conjI allI impI)
  fix sd' show "ok (side_levels ob' sd')" using lv okm R repr_ok by simp
next
  fix sd' p'
  show "case sd_lookup d (side_levels ob' sd') p' of
          None \<Rightarrow> ab_put ab sd p q sd' p' = []
        | Some l' \<Rightarrow> ab_put ab sd p q sd' p' \<noteq> [] \<and> level_repr (ob_nodes ob') l' (ab_put ab sd p q sd' p')"
  proof (cases "sd' = sd \<and> p' = p")
    case True
    then show ?thesis using lv lk q by simp
  next
    case False
    then have same: "sd_lookup d (side_levels ob' sd') p' = sd_lookup d (side_levels ob sd') p'"
      using lv lk by auto
    show ?thesis
    proof (cases "sd_lookup d (side_levels ob sd') p'")
      case None
      then have "ab sd' p' = []" using repr_None[OF R] by blast
      then show ?thesis using same False None by auto
    next
      case (Some l')
      then have "level_repr (ob_nodes ob') l' (ab sd' p')"
        using repr_disjoint[OF R, of sd p sd' p'] False
        by (intro level_repr_frame[OF repr_Some[OF R Some] fr]) auto
      then show ?thesis using same False Some repr_None[OF R, of sd' p'] by auto
    qed
  qed
next
  fix sd1 p1 sd2 p2 assume ne: "(sd1 :: side, p1 :: rat) \<noteq> (sd2, p2)"
  have out: "snd ` set q \<inter> snd ` set (ab sd' p') = {}" if "(sd', p') \<noteq> (sd, p)" for sd' p'
  proof -
    have "a \<notin> snd ` set (ab sd' p')" if "a \<in> snd ` set q" for a
      using own[OF that] repr_disjoint[OF R, of sd' p' sd p] \<open>(sd', p') \<noteq> (sd, p)\<close>
        repr_bound[OF R, of a sd' p'] by (meson disjoint_iff not_le)
    then show ?thesis by blast
  qed
  show "snd ` set (ab_put ab sd p q sd1 p1) \<inter> snd ` set (ab_put ab sd p q sd2 p2) = {}"
  proof (cases "(sd1, p1) = (sd, p)")
    case True
    then show ?thesis using ne out[of sd2 p2] by auto
  next
    case False
    then show ?thesis using ne out[of sd1 p1] repr_disjoint[OF R ne] by (auto simp: Int_commute)
  qed
qed (use best up in auto)

lemma best_after_append:
  assumes R: "book_repr d ok ob ab" and b: "\<And>sd'. best_price ob' sd' =
      (if sd' = sd then case best_price ob sd of None \<Rightarrow> Some p | Some k \<Rightarrow> if better sd p k then Some p else Some k
       else best_price ob sd')"
    and q: "q \<noteq> []"
  shows "is_best sd' (\<lambda>p'. ab_put ab sd p q sd' p' \<noteq> []) (best_price ob' sd')"
proof (cases "sd' = sd")
  case True
  have "(\<lambda>p'. ab_put ab sd p q sd p' \<noteq> []) = (\<lambda>p'. p' = p \<or> ab sd p' \<noteq> [])" using q by auto
  moreover have "best_price ob' sd = (case best_price ob sd of None \<Rightarrow> Some p
                   | Some k \<Rightarrow> if better sd p k then Some p else best_price ob sd)"
    using b by (simp split: option.splits)
  ultimately show ?thesis using is_best_insert[OF repr_best[OF R, of sd], of p] True by simp
next
  case False
  then show ?thesis using b repr_best[OF R, of sd'] by simp
qed

lemma append_refines:
  assumes R: "book_repr d ok ob ab" and new: "i \<notin> fst ` set (ab sd p)"
  shows "\<exists>ob'. ob_append d ob i sd r (Some p) = (Inr (), ob')
           \<and> book_repr d ok ob' (ab_append ab sd p i (length (ob_nodes ob)))
           \<and> node_frame (ob_nodes ob) (ob_nodes ob') (snd ` set (ab sd p))
           \<and> length (ob_nodes ob') = Suc (length (ob_nodes ob))
           \<and> n_order (ob_nodes ob' ! length (ob_nodes ob)) = r"
proof -
  let ?l = "case sd_lookup d (side_levels ob sd) p of None \<Rightarrow> new_level | Some l \<Rightarrow> l"
  let ?q = "ab sd p @ [(i, length (ob_nodes ob))]"
  obtain ns l where ap: "level_append (ob_nodes ob) ?l i r = Inr (ns, l)" "level_repr ns l ?q"
      "node_frame (ob_nodes ob) ns (snd ` set (ab sd p))" "length ns = Suc (length (ob_nodes ob))"
      "n_order (ns ! length (ob_nodes ob)) = r"
    using level_append_refines[OF repr_level[OF R] new] by blast
  have up: "next_up ns" by (rule next_up_append[OF repr_level[OF R] repr_next_up[OF R] ap(1)])
  define ob1 where "ob1 = (case best_price ob sd of None \<Rightarrow> put_best sd (Some p) ob
                          | Some b \<Rightarrow> if better sd p b then put_best sd (Some p) ob else ob)"
  define ob' where "ob' = (put_levels sd (sd_store d (side_levels ob sd) p l) ob1)\<lparr> ob_nodes := ns \<rparr>"
  have eq: "ob_append d ob i sd r (Some p) = (Inr (), ob')"
    using ap(1) by (simp add: ob_append_def ob'_def ob1_def Let_def)
  have "book_repr d ok ob' (ab_put ab sd p ?q)"
  proof (rule repr_put[OF R])
    show "side_levels ob' sd' = (if sd' = sd then sd_store d (side_levels ob sd) p l else side_levels ob sd')" for sd'
      by (simp add: ob'_def ob1_def split: option.splits)
    show "is_best sd' (\<lambda>p'. ab_put ab sd p ?q sd' p' \<noteq> []) (best_price ob' sd')" for sd'
      by (rule best_after_append[OF R]) (simp_all add: ob'_def ob1_def split: option.splits)
  qed (use R ap up in \<open>auto simp: ob'_def ok_store lookup_store repr_ok\<close>)
  then show ?thesis using eq ap by (simp add: ab_append_def ob'_def)
qed

lemma append_duplicate:
  assumes R: "book_repr d ok ob ab" and dup: "i \<in> fst ` set (ab sd p)"
  shows "\<exists>ob'. ob_append d ob i sd r (Some p) = (Inl ValueError, ob') \<and> book_repr d ok ob' ab
           \<and> ob_nodes ob' = ob_nodes ob"
proof -
  have "ab sd p \<noteq> []" using dup by auto
  then obtain l where l: "sd_lookup d (side_levels ob sd) p = Some l" using repr_None[OF R] by blast
  define ob1 where "ob1 = (case best_price ob sd of None \<Rightarrow> put_best sd (Some p) ob
                          | Some b \<Rightarrow> if better sd p b then put_best sd (Some p) ob else ob)"
  define ob' where "ob' = put_levels sd (sd_store d (side_levels ob sd) p l) ob1"
  have "level_append (ob_nodes ob) l i r = Inl ValueError"
    by (rule level_append_duplicate[OF repr_Some[OF R l] dup])
  then have eq: "ob_append d ob i sd r (Some p) = (Inl ValueError, ob')"
    using l by (simp add: ob_append_def ob'_def ob1_def Let_def)
  have nodes: "ob_nodes ob' = ob_nodes ob" by (simp add: ob'_def ob1_def split: option.splits)
  have "book_repr d ok ob' (ab_put ab sd p (ab sd p))"
  proof (rule repr_put[OF R])
    show "side_levels ob' sd' = (if sd' = sd then sd_store d (side_levels ob sd) p l else side_levels ob sd')" for sd'
      by (simp add: ob'_def ob1_def split: option.splits)
    show "is_best sd' (\<lambda>p'. ab_put ab sd p (ab sd p) sd' p' \<noteq> []) (best_price ob' sd')" for sd'
      by (rule best_after_append[OF R]) (use \<open>ab sd p \<noteq> []\<close> in \<open>simp_all add: ob'_def ob1_def split: option.splits\<close>)
  qed (use R l nodes \<open>ab sd p \<noteq> []\<close> repr_Some[OF R l] repr_next_up[OF R] in
       \<open>auto simp: node_frame_def ok_store lookup_store repr_ok\<close>)
  then show ?thesis using eq nodes by simp
qed

lemma append_None: "ob_append d ob i sd r None = (Inl ValueError, ob)"
  by (simp add: ob_append_def)

text \<open>The neighbour of the emptied best level is the new best.\<close>

definition nth_best :: "'m \<Rightarrow> side \<Rightarrow> nat \<Rightarrow> rat" where
  "nth_best m sd i = sd_keys d m ! (case sd of BID \<Rightarrow> sd_len d m - 1 - i | ASK \<Rightarrow> i)"

lemma nth_best_order:
  "ok m \<Longrightarrow> i < j \<Longrightarrow> j < sd_len d m \<Longrightarrow> better sd (nth_best m sd i) (nth_best m sd j)"
  by (cases sd) (auto simp: nth_best_def better_def intro!: keys_mono)

lemma nth_best_lookup:
  assumes "ok m"
  shows "sd_lookup d m q \<noteq> None \<longleftrightarrow> (\<exists>i < sd_len d m. nth_best m sd i = q)"
proof
  assume "sd_lookup d m q \<noteq> None"
  then obtain i where i: "i < sd_len d m" "sd_keys d m ! i = q" using lookup_key_nth[OF assms] by blast
  let ?j = "case sd of BID \<Rightarrow> sd_len d m - 1 - i | ASK \<Rightarrow> i"
  have "?j < sd_len d m" "nth_best m sd ?j = q" using i by (auto simp: nth_best_def split: side.splits)
  then show "\<exists>i < sd_len d m. nth_best m sd i = q" by blast
next
  assume "\<exists>i < sd_len d m. nth_best m sd i = q"
  then show "sd_lookup d m q \<noteq> None"
    using nth_key_lookup[OF assms] by (auto simp: nth_best_def split: side.splits)
qed

lemma better_asym: "better sd p q \<Longrightarrow> \<not> better sd q p"
  by (auto simp: better_def split: side.splits)

lemma better_irrefl [simp]: "\<not> better sd p p"
  by (auto simp: better_def split: side.splits)

lemma peek_best:
  assumes "i < sd_len d m"
  shows "\<exists>l. peekitem d m (case sd of BID \<Rightarrow> - 1 - int i | ASK \<Rightarrow> int i) = Inr (nth_best m sd i, l)"
proof -
  have "nat (int (length (sd_items d m)) + (- 1 - int i)) = length (sd_items d m) - Suc i"
    by linarith
  then show ?thesis
    using assms
    by (cases sd) (auto simp: peekitem_def Let_def nth_best_def sd_len_def sd_keys_def prod_eq_iff)
qed

lemma next_best_is_best:
  assumes okm: "ok m" and p: "sd_lookup d m p \<noteq> None"
    and cur: "is_best sd (\<lambda>q. sd_lookup d m q \<noteq> None) cur"
  shows "\<exists>b. next_best d m sd p cur = Inr b \<and> is_best sd (\<lambda>q. q \<noteq> p \<and> sd_lookup d m q \<noteq> None) b"
proof -
  let ?n = "sd_len d m" and ?k = "nth_best m sd"
  obtain j where j: "j < ?n" "?k j = p" using p nth_best_lookup[OF okm] by metis
  note ix = nth_best_lookup[OF okm, of _ sd]
  obtain l0 where l0: "peekitem d m (case sd of BID \<Rightarrow> -1 | ASK \<Rightarrow> 0) = Inr (?k 0, l0)"
    using peek_best[of 0 m sd] j by (auto split: side.splits)
  have first: "\<not> better sd (?k i) (?k 0)" if "i < ?n" for i
    using that nth_best_order[OF okm, of 0 i sd] better_asym by (cases "i = 0") auto
  show ?thesis
  proof (cases "p = ?k 0")
    case False
    have "is_best sd (\<lambda>q. sd_lookup d m q \<noteq> None) (Some (?k 0))"
      using j first unfolding is_best_def ix by (auto intro!: exI[of _ 0])
    then have "cur = Some (?k 0)" using cur is_best_unique by blast
    then have "is_best sd (\<lambda>q. q \<noteq> p \<and> sd_lookup d m q \<noteq> None) cur"
      using False j first \<open>cur = _\<close> unfolding is_best_def ix by (auto intro!: exI[of _ 0])
    moreover have "next_best d m sd p cur = Inr cur" using False l0 by (simp add: next_best_def)
    ultimately show ?thesis by blast
  next
    case p0: True
    show ?thesis
    proof (cases "2 \<le> ?n")
      case True
      obtain l1 where "peekitem d m (case sd of BID \<Rightarrow> -2 | ASK \<Rightarrow> 1) = Inr (?k 1, l1)"
        using peek_best[of 1 m sd] True by (auto split: side.splits)
      then have "next_best d m sd p cur = Inr (Some (?k 1))" using p0 l0 True by (simp add: next_best_def)
      moreover have "\<not> better sd (?k i) (?k 1)" if "i < ?n" "?k i \<noteq> p" for i
        using that p0 True nth_best_order[OF okm, of 1 i sd] better_asym
        by (cases "i = 0"; cases "i = 1") auto
      moreover have "?k 1 \<noteq> p" using p0 nth_best_order[OF okm, of 0 1 sd] True by force
      ultimately show ?thesis
        using True unfolding is_best_def ix by (intro exI[of _ "Some (?k 1)"]) (auto intro!: exI[of _ "Suc 0"])
    next
      case False
      then have "i = 0" if "i < ?n" for i using that by simp
      then have "is_best sd (\<lambda>q. q \<noteq> p \<and> sd_lookup d m q \<noteq> None) None" using p0 unfolding is_best_def ix by auto
      moreover have "next_best d m sd p cur = Inr None" using p0 l0 False by (simp add: next_best_def)
      ultimately show ?thesis by blast
    qed
  qed
qed

lemma remove_refines:
  assumes R: "book_repr d ok ob ab" and i: "i \<in> fst ` set (ab sd p)"
  shows "\<exists>ob'. ob_remove d ob i sd (Some p) = (Inr (), ob')
           \<and> book_repr d ok ob' (ab_remove ab sd p i)
           \<and> node_frame (ob_nodes ob) (ob_nodes ob') (snd ` set (ab sd p))
           \<and> length (ob_nodes ob') = length (ob_nodes ob)"
proof -
  let ?M = "side_levels ob sd" and ?q = "dict_pop (ab sd p) i"
  have "ab sd p \<noteq> []" using i by auto
  then obtain lv where lv: "sd_lookup d ?M p = Some lv" using repr_None[OF R] by blast
  obtain ns l where rm: "level_remove (ob_nodes ob) lv i = Inr (ns, l)" "level_repr ns l ?q"
      "node_frame (ob_nodes ob) ns (snd ` set (ab sd p))" "length ns = length (ob_nodes ob)"
    using level_remove_refines[OF repr_Some[OF R lv] i] by blast
  have up: "next_up ns" by (rule next_up_remove[OF repr_Some[OF R lv] repr_next_up[OF R] rm(1)])
  have sub: "snd ` set ?q \<subseteq> snd ` set (ab sd p)" by (auto simp: dict_pop_def)
  let ?m = "sd_store d ?M p l"
  have okm: "ok ?m" using R by (simp add: ok_store repr_ok)
  have lk: "sd_lookup d ?m q = (if q = p then Some l else sd_lookup d ?M q)" for q
    using R by (simp add: lookup_store repr_ok)
  have keys: "sd_lookup d ?m q \<noteq> None \<longleftrightarrow> ab sd q \<noteq> []" for q
    using lk[of q] repr_None[OF R, of sd q] \<open>ab sd p \<noteq> []\<close> by auto
  let ?ob1 = "(put_levels sd ?m ob)\<lparr> ob_nodes := ns \<rparr>"
  show ?thesis
  proof (cases "?q = []")
    case False
    have eq: "ob_remove d ob i sd (Some p) = (Inr (), ?ob1)"
      using lv rm False level_repr_bool[OF rm(2)] by (simp add: ob_remove_def Let_def)
    have same: "(ab_put ab sd p ?q sd' p' \<noteq> []) = (ab sd' p' \<noteq> [])" for sd' p'
      using False \<open>ab sd p \<noteq> []\<close> by auto
    have "book_repr d ok ?ob1 (ab_put ab sd p ?q)"
    proof (rule repr_put[OF R])
      show "is_best sd' (\<lambda>p'. ab_put ab sd p ?q sd' p' \<noteq> []) (best_price ?ob1 sd')" for sd'
        using repr_best[OF R, of sd'] unfolding same by simp
    qed (use lk okm rm up sub False in auto)
    then show ?thesis using eq rm by (simp add: ab_remove_def)
  next
    case True
    have "is_best sd (\<lambda>q. sd_lookup d ?m q \<noteq> None) (best_price ob sd)"
      unfolding keys by (rule repr_best[OF R])
    then obtain b where b: "next_best d ?m sd p (best_price ob sd) = Inr b"
        "is_best sd (\<lambda>q. q \<noteq> p \<and> sd_lookup d ?m q \<noteq> None) b"
      using next_best_is_best[OF okm] lk by force
    let ?ob2 = "put_levels sd (sd_pop d ?m p) (put_best sd b ?ob1)"
    have eq: "ob_remove d ob i sd (Some p) = (Inr (), ?ob2)"
      using lv rm True level_repr_bool[OF rm(2)] b by (simp add: ob_remove_def Let_def)
    have rest: "(\<lambda>q. q \<noteq> p \<and> sd_lookup d ?m q \<noteq> None) = (\<lambda>q. ab_put ab sd p ?q sd q \<noteq> [])"
      using True unfolding keys by auto
    have "book_repr d ok ?ob2 (ab_put ab sd p ?q)"
    proof (rule repr_put[OF R, where m = "sd_pop d ?m p" and l = l])
      show "is_best sd' (\<lambda>p'. ab_put ab sd p ?q sd' p' \<noteq> []) (best_price ?ob2 sd')" for sd'
      proof (cases "sd' = sd")
        case True
        then show ?thesis using b(2) unfolding rest by simp
      next
        case False
        then show ?thesis using repr_best[OF R, of sd'] by simp
      qed
    qed (use lk okm rm up True in \<open>auto simp: ok_pop lookup_pop\<close>)
    then show ?thesis using eq rm by (simp add: ab_remove_def)
  qed
qed

lemma remove_unknown:
  assumes R: "book_repr d ok ob ab" and "ab sd p \<noteq> []" and "i \<notin> fst ` set (ab sd p)"
  shows "ob_remove d ob i sd (Some p) = (Inl KeyError, ob)"
proof -
  obtain lv where lv: "sd_lookup d (side_levels ob sd) p = Some lv"
    using repr_None[OF R] assms(2) by blast
  then show ?thesis
    using level_remove_unknown[OF repr_Some[OF R lv] assms(3)] by (simp add: ob_remove_def)
qed

lemma remove_no_level:
  "book_repr d ok ob ab \<Longrightarrow> ab sd p = [] \<Longrightarrow> ob_remove d ob i sd (Some p) = (Inr (), ob)"
  using repr_None[of ob ab sd p] by (simp add: ob_remove_def)

lemma remove_None: "ob_remove d ob i sd None = (Inr (), ob)"
  by (simp add: ob_remove_def)

text \<open>The generator, when the book does not change under it, yields the queue oldest first.\<close>

lemma get_orders_queue:
  assumes R: "book_repr d ok ob ab"
  shows "get_orders d ob p sd = map (\<lambda>(_, a). n_order (ob_nodes ob ! a)) (ab sd p)"
proof (cases "sd_lookup d (side_levels ob sd) p")
  case None
  then have "ab sd p = []" using repr_None[OF R] by blast
  moreover have "walk k ns None = []" for k ns by (cases k) simp_all
  ultimately show ?thesis using None by (simp add: get_orders_def orders_start_def)
next
  case (Some l)
  then show ?thesis
    using level_walk[OF repr_Some[OF R Some]] by (auto simp: get_orders_def orders_start_def)
qed

end

text \<open>
  The invariant of a book: some abstract book is represented. It is what the rest of the
  development keeps; the locale's two laws say that every update keeps it, whatever it returns.
\<close>

definition book_inv :: "'m levels \<Rightarrow> ('m \<Rightarrow> bool) \<Rightarrow> 'm orderbook \<Rightarrow> bool" where
  "book_inv d ok ob \<longleftrightarrow> (\<exists>ab. book_repr d ok ob ab)"

context order_book
begin

lemma append_keeps_inv: "book_inv d ok ob \<Longrightarrow> book_inv d ok (snd (ob_append d ob i sd r price))"
proof (cases price)
  case (Some p)
  assume "book_inv d ok ob"
  then obtain ab where "book_repr d ok ob ab" by (auto simp: book_inv_def)
  then show ?thesis
    using append_refines[of ob ab i sd p r] append_duplicate[of ob ab i sd p r] Some
    unfolding book_inv_def by (metis snd_conv)
qed (simp add: append_None)

lemma remove_keeps_inv: "book_inv d ok ob \<Longrightarrow> book_inv d ok (snd (ob_remove d ob i sd price))"
proof (cases price)
  case (Some p)
  assume "book_inv d ok ob"
  then obtain ab where R: "book_repr d ok ob ab" by (auto simp: book_inv_def)
  then show ?thesis
    using remove_refines[OF R, of i sd p] remove_unknown[OF R, of sd p i] remove_no_level[OF R, of sd p i] Some
    unfolding book_inv_def by (metis snd_conv)
qed (simp add: remove_None)

end

interpretation alb: order_book alist_sdict alist_ok ..

section \<open>What the book promises\<close>

context order_book
begin

lemma get_orders_append:
  assumes R: "book_repr d ok ob ab" and new: "i \<notin> fst ` set (ab sd p)"
    and run: "ob_append d ob i sd r (Some p) = (Inr (), ob')"
  shows "get_orders d ob' q sd' = get_orders d ob q sd' @ (if sd' = sd \<and> q = p then [r] else [])"
proof -
  let ?n = "length (ob_nodes ob)"
  have R': "book_repr d ok ob' (ab_append ab sd p i ?n)" and fr: "node_frame (ob_nodes ob) (ob_nodes ob') (snd ` set (ab sd p))"
    and r: "n_order (ob_nodes ob' ! ?n) = r"
    using append_refines[OF R new, of r] run by auto
  have "n_order (ob_nodes ob' ! a) = n_order (ob_nodes ob ! a)" if "(j, a) \<in> set (ab sd' q)" for j a
    using fr repr_bound[OF R, of a sd' q] that by (force simp: node_frame_def)
  then have "map (\<lambda>(_, a). n_order (ob_nodes ob' ! a)) (ab sd' q) = map (\<lambda>(_, a). n_order (ob_nodes ob ! a)) (ab sd' q)"
    by auto
  then show ?thesis
    using r by (auto simp: get_orders_queue[OF R] get_orders_queue[OF R'] ab_append_def)
qed

lemma append_remove_undone:
  assumes R: "book_repr d ok ob ab" and new: "i \<notin> fst ` set (ab sd p)"
    and run: "ob_append d ob i sd r (Some p) = (Inr (), ob1)"
  shows "\<exists>ob2. ob_remove d ob1 i sd (Some p) = (Inr (), ob2) \<and> book_repr d ok ob2 ab
           \<and> best_price ob2 sd' = best_price ob sd'"
proof -
  let ?n = "length (ob_nodes ob)"
  have R1: "book_repr d ok ob1 (ab_append ab sd p i ?n)" using append_refines[OF R new, of r] run by auto
  have pop: "dict_pop (ab sd p @ [(i, ?n)]) i = ab sd p" using new by (force simp: dict_pop_def intro: filter_True)
  have undo: "ab_remove (ab_append ab sd p i ?n) sd p i = ab"
    using pop by (simp add: ab_remove_def ab_append_def fun_eq_iff)
  have "i \<in> fst ` set (ab_append ab sd p i ?n sd p)" by (simp add: ab_append_def)
  from remove_refines[OF R1 this] obtain ob2 where "ob_remove d ob1 i sd (Some p) = (Inr (), ob2)" "book_repr d ok ob2 ab"
    unfolding undo by blast
  moreover have "best_price ob2 sd' = best_price ob sd'"
    using is_best_unique[OF repr_best[OF \<open>book_repr d ok ob2 ab\<close>] repr_best[OF R]] .
  ultimately show ?thesis by blast
qed

lemma crossable_iff:
  assumes R: "book_repr d ok ob ab"
  shows "limit_crossable (Some p) sd ob =
           Inr (\<exists>q. ab (opposite sd) q \<noteq> [] \<and> (if sd = BID then q \<le> p else p \<le> q))"
proof (cases "best_price ob (opposite sd)")
  case None
  then show ?thesis using repr_best[OF R, of "opposite sd"] by (simp add: limit_crossable_def is_best_def)
next
  case (Some b)
  then have b: "ab (opposite sd) b \<noteq> []" "\<And>q. ab (opposite sd) q \<noteq> [] \<Longrightarrow> \<not> better (opposite sd) q b"
    using repr_best[OF R, of "opposite sd"] by (auto simp: is_best_def)
  show ?thesis
  proof (cases sd)
    case BID
    then show ?thesis using Some b by (force simp: limit_crossable_def better_def)
  next
    case ASK
    then show ?thesis using Some b by (force simp: limit_crossable_def better_def)
  qed
qed

end

text \<open>The reference price is no part of what a book holds.\<close>

lemma repr_cur_price: "book_repr d ok (ob\<lparr> ob_cur_price := v \<rparr>) ab = book_repr d ok ob ab"
proof -
  have "side_levels (ob\<lparr> ob_cur_price := v \<rparr>) sd = side_levels ob sd" "best_price (ob\<lparr> ob_cur_price := v \<rparr>) sd = best_price ob sd" for sd
    by (cases sd; simp add: side_levels_def best_price_def)+
  moreover have "ob_nodes (ob\<lparr> ob_cur_price := v \<rparr>) = ob_nodes ob" by simp
  ultimately show ?thesis unfolding book_repr_def by presburger
qed

text \<open>
  C14. Appending to a book either puts the order at the end of the queue of its side and price and
  changes no other queue, or raises ValueError and leaves the orders of the book as they were; it
  raises exactly when there is no price or the order id is already queued at that price.
\<close>

theorem book_append_correct:
  assumes "order_book d ok" and "book_repr d ok ob ab"
  shows "case ob_append d ob i sd r price of
           (Inl e, ob') \<Rightarrow> e = ValueError \<and> book_repr d ok ob' ab
             \<and> (case price of None \<Rightarrow> True | Some p \<Rightarrow> i \<in> fst ` set (ab sd p))
         | (Inr _, ob') \<Rightarrow>
             (case price of None \<Rightarrow> False
              | Some p \<Rightarrow> i \<notin> fst ` set (ab sd p) \<and> book_repr d ok ob' (ab_append ab sd p i (length (ob_nodes ob)))
                  \<and> n_order (ob_nodes ob' ! length (ob_nodes ob)) = r)"
proof (cases price)
  case None
  then show ?thesis using assms(2) order_book.append_None[OF assms(1)] by simp
next
  case (Some p)
  then show ?thesis
    using order_book.append_refines[OF assms, of i sd p r] order_book.append_duplicate[OF assms, of i sd p r]
    by (cases "i \<in> fst ` set (ab sd p)") (auto intro: key_of_pair)
qed

definition one_ask :: "(rat \<times> price_level) list orderbook" where
  "one_ask = snd (ob_append alist_sdict (new_orderbook alist_sdict 100) ''a'' ASK 0 (Some 101))"

lemma one_ask_repr: "book_repr alist_sdict alist_ok one_ask (ab_append (\<lambda>_ _. []) ASK 101 ''a'' 0)"
  using alb.append_refines[OF alb.repr_new[of 100], where i = "''a''" and p = 101 and sd = ASK and r = 0]
  by (auto simp: one_ask_def new_orderbook_def)

theorem book_append_correct_witness:
  "\<exists>ob'. ob_append alist_sdict one_ask ''b'' ASK 1 (Some 101) = (Inr (), ob')
     \<and> book_repr alist_sdict alist_ok ob' (ab_append (ab_append (\<lambda>_ _. []) ASK 101 ''a'' 0) ASK 101 ''b'' 1)"
proof -
  have n: "length (ob_nodes one_ask) = 1" and e: "fst (ob_append alist_sdict one_ask ''b'' ASK 1 (Some 101)) = Inr ()"
    by code_simp+
  show ?thesis
    using book_append_correct[OF alb.order_book_axioms one_ask_repr,
          where i = "''b''" and sd = ASK and r = 1 and price = "Some 101"] n e
    by (auto split: prod.splits)
qed

text \<open>
  C15. Removing from a book takes the order out of the queue of its side and price and changes no other
  queue; it is a no-op without a price or when the price has no level, and raises KeyError, changing
  nothing, when the level exists and does not hold the order. In particular the next best price is
  found: the book represents the remaining queues, cached best prices included.
\<close>

theorem book_remove_correct:
  assumes "order_book d ok" and "book_repr d ok ob ab"
  shows "ob_remove d ob i sd None = (Inr (), ob)
         \<and> (case ob_remove d ob i sd (Some p) of
              (Inl e, ob') \<Rightarrow> e = KeyError \<and> ob' = ob \<and> ab sd p \<noteq> [] \<and> i \<notin> fst ` set (ab sd p)
            | (Inr _, ob') \<Rightarrow> (i \<in> fst ` set (ab sd p) \<or> ab sd p = [] \<and> ob' = ob)
                \<and> book_repr d ok ob' (ab(sd := (ab sd)(p := filter (\<lambda>e. fst e \<noteq> i) (ab sd p)))))"
proof -
  have "ab_remove ab sd p i = ab(sd := (ab sd)(p := filter (\<lambda>e. fst e \<noteq> i) (ab sd p)))"
    by (simp add: ab_remove_def ab_put_def dict_pop_def)
  moreover have "ab sd p = [] \<Longrightarrow> ab(sd := (ab sd)(p := [])) = ab" by (simp add: fun_eq_iff)
  ultimately show ?thesis
    using order_book.remove_refines[OF assms, of i sd p] order_book.remove_unknown[OF assms, of sd p i]
      order_book.remove_no_level[OF assms, of sd p i] order_book.remove_None[OF assms(1), of ob i sd] assms(2)
    by (cases "i \<in> fst ` set (ab sd p)"; cases "ab sd p = []") (auto intro: key_of_pair)
qed

theorem book_remove_correct_witness:
  "\<exists>ob'. ob_remove alist_sdict one_ask ''a'' ASK (Some 101) = (Inr (), ob')
     \<and> book_repr alist_sdict alist_ok ob' (\<lambda>_ _. []) \<and> best_price ob' ASK = None"
proof -
  let ?r = "ob_remove alist_sdict one_ask ''a'' ASK (Some 101)"
  have e: "fst ?r = Inr ()" "best_price (snd ?r) ASK = None" by code_simp+
  have ab: "(ab_append (\<lambda>_ _. []) ASK 101 ''a'' 0)(ASK := ((ab_append (\<lambda>_ _. []) ASK 101 ''a'' 0) ASK)(101 := [])) = (\<lambda>_ _. [])"
    by (auto simp: fun_eq_iff ab_append_def)
  show ?thesis
    using book_remove_correct[OF alb.order_book_axioms one_ask_repr,
          where i = "''a''" and sd = ASK and p = 101] e ab
    by (auto simp: ab_append_def split: prod.splits)
qed

text \<open>
  Price-time priority inside a level: after an append, iterating the orders of that side and price
  yields the orders it yielded before, in the same order, and then the new one; every other side and
  price yields what it yielded before.
\<close>

theorem append_goes_last:
  assumes "order_book d ok" and "book_repr d ok ob ab"
    and "ob_append d ob i sd r (Some p) = (Inr (), ob')"
  shows "get_orders d ob' q sd' = get_orders d ob q sd' @ (if sd' = sd \<and> q = p then [r] else [])"
proof -
  have "i \<notin> fst ` set (ab sd p)"
    using order_book.append_duplicate[OF assms(1,2), of i sd p r] assms(3) by auto
  then show ?thesis by (rule order_book.get_orders_append[OF assms(1,2) _ assms(3)])
qed

theorem append_goes_last_witness:
  "get_orders alist_sdict (snd (ob_append alist_sdict one_ask ''b'' ASK 1 (Some 101))) 101 ASK = [0, 1]"
proof -
  let ?r = "ob_append alist_sdict one_ask ''b'' ASK 1 (Some 101)"
  have e: "fst ?r = Inr ()" "get_orders alist_sdict one_ask 101 ASK = [0]" by code_simp+
  then have "?r = (Inr (), snd ?r)" by (metis prod.collapse)
  from append_goes_last[OF alb.order_book_axioms one_ask_repr this, of 101 ASK] show ?thesis using e by simp
qed

text \<open>
  Appending an order and removing it again gives back a book with the same queues and the same
  cached best prices on both sides.
\<close>

theorem append_remove_roundtrip:
  assumes "order_book d ok" and "book_repr d ok ob ab" and "i \<notin> fst ` set (ab sd p)"
  shows "\<exists>ob1 ob2. ob_append d ob i sd r (Some p) = (Inr (), ob1) \<and> ob_remove d ob1 i sd (Some p) = (Inr (), ob2)
           \<and> book_repr d ok ob2 ab \<and> best_price ob2 BID = best_price ob BID \<and> best_price ob2 ASK = best_price ob ASK"
proof -
  obtain ob1 where a: "ob_append d ob i sd r (Some p) = (Inr (), ob1)"
    using order_book.append_refines[OF assms] by blast
  show ?thesis
    using a order_book.append_remove_undone[OF assms a, of BID] order_book.append_remove_undone[OF assms a, of ASK]
    by auto
qed

theorem append_remove_roundtrip_witness:
  "\<exists>ob1 ob2. ob_append alist_sdict one_ask ''b'' ASK 1 (Some 99) = (Inr (), ob1)
     \<and> ob_remove alist_sdict ob1 ''b'' ASK (Some 99) = (Inr (), ob2) \<and> best_price ob2 ASK = best_price one_ask ASK"
  using append_remove_roundtrip[OF alb.order_book_axioms one_ask_repr,
      where i = "''b''" and sd = ASK and p = 99 and r = 1]
  by (auto simp: ab_append_def)

text \<open>
  A limit price crosses exactly when some order rests on the opposite side at a price as good as
  it: the test on the cached best price decides the test on the whole book.
\<close>

theorem limit_crossable_correct:
  assumes "order_book d ok" and "book_repr d ok ob ab"
  shows "limit_crossable (Some p) sd ob =
           Inr (\<exists>q. ab (opposite sd) q \<noteq> [] \<and> (if sd = BID then q \<le> p else p \<le> q))"
  by (rule order_book.crossable_iff[OF assms])

theorem limit_crossable_correct_witness:
  "limit_crossable (Some 105) BID one_ask = Inr True \<and> limit_crossable (Some 100) BID one_ask = Inr False"
  using limit_crossable_correct[OF alb.order_book_axioms one_ask_repr, of 105 BID]
    limit_crossable_correct[OF alb.order_book_axioms one_ask_repr, of 100 BID]
  by (simp add: ab_append_def)

end
