(* ===== verification/Orders.thy ===== *)
theory Orders imports Engine_Types begin

text \<open>
  \<open>engine/orders\<close>: the order objects. \<open>Order\<close> keeps its attributes in a dictionary; the record
  \<open>order\<close> has one field per key that dictionary may hold. Two keys are not there from the start:
  \<open>price\<close>, which appears when the code assigns \<open>order.price\<close> (the property of the same name keeps
  reading the limit or the stop price), and the links that \<open>OCOOrder\<close>, \<open>OTOOrder\<close> and \<open>OTOCOOrder\<close>
  assign in their constructors, which also land in the dictionary. A link is the address of the other
  order object. An order class that lacks an attribute raises \<open>AttributeError\<close> when it is read.
\<close>

section \<open>Order objects\<close>

datatype links =
    Plain
  | OCOLinks (counterparty: "nat option")
  | OTOLinks (parent: "nat option") (child: "nat option") (is_active: bool)
  | OTOCOLinks (o_parent: "nat option") (child_a: "nat option") (child_b: "nat option")
      (o_counterparty: "nat option") (o_active: bool)

record order =
  order_id :: string
  user_id :: string
  o_symbol :: string
  o_side :: side
  o_type :: order_type
  quantity :: rat
  limit_price :: "rat option"
  stop_price :: "rat option"
  o_status :: string
  o_strategy :: strategy_type
  executed_quantity :: rat
  avg_fill_price :: "rat option"
  price_entry :: "rat option option"
  links :: links
  fills :: "(rat \<times> rat) list"

definition new_order_obj :: "links \<Rightarrow> order_dict \<Rightarrow> order" where
  "new_order_obj lk d =
     \<lparr> order_id = od_order_id d, user_id = od_user_id d, o_symbol = od_symbol d, o_side = od_side d,
       o_type = od_order_type d, quantity = od_quantity d, limit_price = od_limit_price d,
       stop_price = od_stop_price d, o_status = od_status d, o_strategy = od_strategy_type d,
       executed_quantity = (case od_executed_quantity d of None \<Rightarrow> 0 | Some q \<Rightarrow> q),
       avg_fill_price = od_avg_fill_price d, price_entry = None, links = lk, fills = [] \<rparr>"

text \<open>The \<open>price\<close> property, and the assignment \<open>order.price = v\<close>, which does not write what it reads.\<close>

definition order_price :: "order \<Rightarrow> exn + rat option" where
  "order_price od =
     (case o_type od of LIMIT \<Rightarrow> Inr (limit_price od) | STOP \<Rightarrow> Inr (stop_price od)
                      | MARKET \<Rightarrow> Inl NotImplementedError)"

definition assign_price :: "rat option \<Rightarrow> order \<Rightarrow> order" where
  "assign_price v od = od\<lparr> price_entry := Some v \<rparr>"

definition calculate_avg_fill_price :: "order \<Rightarrow> order" where
  "calculate_avg_fill_price od =
     (if fills od = [] then od\<lparr> avg_fill_price := None \<rparr>
      else let total_value = sum_list (map (\<lambda>(q, p). q * p) (fills od));
               total_quantity = sum_list (map fst (fills od))
           in if 0 < total_quantity then od\<lparr> avg_fill_price := Some (total_value / total_quantity) \<rparr>
              else od\<lparr> avg_fill_price := None \<rparr>)"

definition add_fill :: "rat \<Rightarrow> rat \<Rightarrow> order \<Rightarrow> order" where
  "add_fill q p od =
     calculate_avg_fill_price
       (od\<lparr> fills := fills od @ [(q, p)], executed_quantity := executed_quantity od + q \<rparr>)"

section \<open>Links\<close>

fun get_counterparty :: "links \<Rightarrow> exn + nat option" where
  "get_counterparty (OCOLinks c) = Inr c"
| "get_counterparty (OTOCOLinks p a b c act) = Inr c"
| "get_counterparty _ = Inl AttributeError"

fun get_parent :: "links \<Rightarrow> exn + nat option" where
  "get_parent (OTOLinks p c act) = Inr p"
| "get_parent (OTOCOLinks p a b c act) = Inr p"
| "get_parent _ = Inl AttributeError"

fun get_child :: "links \<Rightarrow> exn + nat option" where
  "get_child (OTOLinks p c act) = Inr c"
| "get_child _ = Inl AttributeError"

fun get_child_a :: "links \<Rightarrow> exn + nat option" where
  "get_child_a (OTOCOLinks p a b c act) = Inr a"
| "get_child_a _ = Inl AttributeError"

fun get_child_b :: "links \<Rightarrow> exn + nat option" where
  "get_child_b (OTOCOLinks p a b c act) = Inr b"
| "get_child_b _ = Inl AttributeError"

fun get_active :: "links \<Rightarrow> exn + bool" where
  "get_active (OTOLinks p c act) = Inr act"
| "get_active (OTOCOLinks p a b c act) = Inr act"
| "get_active _ = Inl AttributeError"

text \<open>Assigning \<open>order.active\<close> on any order object succeeds: the key is simply written.\<close>

fun set_active :: "bool \<Rightarrow> links \<Rightarrow> links" where
  "set_active v (OTOLinks p c act) = OTOLinks p c v"
| "set_active v (OTOCOLinks p a b c act) = OTOCOLinks p a b c v"
| "set_active v lk = lk"

text \<open>
  \<open>get_order_dict\<close> hands out the whole dictionary, linked objects included. \<open>json.dumps\<close> accepts it
  exactly when none of the links holds an order object.
\<close>

fun unlinked :: "links \<Rightarrow> bool" where
  "unlinked Plain = True"
| "unlinked (OCOLinks c) = (c = None)"
| "unlinked (OTOLinks p c act) = (p = None \<and> c = None)"
| "unlinked (OTOCOLinks p a b c act) = (p = None \<and> a = None \<and> b = None \<and> c = None)"

definition json_ok :: "order \<Rightarrow> bool" where
  "json_ok od = unlinked (links od)"

section \<open>Fills\<close>

definition fills_value :: "order \<Rightarrow> rat" where
  "fills_value od = sum_list (map (\<lambda>(q, p). q * p) (fills od))"

definition fills_quantity :: "order \<Rightarrow> rat" where
  "fills_quantity od = sum_list (map fst (fills od))"

lemma add_fill_simps [simp]:
  "order_id (add_fill q p od) = order_id od" "user_id (add_fill q p od) = user_id od"
  "o_side (add_fill q p od) = o_side od" "o_type (add_fill q p od) = o_type od"
  "quantity (add_fill q p od) = quantity od" "limit_price (add_fill q p od) = limit_price od"
  "stop_price (add_fill q p od) = stop_price od" "o_strategy (add_fill q p od) = o_strategy od"
  "links (add_fill q p od) = links od" "fills (add_fill q p od) = fills od @ [(q, p)]"
  "executed_quantity (add_fill q p od) = executed_quantity od + q"
  "o_symbol (add_fill q p od) = o_symbol od" "o_status (add_fill q p od) = o_status od"
  "price_entry (add_fill q p od) = price_entry od"
  by (simp_all add: add_fill_def calculate_avg_fill_price_def Let_def)

lemma order_price_add_fill [simp]: "order_price (add_fill q p od) = order_price od"
  by (simp add: order_price_def cong: order_type.case_cong)

lemma order_price_assign [simp]: "order_price (assign_price v od) = order_price od"
  by (simp add: order_price_def assign_price_def cong: order_type.case_cong)

lemma sum_list_quantity_nonneg:
  "(\<And>q p. (q, p) \<in> set fs \<Longrightarrow> 0 < q) \<Longrightarrow> 0 \<le> sum_list (map fst fs :: rat list)"
  by (rule sum_list_nonneg) fastforce

lemma add_fill_avg:
  assumes "0 < q" and "\<And>r t. (r, t) \<in> set (fills od) \<Longrightarrow> 0 < r"
  shows "avg_fill_price (add_fill q p od) =
           Some ((fills_value od + q * p) / (fills_quantity od + q))"
proof -
  have "0 < fills_quantity od + q"
    using assms(1) sum_list_quantity_nonneg[of "fills od"] assms(2)
    unfolding fills_quantity_def by fastforce
  then show ?thesis
    by (simp add: add_fill_def calculate_avg_fill_price_def Let_def fills_value_def
          fills_quantity_def add.commute)
qed

text \<open>
  After a fill, as long as every fill has a positive quantity, the average fill price of an order
  is the value of all its fills divided by their quantity, and the executed quantity has grown by
  exactly the quantity of the fill.
\<close>

theorem add_fill_average:
  assumes "0 < q" and "\<forall>f \<in> set (fills od). 0 < fst f"
  shows "avg_fill_price (add_fill q p od) =
           Some (sum_list (map (\<lambda>(r, t). r * t) (fills od @ [(q, p)])) / sum_list (map fst (fills od @ [(q, p)])))
         \<and> executed_quantity (add_fill q p od) = executed_quantity od + q"
proof -
  have "\<And>r t. (r, t) \<in> set (fills od) \<Longrightarrow> 0 < r" using assms(2) by fastforce
  from add_fill_avg[OF assms(1) this, where p = p] show ?thesis by (simp add: fills_value_def fills_quantity_def)
qed

definition blank_order :: order where
  "blank_order =
     new_order_obj Plain
       \<lparr> od_order_id = ''a'', od_user_id = ''u'', od_symbol = ''BTC'', od_side = BID, od_order_type = LIMIT,
         od_quantity = 10, od_limit_price = Some 5, od_stop_price = None, od_status = ''pending'',
         od_strategy_type = SINGLE, od_executed_quantity = None, od_avg_fill_price = None \<rparr>"

theorem add_fill_average_witness:
  "avg_fill_price (add_fill 1 8 (add_fill 3 4 blank_order)) = Some 5
   \<and> executed_quantity (add_fill 1 8 (add_fill 3 4 blank_order)) = 4"
  using add_fill_average[of 1 "add_fill 3 4 blank_order" 8] by (simp add: blank_order_def new_order_obj_def)

text \<open>
  Assigning to the price of an order does not change what the price reads: the property looks only
  at the limit or stop price, so the modified price a later append or removal uses is the old one.
\<close>

theorem assign_price_unread: "order_price (assign_price v od) = order_price od \<and> price_entry (assign_price v od) = Some v"
  by (simp add: order_price_def assign_price_def cong: order_type.case_cong)

end
