(* ===== verification/Balance_Store.thy ===== *)
theory Balance_Store imports Prelude begin

text \<open>
  Redis as \<open>engine/services/balance_manager.py\<close> uses it, and the three Lua scripts that file sends to
  it. Redis is a service outside the repository: its commands are the record \<open>'r redis_api\<close> and the
  locale \<open>redis\<close> states the documented effect of each command on the two readings the code makes,
  \<open>GET\<close> and \<open>HEXISTS\<close>. A key holds either a number or a log (a hash from event ids to amounts); the
  laws only relate commands on different kinds of keys when the keys differ. The numbers the code
  stores are exact here. \<open>maps_redis\<close>, two maps, is an instance.

  The lemmas show that a script applied to keys that do not collide adds its amounts exactly once per
  event id: the first run changes the balances, every later run with the same ids changes nothing.
\<close>

section \<open>Commands\<close>

record 'r redis_api =
  r_get :: "'r \<Rightarrow> string \<Rightarrow> rat option"
  r_set :: "'r \<Rightarrow> string \<Rightarrow> rat \<Rightarrow> 'r"
  r_incrbyfloat :: "'r \<Rightarrow> string \<Rightarrow> rat \<Rightarrow> rat \<times> 'r"
  r_hexists :: "'r \<Rightarrow> string \<Rightarrow> nat \<Rightarrow> bool"
  r_hset :: "'r \<Rightarrow> string \<Rightarrow> nat \<Rightarrow> rat \<Rightarrow> 'r"

definition num_at :: "'r redis_api \<Rightarrow> 'r \<Rightarrow> string \<Rightarrow> rat" where
  "num_at rd r k = (case r_get rd r k of None \<Rightarrow> 0 | Some v \<Rightarrow> v)"

section \<open>The scripts\<close>

text \<open>Redis turns the number a script returns into an integer, dropping the fraction.\<close>

definition lua_integer :: "rat \<Rightarrow> rat" where
  "lua_integer v = of_int (if 0 \<le> v then \<lfloor>v\<rfloor> else \<lceil>v\<rceil>)"

definition lua_update_balance ::
    "'r redis_api \<Rightarrow> 'r \<Rightarrow> string \<Rightarrow> string \<Rightarrow> nat \<Rightarrow> rat \<Rightarrow> rat \<times> 'r" where
  "lua_update_balance rd r val_key log_key ev amount =
     (if r_hexists rd r log_key ev
      then (case r_get rd r val_key of None \<Rightarrow> 0 | Some v \<Rightarrow> lua_integer v, r)
      else let (new_val, r1) = r_incrbyfloat rd r val_key amount
           in (new_val, r_hset rd r1 log_key ev amount))"

text \<open>One guarded step of a settlement: the amount added may differ in sign from the one logged.\<close>

definition lua_step ::
    "'r redis_api \<Rightarrow> string \<Rightarrow> string \<Rightarrow> nat \<Rightarrow> rat \<Rightarrow> rat \<Rightarrow> 'r \<Rightarrow> 'r" where
  "lua_step rd val_key log_key ev delta logged r =
     (if r_hexists rd r log_key ev then r
      else r_hset rd (snd (r_incrbyfloat rd r val_key delta)) log_key ev logged)"

definition lua_settle_ask ::
    "'r redis_api \<Rightarrow> 'r \<Rightarrow> string \<times> string \<times> string \<times> string \<times> string \<times> string \<Rightarrow>
     rat \<Rightarrow> rat \<Rightarrow> nat \<Rightarrow> nat \<Rightarrow> nat \<Rightarrow> 'r" where
  "lua_settle_ask rd r keys qty price ev_escrow ev_asset ev_cash =
     (case keys of (k1, k2, k3, k4, k5, k6) \<Rightarrow>
        let cash_amt = qty * price;
            r1 = lua_step rd k1 k2 ev_escrow (- qty) qty r;
            r2 = lua_step rd k3 k4 ev_asset (- qty) qty r1
        in lua_step rd k5 k6 ev_cash cash_amt cash_amt r2)"

definition lua_settle_bid ::
    "'r redis_api \<Rightarrow> 'r \<Rightarrow> string \<times> string \<times> string \<times> string \<times> string \<times> string \<Rightarrow>
     rat \<Rightarrow> rat \<Rightarrow> nat \<Rightarrow> nat \<Rightarrow> nat \<Rightarrow> 'r" where
  "lua_settle_bid rd r keys qty price ev_escrow ev_cash ev_asset =
     (case keys of (k1, k2, k3, k4, k5, k6) \<Rightarrow>
        let total_cash = qty * price;
            r1 = lua_step rd k1 k2 ev_escrow (- total_cash) total_cash r;
            r2 = lua_step rd k3 k4 ev_cash (- total_cash) total_cash r1
        in lua_step rd k5 k6 ev_asset qty qty r2)"

section \<open>The laws\<close>

locale redis =
  fixes rd :: "'r redis_api"
  assumes get_set: "r_get rd (r_set rd r k v) k' = (if k' = k then Some v else r_get rd r k')"
    and get_incr: "r_get rd (snd (r_incrbyfloat rd r k v)) k' =
                     (if k' = k then Some (num_at rd r k + v) else r_get rd r k')"
    and incr_reply: "fst (r_incrbyfloat rd r k v) = num_at rd r k + v"
    and get_hset: "k \<noteq> h \<Longrightarrow> r_get rd (r_hset rd r h f v) k = r_get rd r k"
    and hexists_set: "h \<noteq> k \<Longrightarrow> r_hexists rd (r_set rd r k v) h f = r_hexists rd r h f"
    and hexists_incr: "h \<noteq> k \<Longrightarrow> r_hexists rd (snd (r_incrbyfloat rd r k v)) h f = r_hexists rd r h f"
    and hexists_hset: "r_hexists rd (r_hset rd r h f v) h' f' \<longleftrightarrow> h' = h \<and> f' = f \<or> r_hexists rd r h' f'"
begin

lemma get_step:
  assumes "k \<noteq> log_key"
  shows "r_get rd (lua_step rd val_key log_key ev delta logged r) k =
           (if k = val_key \<and> \<not> r_hexists rd r log_key ev
            then Some (num_at rd r val_key + delta) else r_get rd r k)"
  using assms by (auto simp: lua_step_def get_hset get_incr)

lemma hexists_step:
  assumes "h \<noteq> val_key"
  shows "r_hexists rd (lua_step rd val_key log_key ev delta logged r) h f \<longleftrightarrow>
           h = log_key \<and> f = ev \<or> r_hexists rd r h f"
  using assms by (auto simp: lua_step_def hexists_hset hexists_incr)

lemma num_step:
  assumes "k \<noteq> log_key"
  shows "num_at rd (lua_step rd val_key log_key ev delta logged r) k =
           num_at rd r k + (if k = val_key \<and> \<not> r_hexists rd r log_key ev then delta else 0)"
  unfolding num_at_def[of rd _ k] get_step[OF assms] by (auto simp: num_at_def)

lemma update_is_step: "snd (lua_update_balance rd r v h ev a) = lua_step rd v h ev a a r"
  by (simp add: lua_update_balance_def lua_step_def split: prod.splits)

lemma step_logged: "r_hexists rd r h ev \<Longrightarrow> lua_step rd v h ev a b r = r"
  by (simp add: lua_step_def)

text \<open>Running a settlement a second time, with the same event ids, changes nothing.\<close>

lemma three_steps_again:
  assumes "{h1, h2, h3} \<inter> {v1, v2, v3} = {}"
    and run: "\<And>r. run r = lua_step rd v3 h3 e3 a3 b3 (lua_step rd v2 h2 e2 a2 b2 (lua_step rd v1 h1 e1 a1 b1 r))"
  shows "run (run r) = run r"
proof -
  have "r_hexists rd (run r) h1 e1" "r_hexists rd (run r) h2 e2" "r_hexists rd (run r) h3 e3"
    using assms(1) by (auto simp: run hexists_step)
  then show ?thesis using run[of "run r"] by (simp add: step_logged)
qed

end

section \<open>An instance: two association lists\<close>

record redis_maps =
  numbers :: "(string \<times> rat) list"
  logs :: "((string \<times> nat) \<times> rat) list"

definition maps_redis :: "redis_maps redis_api" where
  "maps_redis =
     \<lparr> r_get = (\<lambda>r. map_of (numbers r)),
       r_set = (\<lambda>r k v. r\<lparr> numbers := (k, v) # numbers r \<rparr>),
       r_incrbyfloat = (\<lambda>r k v.
          let w = (case map_of (numbers r) k of None \<Rightarrow> 0 | Some u \<Rightarrow> u) + v
          in (w, r\<lparr> numbers := (k, w) # numbers r \<rparr>)),
       r_hexists = (\<lambda>r h f. map_of (logs r) (h, f) \<noteq> None),
       r_hset = (\<lambda>r h f v. r\<lparr> logs := ((h, f), v) # logs r \<rparr>) \<rparr>"

definition empty_maps :: redis_maps where
  "empty_maps = \<lparr> numbers = [], logs = [] \<rparr>"

interpretation mr: redis maps_redis
  by unfold_locales (auto simp: maps_redis_def num_at_def Let_def)

end
