(* ===== verification/Engine_Events.thy ===== *)
theory Engine_Events imports Order_Book Orders Balance_Store begin

text \<open>
  The environment and the state of one engine, the events of \<open>engine/events\<close> and the logger of
  \<open>engine/loggers\<close>.

  The environment \<open>('m, 'r) env\<close> holds what the code takes from outside: the configured ids and key
  prefixes, the parser for UUIDs, the sorted dictionary and Redis. The state \<open>('m, 'r) engine\<close> is the
  execution context (\<open>engine/execution_context.py\<close>) with the objects it reaches: the heap of order
  objects, the book, the order store, the id of the current command; then Redis, the supply of fresh
  UUIDs, the messages sent to Kafka, the queue the two logging hooks write to (\<open>None\<close> when they are
  not installed), and, for an engine that runs as a shadow, the batch of events it replays and its
  position. \<open>attached\<close> tells whether the context refers back to its engine.

  Event times are not modelled. An event id is a number drawn from the supply; drawing never repeats.
\<close>

section \<open>The environment\<close>

record ('m, 'r) env =
  system_user :: string
  cash_balance_prefix :: string
  cash_balance_hprefix :: string
  cash_escrow_prefix :: string
  cash_escrow_hprefix :: string
  is_uuid :: "string \<Rightarrow> bool"
  levels_api :: "'m levels"
  redis_of :: "'r redis_api"

section \<open>Events\<close>

datatype order_event_type =
  ORDER_PLACED | ORDER_PARTIALLY_FILLED | ORDER_FILLED | ORDER_MODIFIED | ORDER_MODIFY_REJECTED
  | ORDER_CANCELLED

datatype event_details = Reason string | PriceDetail "rat option"

record order_event =
  oe_type :: order_event_type
  oe_order_id :: string
  oe_symbol :: string
  oe_command_id :: "string option"
  oe_order :: "order option"
  oe_limit_price :: "rat option"
  oe_stop_price :: "rat option"
  oe_reason :: "string option"
  oe_details :: "event_details option"

record trade_event =
  te_id :: nat
  te_order_id :: string
  te_symbol :: string
  te_quantity :: rat
  te_price :: rat
  te_role :: liquidity_role
  te_command_id :: "string option"

text \<open>The balance events; a settlement contains the three movements it is made of.\<close>

datatype balance_event =
    CashBalanceIncreased (be_id: nat) (be_user: string) (be_amount: rat) (be_command: string)
  | CashBalanceDecreased (be_id: nat) (be_user: string) (be_amount: rat) (be_command: string)
  | CashEscrowIncreased (be_id: nat) (be_user: string) (be_amount: rat) (be_command: string)
  | CashEscrowDecreased (be_id: nat) (be_user: string) (be_amount: rat) (be_command: string)
  | AssetBalanceIncreased (be_id: nat) (be_user: string) (be_symbol: string) (be_amount: rat) (be_command: string)
  | AssetBalanceDecreased (be_id: nat) (be_user: string) (be_symbol: string) (be_amount: rat) (be_command: string)
  | AssetEscrowIncreased (be_id: nat) (be_user: string) (be_symbol: string) (be_amount: rat) (be_command: string)
  | AssetEscrowDecreased (be_id: nat) (be_user: string) (be_symbol: string) (be_amount: rat) (be_command: string)
  | AskSettled (be_id: nat) (be_user: string) (be_symbol: string) (be_quantity: rat) (be_price: rat)
      (asset_escrow_decreased: balance_event) (asset_balance_decreased: balance_event)
      (cash_balance_increased: balance_event) (be_trade: nat) (be_command: string)
  | BidSettled (be_id: nat) (be_user: string) (be_symbol: string) (be_quantity: rat) (be_price: rat)
      (cash_escrow_decreased: balance_event) (cash_balance_decreased: balance_event)
      (asset_balance_increased: balance_event) (be_trade: nat) (be_command: string)

datatype engine_event =
    OrderEvent order_event
  | TradeEvent trade_event
  | BalanceEvent balance_event

record kafka_msg =
  km_key :: "string option"
  km_user :: string
  km_category :: event_category
  km_event :: engine_event

datatype queue_msg =
    QEvent engine_event
  | QReceived command
  | QProcessed "string option"

section \<open>The state of an engine\<close>

record ('m, 'r) engine =
  e_symbol :: string
  e_objs :: "order list"
  e_book :: "'m orderbook"
  e_store :: "(string \<times> nat) list"
  e_cmd :: "string option"
  e_redis :: "'r"
  e_uuid :: nat
  e_kafka :: "kafka_msg list"
  e_queue :: "queue_msg list option"
  e_shadow :: "(engine_event list \<times> nat) option"
  attached :: bool

type_synonym ('m, 'r, 'a) eact = "(('m, 'r) engine, 'a) act"

text \<open>Reading and writing order objects; constructing one allocates the next address.\<close>

definition obj :: "('m, 'r) engine \<Rightarrow> nat \<Rightarrow> order" where
  "obj s r = e_objs s ! r"

definition set_obj :: "nat \<Rightarrow> (order \<Rightarrow> order) \<Rightarrow> ('m, 'r, unit) eact" where
  "set_obj r f = upd (\<lambda>s. s\<lparr> e_objs := (e_objs s)[r := f (e_objs s ! r)] \<rparr>)"

definition alloc :: "order \<Rightarrow> ('m, 'r, nat) eact" where
  "alloc od = (\<lambda>s. (Inr (length (e_objs s)), s\<lparr> e_objs := e_objs s @ [od] \<rparr>))"

definition fresh_id :: "('m, 'r, nat) eact" where
  "fresh_id = (\<lambda>s. (Inr (e_uuid s), s\<lparr> e_uuid := Suc (e_uuid s) \<rparr>))"

section \<open>The order store\<close>

definition store_add :: "nat \<Rightarrow> ('m, 'r, unit) eact" where
  "store_add r = upd (\<lambda>s. s\<lparr> e_store := dict_setdefault (e_store s) (order_id (obj s r)) r \<rparr>)"

definition store_remove :: "nat \<Rightarrow> ('m, 'r, unit) eact" where
  "store_remove r = upd (\<lambda>s. s\<lparr> e_store := dict_pop (e_store s) (order_id (obj s r)) \<rparr>)"

definition store_get :: "('m, 'r) engine \<Rightarrow> string \<Rightarrow> nat option" where
  "store_get s i = map_of (e_store s) i"

section \<open>The book, as the strategies call it\<close>

definition book_append :: "('m, 'r) env \<Rightarrow> nat \<Rightarrow> rat option \<Rightarrow> ('m, 'r, unit) eact" where
  "book_append x r price = (\<lambda>s.
     case ob_append (levels_api x) (e_book s) (order_id (obj s r)) (o_side (obj s r)) r price of
       (res, ob) \<Rightarrow> (res, s\<lparr> e_book := ob \<rparr>))"

definition book_remove :: "('m, 'r) env \<Rightarrow> nat \<Rightarrow> rat option \<Rightarrow> ('m, 'r, unit) eact" where
  "book_remove x r price = (\<lambda>s.
     case ob_remove (levels_api x) (e_book s) (order_id (obj s r)) (o_side (obj s r)) price of
       (res, ob) \<Rightarrow> (res, s\<lparr> e_book := ob \<rparr>))"

definition append_at_price :: "('m, 'r) env \<Rightarrow> nat \<Rightarrow> ('m, 'r, unit) eact" where
  "append_at_price x r = ask (\<lambda>s. and_then (of_res (order_price (obj s r))) (book_append x r))"

definition remove_at_price :: "('m, 'r) env \<Rightarrow> nat \<Rightarrow> ('m, 'r, unit) eact" where
  "remove_at_price x r = ask (\<lambda>s. and_then (of_res (order_price (obj s r))) (book_remove x r))"

section \<open>The logger\<close>

text \<open>
  \<open>json.dumps\<close> raises \<open>TypeError\<close> on an order object; the \<open>except ValueError\<close> around the send does not
  catch it. A shadow engine serialises the event, sends nothing and advances its position.
\<close>

fun serialisable :: "engine_event \<Rightarrow> bool" where
  "serialisable (OrderEvent ev) = (case oe_order ev of None \<Rightarrow> True | Some od \<Rightarrow> json_ok od)"
| "serialisable _ = True"

definition send_event :: "kafka_msg \<Rightarrow> ('m, 'r) engine \<Rightarrow> ('m, 'r) engine" where
  "send_event km s = s\<lparr> e_kafka := e_kafka s @ [km],
      e_queue := map_option (\<lambda>q. q @ [QEvent (km_event km)]) (e_queue s) \<rparr>"

definition advance_shadow :: "('m, 'r) engine \<Rightarrow> ('m, 'r) engine" where
  "advance_shadow s = s\<lparr> e_shadow := map_option (\<lambda>(b, i). (b, Suc i)) (e_shadow s) \<rparr>"

definition log_event :: "kafka_msg \<Rightarrow> ('m, 'r, unit) eact" where
  "log_event km =
     (if \<not> serialisable (km_event km) then raise TypeError
      else upd (\<lambda>s. if e_shadow s = None then send_event km s else advance_shadow s))"

definition log_command_event :: "queue_msg \<Rightarrow> ('m, 'r, unit) eact" where
  "log_command_event qm = upd (\<lambda>s. s\<lparr> e_queue := map_option (\<lambda>q. q @ [qm]) (e_queue s) \<rparr>)"

text \<open>
  The validation by the event class: ids are UUIDs, the full order is required, a modification has a
  new price and a rejection a reason. It happens outside the \<open>try\<close>, so it raises.
\<close>

definition valid_order_event :: "('m, 'r) env \<Rightarrow> order_event \<Rightarrow> bool" where
  "valid_order_event x ev =
     (is_uuid x (oe_order_id ev)
      \<and> (case oe_command_id ev of None \<Rightarrow> False | Some c \<Rightarrow> is_uuid x c)
      \<and> oe_order ev \<noteq> None
      \<and> (oe_type ev = ORDER_MODIFIED \<longrightarrow> oe_limit_price ev \<noteq> None \<or> oe_stop_price ev \<noteq> None)
      \<and> (oe_type ev = ORDER_MODIFY_REJECTED \<longrightarrow> oe_reason ev \<noteq> None))"

definition log_order_event :: "('m, 'r) env \<Rightarrow> string \<Rightarrow> order_event \<Rightarrow> ('m, 'r, unit) eact" where
  "log_order_event x user ev =
     (if user = system_user x then ret ()
      else if \<not> valid_order_event x ev then raise ValidationError
      else log_event \<lparr> km_key = Some (oe_symbol ev), km_user = user, km_category = ORDER_CAT,
                       km_event = OrderEvent ev \<rparr>)"

definition log_trade_event :: "('m, 'r) env \<Rightarrow> string \<Rightarrow> trade_event \<Rightarrow> ('m, 'r, unit) eact" where
  "log_trade_event x user ev =
     (if user = system_user x then ret ()
      else if \<not> is_uuid x (te_order_id ev) \<or> te_command_id ev = None then raise ValidationError
      else log_event \<lparr> km_key = None, km_user = user, km_category = TRADE_CAT,
                       km_event = TradeEvent ev \<rparr>)"

definition log_balance_event :: "('m, 'r) env \<Rightarrow> string \<Rightarrow> balance_event \<Rightarrow> ('m, 'r, unit) eact" where
  "log_balance_event x user ev = ask (\<lambda>s.
     if user = system_user x then ret ()
     else log_event \<lparr> km_key = Some (e_symbol s), km_user = user, km_category = BALANCE_CAT,
                      km_event = BalanceEvent ev \<rparr>)"

text \<open>An order event with the fields every caller fills in from the context.\<close>

definition order_event_of ::
    "('m, 'r) engine \<Rightarrow> order_event_type \<Rightarrow> string \<Rightarrow> event_details option \<Rightarrow> order option \<Rightarrow> order_event" where
  "order_event_of s t i details od =
     \<lparr> oe_type = t, oe_order_id = i, oe_symbol = e_symbol s, oe_command_id = e_cmd s, oe_order = od,
       oe_limit_price = None, oe_stop_price = None, oe_reason = None, oe_details = details \<rparr>"

text \<open>
  The call most handlers make: log an event of type \<open>t\<close> about the order \<open>r\<close>, with its dictionary, in
  the name of \<open>user\<close>.
\<close>

definition log_about ::
    "('m, 'r) env \<Rightarrow> string \<Rightarrow> order_event_type \<Rightarrow> nat \<Rightarrow> event_details option \<Rightarrow> ('m, 'r, unit) eact" where
  "log_about x user t r details = ask (\<lambda>s.
     log_order_event x user (order_event_of s t (order_id (obj s r)) details (Some (obj s r))))"

end
