(* ===== verification/Balance_Manager.thy ===== *)
theory Balance_Manager imports Engine_Events begin

text \<open>
  \<open>engine/services/balance_manager.py\<close>: the balance and escrow operations of the engine. Every
  movement first publishes its event and then runs the Lua script with the event's id, so Redis can
  be rebuilt from the published events: \<open>sourced\<close> states that relation between two states of an engine
  and the lemmas show that every operation stays inside it. The operations of a shadow engine are
  replaced by ones that do nothing (\<open>EngineShadow._apply_patches\<close>).
\<close>

section \<open>Keys\<close>

definition get_asset_balance_key :: "string \<Rightarrow> string \<Rightarrow> string" where
  "get_asset_balance_key sy u = sy @ '':'' @ u @ '':balance''"

definition get_asset_balance_hkey :: "string \<Rightarrow> string \<Rightarrow> string" where
  "get_asset_balance_hkey sy u = sy @ '':'' @ u @ '':balance:log''"

definition get_asset_escrow_hkey :: "string \<Rightarrow> string \<Rightarrow> string" where
  "get_asset_escrow_hkey sy u = sy @ '':'' @ u @ '':escrow:log''"

definition get_asset_escrow_key :: "string \<Rightarrow> string \<Rightarrow> string" where
  "get_asset_escrow_key sy u = sy @ '':'' @ u @ '':escrow''"

definition get_cash_balance_key :: "('m, 'r) env \<Rightarrow> string \<Rightarrow> string" where
  "get_cash_balance_key x u = cash_balance_prefix x @ u"

definition get_cash_balance_hkey :: "('m, 'r) env \<Rightarrow> string \<Rightarrow> string" where
  "get_cash_balance_hkey x u = cash_balance_hprefix x @ u"

definition get_cash_escrow_key :: "('m, 'r) env \<Rightarrow> string \<Rightarrow> string" where
  "get_cash_escrow_key x u = cash_escrow_prefix x @ u"

definition get_cash_escrow_hkey :: "('m, 'r) env \<Rightarrow> string \<Rightarrow> string" where
  "get_cash_escrow_hkey x u = cash_escrow_hprefix x @ u"

section \<open>Reading\<close>

definition get_default_cash_balance :: rat where
  "get_default_cash_balance = 10000"

text \<open>A missing number is set to its default and returned.\<close>

definition get_or_set :: "('m, 'r) env \<Rightarrow> string \<Rightarrow> rat \<Rightarrow> ('m, 'r, rat) eact" where
  "get_or_set x key dflt = (\<lambda>s.
     case r_get (redis_of x) (e_redis s) key of
       None \<Rightarrow> (Inr dflt, s\<lparr> e_redis := r_set (redis_of x) (e_redis s) key dflt \<rparr>)
     | Some v \<Rightarrow> (Inr v, s))"

definition get_cash_balance :: "('m, 'r) env \<Rightarrow> string \<Rightarrow> ('m, 'r, rat) eact" where
  "get_cash_balance x u = get_or_set x (get_cash_balance_key x u) get_default_cash_balance"

definition get_cash_escrow :: "('m, 'r) env \<Rightarrow> string \<Rightarrow> ('m, 'r, rat) eact" where
  "get_cash_escrow x u = get_or_set x (get_cash_escrow_key x u) 0"

definition get_available_cash_balance :: "('m, 'r) env \<Rightarrow> string \<Rightarrow> ('m, 'r, rat) eact" where
  "get_available_cash_balance x u =
     and_then (get_cash_balance x u) (\<lambda>balance.
     and_then (get_cash_escrow x u) (\<lambda>escrow. ret (balance - escrow)))"

text \<open>Here both keys are read before either default is written.\<close>

definition get_available_asset_balance :: "('m, 'r) env \<Rightarrow> string \<Rightarrow> ('m, 'r, rat) eact" where
  "get_available_asset_balance x u = ask (\<lambda>s.
     let bal_key = get_asset_balance_key (e_symbol s) u;
         esc_key = get_asset_escrow_key (e_symbol s) u;
         balance = r_get (redis_of x) (e_redis s) bal_key;
         escrow = r_get (redis_of x) (e_redis s) esc_key
     in and_then
          (run_all
             [only_if (balance = None) (upd (\<lambda>s. s\<lparr> e_redis := r_set (redis_of x) (e_redis s) bal_key 0 \<rparr>)),
              only_if (escrow = None) (upd (\<lambda>s. s\<lparr> e_redis := r_set (redis_of x) (e_redis s) esc_key 0 \<rparr>))])
          (\<lambda>_. ret ((case balance of None \<Rightarrow> 0 | Some v \<Rightarrow> v) - (case escrow of None \<Rightarrow> 0 | Some v \<Rightarrow> v))))"

section \<open>Moving\<close>

text \<open>
  The common part of the eight single movements: build the event (its class insists on a command
  id), publish it, run the update script under its id. The result is the script's answer, nothing for
  the system user and nothing in a shadow engine.
\<close>

definition update_balance ::
    "('m, 'r) env \<Rightarrow> string \<Rightarrow> string option \<Rightarrow> (nat \<Rightarrow> string \<Rightarrow> balance_event) \<Rightarrow>
     string \<Rightarrow> string \<Rightarrow> rat \<Rightarrow> ('m, 'r, rat option) eact" where
  "update_balance x u cmd mk val_key log_key delta = ask (\<lambda>s.
     if e_shadow s \<noteq> None \<or> u = system_user x then ret None
     else case cmd of
            None \<Rightarrow> raise ValidationError
          | Some c \<Rightarrow>
              and_then fresh_id (\<lambda>n.
              and_then (log_balance_event x u (mk n c)) (\<lambda>_ s.
                case lua_update_balance (redis_of x) (e_redis s) val_key log_key n delta of
                  (v, r) \<Rightarrow> (Inr (Some v), s\<lparr> e_redis := r \<rparr>))))"

definition increase_cash_balance :: "('m, 'r) env \<Rightarrow> string \<Rightarrow> rat \<Rightarrow> string option \<Rightarrow> ('m, 'r, rat option) eact" where
  "increase_cash_balance x u amount cmd =
     update_balance x u cmd (\<lambda>n c. CashBalanceIncreased n u amount c)
       (get_cash_balance_key x u) (get_cash_balance_hkey x u) amount"

definition decrease_cash_balance :: "('m, 'r) env \<Rightarrow> string \<Rightarrow> rat \<Rightarrow> string option \<Rightarrow> ('m, 'r, rat option) eact" where
  "decrease_cash_balance x u amount cmd =
     update_balance x u cmd (\<lambda>n c. CashBalanceDecreased n u amount c)
       (get_cash_balance_key x u) (get_cash_balance_hkey x u) (- amount)"

definition increase_cash_escrow :: "('m, 'r) env \<Rightarrow> string \<Rightarrow> rat \<Rightarrow> string option \<Rightarrow> ('m, 'r, rat option) eact" where
  "increase_cash_escrow x u amount cmd =
     update_balance x u cmd (\<lambda>n c. CashEscrowIncreased n u amount c)
       (get_cash_escrow_key x u) (get_cash_escrow_hkey x u) amount"

definition decrease_cash_escrow :: "('m, 'r) env \<Rightarrow> string \<Rightarrow> rat \<Rightarrow> string option \<Rightarrow> ('m, 'r, rat option) eact" where
  "decrease_cash_escrow x u amount cmd =
     update_balance x u cmd (\<lambda>n c. CashEscrowDecreased n u amount c)
       (get_cash_escrow_key x u) (get_cash_escrow_hkey x u) (- amount)"

definition increase_asset_balance :: "('m, 'r) env \<Rightarrow> string \<Rightarrow> rat \<Rightarrow> string option \<Rightarrow> ('m, 'r, rat option) eact" where
  "increase_asset_balance x u amount cmd = ask (\<lambda>s.
     update_balance x u cmd (\<lambda>n c. AssetBalanceIncreased n u (e_symbol s) amount c)
       (get_asset_balance_key (e_symbol s) u) (get_asset_balance_hkey (e_symbol s) u) amount)"

definition decrease_asset_balance :: "('m, 'r) env \<Rightarrow> string \<Rightarrow> rat \<Rightarrow> string option \<Rightarrow> ('m, 'r, rat option) eact" where
  "decrease_asset_balance x u amount cmd = ask (\<lambda>s.
     update_balance x u cmd (\<lambda>n c. AssetBalanceDecreased n u (e_symbol s) amount c)
       (get_asset_balance_key (e_symbol s) u) (get_asset_balance_hkey (e_symbol s) u) (- amount))"

definition increase_asset_escrow :: "('m, 'r) env \<Rightarrow> string \<Rightarrow> rat \<Rightarrow> string option \<Rightarrow> ('m, 'r, rat option) eact" where
  "increase_asset_escrow x u amount cmd = ask (\<lambda>s.
     update_balance x u cmd (\<lambda>n c. AssetEscrowIncreased n u (e_symbol s) amount c)
       (get_asset_escrow_key (e_symbol s) u) (get_asset_escrow_hkey (e_symbol s) u) amount)"

definition decrease_asset_escrow :: "('m, 'r) env \<Rightarrow> string \<Rightarrow> rat \<Rightarrow> string option \<Rightarrow> ('m, 'r, rat option) eact" where
  "decrease_asset_escrow x u amount cmd = ask (\<lambda>s.
     update_balance x u cmd (\<lambda>n c. AssetEscrowDecreased n u (e_symbol s) amount c)
       (get_asset_escrow_key (e_symbol s) u) (get_asset_escrow_hkey (e_symbol s) u) (- amount))"

section \<open>Settling\<close>

text \<open>The ids of the nested events are drawn in the order the constructor calls are written.\<close>

definition settle_ask :: "('m, 'r) env \<Rightarrow> string \<Rightarrow> rat \<Rightarrow> rat \<Rightarrow> string option \<Rightarrow> nat \<Rightarrow> ('m, 'r, unit) eact" where
  "settle_ask x u qty price cmd trade_id = ask (\<lambda>s0.
     if e_shadow s0 \<noteq> None \<or> u = system_user x then ret ()
     else case cmd of
            None \<Rightarrow> raise ValidationError
          | Some c \<Rightarrow>
              and_then fresh_id (\<lambda>n_asset.
              and_then fresh_id (\<lambda>n_escrow.
              and_then fresh_id (\<lambda>n_cash.
              and_then fresh_id (\<lambda>n.
              and_then (log_balance_event x u
                 (AskSettled n u (e_symbol s0) qty price
                    (AssetEscrowDecreased n_escrow u (e_symbol s0) qty c)
                    (AssetBalanceDecreased n_asset u (e_symbol s0) qty c)
                    (CashBalanceIncreased n_cash u (qty * price) c) trade_id c)) (\<lambda>_.
              upd (\<lambda>s. s\<lparr> e_redis := lua_settle_ask (redis_of x) (e_redis s)
                 (get_asset_escrow_key (e_symbol s0) u, get_asset_escrow_hkey (e_symbol s0) u,
                  get_asset_balance_key (e_symbol s0) u, get_asset_balance_hkey (e_symbol s0) u,
                  get_cash_balance_key x u, get_cash_balance_hkey x u)
                 qty price n_escrow n_asset n_cash \<rparr>)))))))"

definition settle_bid :: "('m, 'r) env \<Rightarrow> string \<Rightarrow> rat \<Rightarrow> rat \<Rightarrow> string option \<Rightarrow> nat \<Rightarrow> ('m, 'r, unit) eact" where
  "settle_bid x u qty price cmd trade_id = ask (\<lambda>s0.
     if e_shadow s0 \<noteq> None \<or> u = system_user x then ret ()
     else case cmd of
            None \<Rightarrow> raise ValidationError
          | Some c \<Rightarrow>
              and_then fresh_id (\<lambda>n_escrow.
              and_then fresh_id (\<lambda>n_cash.
              and_then fresh_id (\<lambda>n_asset.
              and_then fresh_id (\<lambda>n.
              and_then (log_balance_event x u
                 (BidSettled n u (e_symbol s0) qty price
                    (CashEscrowDecreased n_escrow u (qty * price) c)
                    (CashBalanceDecreased n_cash u (qty * price) c)
                    (AssetBalanceIncreased n_asset u (e_symbol s0) qty c) trade_id c)) (\<lambda>_.
              upd (\<lambda>s. s\<lparr> e_redis := lua_settle_bid (redis_of x) (e_redis s)
                 (get_cash_escrow_key x u, get_cash_escrow_hkey x u,
                  get_cash_balance_key x u, get_cash_balance_hkey x u,
                  get_asset_balance_key (e_symbol s0) u, get_asset_balance_hkey (e_symbol s0) u)
                 qty price n_escrow n_cash n_asset \<rparr>)))))))"

section \<open>Redis is the sum of the published events\<close>

datatype account = CashBalance | CashEscrow | AssetBalance string | AssetEscrow string

fun account_key :: "('m, 'r) env \<Rightarrow> account \<Rightarrow> string \<Rightarrow> string" where
  "account_key x CashBalance u = get_cash_balance_key x u"
| "account_key x CashEscrow u = get_cash_escrow_key x u"
| "account_key x (AssetBalance sy) u = get_asset_balance_key sy u"
| "account_key x (AssetEscrow sy) u = get_asset_escrow_key sy u"

fun account_log :: "('m, 'r) env \<Rightarrow> account \<Rightarrow> string \<Rightarrow> string" where
  "account_log x CashBalance u = get_cash_balance_hkey x u"
| "account_log x CashEscrow u = get_cash_escrow_hkey x u"
| "account_log x (AssetBalance sy) u = get_asset_balance_hkey sy u"
| "account_log x (AssetEscrow sy) u = get_asset_escrow_hkey sy u"

text \<open>What an event moves on an account.\<close>

definition on_acct :: "account \<Rightarrow> string \<Rightarrow> rat \<Rightarrow> account \<Rightarrow> string \<Rightarrow> rat" where
  "on_acct a u v b w = (if a = b \<and> u = w then v else 0)"

fun moved :: "balance_event \<Rightarrow> account \<Rightarrow> string \<Rightarrow> rat" where
  "moved (CashBalanceIncreased n u v c) = on_acct CashBalance u v"
| "moved (CashBalanceDecreased n u v c) = on_acct CashBalance u (- v)"
| "moved (CashEscrowIncreased n u v c) = on_acct CashEscrow u v"
| "moved (CashEscrowDecreased n u v c) = on_acct CashEscrow u (- v)"
| "moved (AssetBalanceIncreased n u sy v c) = on_acct (AssetBalance sy) u v"
| "moved (AssetBalanceDecreased n u sy v c) = on_acct (AssetBalance sy) u (- v)"
| "moved (AssetEscrowIncreased n u sy v c) = on_acct (AssetEscrow sy) u v"
| "moved (AssetEscrowDecreased n u sy v c) = on_acct (AssetEscrow sy) u (- v)"
| "moved (AskSettled n u sy q p e1 e2 e3 t c) = (\<lambda>a w. moved e1 a w + moved e2 a w + moved e3 a w)"
| "moved (BidSettled n u sy q p e1 e2 e3 t c) = (\<lambda>a w. moved e1 a w + moved e2 a w + moved e3 a w)"

fun msg_moved :: "kafka_msg \<Rightarrow> account \<Rightarrow> string \<Rightarrow> rat" where
  "msg_moved km a u = (case km_event km of BalanceEvent ev \<Rightarrow> moved ev a u | _ \<Rightarrow> 0)"

definition total_moved :: "kafka_msg list \<Rightarrow> account \<Rightarrow> string \<Rightarrow> rat" where
  "total_moved kms a u = sum_list (map (\<lambda>km. msg_moved km a u) kms)"

definition accounts :: "string \<Rightarrow> account set" where
  "accounts sy = {CashBalance, CashEscrow, AssetBalance sy, AssetEscrow sy}"

text \<open>
  The configured prefixes keep the keys apart: no two accounts share a number, and no log has the key
  of a number.
\<close>

definition keys_apart :: "('m, 'r) env \<Rightarrow> string \<Rightarrow> bool" where
  "keys_apart x sy \<longleftrightarrow>
     (\<forall>a \<in> accounts sy. \<forall>b \<in> accounts sy. \<forall>u w.
        (account_key x a u = account_key x b w \<longrightarrow> a = b \<and> u = w) \<and> account_key x a u \<noteq> account_log x b w)"

definition fresh_logs :: "('m, 'r) env \<Rightarrow> ('m, 'r) engine \<Rightarrow> bool" where
  "fresh_logs x s \<longleftrightarrow>
     (\<forall>a \<in> accounts (e_symbol s). \<forall>u. \<forall>n \<ge> e_uuid s. \<not> r_hexists (redis_of x) (e_redis s) (account_log x a u) n)"

definition acct :: "('m, 'r) env \<Rightarrow> ('m, 'r) engine \<Rightarrow> account \<Rightarrow> string \<Rightarrow> rat" where
  "acct x s a u = num_at (redis_of x) (e_redis s) (account_key x a u)"

definition acct_set :: "('m, 'r) env \<Rightarrow> ('m, 'r) engine \<Rightarrow> account \<Rightarrow> string \<Rightarrow> bool" where
  "acct_set x s a u \<longleftrightarrow> r_get (redis_of x) (e_redis s) (account_key x a u) \<noteq> None"

definition sourced :: "('m, 'r) env \<Rightarrow> ('m, 'r) engine \<Rightarrow> ('m, 'r) engine \<Rightarrow> bool" where
  "sourced x s t \<longleftrightarrow>
     e_symbol t = e_symbol s \<and>
     (keys_apart x (e_symbol s) \<and> fresh_logs x s \<longrightarrow>
        fresh_logs x t \<and>
        (\<forall>u. acct_set x s CashBalance u \<longrightarrow> acct_set x t CashBalance u) \<and>
        (\<exists>kms. e_kafka t = e_kafka s @ kms \<and>
           (\<forall>a \<in> accounts (e_symbol s). \<forall>u. (a = CashBalance \<longrightarrow> acct_set x s a u) \<longrightarrow>
              acct x t a u = acct x s a u + total_moved kms a u)))"

lemma total_moved_simps [simp]:
  "total_moved [] a u = 0" "total_moved (km # kms) a u = msg_moved km a u + total_moved kms a u"
  "total_moved (kms @ lms) a u = total_moved kms a u + total_moved lms a u"
  by (simp_all add: total_moved_def)

interpretation src: frame "sourced x" for x :: "('m, 'r) env"
proof
  fix s t w :: "('m, 'r) engine"
  show "sourced x s s" by (auto simp: sourced_def intro!: exI[of _ "[]"])
  assume st: "sourced x s t" and tw: "sourced x t w"
  show "sourced x s w"
  proof (cases "keys_apart x (e_symbol s) \<and> fresh_logs x s")
    case False
    then show ?thesis using st tw by (auto simp: sourced_def)
  next
    case True
    from st True obtain k1 where k1: "e_kafka t = e_kafka s @ k1" "fresh_logs x t" "e_symbol t = e_symbol s"
        "\<And>u. acct_set x s CashBalance u \<Longrightarrow> acct_set x t CashBalance u"
        "\<And>a u. a \<in> accounts (e_symbol s) \<Longrightarrow> (a = CashBalance \<longrightarrow> acct_set x s a u) \<Longrightarrow>
           acct x t a u = acct x s a u + total_moved k1 a u"
      unfolding sourced_def by blast
    from tw True k1 obtain k2 where k2: "e_kafka w = e_kafka t @ k2" "fresh_logs x w" "e_symbol w = e_symbol t"
        "\<And>u. acct_set x t CashBalance u \<Longrightarrow> acct_set x w CashBalance u"
        "\<And>a u. a \<in> accounts (e_symbol s) \<Longrightarrow> (a = CashBalance \<longrightarrow> acct_set x t a u) \<Longrightarrow>
           acct x w a u = acct x t a u + total_moved k2 a u"
      unfolding sourced_def by metis
    have "acct x w a u = acct x s a u + total_moved (k1 @ k2) a u"
      if "a \<in> accounts (e_symbol s)" "a = CashBalance \<longrightarrow> acct_set x s a u" for a u
      using that k1(4)[of u] k1(5)[OF that] k2(5)[of a u] by auto
    then show ?thesis
      using k1 k2 unfolding sourced_def by (auto intro!: exI[of _ "k1 @ k2"])
  qed
qed

text \<open>Code that leaves Redis alone and publishes no balance event stays inside the relation.\<close>

lemma sourced_quiet:
  assumes "e_redis t = e_redis s" "e_symbol t = e_symbol s" "e_uuid s \<le> e_uuid t"
    and "e_kafka t = e_kafka s @ kms" "\<And>a u. total_moved kms a u = 0"
  shows "sourced x s t"
  using assms by (auto simp: sourced_def fresh_logs_def acct_def acct_set_def)

section \<open>Runs of movements\<close>

type_synonym move = "account \<times> nat \<times> rat \<times> rat"

fun run_moves :: "('m, 'r) env \<Rightarrow> string \<Rightarrow> move list \<Rightarrow> 'r \<Rightarrow> 'r" where
  "run_moves x u [] r = r"
| "run_moves x u ((a, ev, v, l) # ms) r =
     run_moves x u ms (lua_step (redis_of x) (account_key x a u) (account_log x a u) ev v l r)"

fun moves_sum :: "string \<Rightarrow> move list \<Rightarrow> account \<Rightarrow> string \<Rightarrow> rat" where
  "moves_sum u [] b w = 0"
| "moves_sum u ((a, ev, v, l) # ms) b w = on_acct a u v b w + moves_sum u ms b w"

locale balance_env = redis "redis_of x" for x :: "('m, 'r) env"
begin

lemma apart:
  assumes "keys_apart x sy" "a \<in> accounts sy" "b \<in> accounts sy"
  shows "account_key x a u = account_key x b w \<longleftrightarrow> a = b \<and> u = w"
    and "account_key x a u \<noteq> account_log x b w" and "account_log x b w \<noteq> account_key x a u"
  using assms unfolding keys_apart_def by metis+

lemma run_moves_hexists:
  assumes ap: "keys_apart x sy" and b: "b \<in> accounts sy"
    and "fst ` set ms \<subseteq> accounts sy" "f \<notin> (fst \<circ> snd) ` set ms"
  shows "r_hexists (redis_of x) (run_moves x u ms r) (account_log x b w) f =
         r_hexists (redis_of x) r (account_log x b w) f"
  using assms(3,4)
proof (induction ms arbitrary: r)
  case (Cons mv ms)
  obtain a ev v l where mv: "mv = (a, ev, v, l)" by (cases mv)
  then show ?case
    using Cons hexists_step[OF apart(3)[OF ap _ b]] by simp
qed simp

lemma run_moves_set:
  assumes ap: "keys_apart x sy" and b: "b \<in> accounts sy" and "fst ` set ms \<subseteq> accounts sy"
    and "r_get (redis_of x) r (account_key x b w) \<noteq> None"
  shows "r_get (redis_of x) (run_moves x u ms r) (account_key x b w) \<noteq> None"
  using assms(3,4)
proof (induction ms arbitrary: r)
  case (Cons mv ms)
  obtain a ev v l where mv: "mv = (a, ev, v, l)" by (cases mv)
  have "r_get (redis_of x) (lua_step (redis_of x) (account_key x a u) (account_log x a u) ev v l r)
          (account_key x b w) \<noteq> None"
    using Cons(2,3) mv get_step[OF apart(2)[OF ap b, of a]] by simp
  then show ?case using Cons mv by simp
qed simp

lemma run_moves_num:
  assumes ap: "keys_apart x sy" and b: "b \<in> accounts sy" and "fst ` set ms \<subseteq> accounts sy"
    and "distinct (map (fst \<circ> snd) ms)"
    and "\<And>a ev v l w. (a, ev, v, l) \<in> set ms \<Longrightarrow> \<not> r_hexists (redis_of x) r (account_log x a u) ev"
  shows "num_at (redis_of x) (run_moves x u ms r) (account_key x b w) =
         num_at (redis_of x) r (account_key x b w) + moves_sum u ms b w"
  using assms(3-5)
proof (induction ms arbitrary: r)
  case (Cons mv ms)
  obtain a ev v l where mv: "mv = (a, ev, v, l)" by (cases mv)
  let ?r = "lua_step (redis_of x) (account_key x a u) (account_log x a u) ev v l r"
  have a: "a \<in> accounts sy" using Cons mv by simp
  have "\<not> r_hexists (redis_of x) ?r (account_log x a' u) ev'" if "(a', ev', v', l') \<in> set ms" for a' ev' v' l'
  proof -
    have "a' \<in> accounts sy" "ev' \<noteq> ev" using that Cons(2,3) mv by force+
    then show ?thesis using that Cons(4) hexists_step[OF apart(3)[OF ap a]] mv by auto
  qed
  then have "num_at (redis_of x) (run_moves x u ms ?r) (account_key x b w) =
             num_at (redis_of x) ?r (account_key x b w) + moves_sum u ms b w"
    using Cons mv by (intro Cons.IH) auto
  moreover have "\<not> r_hexists (redis_of x) r (account_log x a u) ev" using Cons(4) mv by auto
  then have "num_at (redis_of x) ?r (account_key x b w) =
             num_at (redis_of x) r (account_key x b w) + on_acct a u v b w"
    using num_step[OF apart(2)[OF ap b a]] apart(1)[OF ap b a] by (auto simp: on_acct_def)
  ultimately show ?case using mv by simp
qed simp

text \<open>Publishing one event and running its movements under fresh ids stays inside the relation.\<close>

lemma sourced_moves:
  assumes "e_redis t = run_moves x u ms (e_redis s)" "e_symbol t = e_symbol s"
    and "e_kafka t = e_kafka s @ [km]" "e_uuid s \<le> e_uuid t"
    and "fst ` set ms \<subseteq> accounts (e_symbol s)" "distinct (map (fst \<circ> snd) ms)"
    and ids: "(fst \<circ> snd) ` set ms \<subseteq> {e_uuid s..<e_uuid t}"
    and mv: "\<And>a w. msg_moved km a w = moves_sum u ms a w"
  shows "sourced x s t"
proof -
  have "fresh_logs x t \<and> (\<forall>w. acct_set x s CashBalance w \<longrightarrow> acct_set x t CashBalance w) \<and>
        (\<forall>a \<in> accounts (e_symbol s). \<forall>w. acct x t a w = acct x s a w + total_moved [km] a w)"
    if ap: "keys_apart x (e_symbol s)" and fr: "fresh_logs x s"
  proof (intro conjI ballI allI impI)
    show "fresh_logs x t"
      unfolding fresh_logs_def
    proof (intro ballI allI impI)
      fix a w n assume a: "a \<in> accounts (e_symbol t)" and n: "e_uuid t \<le> n"
      have "n \<notin> (fst \<circ> snd) ` set ms" using ids n by fastforce
      moreover have "\<not> r_hexists (redis_of x) (e_redis s) (account_log x a w) n"
        using fr a n assms(2,4) unfolding fresh_logs_def by (metis order_trans)
      ultimately show "\<not> r_hexists (redis_of x) (e_redis t) (account_log x a w) n"
        using run_moves_hexists[OF ap, of a ms n u "e_redis s" w] a assms(1,2,5) by simp
    qed
  next
    fix w assume "acct_set x s CashBalance w"
    then show "acct_set x t CashBalance w"
      using run_moves_set[OF ap, of CashBalance ms "e_redis s" w u] assms(1,5)
      by (simp add: acct_set_def accounts_def)
  next
    fix a w assume a: "a \<in> accounts (e_symbol s)"
    have "\<not> r_hexists (redis_of x) (e_redis s) (account_log x b u) ev" if "(b, ev, v, l) \<in> set ms" for b ev v l
    proof -
      have "b \<in> accounts (e_symbol s)" "e_uuid s \<le> ev" using that assms(5) ids by force+
      then show ?thesis using fr unfolding fresh_logs_def by blast
    qed
    then show "acct x t a w = acct x s a w + total_moved [km] a w"
      using run_moves_num[OF ap a, of ms "e_redis s" u w] assms(1,5,6) mv by (simp add: acct_def)
  qed
  then show ?thesis unfolding sourced_def using assms(2,3) by blast
qed

lemma sourced_default:
  assumes "e_redis t = r_set (redis_of x) (e_redis s) (account_key x a u) v"
    and "r_get (redis_of x) (e_redis s) (account_key x a u) = None" "a = CashBalance \<or> v = 0"
    and a: "a \<in> accounts (e_symbol s)"
    and same: "e_symbol t = e_symbol s" "e_kafka t = e_kafka s" "e_uuid t = e_uuid s"
  shows "sourced x s t"
proof -
  have "fresh_logs x t \<and> (\<forall>w. acct_set x s CashBalance w \<longrightarrow> acct_set x t CashBalance w) \<and>
        (\<forall>b \<in> accounts (e_symbol s). \<forall>w. (b = CashBalance \<longrightarrow> acct_set x s b w) \<longrightarrow> acct x t b w = acct x s b w)"
    if ap: "keys_apart x (e_symbol s)" and fr: "fresh_logs x s"
  proof (intro conjI ballI allI impI)
    show "fresh_logs x t"
      using fr assms(1) same hexists_set[OF apart(3)[OF ap a]]
      unfolding fresh_logs_def by simp
  next
    fix b w assume b: "b \<in> accounts (e_symbol s)" and "b = CashBalance \<longrightarrow> acct_set x s b w"
    then show "acct x t b w = acct x s b w"
      using assms(1-3) apart(1)[OF ap b a, of w u] by (auto simp: acct_def num_at_def get_set acct_set_def)
  qed (use assms(1) in \<open>auto simp: acct_set_def get_set\<close>)
  then show ?thesis unfolding sourced_def using same by (auto intro!: exI[of _ "[]"])
qed

lemma sourced_get_or_set:
  assumes "a = CashBalance \<or> v = 0" "\<And>s :: ('m, 'r) engine. a \<in> accounts (e_symbol s)"
  shows "stays (sourced x) (get_or_set x (account_key x a u) v)"
proof (rule staysI)
  fix s :: "('m, 'r) engine"
  show "sourced x s (snd (get_or_set x (account_key x a u) v s))"
    using assms sourced_default[of "s\<lparr> e_redis := r_set (redis_of x) (e_redis s) (account_key x a u) v \<rparr>" s a u v]
    by (auto simp: get_or_set_def src.frame_refl split: option.splits)
qed

lemma sourced_cash_available: "stays (sourced x) (get_available_cash_balance x u)"
  unfolding get_available_cash_balance_def get_cash_balance_def get_cash_escrow_def
  using sourced_get_or_set[of CashBalance get_default_cash_balance u] sourced_get_or_set[of CashEscrow 0 u]
  by (auto intro!: src.stays_intros simp: accounts_def)

lemma sourced_asset_available: "stays (sourced x) (get_available_asset_balance x u)"
proof (rule staysI)
  fix s :: "('m, 'r) engine"
  let ?kb = "get_asset_balance_key (e_symbol s) u" and ?ke = "get_asset_escrow_key (e_symbol s) u"
  define s1 where "s1 = (if r_get (redis_of x) (e_redis s) ?kb = None
                         then s\<lparr> e_redis := r_set (redis_of x) (e_redis s) ?kb 0 \<rparr> else s)"
  define s2 where "s2 = (if r_get (redis_of x) (e_redis s) ?ke = None
                         then s1\<lparr> e_redis := r_set (redis_of x) (e_redis s1) ?ke 0 \<rparr> else s1)"
  have sy: "e_symbol s1 = e_symbol s" by (simp add: s1_def)
  have 1: "sourced x s s1"
    using sourced_default[of s1 s "AssetBalance (e_symbol s)" u 0]
    by (auto simp: s1_def accounts_def src.frame_refl)
  have 2: "sourced x s1 s2" if ap: "keys_apart x (e_symbol s)"
  proof -
    have "?ke \<noteq> ?kb"
      using apart(1)[OF ap, of "AssetEscrow (e_symbol s)" "AssetBalance (e_symbol s)" u u] by (simp add: accounts_def)
    then have "r_get (redis_of x) (e_redis s1) ?ke = r_get (redis_of x) (e_redis s) ?ke"
      by (simp add: s1_def get_set)
    then show ?thesis
      using sourced_default[of s2 s1 "AssetEscrow (e_symbol s)" u 0] sy
      by (auto simp: s2_def accounts_def src.frame_refl)
  qed
  have "sourced x s s2"
  proof (cases "keys_apart x (e_symbol s)")
    case True
    then show ?thesis using 1 2 src.frame_trans by blast
  next
    case False
    then show ?thesis by (simp add: sourced_def s2_def s1_def)
  qed
  moreover have "snd (get_available_asset_balance x u s) = s2"
    by (simp add: get_available_asset_balance_def s1_def s2_def act_simps Let_def)
  ultimately show "sourced x s (snd (get_available_asset_balance x u s))" by simp
qed

lemma sourced_update:
  assumes "a \<in> accounts (e_symbol s)" "\<And>n c. moved (mk n c) = on_acct a u delta"
  shows "sourced x s (snd (update_balance x u cmd mk (account_key x a u) (account_log x a u) delta s))"
proof (cases "e_shadow s \<noteq> None \<or> u = system_user x \<or> cmd = None")
  case True
  then show ?thesis
    by (auto simp: update_balance_def act_simps src.frame_refl split: option.splits)
next
  case False
  then obtain c where c: "cmd = Some c" "e_shadow s = None" "u \<noteq> system_user x"
    using not_None_eq[of cmd] by blast
  show ?thesis
    by (rule sourced_moves[where ms = "[(a, e_uuid s, delta, delta)]" and u = u and
          km = "\<lparr> km_key = Some (e_symbol s), km_user = u, km_category = BALANCE_CAT,
                  km_event = BalanceEvent (mk (e_uuid s) c) \<rparr>"])
       (use assms c in \<open>auto simp: update_balance_def act_simps fresh_id_def log_balance_event_def
          log_event_def send_event_def update_is_step[symmetric] split: prod.splits\<close>)
qed

lemmas move_defs = increase_cash_balance_def decrease_cash_balance_def increase_cash_escrow_def
  decrease_cash_escrow_def increase_asset_balance_def decrease_asset_balance_def
  increase_asset_escrow_def decrease_asset_escrow_def

lemma sourced_update_ask:
  assumes "\<And>s. a s \<in> accounts (e_symbol s)" "\<And>s n c. moved (mk s n c) = on_acct (a s) u delta"
  shows "stays (sourced x) (ask (\<lambda>s.
           update_balance x u cmd (mk s) (account_key x (a s) u) (account_log x (a s) u) delta))"
  by (rule staysI) (simp add: ask_def sourced_update assms)

lemma sourced_cash_ops:
  "stays (sourced x) (increase_cash_balance x u v cmd)"
  "stays (sourced x) (decrease_cash_balance x u v cmd)"
  "stays (sourced x) (increase_cash_escrow x u v cmd)"
  "stays (sourced x) (decrease_cash_escrow x u v cmd)"
  using sourced_update_ask[of "\<lambda>_. CashBalance" "\<lambda>_ n c. CashBalanceIncreased n u v c" u v cmd]
    sourced_update_ask[of "\<lambda>_. CashBalance" "\<lambda>_ n c. CashBalanceDecreased n u v c" u "- v" cmd]
    sourced_update_ask[of "\<lambda>_. CashEscrow" "\<lambda>_ n c. CashEscrowIncreased n u v c" u v cmd]
    sourced_update_ask[of "\<lambda>_. CashEscrow" "\<lambda>_ n c. CashEscrowDecreased n u v c" u "- v" cmd]
  by (simp_all add: move_defs accounts_def ask_def[abs_def])

lemma sourced_asset_ops:
  "stays (sourced x) (increase_asset_balance x u v cmd)"
  "stays (sourced x) (decrease_asset_balance x u v cmd)"
  "stays (sourced x) (increase_asset_escrow x u v cmd)"
  "stays (sourced x) (decrease_asset_escrow x u v cmd)"
  using sourced_update_ask[of "\<lambda>s. AssetBalance (e_symbol s)" "\<lambda>s n c. AssetBalanceIncreased n u (e_symbol s) v c" u v cmd]
    sourced_update_ask[of "\<lambda>s. AssetBalance (e_symbol s)" "\<lambda>s n c. AssetBalanceDecreased n u (e_symbol s) v c" u "- v" cmd]
    sourced_update_ask[of "\<lambda>s. AssetEscrow (e_symbol s)" "\<lambda>s n c. AssetEscrowIncreased n u (e_symbol s) v c" u v cmd]
    sourced_update_ask[of "\<lambda>s. AssetEscrow (e_symbol s)" "\<lambda>s n c. AssetEscrowDecreased n u (e_symbol s) v c" u "- v" cmd]
  by (simp_all add: move_defs accounts_def)

lemma sourced_settle_ask: "stays (sourced x) (settle_ask x u qty price cmd tid)"
proof (rule staysI)
  fix s :: "('m, 'r) engine"
  show "sourced x s (snd (settle_ask x u qty price cmd tid s))"
  proof (cases "e_shadow s \<noteq> None \<or> u = system_user x \<or> cmd = None")
    case True
    then show ?thesis by (auto simp: settle_ask_def act_simps src.frame_refl split: option.splits)
  next
    case False
    then obtain c where c: "cmd = Some c" "e_shadow s = None" "u \<noteq> system_user x"
    using not_None_eq[of cmd] by blast
    let ?n = "e_uuid s"
    show ?thesis
      by (rule sourced_moves[where u = u and
            ms = "[(AssetEscrow (e_symbol s), Suc ?n, - qty, qty), (AssetBalance (e_symbol s), ?n, - qty, qty),
                   (CashBalance, Suc (Suc ?n), qty * price, qty * price)]" and
            km = "\<lparr> km_key = Some (e_symbol s), km_user = u, km_category = BALANCE_CAT,
                    km_event = BalanceEvent (AskSettled (Suc (Suc (Suc ?n))) u (e_symbol s) qty price
                      (AssetEscrowDecreased (Suc ?n) u (e_symbol s) qty c)
                      (AssetBalanceDecreased ?n u (e_symbol s) qty c)
                      (CashBalanceIncreased (Suc (Suc ?n)) u (qty * price) c) tid c) \<rparr>"])
         (use c in \<open>auto simp: settle_ask_def act_simps fresh_id_def log_balance_event_def
            log_event_def send_event_def lua_settle_ask_def accounts_def Let_def\<close>)
  qed
qed

lemma sourced_settle_bid: "stays (sourced x) (settle_bid x u qty price cmd tid)"
proof (rule staysI)
  fix s :: "('m, 'r) engine"
  show "sourced x s (snd (settle_bid x u qty price cmd tid s))"
  proof (cases "e_shadow s \<noteq> None \<or> u = system_user x \<or> cmd = None")
    case True
    then show ?thesis by (auto simp: settle_bid_def act_simps src.frame_refl split: option.splits)
  next
    case False
    then obtain c where c: "cmd = Some c" "e_shadow s = None" "u \<noteq> system_user x"
    using not_None_eq[of cmd] by blast
    let ?n = "e_uuid s"
    show ?thesis
      by (rule sourced_moves[where u = u and
            ms = "[(CashEscrow, ?n, - (qty * price), qty * price), (CashBalance, Suc ?n, - (qty * price), qty * price),
                   (AssetBalance (e_symbol s), Suc (Suc ?n), qty, qty)]" and
            km = "\<lparr> km_key = Some (e_symbol s), km_user = u, km_category = BALANCE_CAT,
                    km_event = BalanceEvent (BidSettled (Suc (Suc (Suc ?n))) u (e_symbol s) qty price
                      (CashEscrowDecreased ?n u (qty * price) c)
                      (CashBalanceDecreased (Suc ?n) u (qty * price) c)
                      (AssetBalanceIncreased (Suc (Suc ?n)) u (e_symbol s) qty c) tid c) \<rparr>"])
         (use c in \<open>auto simp: settle_bid_def act_simps fresh_id_def log_balance_event_def
            log_event_def send_event_def lua_settle_bid_def accounts_def Let_def\<close>)
  qed
qed

end

text \<open>A concrete environment, with Redis as two association lists and the levels in an association list.\<close>

definition demo_env :: "((rat \<times> price_level) list, redis_maps) env" where
  "demo_env = \<lparr> system_user = ''SYS'', cash_balance_prefix = ''CB/'', cash_balance_hprefix = ''CBL/'',
                cash_escrow_prefix = ''CE/'', cash_escrow_hprefix = ''CEL/'',
                is_uuid = (\<lambda>i. i \<noteq> []), levels_api = alist_sdict, redis_of = maps_redis \<rparr>"

lemma demo_env_simps [simp]:
  "system_user demo_env = ''SYS''" "cash_balance_prefix demo_env = ''CB/''"
  "cash_balance_hprefix demo_env = ''CBL/''" "cash_escrow_prefix demo_env = ''CE/''"
  "cash_escrow_hprefix demo_env = ''CEL/''" "is_uuid demo_env = (\<lambda>i. i \<noteq> [])"
  "levels_api demo_env = alist_sdict" "redis_of demo_env = maps_redis"
  by (simp_all add: demo_env_def)

interpretation dm: balance_env demo_env
  unfolding balance_env_def by (simp add: mr.redis_axioms)

lemma asset_key_inj:
  "sy @ '':'' @ u @ '':balance'' = sy @ '':'' @ w @ '':balance'' \<longleftrightarrow> u = w" by simp

lemma asset_keys_differ:
  "sy @ '':'' @ u @ '':balance'' \<noteq> sy @ '':'' @ w @ '':escrow''"
  "sy @ '':'' @ u @ '':balance'' \<noteq> sy @ '':'' @ w @ '':balance:log''"
  "sy @ '':'' @ u @ '':balance'' \<noteq> sy @ '':'' @ w @ '':escrow:log''"
  "sy @ '':'' @ u @ '':escrow'' \<noteq> sy @ '':'' @ w @ '':balance:log''"
  "sy @ '':'' @ u @ '':escrow'' \<noteq> sy @ '':'' @ w @ '':escrow:log''"
proof -
  have last: "xs \<noteq> ys" if "last xs \<noteq> last ys" for xs ys :: string using that by blast
  show "sy @ '':'' @ u @ '':balance'' \<noteq> sy @ '':'' @ w @ '':escrow''" by (rule last) simp
  show "sy @ '':'' @ u @ '':balance'' \<noteq> sy @ '':'' @ w @ '':balance:log''" by (rule last) simp
  show "sy @ '':'' @ u @ '':balance'' \<noteq> sy @ '':'' @ w @ '':escrow:log''" by (rule last) simp
  show "sy @ '':'' @ u @ '':escrow'' \<noteq> sy @ '':'' @ w @ '':balance:log''" by (rule last) simp
  show "sy @ '':'' @ u @ '':escrow'' \<noteq> sy @ '':'' @ w @ '':escrow:log''" by (rule last) simp
qed

lemma demo_keys_apart: "keys_apart demo_env ''BTC''"
  using asset_keys_differ[of "''BTC''"]
  by (auto simp: keys_apart_def accounts_def get_asset_balance_key_def get_asset_escrow_key_def
        get_asset_balance_hkey_def get_asset_escrow_hkey_def get_cash_balance_key_def
        get_cash_escrow_key_def get_cash_balance_hkey_def get_cash_escrow_hkey_def)

end
