(* ===== verification/Strategies.thy ===== *)
theory Strategies imports Balance_Manager begin

text \<open>
  What a strategy does when one of its orders is cancelled or filled (\<open>engine/strategies\<close>), and the
  part of \<open>matching_engines/spot_engine.py\<close> these handlers call back into: \<open>_release_escrow\<close> and
  \<open>_check_sufficient_balance\<close>. The handlers never start a match, so they come before the matching
  loop; the handlers for new orders and modifications follow it, in the theory \<open>Spot_Engine\<close>.

  An order is given by the address of its object; its fields are read at the moment the source
  reads them. A missing link (\<open>None\<close>) raises \<open>AttributeError\<close> when the source uses it as an order.
\<close>

section \<open>Small pieces\<close>

definition discard :: "('s, 'a) act \<Rightarrow> ('s, unit) act" where
  "discard m = and_then m (\<lambda>_. ret ())"

definition linked :: "nat option \<Rightarrow> (nat \<Rightarrow> ('m, 'r, unit) eact) \<Rightarrow> ('m, 'r, unit) eact" where
  "linked lk f = (case lk of None \<Rightarrow> raise AttributeError | Some r \<Rightarrow> f r)"

context frame
begin

lemma stays_discard: "stays R m \<Longrightarrow> stays R (discard m)"
  unfolding discard_def by (intro stays_and_then stays_ret)

lemma stays_side: "stays R m \<Longrightarrow> stays R n \<Longrightarrow> stays R (case sd of BID \<Rightarrow> m | ASK \<Rightarrow> n)"
  by (cases sd) simp_all

end

lemma stays_linked:
  "frame R \<Longrightarrow> (\<And>r. stays R (f r)) \<Longrightarrow> stays R (linked lk f)"
  by (cases lk) (simp_all add: linked_def frame.stays_raise)

text \<open>An order event about \<open>r\<close> in the name of the order's own user.\<close>

definition log_own ::
    "('m, 'r) env \<Rightarrow> order_event_type \<Rightarrow> nat \<Rightarrow> event_details option \<Rightarrow> ('m, 'r, unit) eact" where
  "log_own x t r details = ask (\<lambda>s. log_about x (user_id (obj s r)) t r details)"

text \<open>An order event that leaves out the order's dictionary.\<close>

definition log_bare ::
    "('m, 'r) env \<Rightarrow> order_event_type \<Rightarrow> nat \<Rightarrow> event_details option \<Rightarrow> ('m, 'r, unit) eact" where
  "log_bare x t r details = ask (\<lambda>s.
     log_order_event x (user_id (obj s r)) (order_event_of s t (order_id (obj s r)) details None))"

section \<open>Escrow and funds\<close>

text \<open>A quantity times a price that may be missing, or that the order type does not have.\<close>

definition times_price :: "rat \<Rightarrow> order \<Rightarrow> exn + rat" where
  "times_price q od =
     (case order_price od of Inl e \<Rightarrow> Inl e | Inr None \<Rightarrow> Inl TypeError | Inr (Some p) \<Rightarrow> Inr (q * p))"

definition release_escrow :: "('m, 'r) env \<Rightarrow> nat \<Rightarrow> ('m, 'r, unit) eact" where
  "release_escrow x r = ask (\<lambda>s.
     let od = obj s r; unfilled_qty = quantity od - executed_quantity od
     in case o_side od of
          BID \<Rightarrow> only_if (0 < unfilled_qty)
                   (and_then (of_res (times_price unfilled_qty od)) (\<lambda>amount.
                      discard (decrease_cash_escrow x (user_id od) amount (e_cmd s))))
        | ASK \<Rightarrow> only_if (0 < unfilled_qty)
                   (discard (decrease_asset_escrow x (user_id od) unfilled_qty (e_cmd s))))"

definition ctx_release_escrow :: "('m, 'r) env \<Rightarrow> nat \<Rightarrow> ('m, 'r, unit) eact" where
  "ctx_release_escrow x r = ask (\<lambda>s. if attached s then release_escrow x r else raise AttributeError)"

text \<open>
  The funds check; a shadow engine answers from the batch it replays instead: it reports missing
  funds when the next event of the batch is a cancellation.
\<close>

fun is_cancelled :: "engine_event \<Rightarrow> bool" where
  "is_cancelled (OrderEvent ev) = (oe_type ev = ORDER_CANCELLED)"
| "is_cancelled _ = False"

definition shadow_check :: "engine_event list \<Rightarrow> nat \<Rightarrow> bool" where
  "shadow_check batch i = (if length batch \<le> i + 1 then True else \<not> is_cancelled (batch ! (i + 1)))"

definition check_sufficient_balance ::
    "('m, 'r) env \<Rightarrow> nat \<Rightarrow> rat \<Rightarrow> rat option \<Rightarrow> ('m, 'r, bool) eact" where
  "check_sufficient_balance x r q price = ask (\<lambda>s.
     let od = obj s r
     in case e_shadow s of
          Some (batch, i) \<Rightarrow> ret (shadow_check batch i)
        | None \<Rightarrow>
            if user_id od = system_user x then ret True
            else if o_type od = MARKET then raise NotImplementedError
            else case o_side od of
                   ASK \<Rightarrow> and_then (get_available_asset_balance x (user_id od)) (\<lambda>v. ret (q \<le> v))
                 | BID \<Rightarrow>
                     (case price of
                        None \<Rightarrow> raise TypeError
                      | Some p \<Rightarrow> and_then (get_available_cash_balance x (user_id od)) (\<lambda>v. ret (q * p \<le> v))))"

section \<open>Single orders\<close>

definition single_handle_filled :: "('m, 'r) env \<Rightarrow> nat \<Rightarrow> ('m, 'r, unit) eact" where
  "single_handle_filled x r = ret ()"

definition single_handle_cancel :: "('m, 'r) env \<Rightarrow> nat \<Rightarrow> ('m, 'r, unit) eact" where
  "single_handle_cancel x r =
     run_all
       [log_own x ORDER_CANCELLED r (Some (Reason ''User cancelled order.'')),
        remove_at_price x r,
        store_remove r,
        ctx_release_escrow x r]"

section \<open>One cancels the other\<close>

definition oco_handle_filled :: "('m, 'r) env \<Rightarrow> nat \<Rightarrow> ('m, 'r, unit) eact" where
  "oco_handle_filled x r = ask (\<lambda>s.
     and_then (of_res (get_counterparty (links (obj s r)))) (\<lambda>cp. linked cp (\<lambda>c.
       run_all
         [log_about x (user_id (obj s r)) ORDER_CANCELLED c 
            (Some (Reason (''OCO peer '' @ order_id (obj s r) @ '' was filled.''))),
          remove_at_price x c,
          store_remove c,
          ctx_release_escrow x r])))"

definition oco_handle_cancel :: "('m, 'r) env \<Rightarrow> nat \<Rightarrow> ('m, 'r, unit) eact" where
  "oco_handle_cancel x r = ask (\<lambda>s.
     and_then (of_res (get_counterparty (links (obj s r)))) (\<lambda>cp.
       run_all
         [log_own x ORDER_CANCELLED r (Some (Reason ''Client requested cancel.'')),
          linked cp (\<lambda>c. log_about x (user_id (obj s r)) ORDER_CANCELLED c (Some (Reason ''Client requested cancel.''))),
          remove_at_price x r,
          linked cp (remove_at_price x),
          store_remove r,
          linked cp store_remove,
          ctx_release_escrow x r]))"

text \<open>\<open>_cancel\<close> is in the class and nothing calls it.\<close>

definition oco_cancel :: "('m, 'r) env \<Rightarrow> nat \<Rightarrow> ('m, 'r, unit) eact" where
  "oco_cancel x r = ask (\<lambda>s.
     run_all
       [remove_at_price x r,
        and_then (of_res (get_counterparty (links (obj s r)))) (\<lambda>cp. linked cp (remove_at_price x)),
        store_remove r,
        and_then (of_res (get_counterparty (links (obj s r)))) (\<lambda>cp. linked cp store_remove),
        ctx_release_escrow x r,
        and_then (of_res (get_counterparty (links (obj s r)))) (\<lambda>cp. linked cp (ctx_release_escrow x))])"

section \<open>One triggers the other\<close>

definition oto_handle_filled :: "('m, 'r) env \<Rightarrow> nat \<Rightarrow> ('m, 'r, unit) eact" where
  "oto_handle_filled x r = ask (\<lambda>s.
     and_then (of_res (get_child (links (obj s r)))) (\<lambda>ch.
       case ch of
         None \<Rightarrow> ret ()
       | Some c \<Rightarrow>
           only_if (executed_quantity (obj s r) = quantity (obj s r))
             (run_all
                [set_obj c (\<lambda>od. od\<lparr> links := set_active True (links od) \<rparr>),
                 log_own x ORDER_PLACED c None,
                 append_at_price x c,
                 store_add c])))"

definition oto_handle_cancel :: "('m, 'r) env \<Rightarrow> nat \<Rightarrow> ('m, 'r, unit) eact" where
  "oto_handle_cancel x r = ask (\<lambda>s.
     and_then (of_res (get_child (links (obj s r)))) (\<lambda>ch.
       case ch of
         Some c \<Rightarrow>
           run_all
             [log_own x ORDER_CANCELLED r (Some (Reason ''Parent order cancelled.'')),
              remove_at_price x r,
              store_remove r,
              store_remove c,
              ctx_release_escrow x r]
       | None \<Rightarrow>
           and_then (of_res (get_active (links (obj s r)))) (\<lambda>act.
             if act
             then run_all
                    [log_own x ORDER_CANCELLED r (Some (Reason ''User cancelled active child order.'')),
                     remove_at_price x r,
                     store_remove r,
                     ctx_release_escrow x r]
             else and_then (of_res (get_parent (links (obj s r)))) (\<lambda>pa. linked pa (\<lambda>p.
                    run_all
                      [log_about x (user_id (obj s r)) ORDER_CANCELLED p
                         (Some (Reason ''User cancelled inactive child order.'')),
                       remove_at_price x p,
                       store_remove p,
                       store_remove r,
                       ctx_release_escrow x p])))))"

section \<open>One triggers a pair, of which one cancels the other\<close>

text \<open>Activating a child: its price is evaluated for the event before the event is logged.\<close>

definition otoco_activate :: "('m, 'r) env \<Rightarrow> nat \<Rightarrow> ('m, 'r, unit) eact" where
  "otoco_activate x c = ask (\<lambda>s.
     and_then (of_res (order_price (obj s c))) (\<lambda>_.
       run_all
         [log_bare x ORDER_PLACED c None,
          set_obj c (\<lambda>od. od\<lparr> links := set_active True (links od) \<rparr>),
          append_at_price x c]))"

definition otoco_handle_filled :: "('m, 'r) env \<Rightarrow> nat \<Rightarrow> ('m, 'r, unit) eact" where
  "otoco_handle_filled x r = ask (\<lambda>s.
     and_then (of_res (get_child_a (links (obj s r)))) (\<lambda>a.
       if a \<noteq> None \<and> executed_quantity (obj s r) = quantity (obj s r)
       then and_then (of_res (get_child_b (links (obj s r)))) (\<lambda>b.
              run_all
                [set_obj r (\<lambda>od. od\<lparr> links := set_active False (links od) \<rparr>),
                 linked a (otoco_activate x),
                 linked b (otoco_activate x)])
       else and_then (of_res (get_counterparty (links (obj s r)))) (\<lambda>cp.
              case cp of None \<Rightarrow> ret () | Some c \<Rightarrow> oco_handle_cancel x c)))"

definition otoco_handle_cancel :: "('m, 'r) env \<Rightarrow> nat \<Rightarrow> ('m, 'r, unit) eact" where
  "otoco_handle_cancel x r = ask (\<lambda>s.
     and_then (of_res (get_child_a (links (obj s r)))) (\<lambda>a.
     and_then (of_res (get_child_b (links (obj s r)))) (\<lambda>b.
       case a of
         Some ca \<Rightarrow>
           run_all
             [log_own x ORDER_CANCELLED r (Some (Reason ''Parent order cancelled.'')),
              remove_at_price x r,
              store_remove r,
              store_remove ca,
              linked b store_remove,
              ctx_release_escrow x r]
       | None \<Rightarrow>
           and_then (of_res (get_counterparty (links (obj s r)))) (\<lambda>cp.
           and_then (of_res (get_active (links (obj s r)))) (\<lambda>act.
             run_all
               [if act
                then run_all
                       [log_own x ORDER_CANCELLED r (Some (Reason ''User cancelled active OCO leg.'')),
                        linked cp (\<lambda>c. log_own x ORDER_CANCELLED c (Some (Reason ''User cancelled active OCO leg order.''))),
                        remove_at_price x r,
                        linked cp (remove_at_price x),
                        ctx_release_escrow x r]
                else and_then (of_res (get_parent (links (obj s r)))) (\<lambda>pa.
                       run_all
                         [log_bare x ORDER_CANCELLED r (Some (Reason ''User cancelled inactive OCO leg.'')),
                          linked pa (remove_at_price x),
                          linked pa store_remove,
                          linked pa (ctx_release_escrow x)]),
                store_remove r,
                linked cp store_remove])))))"

section \<open>Dispatch on the strategy type\<close>

definition handle_filled :: "('m, 'r) env \<Rightarrow> nat \<Rightarrow> ('m, 'r, unit) eact" where
  "handle_filled x r = ask (\<lambda>s.
     case o_strategy (obj s r) of
       SINGLE \<Rightarrow> single_handle_filled x r | OCO \<Rightarrow> oco_handle_filled x r
     | OTO \<Rightarrow> oto_handle_filled x r | OTOCO \<Rightarrow> otoco_handle_filled x r)"

definition handle_cancel :: "('m, 'r) env \<Rightarrow> nat \<Rightarrow> ('m, 'r, unit) eact" where
  "handle_cancel x r = ask (\<lambda>s.
     case o_strategy (obj s r) of
       SINGLE \<Rightarrow> single_handle_cancel x r | OCO \<Rightarrow> oco_handle_cancel x r
     | OTO \<Rightarrow> oto_handle_cancel x r | OTOCO \<Rightarrow> otoco_handle_cancel x r)"

end
