(* ===== verification/Spot_Engine.thy ===== *)
theory Spot_Engine imports Strategies begin

text \<open>
  \<open>matching_engines/spot_engine.py\<close>: the matching loop, the handlers of the three commands, and the
  parts of the strategies that start a match or modify an order.

  The loop over a level follows the generator \<open>get_orders\<close>: the node after the current one is read
  from the book once the body is over. Both loops take fuel; running out is the outcome \<open>Diverge\<close>,
  which no Python run has. The theory \<open>Matching\<close> shows how much fuel is enough.
\<close>

section \<open>One trade\<close>

definition log_fill_event :: "('m, 'r) env \<Rightarrow> nat \<Rightarrow> ('m, 'r, unit) eact" where
  "log_fill_event x r = ask (\<lambda>s.
     log_own x (if executed_quantity (obj s r) = quantity (obj s r) then ORDER_FILLED else ORDER_PARTIALLY_FILLED)
       r None)"

text \<open>The escrow of an order's whole quantity, taken when its first fill arrives.\<close>

definition take_escrow :: "('m, 'r) env \<Rightarrow> nat \<Rightarrow> string option \<Rightarrow> ('m, 'r, unit) eact" where
  "take_escrow x r cmd = ask (\<lambda>s.
     let od = obj s r
     in case o_side od of
          BID \<Rightarrow> and_then (of_res (times_price (quantity od) od)) (\<lambda>amount.
                   discard (increase_cash_escrow x (user_id od) amount cmd))
        | ASK \<Rightarrow> discard (increase_asset_escrow x (user_id od) (quantity od) cmd))"

definition trade_event_of ::
    "('m, 'r) engine \<Rightarrow> nat \<Rightarrow> nat \<Rightarrow> rat \<Rightarrow> rat \<Rightarrow> liquidity_role \<Rightarrow> trade_event" where
  "trade_event_of s n r q p role =
     \<lparr> te_id = n, te_order_id = order_id (obj s r), te_symbol = e_symbol s, te_quantity = q, te_price = p,
       te_role = role, te_command_id = e_cmd s \<rparr>"

definition settle :: "('m, 'r) env \<Rightarrow> nat \<Rightarrow> nat \<Rightarrow> rat \<Rightarrow> rat \<Rightarrow> string option \<Rightarrow> nat \<Rightarrow> nat \<Rightarrow> ('m, 'r, unit) eact" where
  "settle x t m q p cmd taker_id maker_id = ask (\<lambda>s.
     case o_side (obj s t) of
       BID \<Rightarrow> run_all [settle_bid x (user_id (obj s t)) q p cmd taker_id,
                       settle_ask x (user_id (obj s m)) q p cmd maker_id]
     | ASK \<Rightarrow> run_all [settle_ask x (user_id (obj s t)) q p cmd taker_id,
                       settle_bid x (user_id (obj s m)) q p cmd maker_id])"

text \<open>The trade events of the two sides, and what follows the two fills.\<close>

definition log_trades :: "('m, 'r) env \<Rightarrow> nat \<Rightarrow> nat \<Rightarrow> rat \<Rightarrow> rat \<Rightarrow> nat \<Rightarrow> nat \<Rightarrow> ('m, 'r, unit) eact" where
  "log_trades x t m q p taker_id maker_id =
     run_all
       [ask (\<lambda>s. log_trade_event x (user_id (obj s t)) (trade_event_of s taker_id t q p TAKER)),
        ask (\<lambda>s. log_trade_event x (user_id (obj s m)) (trade_event_of s maker_id m q p MAKER))]"

definition after_fill ::
    "('m, 'r) env \<Rightarrow> nat \<Rightarrow> nat \<Rightarrow> rat \<Rightarrow> rat \<Rightarrow> string option \<Rightarrow> nat \<Rightarrow> nat \<Rightarrow> rat \<Rightarrow> rat \<Rightarrow> ('m, 'r, unit) eact" where
  "after_fill x t m q p cmd taker_id maker_id prev_taker prev_maker =
     run_all
       [log_fill_event x t,
        log_fill_event x m,
        handle_filled x t,
        handle_filled x m,
        ask (\<lambda>s. only_if (executed_quantity (obj s m) = quantity (obj s m))
          (run_all [book_remove x m (Some p), store_remove m])),
        only_if (prev_maker = 0) (take_escrow x m cmd),
        only_if (prev_taker = 0) (take_escrow x t cmd),
        settle x t m q p cmd taker_id maker_id]"

definition process_trade :: "('m, 'r) env \<Rightarrow> nat \<Rightarrow> nat \<Rightarrow> rat \<Rightarrow> rat \<Rightarrow> ('m, 'r, unit) eact" where
  "process_trade x t m q p = ask (\<lambda>s0.
     and_then fresh_id (\<lambda>taker_id.
     and_then fresh_id (\<lambda>maker_id.
     and_then (log_trades x t m q p taker_id maker_id) (\<lambda>_. ask (\<lambda>s.
     and_then (set_obj t (add_fill q p)) (\<lambda>_.
     and_then (set_obj m (add_fill q p)) (\<lambda>_.
       after_fill x t m q p (e_cmd s0) taker_id maker_id
         (executed_quantity (obj s t)) (executed_quantity (obj s m)))))))))"

section \<open>The matching loop\<close>

text \<open>What the loop does with one resting order: trade with it, or cancel it when its user lacks the funds.\<close>

definition match_one :: "('m, 'r) env \<Rightarrow> nat \<Rightarrow> rat \<Rightarrow> nat \<Rightarrow> ('m, 'r, unit) eact" where
  "match_one x t p m = ask (\<lambda>s.
     let trade_qty = min (quantity (obj s m) - executed_quantity (obj s m))
                         (quantity (obj s t) - executed_quantity (obj s t))
     in and_then (check_sufficient_balance x m trade_qty (Some p)) (\<lambda>ok.
          if ok then process_trade x t m trade_qty p else handle_cancel x m))"

fun match_level :: "('m, 'r) env \<Rightarrow> nat \<Rightarrow> nat \<Rightarrow> rat \<Rightarrow> nat option \<Rightarrow> ('m, 'r, unit) eact" where
  "match_level x k t p None = ret ()"
| "match_level x 0 t p (Some a) = raise Diverge"
| "match_level x (Suc k) t p (Some a) = ask (\<lambda>s.
     if quantity (obj s t) \<le> executed_quantity (obj s t) then ret ()
     else and_then (match_one x t p (n_order (ob_nodes (e_book s) ! a))) (\<lambda>_.
            ask (\<lambda>s'. match_level x k t p (orders_next (e_book s') a))))"

definition best_opposite :: "('m, 'r) engine \<Rightarrow> nat \<Rightarrow> rat option" where
  "best_opposite s t = best_price (e_book s) (opposite (o_side (obj s t)))"

fun match_loop :: "('m, 'r) env \<Rightarrow> nat \<Rightarrow> nat \<Rightarrow> rat option \<Rightarrow> ('m, 'r, rat option) eact" where
  "match_loop x 0 t prev = ask (\<lambda>s.
     if executed_quantity (obj s t) < quantity (obj s t)
        \<and> best_opposite s t \<noteq> None \<and> best_opposite s t \<noteq> prev
     then raise Diverge else ret prev)"
| "match_loop x (Suc k) t prev = ask (\<lambda>s.
     if executed_quantity (obj s t) < quantity (obj s t)
     then case best_opposite s t of
            None \<Rightarrow> ret prev
          | Some b \<Rightarrow>
              if prev = Some b then ret prev
              else and_then
                     (match_level x k t b
                        (orders_start (levels_api x) (e_book s) b (opposite (o_side (obj s t)))))
                     (\<lambda>_. match_loop x k t (Some b))
     else ret prev)"

definition match_result_of :: "order \<Rightarrow> rat option \<Rightarrow> match_result" where
  "match_result_of od prev =
     (if executed_quantity od = quantity od
      then \<lparr> mr_outcome = SUCCESS, mr_quantity = quantity od, mr_price = prev \<rparr>
      else if executed_quantity od = 0 then \<lparr> mr_outcome = FAILURE, mr_quantity = 0, mr_price = None \<rparr>
      else \<lparr> mr_outcome = PARTIAL, mr_quantity = executed_quantity od, mr_price = prev \<rparr>)"

definition match_inner :: "('m, 'r) env \<Rightarrow> nat \<Rightarrow> nat \<Rightarrow> ('m, 'r, match_result) eact" where
  "match_inner x k t = and_then (match_loop x k t None) (\<lambda>prev. ask (\<lambda>s. ret (match_result_of (obj s t) prev)))"

text \<open>The taker's price is evaluated first, which raises for a market order.\<close>

definition match :: "('m, 'r) env \<Rightarrow> nat \<Rightarrow> nat \<Rightarrow> ('m, 'r, match_result) eact" where
  "match x k t = ask (\<lambda>s.
     and_then (of_res (order_price (obj s t))) (\<lambda>price.
     and_then (check_sufficient_balance x t (quantity (obj s t)) price) (\<lambda>ok.
       if ok then match_inner x k t
       else and_then (handle_cancel x t) (\<lambda>_.
              ret \<lparr> mr_outcome = INSUFFICIENT_BALANCE, mr_quantity = 0, mr_price = None \<rparr>))))"

definition ctx_match :: "('m, 'r) env \<Rightarrow> nat \<Rightarrow> nat \<Rightarrow> ('m, 'r, match_result) eact" where
  "ctx_match x k t = ask (\<lambda>s. if attached s then match x k t else raise AttributeError)"

section \<open>New orders\<close>

definition effective_price :: "('m, 'r) engine \<Rightarrow> order_dict \<Rightarrow> order_dict" where
  "effective_price s d =
     (if od_order_type d = MARKET then d\<lparr> od_limit_price := Some (ob_cur_price (e_book s)) \<rparr> else d)"

definition matchable :: "('m, 'r) engine \<Rightarrow> order_dict \<Rightarrow> exn + bool" where
  "matchable s d =
     (case od_order_type d of
        LIMIT \<Rightarrow> limit_crossable (od_limit_price d) (od_side d) (e_book s)
      | STOP \<Rightarrow> stop_crossable (od_stop_price d) (od_side d) (e_book s)
      | MARKET \<Rightarrow> Inr True)"

definition set_executed :: "nat \<Rightarrow> rat \<Rightarrow> ('m, 'r, unit) eact" where
  "set_executed r q = set_obj r (\<lambda>od. od\<lparr> executed_quantity := q \<rparr>)"

text \<open>Match if the book crosses and hand the result on; nothing to hand on when it does not.\<close>

definition try_match ::
    "('m, 'r) env \<Rightarrow> nat \<Rightarrow> nat \<Rightarrow> order_dict \<Rightarrow> ('m, 'r, match_outcome option) eact" where
  "try_match x k r d = ask (\<lambda>s.
     and_then (of_res (matchable s d)) (\<lambda>m.
       if m then and_then (ctx_match x k r) (\<lambda>result.
                   and_then (set_executed r (mr_quantity result)) (\<lambda>_. ret (Some (mr_outcome result))))
       else ret None))"

text \<open>What is left to do for a single order once the match has reported.\<close>

definition single_finish :: "('m, 'r) env \<Rightarrow> nat \<Rightarrow> match_outcome option \<Rightarrow> ('m, 'r, unit) eact" where
  "single_finish x r res =
     (case res of
        Some INSUFFICIENT_BALANCE \<Rightarrow>
          run_all [log_own x ORDER_CANCELLED r (Some (Reason ''Insufficient funds'')), ctx_release_escrow x r]
      | Some SUCCESS \<Rightarrow> ret ()
      | _ \<Rightarrow>
          run_all
            [set_obj r (\<lambda>od. od\<lparr> o_status := ''placed'' \<rparr>),
             log_own x ORDER_PLACED r None,
             store_add r,
             append_at_price x r])"

definition single_handle_new :: "('m, 'r) env \<Rightarrow> nat \<Rightarrow> order_dict \<Rightarrow> ('m, 'r, unit) eact" where
  "single_handle_new x k d0 = ask (\<lambda>s0.
     let d = effective_price s0 d0
     in and_then (alloc (new_order_obj Plain d)) (\<lambda>r. and_then (try_match x k r d) (single_finish x r)))"

definition oco_handle_new :: "('m, 'r) env \<Rightarrow> order_dict list \<Rightarrow> ('m, 'r, unit) eact" where
  "oco_handle_new x legs =
     (case legs of
        [da, db] \<Rightarrow>
          and_then (alloc (new_order_obj (OCOLinks None) da)) (\<lambda>a.
          and_then (alloc (new_order_obj (OCOLinks None) db)) (\<lambda>b.
            run_all
              [set_obj a (\<lambda>od. od\<lparr> links := OCOLinks (Some b) \<rparr>),
               set_obj b (\<lambda>od. od\<lparr> links := OCOLinks (Some a) \<rparr>),
               log_own x ORDER_PLACED a None,
               log_own x ORDER_PLACED b None,
               append_at_price x a,
               append_at_price x b,
               store_add a,
               store_add b]))
      | _ \<Rightarrow> raise ValueError)"

definition insufficient_reason :: "('m, 'r) engine \<Rightarrow> nat \<Rightarrow> event_details" where
  "insufficient_reason s r =
     Reason (''Insufficient balance to place OTO parent order '' @ order_id (obj s r) @ ''.'')"

definition oto_handle_new :: "('m, 'r) env \<Rightarrow> nat \<Rightarrow> order_dict \<Rightarrow> order_dict \<Rightarrow> ('m, 'r, unit) eact" where
  "oto_handle_new x k dp0 dc = ask (\<lambda>s0.
     let dp = effective_price s0 dp0
     in and_then (alloc (new_order_obj (OTOLinks None None True) dp)) (\<lambda>p.
        and_then (alloc (new_order_obj (OTOLinks (Some p) None False) dc)) (\<lambda>c.
        and_then (set_obj p (\<lambda>od. od\<lparr> links := OTOLinks None (Some c) True \<rparr>)) (\<lambda>_.
        and_then (try_match x k p dp) (\<lambda>res.
          case res of
            Some INSUFFICIENT_BALANCE \<Rightarrow>
              run_all [ask (\<lambda>s. log_own x ORDER_CANCELLED p (Some (insufficient_reason s p))), ctx_release_escrow x p]
          | Some SUCCESS \<Rightarrow> ret ()
          | _ \<Rightarrow>
              run_all
                [log_own x ORDER_PLACED p None,
                 append_at_price x p,
                 store_add p,
                 store_add c])))))"

definition otoco_handle_new ::
    "('m, 'r) env \<Rightarrow> nat \<Rightarrow> order_dict \<Rightarrow> order_dict list \<Rightarrow> ('m, 'r, unit) eact" where
  "otoco_handle_new x k dp0 legs =
     (case legs of
        [da, db] \<Rightarrow> ask (\<lambda>s0.
          let dp = effective_price s0 dp0
          in and_then (alloc (new_order_obj (OTOCOLinks None None None None True) dp)) (\<lambda>p.
             and_then (alloc (new_order_obj (OTOCOLinks (Some p) None None None False) da)) (\<lambda>a.
             and_then (alloc (new_order_obj (OTOCOLinks (Some p) None None None False) db)) (\<lambda>b.
             and_then
               (run_all
                  [set_obj p (\<lambda>od. od\<lparr> links := OTOCOLinks None (Some a) (Some b) None True \<rparr>),
                   set_obj a (\<lambda>od. od\<lparr> links := OTOCOLinks (Some p) None None (Some b) False \<rparr>),
                   set_obj b (\<lambda>od. od\<lparr> links := OTOCOLinks (Some p) None None (Some a) False \<rparr>)]) (\<lambda>_.
             and_then (try_match x k p dp) (\<lambda>res.
               case res of
                 Some INSUFFICIENT_BALANCE \<Rightarrow>
                   run_all [ask (\<lambda>s. log_bare x ORDER_CANCELLED p (Some (insufficient_reason s p))),
                            ctx_release_escrow x p]
               | Some SUCCESS \<Rightarrow>
                   run_all
                     [log_own x ORDER_PLACED a None,
                      log_own x ORDER_PLACED b None,
                      store_add a,
                      store_add b,
                      append_at_price x a,
                      append_at_price x b]
               | _ \<Rightarrow>
                   run_all
                     [log_own x ORDER_PLACED p None,
                      append_at_price x p,
                      store_add p,
                      store_add a,
                      store_add b]))))))
      | _ \<Rightarrow> raise ValueError)"

section \<open>Modifications\<close>

definition get_modified_price :: "rat option \<Rightarrow> rat option \<Rightarrow> order \<Rightarrow> exn + rat option" where
  "get_modified_price lp sp od =
     (case order_price od of
        Inl e \<Rightarrow> Inl e
      | Inr p \<Rightarrow>
          let p1 = (if lp \<noteq> None \<and> o_type od = LIMIT then lp else p)
          in Inr (if sp \<noteq> None \<and> o_type od = STOP then sp else p1))"

definition reject_modify :: "('m, 'r) env \<Rightarrow> nat \<Rightarrow> ('m, 'r, unit) eact" where
  "reject_modify x r = ask (\<lambda>s.
     log_order_event x (user_id (obj s r))
       ((order_event_of s ORDER_MODIFY_REJECTED (order_id (obj s r)) None None)
          \<lparr> oe_reason := Some ''Modification would cross the spread.'' \<rparr>))"

definition validate_modify :: "('m, 'r) env \<Rightarrow> rat option \<Rightarrow> rat option \<Rightarrow> nat \<Rightarrow> ('m, 'r, bool) eact" where
  "validate_modify x lp sp r = ask (\<lambda>s.
     let od = obj s r
     in and_then (of_res (if lp \<noteq> None \<and> o_type od = LIMIT
                          then limit_crossable lp (o_side od) (e_book s) else Inr False)) (\<lambda>crossed.
          if crossed then and_then (reject_modify x r) (\<lambda>_. ret False)
          else and_then (of_res (if sp \<noteq> None \<and> o_type od = STOP
                                 then stop_crossable sp (o_side od) (e_book s) else Inr False)) (\<lambda>crossed.
                 if crossed then and_then (reject_modify x r) (\<lambda>_. ret False) else ret True)))"

text \<open>\<open>get_price_key\<close> picks the field of the event; a market order never gets this far.\<close>

definition log_modified :: "('m, 'r) env \<Rightarrow> nat \<Rightarrow> rat option \<Rightarrow> ('m, 'r, unit) eact" where
  "log_modified x r new_price = ask (\<lambda>s.
     let ev = order_event_of s ORDER_MODIFIED (order_id (obj s r)) None None
     in log_order_event x (user_id (obj s r))
          (case o_type (obj s r) of
             LIMIT \<Rightarrow> ev\<lparr> oe_limit_price := new_price \<rparr>
           | STOP \<Rightarrow> ev\<lparr> oe_stop_price := new_price \<rparr>
           | MARKET \<Rightarrow> ev))"

definition modify_order :: "('m, 'r) env \<Rightarrow> rat option \<Rightarrow> rat option \<Rightarrow> nat \<Rightarrow> ('m, 'r, unit) eact" where
  "modify_order x lp sp r =
     and_then (validate_modify x lp sp r) (\<lambda>valid.
       if \<not> valid then ret ()
       else ask (\<lambda>s.
         and_then (of_res (get_modified_price lp sp (obj s r))) (\<lambda>new_price.
           run_all
             [log_modified x r new_price,
              remove_at_price x r,
              set_obj r (assign_price new_price),
              append_at_price x r])))"

definition oto_modify :: "('m, 'r) env \<Rightarrow> rat option \<Rightarrow> rat option \<Rightarrow> nat \<Rightarrow> ('m, 'r, unit) eact" where
  "oto_modify x lp sp r = ask (\<lambda>s.
     and_then (of_res (get_parent (links (obj s r)))) (\<lambda>pa.
       if pa = None then modify_order x lp sp r
       else and_then (of_res (get_active (links (obj s r)))) (\<lambda>act.
              if act then modify_order x lp sp r
              else and_then (validate_modify x lp sp r) (\<lambda>valid.
                     only_if valid (ask (\<lambda>s'.
                       and_then (of_res (order_price (obj s' r))) (\<lambda>price.
                       and_then (log_bare x ORDER_MODIFIED r (Some (PriceDetail price))) (\<lambda>_.
                       and_then (of_res (get_modified_price lp sp (obj s' r))) (\<lambda>new_price.
                         set_obj r (assign_price new_price))))))))))"

definition otoco_modify :: "('m, 'r) env \<Rightarrow> rat option \<Rightarrow> rat option \<Rightarrow> nat \<Rightarrow> ('m, 'r, unit) eact" where
  "otoco_modify x lp sp r = ask (\<lambda>s.
     and_then (of_res (get_active (links (obj s r)))) (\<lambda>act.
       if act then modify_order x lp sp r
       else and_then (validate_modify x lp sp r) (\<lambda>valid.
              only_if valid (ask (\<lambda>s'.
                and_then (of_res (get_modified_price lp sp (obj s' r))) (\<lambda>new_price.
                and_then (log_modified x r new_price) (\<lambda>_.
                  set_obj r (assign_price new_price))))))))"

definition strategy_modify :: "('m, 'r) env \<Rightarrow> rat option \<Rightarrow> rat option \<Rightarrow> nat \<Rightarrow> ('m, 'r, unit) eact" where
  "strategy_modify x lp sp r = ask (\<lambda>s.
     case o_strategy (obj s r) of
       SINGLE \<Rightarrow> modify_order x lp sp r | OCO \<Rightarrow> modify_order x lp sp r
     | OTO \<Rightarrow> oto_modify x lp sp r | OTOCO \<Rightarrow> otoco_modify x lp sp r)"

section \<open>Commands\<close>

text \<open>A command whose strategy does not fit its body lacks the keys the strategy reads.\<close>

definition handle_new_order :: "('m, 'r) env \<Rightarrow> nat \<Rightarrow> strategy_type \<Rightarrow> new_order \<Rightarrow> ('m, 'r, unit) eact" where
  "handle_new_order x k st b =
     (case (st, b) of
        (SINGLE, NewSingle d) \<Rightarrow> single_handle_new x k d
      | (OCO, NewOCO legs) \<Rightarrow> oco_handle_new x legs
      | (OTO, NewOTO dp dc) \<Rightarrow> oto_handle_new x k dp dc
      | (OTOCO, NewOTOCO dp legs) \<Rightarrow> otoco_handle_new x k dp legs
      | _ \<Rightarrow> raise KeyError)"

definition handle_cancel_order :: "('m, 'r) env \<Rightarrow> string \<Rightarrow> ('m, 'r, unit) eact" where
  "handle_cancel_order x i = ask (\<lambda>s. case store_get s i of None \<Rightarrow> ret () | Some r \<Rightarrow> handle_cancel x r)"

definition handle_modify_order ::
    "('m, 'r) env \<Rightarrow> string \<Rightarrow> rat option \<Rightarrow> rat option \<Rightarrow> ('m, 'r, unit) eact" where
  "handle_modify_order x i lp sp = ask (\<lambda>s.
     case store_get s i of None \<Rightarrow> ret () | Some r \<Rightarrow> strategy_modify x lp sp r)"

definition run_handler :: "('m, 'r) env \<Rightarrow> nat \<Rightarrow> command_body \<Rightarrow> ('m, 'r, unit) eact option" where
  "run_handler x k b =
     (case b of
        NewOrderCommand st nb \<Rightarrow> Some (handle_new_order x k st nb)
      | CancelOrderCommand i \<Rightarrow> Some (handle_cancel_order x i)
      | ModifyOrderCommand i lp sp \<Rightarrow> Some (handle_modify_order x i lp sp)
      | NewInstrumentCommand \<Rightarrow> None)"

definition handle_command :: "('m, 'r) env \<Rightarrow> nat \<Rightarrow> command \<Rightarrow> ('m, 'r, unit) eact" where
  "handle_command x k cmd =
     (case run_handler x k (cmd_body cmd) of
        None \<Rightarrow> ret ()
      | Some handler \<Rightarrow>
          run_all
            [upd (\<lambda>s. s\<lparr> e_cmd := Some (cmd_id cmd) \<rparr>),
             log_command_event (QReceived cmd),
             handler,
             ask (\<lambda>s. log_command_event (QProcessed (e_cmd s)))])"

definition new_engine :: "('m, 'r) env \<Rightarrow> string \<Rightarrow> 'r \<Rightarrow> nat \<Rightarrow> ('m, 'r) engine" where
  "new_engine x sy r n =
     \<lparr> e_symbol = sy, e_objs = [], e_book = new_orderbook (levels_api x) 100, e_store = [], e_cmd = None,
       e_redis = r, e_uuid = n, e_kafka = [], e_queue = None, e_shadow = None, attached = True \<rparr>"

end
