(* ===== verification/Snapshots.thy ===== *)
theory Snapshots imports Spot_Engine begin

text \<open>
  The snapshot form of an engine: \<open>to_dict\<close> and \<open>from_dict\<close> of orders, list nodes, price levels, the
  book, the order store and the execution context.

  The dictionaries become records. A node's dictionary holds the next node's, so writing and reading a
  level nests one call per order; the number \<open>k\<close> is how many nested calls the interpreter allows, and
  one more raises \<open>RecursionError\<close>. Reading creates new objects: it threads the heaps of orders and of
  nodes. The order store is written and read apart from the book, so an order that is in both comes
  back as two objects. The snapshots here are those of plain orders; the linked classes add the
  dictionaries of the orders they point to, which point back: they are in the theory Linked_Snapshots.
\<close>

section \<open>Orders and nodes\<close>

record order_snap =
  os_dict :: order_dict
  os_price :: "rat option option"

definition order_to_dict :: "order \<Rightarrow> order_snap" where
  "order_to_dict od =
     \<lparr> os_dict =
         \<lparr> od_order_id = order_id od, od_user_id = user_id od, od_symbol = o_symbol od, od_side = o_side od,
           od_order_type = o_type od, od_quantity = quantity od, od_limit_price = limit_price od,
           od_stop_price = stop_price od, od_status = o_status od, od_strategy_type = o_strategy od,
           od_executed_quantity = Some (executed_quantity od), od_avg_fill_price = avg_fill_price od \<rparr>,
       os_price = price_entry od \<rparr>"

definition order_from_dict :: "order_snap \<Rightarrow> order" where
  "order_from_dict sn = (new_order_obj Plain (os_dict sn))\<lparr> price_entry := os_price sn \<rparr>"

datatype node_snap = NodeSnap nat order_snap "node_snap option"

fun node_to_dict :: "nat \<Rightarrow> order list \<Rightarrow> node list \<Rightarrow> nat \<Rightarrow> exn + node_snap" where
  "node_to_dict 0 os ns a = Inl RecursionError"
| "node_to_dict (Suc k) os ns a =
     (let sn = order_to_dict (os ! n_order (ns ! a))
      in case n_next (ns ! a) of
           None \<Rightarrow> Inr (NodeSnap a sn None)
         | Some b \<Rightarrow>
             (case node_to_dict k os ns b of
                Inl e \<Rightarrow> Inl e
              | Inr n \<Rightarrow> Inr (NodeSnap a sn (Some n))))"

type_synonym heaps = "order list \<times> node list"

fun node_from_dict :: "nat \<Rightarrow> node_snap option \<Rightarrow> nat option \<Rightarrow> heaps \<Rightarrow> exn + nat option \<times> heaps" where
  "node_from_dict 0 data prev h = Inl RecursionError"
| "node_from_dict (Suc k) None prev h = Inr (None, h)"
| "node_from_dict (Suc k) (Some (NodeSnap i sn nx)) prev (os, ns) =
     (let a = length ns;
          os1 = os @ [order_from_dict sn];
          ns1 = ns @ [\<lparr> n_order = length os, n_prev = prev, n_next = None \<rparr>]
      in case node_from_dict k nx (Some a) (os1, ns1) of
           Inl e \<Rightarrow> Inl e
         | Inr (nxt, os2, ns2) \<Rightarrow> Inr (Some a, os2, set_next ns2 a nxt))"

section \<open>Price levels\<close>

definition level_to_dict :: "nat \<Rightarrow> order list \<Rightarrow> node list \<Rightarrow> price_level \<Rightarrow> exn + node_snap option" where
  "level_to_dict k os ns l =
     (case lv_head l of
        None \<Rightarrow> Inr None
      | Some a \<Rightarrow> (case node_to_dict k os ns a of Inl e \<Rightarrow> Inl e | Inr n \<Rightarrow> Inr (Some n)))"

text \<open>The traversal that fills the tracker and finds the tail; a list visits no node twice.\<close>

definition track_node :: "order list \<Rightarrow> node list \<Rightarrow> nat \<Rightarrow> price_level \<Rightarrow> price_level" where
  "track_node os ns a l =
     l\<lparr> lv_tracker := (lv_tracker l)(order_id (os ! n_order (ns ! a)) \<mapsto> a), lv_tail := Some a \<rparr>"

definition level_from_dict :: "nat \<Rightarrow> node_snap option \<Rightarrow> heaps \<Rightarrow> exn + price_level \<times> heaps" where
  "level_from_dict k data h =
     (case data of
        None \<Rightarrow> Inr (new_level, h)
      | Some _ \<Rightarrow>
          (case node_from_dict k data None h of
             Inl e \<Rightarrow> Inl e
           | Inr (first, os, ns) \<Rightarrow>
               Inr (fold (track_node os ns) (walk (length ns) ns first) (new_level\<lparr> lv_head := first \<rparr>), os, ns)))"

section \<open>The book\<close>

record book_snap =
  bs_cur_price :: rat
  bs_starting_price :: rat
  bs_best_bid :: "rat option"
  bs_best_ask :: "rat option"
  bs_bids :: "(rat \<times> node_snap option) list"
  bs_asks :: "(rat \<times> node_snap option) list"

fun levels_to_dict ::
    "nat \<Rightarrow> order list \<Rightarrow> node list \<Rightarrow> (rat \<times> price_level) list \<Rightarrow> exn + (rat \<times> node_snap option) list" where
  "levels_to_dict k os ns [] = Inr []"
| "levels_to_dict k os ns ((p, l) # ls) =
     (case level_to_dict k os ns l of
        Inl e \<Rightarrow> Inl e
      | Inr sn \<Rightarrow>
          (case levels_to_dict k os ns ls of Inl e \<Rightarrow> Inl e | Inr sns \<Rightarrow> Inr ((p, sn) # sns)))"

definition book_to_dict :: "nat \<Rightarrow> 'm levels \<Rightarrow> order list \<Rightarrow> 'm orderbook \<Rightarrow> exn + book_snap" where
  "book_to_dict k d os ob =
     (case levels_to_dict k os (ob_nodes ob) (sd_items d (ob_bids ob)) of
        Inl e \<Rightarrow> Inl e
      | Inr bids \<Rightarrow>
          (case levels_to_dict k os (ob_nodes ob) (sd_items d (ob_asks ob)) of
             Inl e \<Rightarrow> Inl e
           | Inr asks \<Rightarrow>
               Inr \<lparr> bs_cur_price = ob_cur_price ob, bs_starting_price = ob_starting_price ob,
                     bs_best_bid = ob_best_bid ob, bs_best_ask = ob_best_ask ob,
                     bs_bids = bids, bs_asks = asks \<rparr>))"

fun levels_from_dict ::
    "nat \<Rightarrow> 'm levels \<Rightarrow> (rat \<times> node_snap option) list \<Rightarrow> 'm \<Rightarrow> heaps \<Rightarrow> exn + 'm \<times> heaps" where
  "levels_from_dict k d [] m h = Inr (m, h)"
| "levels_from_dict k d ((p, sn) # sns) m h =
     (case level_from_dict k sn h of
        Inl e \<Rightarrow> Inl e
      | Inr (l, h') \<Rightarrow> levels_from_dict k d sns (sd_store d m p l) h')"

definition book_from_dict :: "nat \<Rightarrow> 'm levels \<Rightarrow> book_snap \<Rightarrow> exn + 'm orderbook \<times> order list" where
  "book_from_dict k d sn =
     (case levels_from_dict k d (bs_bids sn) (sd_empty d) ([], []) of
        Inl e \<Rightarrow> Inl e
      | Inr (bids, h) \<Rightarrow>
          (case levels_from_dict k d (bs_asks sn) (sd_empty d) h of
             Inl e \<Rightarrow> Inl e
           | Inr (asks, os, ns) \<Rightarrow>
               Inr ((new_orderbook d (bs_starting_price sn))
                      \<lparr> ob_cur_price := bs_cur_price sn, ob_best_bid := bs_best_bid sn,
                        ob_best_ask := bs_best_ask sn, ob_bids := bids, ob_asks := asks, ob_nodes := ns \<rparr>,
                    os)))"

section \<open>The store and the context\<close>

definition store_to_dict :: "order list \<Rightarrow> (string \<times> nat) list \<Rightarrow> (string \<times> order_snap) list" where
  "store_to_dict os st = map (\<lambda>(i, r). (i, order_to_dict (os ! r))) st"

fun store_from_dict ::
    "(string \<times> order_snap) list \<Rightarrow> (string \<times> nat) list \<Rightarrow> order list \<Rightarrow> (string \<times> nat) list \<times> order list" where
  "store_from_dict [] st os = (st, os)"
| "store_from_dict ((i, sn) # sns) st os =
     (let od = order_from_dict sn
      in store_from_dict sns (dict_setdefault st (order_id od) (length os)) (os @ [od]))"

record ctx_snap =
  cs_book :: book_snap
  cs_store :: "(string \<times> order_snap) list"
  cs_symbol :: string
  cs_cmd :: "string option"

definition ctx_to_dict :: "nat \<Rightarrow> ('m, 'r) env \<Rightarrow> ('m, 'r) engine \<Rightarrow> exn + ctx_snap" where
  "ctx_to_dict k x s =
     (case book_to_dict k (levels_api x) (e_objs s) (e_book s) of
        Inl e \<Rightarrow> Inl e
      | Inr b \<Rightarrow> Inr \<lparr> cs_book = b, cs_store = store_to_dict (e_objs s) (e_store s), cs_symbol = e_symbol s,
                       cs_cmd = e_cmd s \<rparr>)"

text \<open>
  The context read back has a new logger and no engine. What is outside the process, the balances, the
  topics and the ids handed out, is that of the state \<open>w\<close>.
\<close>

definition ctx_from_dict ::
    "nat \<Rightarrow> ('m, 'r) env \<Rightarrow> ctx_snap \<Rightarrow> ('m, 'r) engine \<Rightarrow> exn + ('m, 'r) engine" where
  "ctx_from_dict k x sn w =
     (case book_from_dict k (levels_api x) (cs_book sn) of
        Inl e \<Rightarrow> Inl e
      | Inr (ob, os) \<Rightarrow>
          (case store_from_dict (cs_store sn) [] os of
             (st, os') \<Rightarrow>
               Inr (w\<lparr> e_symbol := cs_symbol sn, e_objs := os', e_book := ob, e_store := st, e_cmd := cs_cmd sn,
                       e_queue := None, e_shadow := None, attached := False \<rparr>)))"

section \<open>Writing a level\<close>

lemma order_roundtrip: "links od = Plain \<Longrightarrow> order_from_dict (order_to_dict od) = od\<lparr> fills := [] \<rparr>"
  by (simp add: order_from_dict_def order_to_dict_def new_order_obj_def)

lemma order_id_roundtrip [simp]: "order_id (order_from_dict (order_to_dict od)) = order_id od"
  by (simp add: order_from_dict_def order_to_dict_def new_order_obj_def)

text \<open>The nested dictionary of a segment of nodes.\<close>

fun chain :: "order list \<Rightarrow> node list \<Rightarrow> nat list \<Rightarrow> node_snap option" where
  "chain os ns [] = None"
| "chain os ns (a # as) = Some (NodeSnap a (order_to_dict (os ! n_order (ns ! a))) (chain os ns as))"

lemma node_to_dict_chain:
  "dll ns p (a # as) None \<Longrightarrow>
   node_to_dict k os ns a = (if length as < k then Inr (the (chain os ns (a # as))) else Inl RecursionError)"
proof (induction k arbitrary: p a as)
  case (Suc k)
  then show ?case by (cases as) (auto simp: Let_def)
qed simp

lemma level_to_dict_chain:
  assumes "level_repr ns l q"
  shows "level_to_dict k os ns l =
           (if length q \<le> k then Inr (chain os ns (map snd q)) else Inl RecursionError)"
proof (cases "map snd q")
  case Nil
  then show ?thesis using assms by (simp add: level_to_dict_def level_repr_def)
next
  case (Cons a as)
  then have "length q = Suc (length as)" by (metis length_Cons length_map)
  then show ?thesis
    using assms Cons node_to_dict_chain[of ns None a as k os]
    by (auto simp: level_to_dict_def level_repr_def)
qed

section \<open>Reading a level\<close>

text \<open>What reading adds to the heaps: one order and one node per entry, linked in order.\<close>

definition read_back :: "order list \<Rightarrow> node list \<Rightarrow> nat list \<Rightarrow> order list" where
  "read_back os ns as = map (\<lambda>a. order_from_dict (order_to_dict (os ! n_order (ns ! a)))) as"

lemma node_from_chain:
  assumes "length as < k"
  shows "\<exists>ns2. node_from_dict k (chain os ns as) prev (os', ns') =
             Inr (hd_opt [length ns' ..< length ns' + length as], os' @ read_back os ns as, ns2)
           \<and> length ns2 = length ns' + length as \<and> (\<forall>b < length ns'. ns2 ! b = ns' ! b)
           \<and> dll ns2 prev [length ns' ..< length ns' + length as] None
           \<and> (\<forall>j < length as. n_order (ns2 ! (length ns' + j)) = length os' + j)"
  using assms
proof (induction as arbitrary: k prev os' ns')
  case Nil
  then show ?case by (cases k) (auto simp: read_back_def)
next
  case (Cons a as)
  then obtain k' where k: "k = Suc k'" "length as < k'" by (cases k) auto
  let ?od = "order_from_dict (order_to_dict (os ! n_order (ns ! a)))"
  let ?ns1 = "ns' @ [\<lparr> n_order = length os', n_prev = prev, n_next = None \<rparr>]"
  let ?n = "length ns'" and ?bs = "[Suc (length ns') ..< Suc (length ns') + length as]"
  obtain ns2 where IH: "node_from_dict k' (chain os ns as) (Some ?n) (os' @ [?od], ?ns1) =
        Inr (hd_opt ?bs, (os' @ [?od]) @ read_back os ns as, ns2)"
      "length ns2 = Suc ?n + length as" "\<forall>b < Suc ?n. ns2 ! b = ?ns1 ! b"
      "dll ns2 (Some ?n) ?bs None" "\<forall>j < length as. n_order (ns2 ! (Suc ?n + j)) = Suc (length os') + j"
    using Cons.IH[OF k(2), of "Some ?n" "os' @ [?od]" ?ns1] by auto
  let ?ns3 = "set_next ns2 ?n (hd_opt ?bs)"
  have bs: "[?n ..< ?n + length (a # as)] = ?n # ?bs" by (simp add: upt_conv_Cons del: upt_Suc)
  have "dll ?ns3 (Some ?n) ?bs None"
    by (rule dll_cong[OF IH(4)]) (auto simp: set_next_def simp del: upt_Suc)
  moreover have "n_prev (?ns3 ! ?n) = prev" "n_next (?ns3 ! ?n) = hd_opt ?bs" "n_order (?ns3 ! ?n) = length os'"
    using IH(2,3) by (simp_all add: set_next_def)
  ultimately have "dll ?ns3 prev (?n # ?bs) None" using IH(2) by auto
  moreover have "n_order (?ns3 ! (?n + j)) = length os' + j" if "j < length (a # as)" for j
  proof (cases j)
    case 0
    then show ?thesis using \<open>n_order (?ns3 ! ?n) = length os'\<close> by simp
  next
    case (Suc i)
    then show ?thesis using IH(2,5) that by (auto simp: set_next_def)
  qed
  moreover have "\<forall>b < ?n. ?ns3 ! b = ns' ! b" using IH(2,3) by (auto simp: set_next_def nth_append)
  ultimately show ?case using IH(1,2) k unfolding bs by (auto simp: Let_def read_back_def)
qed
definition node_id :: "order list \<Rightarrow> node list \<Rightarrow> nat \<Rightarrow> string" where
  "node_id os ns a = order_id (os ! n_order (ns ! a))"

lemma track_all:
  "distinct (map (node_id os ns) as) \<Longrightarrow>
   fold (track_node os ns) as (new_level\<lparr> lv_head := h \<rparr>) =
     \<lparr> lv_head = h, lv_tail = last_opt as, lv_tracker = map_of (map (\<lambda>a. (node_id os ns a, a)) as) \<rparr>"
proof (induction as rule: rev_induct)
  case (snoc a as)
  let ?q = "map (\<lambda>a. (node_id os ns a, a)) as"
  have "map_of (?q @ [(node_id os ns a, a)]) = (map_of ?q)(node_id os ns a \<mapsto> a)"
    by (rule map_of_snoc) (use snoc.prems in \<open>auto simp: image_image\<close>)
  then show ?case using snoc by (simp add: track_node_def node_id_def[symmetric] fun_eq_iff del: map_of_append)
qed (simp add: new_level_def fun_eq_iff)

text \<open>One pair of heaps extends another: what was there is unchanged.\<close>

definition extends :: "heaps \<Rightarrow> heaps \<Rightarrow> bool" where
  "extends h h' \<longleftrightarrow>
     (\<exists>ods. fst h' = fst h @ ods) \<and> length (snd h) \<le> length (snd h') \<and> (\<forall>b < length (snd h). snd h' ! b = snd h ! b)"

lemma extends_refl [simp]: "extends h h"
  by (simp add: extends_def)

lemma extends_trans: "extends h h' \<Longrightarrow> extends h' h'' \<Longrightarrow> extends h h''"
  by (fastforce simp: extends_def)

text \<open>A level that holds given orders, each known by its id.\<close>

definition holds :: "heaps \<Rightarrow> price_level \<Rightarrow> queue \<Rightarrow> order list \<Rightarrow> bool" where
  "holds h l q ods \<longleftrightarrow>
     level_repr (snd h) l q \<and> map (\<lambda>(i, a). fst h ! n_order (snd h ! a)) q = ods
     \<and> (\<forall>(i, a) \<in> set q. n_order (snd h ! a) < length (fst h))"

lemma holds_extends:
  assumes "holds h l q ods" "extends h h'"
  shows "holds h' l q ods"
proof -
  have b: "a < length (snd h)" "snd h' ! a = snd h ! a" if "(i, a) \<in> set q" for i a
    using assms that level_repr_bound[of "snd h" l q a] by (force simp: holds_def extends_def)+
  have "level_repr (snd h') l q"
    using assms by (intro level_repr_frame[of "snd h" l q "snd h'" "{}"]) (auto simp: holds_def extends_def node_frame_def)
  moreover have "fst h' ! n_order (snd h' ! a) = fst h ! n_order (snd h ! a)" "n_order (snd h' ! a) < length (fst h')"
    if "(i, a) \<in> set q" for i a
    using assms that b[OF that] by (auto simp: holds_def extends_def nth_append)
  ultimately show ?thesis using assms(1) by (auto simp: holds_def)
qed

lemma next_up_new:
  assumes "next_up ns" "length ns2 = length ns + n" "\<forall>b < length ns. ns2 ! b = ns ! b"
    and D: "dll ns2 None [length ns ..< length ns + n] None"
  shows "next_up ns2"
proof (rule next_up_I)
  fix a b assume a: "a < length ns2" "n_next (ns2 ! a) = Some b"
  show "a < b \<and> b < length ns2"
  proof (cases "a < length ns")
    case True
    then show ?thesis using next_up_D[OF assms(1), of a b] assms(2,3) a by auto
  next
    case False
    then have "[length ns ..< length ns + n] = [length ns ..< a] @ a # [Suc a ..< length ns + n]"
      using a(1) assms(2) upt_add_eq_append[of "length ns" a "length ns + n - a"] upt_conv_Cons[of a "length ns + n"] by simp
    then have "hd_opt [Suc a ..< length ns + n] = Some b" using D a(2) dll_middle by metis
    then have "b \<in> set [Suc a ..< length ns + n]" by (rule hd_opt_in)
    then show ?thesis using assms(2) by auto
  qed
qed
lemma zip_keys: "zip (map f xs) xs = map (\<lambda>x. (f x, x)) xs"
  by (induction xs) auto

definition ids_match :: "order list \<Rightarrow> node list \<Rightarrow> queue \<Rightarrow> bool" where
  "ids_match os ns q \<longleftrightarrow> (\<forall>(i, a) \<in> set q. node_id os ns a = i)"

lemma level_from_chain:
  assumes q: "q \<noteq> []" "length q < k" "distinct (map fst q)" "ids_match os ns q" and up: "next_up ns'"
  defines "q' \<equiv> zip (map fst q) [length ns' ..< length ns' + length q]"
  shows "\<exists>l ns2. level_from_dict k (chain os ns (map snd q)) (os', ns') = Inr (l, os' @ read_back os ns (map snd q), ns2)
           \<and> extends (os', ns') (os' @ read_back os ns (map snd q), ns2)
           \<and> holds (os' @ read_back os ns (map snd q), ns2) l q' (read_back os ns (map snd q))
           \<and> length ns2 = length ns' + length q \<and> next_up ns2"
proof -
  let ?bs = "[length ns' ..< length ns' + length q]" and ?os = "os' @ read_back os ns (map snd q)"
  obtain ns2 where r: "node_from_dict k (chain os ns (map snd q)) None (os', ns') = Inr (hd_opt ?bs, ?os, ns2)"
      "length ns2 = length ns' + length q" "\<forall>b < length ns'. ns2 ! b = ns' ! b" "dll ns2 None ?bs None"
      "\<forall>j < length q. n_order (ns2 ! (length ns' + j)) = length os' + j"
    using node_from_chain[of "map snd q" k os ns None os' ns'] q(2) by auto
  have at: "?os ! n_order (ns2 ! (length ns' + j)) = read_back os ns (map snd q) ! j" if "j < length q" for j
    using r(5) that by (simp add: nth_append)
  have ids: "map (node_id ?os ns2) ?bs = map fst q"
  proof (rule nth_equalityI)
    fix j assume "j < length (map (node_id ?os ns2) ?bs)"
    then have j: "j < length q" by simp
    have "q ! j \<in> set q" using j by simp
    then have "node_id os ns (snd (q ! j)) = fst (q ! j)" using q(4) by (simp add: ids_match_def case_prod_beta)
    then show "map (node_id ?os ns2) ?bs ! j = map fst q ! j"
      using at[OF j] j by (simp add: node_id_def read_back_def)
  qed simp
  have w: "walk (length ns2) ns2 (hd_opt ?bs) = ?bs" by (rule walk_dll[OF r(4)]) (simp add: r(2))
  have tr: "map (\<lambda>a. (node_id ?os ns2 a, a)) ?bs = q'"
    by (simp add: q'_def ids[symmetric] zip_keys)
  obtain a as where "map snd q = a # as" using q(1) by (cases q) auto
  then obtain n where "chain os ns (map snd q) = Some n" by simp
  then have "level_from_dict k (chain os ns (map snd q)) (os', ns') =
      Inr (\<lparr> lv_head = hd_opt ?bs, lv_tail = last_opt ?bs, lv_tracker = map_of q' \<rparr>, ?os, ns2)"
    using r(1) track_all[of ?os ns2 ?bs "hd_opt ?bs"] ids q(3) w tr by (simp add: level_from_dict_def)
  moreover have "level_repr ns2 \<lparr> lv_head = hd_opt ?bs, lv_tail = last_opt ?bs, lv_tracker = map_of q' \<rparr> q'"
    using r(4) q(3) by (simp add: level_repr_def q'_def)
  moreover have "map (\<lambda>(i, a). ?os ! n_order (ns2 ! a)) q' = read_back os ns (map snd q)"
    by (rule nth_equalityI) (simp_all add: q'_def at, simp_all add: read_back_def)
  moreover have "n_order (ns2 ! a) < length ?os" if "(i, a) \<in> set q'" for i a
    using that r(5) by (auto simp: q'_def in_set_zip read_back_def)
  moreover have "next_up ns2" by (rule next_up_new[OF up r(2,3,4)])
  ultimately show ?thesis using r(2,3) by (auto simp: holds_def extends_def)
qed
section \<open>Reading one side of the book\<close>

text \<open>A side read back: for every price of \<open>ps\<close> a level with the orders that were in its queue.\<close>

definition side_read :: "'m levels \<Rightarrow> order list \<Rightarrow> node list \<Rightarrow> (rat \<Rightarrow> queue) \<Rightarrow> rat set \<Rightarrow> nat \<Rightarrow>
    'm \<Rightarrow> heaps \<Rightarrow> (rat \<Rightarrow> queue) \<Rightarrow> bool" where
  "side_read d os ns f P lo m h g \<longleftrightarrow>
     (\<forall>p. sd_lookup d m p = None \<longleftrightarrow> p \<notin> P)
     \<and> (\<forall>p l. sd_lookup d m p = Some l \<longrightarrow>
            holds h l (g p) (read_back os ns (map snd (f p))) \<and> map fst (g p) = map fst (f p))
     \<and> (\<forall>p. snd ` set (g p) \<subseteq> {lo ..< length (snd h)})
     \<and> (\<forall>p p'. p \<noteq> p' \<longrightarrow> snd ` set (g p) \<inter> snd ` set (g p') = {})
     \<and> (\<forall>p. p \<notin> P \<longrightarrow> g p = [])"

lemma side_readD:
  assumes "side_read d os ns f P lo m h g"
  shows "sd_lookup d m p = None \<longleftrightarrow> p \<notin> P"
    and "sd_lookup d m p = Some l \<Longrightarrow> holds h l (g p) (read_back os ns (map snd (f p)))"
    and "sd_lookup d m p = Some l \<Longrightarrow> map fst (g p) = map fst (f p)"
    and "a \<in> snd ` set (g p) \<Longrightarrow> lo \<le> a \<and> a < length (snd h)"
    and "p \<noteq> p' \<Longrightarrow> snd ` set (g p) \<inter> snd ` set (g p') = {}"
    and "p \<notin> P \<Longrightarrow> g p = []"
proof -
  show "a \<in> snd ` set (g p) \<Longrightarrow> lo \<le> a \<and> a < length (snd h)"
    using assms unfolding side_read_def by (metis atLeastLessThan_iff subsetD)
qed (use assms in \<open>simp_all add: side_read_def\<close>)

lemma side_read_extends:
  assumes S: "side_read d os ns f P lo m h g" and e: "extends h h'"
  shows "side_read d os ns f P lo m h' g"
  unfolding side_read_def
proof (intro conjI allI impI)
  show "snd ` set (g p) \<subseteq> {lo ..< length (snd h')}" for p
    using side_readD(4)[OF S] e by (fastforce simp: extends_def)
qed (use side_readD[OF S] holds_extends[OF _ e] in auto)

context order_book
begin

lemma side_read_store:
  assumes R: "side_read d os ns f P lo m h g" "ok m" "p \<notin> P" "extends h h'"
    and q: "holds h' l q (read_back os ns (map snd (f p)))" "map fst q = map fst (f p)"
      "snd ` set q \<subseteq> {length (snd h) ..< length (snd h')}" "lo \<le> length (snd h)"
  shows "side_read d os ns f (insert p P) lo (sd_store d m p l) h' (g(p := q))"
proof -
  have look: "sd_lookup d (sd_store d m p l) p' = (if p' = p then Some l else sd_lookup d m p')" for p'
    by (rule lookup_store[OF R(2)])
  have old: "side_read d os ns f P lo m h' g" by (rule side_read_extends[OF R(1,4)])
  have apart: "snd ` set (g p') \<inter> snd ` set q = {}" "snd ` set q \<inter> snd ` set (g p') = {}" for p'
    using side_readD(4)[OF R(1)] q(3) by fastforce+
  show ?thesis
    unfolding side_read_def
  proof (intro conjI allI impI)
    show "snd ` set ((g(p := q)) p') \<subseteq> {lo ..< length (snd h')}" for p'
      using side_readD(4)[OF old] q(3,4) by (cases "p' = p") fastforce+
    show "snd ` set ((g(p := q)) p1) \<inter> snd ` set ((g(p := q)) p2) = {}" if "p1 \<noteq> p2" for p1 p2
      using that apart side_readD(5)[OF old, of p1 p2] by auto
  qed (use side_readD[OF old] q(1,2) in \<open>auto simp: look split: if_splits\<close>)
qed

lemma levels_from_chains:
  assumes "distinct ps" "\<forall>p \<in> set ps. p \<notin> P \<and> f p \<noteq> [] \<and> length (f p) < k \<and> distinct (map fst (f p)) \<and> ids_match os ns (f p)"
    and "side_read d os ns f P lo m h g" "ok m" "next_up (snd h)" "lo \<le> length (snd h)"
  shows "\<exists>m' h' g'. levels_from_dict k d (map (\<lambda>p. (p, chain os ns (map snd (f p)))) ps) m h = Inr (m', h')
           \<and> ok m' \<and> extends h h' \<and> next_up (snd h') \<and> side_read d os ns f (P \<union> set ps) lo m' h' g'"
  using assms
proof (induction ps arbitrary: P m h g)
  case (Cons p ps)
  obtain os' ns' where h: "h = (os', ns')" by (cases h)
  let ?q = "zip (map fst (f p)) [length ns' ..< length ns' + length (f p)]"
  obtain l ns2 where l: "level_from_dict k (chain os ns (map snd (f p))) h = Inr (l, os' @ read_back os ns (map snd (f p)), ns2)"
      "extends h (os' @ read_back os ns (map snd (f p)), ns2)"
      "holds (os' @ read_back os ns (map snd (f p)), ns2) l ?q (read_back os ns (map snd (f p)))"
      "length ns2 = length ns' + length (f p)" "next_up ns2"
    using level_from_chain[of "f p" k os ns ns' os'] Cons.prems(2,5) h by auto
  let ?h = "(os' @ read_back os ns (map snd (f p)), ns2)"
  have "snd ` set ?q \<subseteq> {length ns' ..< length ns' + length (f p)}" by (auto simp: in_set_zip)
  then have S: "side_read d os ns f (insert p P) lo (sd_store d m p l) ?h (g(p := ?q))"
    using side_read_store[OF Cons.prems(3,4) _ l(2,3)] Cons.prems(2,6) h l(4) by auto
  have "\<forall>p' \<in> set ps. p' \<notin> insert p P \<and> f p' \<noteq> [] \<and> length (f p') < k \<and> distinct (map fst (f p')) \<and> ids_match os ns (f p')"
    using Cons.prems(1,2) by auto
  then obtain m' h' g' where "levels_from_dict k d (map (\<lambda>p. (p, chain os ns (map snd (f p)))) ps) (sd_store d m p l) ?h = Inr (m', h')"
      "ok m'" "extends ?h h'" "next_up (snd h')" "side_read d os ns f (insert p P \<union> set ps) lo m' h' g'"
    using Cons.IH[OF _ _ S ok_store[OF Cons.prems(4)]] Cons.prems(1,6) l(4,5) h by auto
  then show ?case using l(1,2) extends_trans[OF l(2)] by auto
qed auto

end
section \<open>Reading back a whole book\<close>

lemma levels_to_chains:
  "\<forall>(p, l) \<in> set ls. level_repr ns l (f p) \<Longrightarrow>
   levels_to_dict k os ns ls =
     (if \<forall>(p, l) \<in> set ls. length (f p) \<le> k then Inr (map (\<lambda>p. (p, chain os ns (map snd (f p)))) (map fst ls))
      else Inl RecursionError)"
proof (induction ls)
  case (Cons pl ls)
  obtain p l where pl: "pl = (p, l)" by (cases pl)
  then have "level_to_dict k os ns l = (if length (f p) \<le> k then Inr (chain os ns (map snd (f p))) else Inl RecursionError)"
    using level_to_dict_chain[of ns l "f p" k os] Cons.prems by auto
  then show ?case using Cons pl by auto
qed simp

text \<open>The book read back: the same prices, and in every queue the orders it had, under the same ids.\<close>

definition same_queues :: "order list \<Rightarrow> node list \<Rightarrow> abs_book \<Rightarrow> heaps \<Rightarrow> abs_book \<Rightarrow> bool" where
  "same_queues os ns ab h ab' \<longleftrightarrow>
     (\<forall>sd p. map fst (ab' sd p) = map fst (ab sd p)
        \<and> map (\<lambda>(i, a). fst h ! n_order (snd h ! a)) (ab' sd p) = read_back os ns (map snd (ab sd p))
        \<and> (\<forall>(i, a) \<in> set (ab' sd p). n_order (snd h ! a) < length (fst h)))"

context order_book
begin

lemma items_repr:
  assumes "book_repr d ok ob ab" "(p, l) \<in> set (sd_items d (side_levels ob sd))"
  shows "level_repr (ob_nodes ob) l (ab sd p) \<and> ab sd p \<noteq> []"
proof -
  let ?m = "side_levels ob sd"
  have "distinct (map fst (sd_items d ?m))" using keys_sorted(2)[OF repr_ok[OF assms(1)]] by (simp add: sd_keys_def)
  then have "sd_lookup d ?m p = Some l"
    using assms(2) items_lookup[OF repr_ok[OF assms(1)], of sd p] map_of_is_SomeI by metis
  then show ?thesis using repr_case[OF assms(1), of sd p] by simp
qed

lemma keys_repr: "book_repr d ok ob ab \<Longrightarrow> p \<in> set (sd_keys d (side_levels ob sd)) \<longleftrightarrow> ab sd p \<noteq> []"
  using keys_lookup[OF repr_ok] repr_None by blast

text \<open>The dictionaries of one side, and the exception when a queue is too long to be written.\<close>

lemma side_to_chains:
  assumes R: "book_repr d ok ob ab"
  shows "levels_to_dict k os (ob_nodes ob) (sd_items d (side_levels ob sd)) =
           (if \<forall>p. length (ab sd p) \<le> k
            then Inr (map (\<lambda>p. (p, chain os (ob_nodes ob) (map snd (ab sd p)))) (sd_keys d (side_levels ob sd)))
            else Inl RecursionError)"
proof -
  let ?ls = "sd_items d (side_levels ob sd)"
  have "\<forall>(p, l) \<in> set ?ls. level_repr (ob_nodes ob) l (ab sd p)" using items_repr[OF R] by blast
  note levels_to_chains[OF this, of k os]
  moreover have "(\<forall>(p, l) \<in> set ?ls. length (ab sd p) \<le> k) \<longleftrightarrow> (\<forall>p \<in> set (sd_keys d (side_levels ob sd)). length (ab sd p) \<le> k)"
    by (auto simp: sd_keys_def)
  moreover have "\<dots> \<longleftrightarrow> (\<forall>p. length (ab sd p) \<le> k)" using keys_repr[OF R] by (metis le0 list.size(3))
  ultimately show ?thesis by (simp only: sd_keys_def)
qed

lemma book_to_chains:
  assumes "book_repr d ok ob ab" and "\<forall>sd p. length (ab sd p) \<le> k"
  shows "book_to_dict k d os ob =
           Inr \<lparr> bs_cur_price = ob_cur_price ob, bs_starting_price = ob_starting_price ob,
                 bs_best_bid = ob_best_bid ob, bs_best_ask = ob_best_ask ob,
                 bs_bids = map (\<lambda>p. (p, chain os (ob_nodes ob) (map snd (ab BID p)))) (sd_keys d (ob_bids ob)),
                 bs_asks = map (\<lambda>p. (p, chain os (ob_nodes ob) (map snd (ab ASK p)))) (sd_keys d (ob_asks ob)) \<rparr>"
  using side_to_chains[OF assms(1), of k os BID] side_to_chains[OF assms(1), of k os ASK] assms(2)
  by (simp add: book_to_dict_def side_levels_def)

lemma book_too_long:
  assumes "book_repr d ok ob ab" and "k < length (ab sd p)"
  shows "book_to_dict k d os ob = Inl RecursionError"
  using side_to_chains[OF assms(1), of k os BID] side_to_chains[OF assms(1), of k os ASK] assms(2)
  by (cases sd) (auto simp: book_to_dict_def side_levels_def not_le[symmetric])

lemma side_read_queue:
  assumes S: "side_read d os ns f P lo m h g" and P: "\<And>p. p \<in> P \<longleftrightarrow> f p \<noteq> []"
  shows "map fst (g p) = map fst (f p)"
    and "map (\<lambda>(i, a). fst h ! n_order (snd h ! a)) (g p) = read_back os ns (map snd (f p))"
    and "\<forall>(i, a) \<in> set (g p). n_order (snd h ! a) < length (fst h)"
    and "case sd_lookup d m p of None \<Rightarrow> g p = [] | Some l \<Rightarrow> g p \<noteq> [] \<and> level_repr (snd h) l (g p)"
proof -
  consider "g p = []" "f p = []" "sd_lookup d m p = None"
    | l where "sd_lookup d m p = Some l" "holds h l (g p) (read_back os ns (map snd (f p)))" "map fst (g p) = map fst (f p)" "f p \<noteq> []"
    using side_readD[OF S, where p = p] P[of p] by (cases "sd_lookup d m p") auto
  note cs = this
  show "map fst (g p) = map fst (f p)" by (rule cs) simp_all
  show "map (\<lambda>(i, a). fst h ! n_order (snd h ! a)) (g p) = read_back os ns (map snd (f p))"
    by (rule cs) (simp_all add: holds_def read_back_def)
  show "\<forall>(i, a) \<in> set (g p). n_order (snd h ! a) < length (fst h)" by (rule cs) (simp_all add: holds_def)
  show "case sd_lookup d m p of None \<Rightarrow> g p = [] | Some l \<Rightarrow> g p \<noteq> [] \<and> level_repr (snd h) l (g p)"
    by (rule cs) (auto simp: holds_def)
qed

lemma side_read_empty: "side_read d os ns f {} lo (sd_empty d) h (\<lambda>_. [])"
  by (simp add: side_read_def lookup_empty)

lemma book_read_back:
  assumes R: "book_repr d ok ob ab" and len: "\<And>sd p. length (ab sd p) < k"
    and ids: "\<And>sd p. ids_match os (ob_nodes ob) (ab sd p)"
  shows "\<exists>sn ob' os' ab'. book_to_dict k d os ob = Inr sn \<and> book_from_dict k d sn = Inr (ob', os')
     \<and> ob_cur_price ob' = ob_cur_price ob \<and> ob_starting_price ob' = ob_starting_price ob
     \<and> book_repr d ok ob' ab' \<and> same_queues os (ob_nodes ob) ab (os', ob_nodes ob') ab'"
proof -
  let ?ns = "ob_nodes ob" and ?K = "\<lambda>sd. sd_keys d (side_levels ob sd)"
  have dq: "distinct (map fst (ab sd p))" for sd p
    using repr_case[OF R, of sd p] by (cases "sd_lookup d (side_levels ob sd) p") (simp_all add: level_repr_def)
  have q: "\<forall>p \<in> set (?K sd). p \<notin> {} \<and> ab sd p \<noteq> [] \<and> length (ab sd p) < k \<and> distinct (map fst (ab sd p)) \<and> ids_match os ?ns (ab sd p)" for sd
    using keys_repr[OF R] dq len ids by simp
  have dk: "distinct (?K sd)" for sd using keys_sorted(2)[OF repr_ok[OF R]] .
  let ?side = "\<lambda>sd. map (\<lambda>p. (p, chain os ?ns (map snd (ab sd p)))) (?K sd)"
  obtain bids h1 g1 where b: "levels_from_dict k d (?side BID) (sd_empty d) ([], []) = Inr (bids, h1)" "ok bids"
      "next_up (snd h1)" "side_read d os ?ns (ab BID) (set (?K BID)) 0 bids h1 g1"
    using levels_from_chains[OF dk q[of BID] side_read_empty ok_empty, of "([], [])" 0] by auto
  obtain asks h2 g2 where a: "levels_from_dict k d (?side ASK) (sd_empty d) h1 = Inr (asks, h2)" "ok asks" "extends h1 h2"
      "next_up (snd h2)" "side_read d os ?ns (ab ASK) (set (?K ASK)) (length (snd h1)) asks h2 g2"
    using levels_from_chains[OF dk q[of ASK] side_read_empty ok_empty b(3), of "length (snd h1)"] by auto
  define ab' where "ab' = (\<lambda>sd. case sd of BID \<Rightarrow> g1 | ASK \<Rightarrow> g2)"
  define ob' where "ob' = (new_orderbook d (ob_starting_price ob))
      \<lparr> ob_cur_price := ob_cur_price ob, ob_best_bid := ob_best_bid ob, ob_best_ask := ob_best_ask ob,
        ob_bids := bids, ob_asks := asks, ob_nodes := snd h2 \<rparr>"
  have S: "\<exists>lo. side_read d os ?ns (ab sd) (set (?K sd)) lo (side_levels ob' sd) h2 (ab' sd)" for sd
    using side_read_extends[OF b(4) a(3)] a(5) by (cases sd) (auto simp: ob'_def ab'_def side_levels_def)
  have nodes: "ob_nodes ob' = snd h2" and best: "best_price ob' sd = best_price ob sd" for sd
    by (cases sd; simp add: ob'_def best_price_def)+
  have Q: "map fst (ab' sd p) = map fst (ab sd p)"
      "map (\<lambda>(i, a). fst h2 ! n_order (snd h2 ! a)) (ab' sd p) = read_back os ?ns (map snd (ab sd p))"
      "\<forall>(i, a) \<in> set (ab' sd p). n_order (snd h2 ! a) < length (fst h2)"
      "case sd_lookup d (side_levels ob' sd) p of None \<Rightarrow> ab' sd p = [] | Some l \<Rightarrow> ab' sd p \<noteq> [] \<and> level_repr (snd h2) l (ab' sd p)"
    for sd p using S[of sd] side_read_queue[OF _ keys_repr[OF R], of os ?ns sd _ _ h2 "ab' sd" p] by blast+
  have "same_queues os ?ns ab (fst h2, ob_nodes ob') ab'" unfolding same_queues_def nodes fst_conv snd_conv using Q(1-3) by blast
  moreover have "book_repr d ok ob' ab'"
    unfolding book_repr_def
  proof (intro conjI allI impI)
    show "ok (side_levels ob' sd)" for sd using a(2) b(2) by (cases sd) (simp_all add: ob'_def side_levels_def)
    show "case sd_lookup d (side_levels ob' sd) p of None \<Rightarrow> ab' sd p = []
       | Some l \<Rightarrow> ab' sd p \<noteq> [] \<and> level_repr (ob_nodes ob') l (ab' sd p)" for sd p
      using Q(4)[of sd p] by (simp only: nodes)
    show "snd ` set (ab' sd p) \<inter> snd ` set (ab' sd' p') = {}" if "(sd, p) \<noteq> (sd', p')" for sd p sd' p'
    proof (cases "sd = sd'")
      case True
      then show ?thesis using S[of sd] that by (auto dest: side_readD(5)[where p = p and p' = p'])
    next
      case False
      have "snd ` set (g1 p) \<inter> snd ` set (g2 p') = {}" for p p'
        using side_readD(4)[OF b(4), where p = p] side_readD(4)[OF a(5), where p = p'] by fastforce
      then show ?thesis using False by (cases sd; cases sd') (auto simp: ab'_def)
    qed
    show "is_best sd (\<lambda>p. ab' sd p \<noteq> []) (best_price ob' sd)" for sd
    proof -
      have "(ab' sd p \<noteq> []) = (ab sd p \<noteq> [])" for p using Q(1)[of sd p] by (metis list.map_disc_iff)
      then show ?thesis using repr_best[OF R, of sd] by (simp only: best)
    qed
    show "next_up (ob_nodes ob')" using a(4) nodes by simp
  qed
  moreover have "book_from_dict k d \<lparr> bs_cur_price = ob_cur_price ob, bs_starting_price = ob_starting_price ob,
                 bs_best_bid = ob_best_bid ob, bs_best_ask = ob_best_ask ob,
                 bs_bids = ?side BID, bs_asks = ?side ASK \<rparr> = Inr (ob', fst h2)"
    using b(1) a(1) by (cases h2) (simp add: book_from_dict_def ob'_def)
  moreover have "ob_cur_price ob' = ob_cur_price ob" "ob_starting_price ob' = ob_starting_price ob"
    by (simp_all add: ob'_def new_orderbook_def)
  ultimately show ?thesis
    using book_to_chains[OF R, of k os] len by (fastforce simp: side_levels_def less_imp_le)
qed

end
section \<open>Reading back the store\<close>

lemma store_read_back:
  assumes "distinct (map fst (st0 @ st))" "\<forall>(i, r) \<in> set st. order_id (os ! r) = i"
  shows "store_from_dict (store_to_dict os st) st0 os' =
           (st0 @ zip (map fst st) [length os' ..< length os' + length st],
            os' @ map (\<lambda>(i, r). order_from_dict (order_to_dict (os ! r))) st)"
  using assms
proof (induction st arbitrary: st0 os')
  case (Cons p st)
  obtain i r where p: "p = (i, r)" by (cases p)
  let ?od = "order_from_dict (order_to_dict (os ! r))"
  have "dict_setdefault st0 i (length os') = st0 @ [(i, length os')]"
    using Cons.prems(1) p by (auto simp: dict_setdefault_def)
  moreover have "store_from_dict (store_to_dict os st) (st0 @ [(i, length os')]) (os' @ [?od]) =
      ((st0 @ [(i, length os')]) @ zip (map fst st) [Suc (length os') ..< Suc (length os') + length st],
       (os' @ [?od]) @ map (\<lambda>(i, r). order_from_dict (order_to_dict (os ! r))) st)"
    using Cons.IH[of "st0 @ [(i, length os')]" "os' @ [?od]"] Cons.prems p by (simp del: upt_Suc)
  moreover have "[length os' ..< length os' + length (p # st)] = length os' # [Suc (length os') ..< Suc (length os') + length st]"
    by (simp add: upt_conv_Cons del: upt_Suc)
  ultimately show ?case using Cons.prems(2) p by (simp add: store_to_dict_def Let_def del: upt_Suc)
qed (simp add: store_to_dict_def)

section \<open>The engine\<close>

definition queue_orders :: "('m, 'r) engine \<Rightarrow> queue \<Rightarrow> (string \<times> order) list" where
  "queue_orders s q = map (\<lambda>(i, a). (i, obj s (n_order (ob_nodes (e_book s) ! a)))) q"

text \<open>The engines whose snapshot is modelled: plain orders, filed in book and store under their ids.\<close>

definition snapshotable :: "('m, 'r) engine \<Rightarrow> abs_book \<Rightarrow> bool" where
  "snapshotable s ab \<longleftrightarrow>
     (\<forall>od \<in> set (e_objs s). links od = Plain)
     \<and> n_order ` set (ob_nodes (e_book s)) \<subseteq> {..<length (e_objs s)}
     \<and> (\<forall>sd p. ids_match (e_objs s) (ob_nodes (e_book s)) (ab sd p))
     \<and> distinct (map fst (e_store s))
     \<and> (\<forall>(i, r) \<in> set (e_store s). r < length (e_objs s) \<and> order_id (obj s r) = i)"

definition without_fills :: "string \<times> order \<Rightarrow> string \<times> order" where
  "without_fills = (\<lambda>(i, od). (i, od\<lparr> fills := [] \<rparr>))"

lemma map_pairs: "map (\<lambda>(i, a). (i, F a)) q = zip (map fst q) (map (\<lambda>(i, a). F a) q)"
  by (induction q) auto

context order_book
begin

lemma queue_read_back:
  assumes "book_repr d ok (e_book s) ab" "snapshotable s ab"
  shows "zip (map fst (ab sd p)) (read_back (e_objs s) (ob_nodes (e_book s)) (map snd (ab sd p))) =
           map without_fills (queue_orders s (ab sd p))"
proof -
  have "order_from_dict (order_to_dict (e_objs s ! n_order (ob_nodes (e_book s) ! a))) =
      (obj s (n_order (ob_nodes (e_book s) ! a)))\<lparr> fills := [] \<rparr>" if "(i, a) \<in> set (ab sd p)" for i a
  proof -
    have "a < length (ob_nodes (e_book s))"
      using repr_case[OF assms(1), of sd p] that level_repr_bound[of "ob_nodes (e_book s)" _ "ab sd p" a]
      by (force split: option.splits)
    then have "n_order (ob_nodes (e_book s) ! a) \<in> n_order ` set (ob_nodes (e_book s))" by simp
    then have "n_order (ob_nodes (e_book s) ! a) < length (e_objs s)" using assms(2) unfolding snapshotable_def by blast
    then show ?thesis using assms(2) by (simp add: order_roundtrip snapshotable_def obj_def)
  qed
  then have "map (\<lambda>(i, a). (i, order_from_dict (order_to_dict (e_objs s ! n_order (ob_nodes (e_book s) ! a))))) (ab sd p) =
      map without_fills (queue_orders s (ab sd p))" by (auto simp: queue_orders_def without_fills_def)
  then show ?thesis unfolding map_pairs by (simp add: read_back_def comp_def split_def)
qed

lemma context_read_back:
  assumes "d = levels_api x" and R: "book_repr d ok (e_book s) ab" and snap: "snapshotable s ab"
    and len: "\<And>sd p. length (ab sd p) < k"
  shows "\<exists>sn t ab'. ctx_to_dict k x s = Inr sn \<and> ctx_from_dict k x sn w = Inr t \<and> book_repr d ok (e_book t) ab'
     \<and> e_symbol t = e_symbol s \<and> e_cmd t = e_cmd s \<and> ob_cur_price (e_book t) = ob_cur_price (e_book s) \<and> \<not> attached t
     \<and> (\<forall>sd p. queue_orders t (ab' sd p) = map without_fills (queue_orders s (ab sd p)))
     \<and> map (\<lambda>(i, r). (i, obj t r)) (e_store t) = map (\<lambda>(i, r). without_fills (i, obj s r)) (e_store s)
     \<and> (\<forall>sd p. \<forall>(i, a) \<in> set (ab' sd p). \<forall>(j, r) \<in> set (e_store t). n_order (ob_nodes (e_book t) ! a) \<noteq> r)"
proof -
  let ?os = "e_objs s" and ?ns = "ob_nodes (e_book s)"
  obtain sn ob' os' ab' where b: "book_to_dict k d ?os (e_book s) = Inr sn" "book_from_dict k d sn = Inr (ob', os')"
      "ob_cur_price ob' = ob_cur_price (e_book s)" "book_repr d ok ob' ab'" "same_queues ?os ?ns ab (os', ob_nodes ob') ab'"
    using book_read_back[OF R len, of ?os] snap by (auto simp: snapshotable_def)
  let ?st = "zip (map fst (e_store s)) [length os' ..< length os' + length (e_store s)]"
  let ?more = "map (\<lambda>(i, r). order_from_dict (order_to_dict (?os ! r))) (e_store s)"
  let ?t = "w\<lparr> e_symbol := e_symbol s, e_objs := os' @ ?more, e_book := ob', e_store := ?st, e_cmd := e_cmd s,
               e_queue := None, e_shadow := None, attached := False \<rparr>"
  have st: "store_from_dict (store_to_dict ?os (e_store s)) [] os' = (?st, os' @ ?more)"
  proof -
    have "distinct (map fst ([] @ e_store s))" "\<forall>(i, r) \<in> set (e_store s). order_id (?os ! r) = i"
      using snap by (auto simp: snapshotable_def obj_def)
    from store_read_back[OF this] show ?thesis by simp
  qed
  let ?sn = "\<lparr> cs_book = sn, cs_store = store_to_dict ?os (e_store s), cs_symbol = e_symbol s, cs_cmd = e_cmd s \<rparr>"
  have from_sn: "ctx_from_dict k x ?sn w = Inr ?t"
    using b(2) st assms(1) by (simp add: ctx_from_dict_def)
  have to_sn: "ctx_to_dict k x s = Inr ?sn"
    using b(1) assms(1) by (simp add: ctx_to_dict_def)
  have queues: "queue_orders ?t (ab' sd p) = map without_fills (queue_orders s (ab sd p))" for sd p
  proof -
    have Q: "map fst (ab' sd p) = map fst (ab sd p)"
        "map (\<lambda>(i, a). os' ! n_order (ob_nodes ob' ! a)) (ab' sd p) = read_back ?os ?ns (map snd (ab sd p))"
        "\<forall>(i, a) \<in> set (ab' sd p). n_order (ob_nodes ob' ! a) < length os'"
      using b(5) by (simp_all add: same_queues_def)
    have "queue_orders ?t (ab' sd p) = map (\<lambda>(i, a). (i, os' ! n_order (ob_nodes ob' ! a))) (ab' sd p)"
      using Q(3) by (auto simp: queue_orders_def obj_def nth_append)
    then show ?thesis using queue_read_back[OF R snap] by (simp only: map_pairs Q(1,2))
  qed
  have stored: "map (\<lambda>(i, r). (i, obj ?t r)) ?st = map (\<lambda>(i, r). without_fills (i, obj s r)) (e_store s)"
  proof (rule nth_equalityI)
    fix j assume "j < length (map (\<lambda>(i, r). (i, obj ?t r)) ?st)"
    then have j: "j < length (e_store s)" by simp
    obtain i r where ir: "e_store s ! j = (i, r)" by (cases "e_store s ! j")
    then have "(i, r) \<in> set (e_store s)" using j by (metis nth_mem)
    then have "r < length ?os" using snap by (auto simp: snapshotable_def)
    then have "order_from_dict (order_to_dict (?os ! r)) = (obj s r)\<lparr> fills := [] \<rparr>"
      using snap by (simp add: order_roundtrip snapshotable_def obj_def)
    then show "map (\<lambda>(i, r). (i, obj ?t r)) ?st ! j = map (\<lambda>(i, r). without_fills (i, obj s r)) (e_store s) ! j"
      using j ir by (simp add: obj_def nth_append without_fills_def)
  qed simp
  have "n_order (ob_nodes ob' ! a) < length os'" if "(i, a) \<in> set (ab' sd p)" for sd p i a
    using b(5) that by (fastforce simp: same_queues_def)
  moreover have "length os' \<le> r" if "(j, r) \<in> set ?st" for j r using that by (auto simp: in_set_zip)
  ultimately have apart: "\<forall>sd p. \<forall>(i, a) \<in> set (ab' sd p). \<forall>(j, r) \<in> set ?st. n_order (ob_nodes ob' ! a) \<noteq> r"
    by (fastforce dest: leD)
  show ?thesis
    by (rule exI[of _ ?sn], rule exI[of _ ?t], rule exI[of _ ab'])
       (use from_sn to_sn queues stored apart b(3,4) in simp)
qed

end

end
