(* ===== verification/Engine_Frame.thy ===== *)
theory Engine_Frame imports Spot_Engine begin

text \<open>
  The contract that carries a two-state relation through a whole command. The locale
  \<open>engine_frame\<close> extends \<open>frame\<close> by one law per primitive operation of the engine: writing an order
  object, allocating one, the order store, the two book updates, logging an order or trade event, the
  escrow movements and settlements, the funds check. Its lemmas show that then every handler, the
  matching loops and \<open>handle_command\<close> stay inside the relation, whatever they return or raise.
\<close>

locale engine_frame = frame R for R :: "('m, 'r) engine \<Rightarrow> ('m, 'r) engine \<Rightarrow> bool" +
  fixes x :: "('m, 'r) env"
  assumes f_cmd: "stays R (upd (\<lambda>s. s\<lparr> e_cmd := c \<rparr>))"
    and f_alloc: "stays R (alloc (new_order_obj lk d))"
    and f_add_fill: "stays R (set_obj r (add_fill q p))"
    and f_assign: "stays R (set_obj r (assign_price v))"
    and f_status: "stays R (set_obj r (\<lambda>od. od\<lparr> o_status := st \<rparr>))"
    and f_executed: "stays R (set_obj r (\<lambda>od. od\<lparr> executed_quantity := q \<rparr>))"
    and f_active: "stays R (set_obj r (\<lambda>od. od\<lparr> links := set_active b (links od) \<rparr>))"
    and f_links: "stays R (set_obj r (\<lambda>od. od\<lparr> links := lk \<rparr>))"
    and f_store_add: "stays R (store_add r)"
    and f_store_remove: "stays R (store_remove r)"
    and f_append: "stays R (book_append x r v)"
    and f_remove: "stays R (book_remove x r v)"
    and f_fresh: "stays R fresh_id"
    and f_log: "(\<And>ev. km_event km \<noteq> BalanceEvent ev) \<Longrightarrow>
          (\<And>ev. km_event km = OrderEvent ev \<Longrightarrow> valid_order_event x ev \<and> km_category km = ORDER_CAT) \<Longrightarrow>
          stays R (log_event km)"
    and f_log_cmd: "stays R (log_command_event qm)"
    and f_inc_cash: "stays R (increase_cash_escrow x u a c)"
    and f_dec_cash: "stays R (decrease_cash_escrow x u a c)"
    and f_inc_asset: "stays R (increase_asset_escrow x u a c)"
    and f_dec_asset: "stays R (decrease_asset_escrow x u a c)"
    and f_settle_ask: "stays R (settle_ask x u q p c n)"
    and f_settle_bid: "stays R (settle_bid x u q p c n)"
    and f_check: "stays R (check_sufficient_balance x r q v)"
begin

lemmas combine = stays_basic stays_discard stays_side stays_linked[OF frame_axioms]

lemma stays_log_order: "stays R (log_order_event x u ev)"
  unfolding log_order_event_def by (cases "valid_order_event x ev") (auto intro!: combine f_log)

lemma stays_log_trade: "stays R (log_trade_event x u ev)"
  unfolding log_trade_event_def by (intro combine f_log) simp_all

lemma stays_logs:
  "stays R (log_about x u t r dt)" "stays R (log_own x t r dt)" "stays R (log_bare x t r dt)"
  "stays R (log_fill_event x r)"
  unfolding log_about_def log_own_def log_bare_def log_fill_event_def
  by (intro combine stays_log_order)+

lemma stays_at_price: "stays R (append_at_price x r)" "stays R (remove_at_price x r)"
  unfolding append_at_price_def remove_at_price_def by (intro combine f_append f_remove)+

lemmas leaf = f_alloc f_add_fill f_assign f_status f_executed f_active f_links f_store_add f_store_remove
  f_append f_remove f_fresh f_inc_cash f_dec_cash f_inc_asset f_dec_asset f_settle_ask f_settle_bid
  f_check stays_log_order stays_log_trade stays_logs stays_at_price

lemma stays_release: "stays R (release_escrow x r)" "stays R (ctx_release_escrow x r)"
  unfolding release_escrow_def ctx_release_escrow_def Let_def by (intro combine leaf)+

lemma stays_cancel_cases:
  "stays R (single_handle_cancel x r)" "stays R (oco_handle_cancel x r)"
  "stays R (oto_handle_cancel x r)" "stays R (otoco_handle_cancel x r)"
  unfolding single_handle_cancel_def oco_handle_cancel_def oto_handle_cancel_def otoco_handle_cancel_def
  by (intro combine leaf stays_release)+

lemma stays_cancel: "stays R (handle_cancel x r)"
  unfolding handle_cancel_def by (rule stays_ask) (simp add: stays_cancel_cases split: strategy_type.split)

lemma stays_filled_cases:
  "stays R (single_handle_filled x r)" "stays R (oco_handle_filled x r)"
  "stays R (oto_handle_filled x r)" "stays R (otoco_handle_filled x r)"
  unfolding single_handle_filled_def oco_handle_filled_def oto_handle_filled_def otoco_handle_filled_def
    otoco_activate_def
  by (intro combine leaf stays_release stays_cancel_cases)+

lemma stays_filled: "stays R (handle_filled x r)"
  unfolding handle_filled_def by (rule stays_ask) (simp add: stays_filled_cases split: strategy_type.split)

lemma stays_trade: "stays R (process_trade x t m q p)"
  unfolding process_trade_def log_trades_def after_fill_def take_escrow_def settle_def Let_def
  by (intro combine leaf stays_filled)

lemma stays_match_one: "stays R (match_one x t p m)"
  unfolding match_one_def Let_def by (intro combine f_check stays_trade stays_cancel)

lemma stays_level: "stays R (match_level x k t p c)"
proof (induction k arbitrary: c)
  case 0
  then show ?case by (cases c) (simp_all add: stays_ret stays_raise)
next
  case (Suc k)
  then show ?case
    by (cases c) (simp_all add: stays_ret, intro combine stays_match_one)
qed

lemma stays_loop: "stays R (match_loop x k t prev)"
proof (induction k arbitrary: prev)
  case 0
  then show ?case by (simp, intro combine)
next
  case (Suc k)
  then show ?case by (simp, intro combine stays_level)
qed

lemma stays_match: "stays R (match x k t)" "stays R (ctx_match x k t)"
  unfolding match_def ctx_match_def match_inner_def
  by (intro combine stays_loop stays_cancel f_check)+

lemma stays_try: "stays R (try_match x k r d)"
  unfolding try_match_def set_executed_def by (intro combine stays_match leaf)

lemma stays_outcome:
  "stays R m1 \<Longrightarrow> stays R m2 \<Longrightarrow> stays R m3 \<Longrightarrow>
   stays R (case oc of FAILURE \<Rightarrow> m3 | PARTIAL \<Rightarrow> m3 | SUCCESS \<Rightarrow> m2 | INSUFFICIENT_BALANCE \<Rightarrow> m1)"
  by (cases oc) simp_all

lemma stays_new_cases:
  "stays R (single_handle_new x k d)" "stays R (oto_handle_new x k d d')"
  unfolding single_handle_new_def single_finish_def oto_handle_new_def Let_def
  by (intro combine leaf stays_release stays_try stays_outcome)+

lemma stays_legs: "(\<And>a b. stays R (f a b)) \<Longrightarrow> stays R m \<Longrightarrow>
   stays R (case ls of [] \<Rightarrow> m | [a] \<Rightarrow> m | [a, b] \<Rightarrow> f a b | a # b # c # cs \<Rightarrow> m)"
  by (simp split: list.split)

lemma stays_new_pairs: "stays R (oco_handle_new x ls)" "stays R (otoco_handle_new x k d ls)"
  unfolding oco_handle_new_def otoco_handle_new_def Let_def
  by (intro stays_legs combine leaf stays_release stays_try stays_outcome)+

lemma stays_new: "stays R (handle_new_order x k st b)"
  unfolding handle_new_order_def
  by (simp add: stays_new_cases stays_new_pairs stays_raise split: strategy_type.split new_order.split)

lemma stays_validate: "stays R (validate_modify x lp sp r)"
  unfolding validate_modify_def reject_modify_def Let_def by (intro combine leaf)

lemma stays_modify_order: "stays R (modify_order x lp sp r)"
  unfolding modify_order_def log_modified_def Let_def by (intro combine leaf stays_validate)

lemma stays_modify: "stays R (strategy_modify x lp sp r)"
proof -
  have "stays R (oto_modify x lp sp r)" "stays R (otoco_modify x lp sp r)"
    unfolding oto_modify_def otoco_modify_def log_modified_def Let_def
    by (intro combine leaf stays_validate stays_modify_order)+
  then show ?thesis
    unfolding strategy_modify_def
    by (intro stays_ask) (simp add: stays_modify_order split: strategy_type.split)
qed

theorem stays_handle_command: "stays R (handle_command x k cmd)"
  unfolding handle_command_def run_handler_def handle_cancel_order_def handle_modify_order_def
  by (cases "cmd_body cmd")
     (simp_all add: stays_ret, (intro combine leaf f_cmd f_log_cmd stays_new stays_cancel stays_modify)+)

end

section \<open>Commands one after the other\<close>

text \<open>A sequence of commands, served one after the other; one that raises leaves its state to the next.\<close>

fun serve :: "('m, 'r) env \<Rightarrow> nat \<Rightarrow> command list \<Rightarrow> ('m, 'r) engine \<Rightarrow> ('m, 'r) engine" where
  "serve x k [] s = s"
| "serve x k (cmd # cmds) s = serve x k cmds (snd (handle_command x k cmd s))"

lemma stays_serve:
  assumes "frame R" "\<And>cmd. stays R (handle_command x k cmd)"
  shows "R s (serve x k cmds s)"
proof (induction cmds arbitrary: s)
  case Nil
  then show ?case using assms(1) by (simp add: frame_def)
next
  case (Cons cmd cmds)
  have "R s (snd (handle_command x k cmd s))" using assms(2) by (simp add: stays_def)
  then show ?case using Cons[of "snd (handle_command x k cmd s)"] assms(1) unfolding frame_def by fastforce
qed

end
