(* ===== verification/Engine_Invariants.thy ===== *)
theory Engine_Invariants imports Engine_Frame begin

text \<open>
  Three relations carried through every command by the locale \<open>engine_frame\<close>: the invariant of the
  order book, the identity of the order objects together with the constants of the engine, and the
  agreement of Redis with the published events (\<open>sourced\<close>).
\<close>

section \<open>How the primitive operations act on the fields\<close>

text \<open>An action of the engine that only touches Redis, the id supply, Kafka, the queue and the shadow position.\<close>

definition outside :: "('m, 'r) engine \<Rightarrow> ('m, 'r) engine \<Rightarrow> bool" where
  "outside s t \<longleftrightarrow>
     e_symbol t = e_symbol s \<and> e_objs t = e_objs s \<and> e_book t = e_book s \<and> e_store t = e_store s
     \<and> e_cmd t = e_cmd s \<and> attached t = attached s \<and> (e_shadow t = None) = (e_shadow s = None)"

interpretation out: frame outside
  by unfold_locales (auto simp: outside_def)

lemma out_log_event: "stays outside (log_event km)"
  by (rule staysI)
     (auto simp: log_event_def act_simps outside_def send_event_def advance_shadow_def)

lemma out_log_command: "stays outside (log_command_event qm)"
  by (rule staysI) (simp add: log_command_event_def act_simps outside_def)

lemma out_fresh: "stays outside fresh_id"
  by (rule staysI) (simp add: fresh_id_def outside_def)

lemma out_redis: "stays outside (upd (\<lambda>s. s\<lparr> e_redis := f s \<rparr>))"
  by (rule staysI) (simp add: upd_def outside_def)

lemma out_log_balance: "stays outside (log_balance_event x u ev)"
  unfolding log_balance_event_def by (intro out.stays_intros) (simp add: out_log_event out.stays_ret)

lemma out_update: "stays outside (update_balance x u c mk v l a)"
proof -
  have "stays outside (\<lambda>s. case lua_update_balance (redis_of x) (e_redis s) v l n a of
                         (w, r) \<Rightarrow> (Inr (Some w), s\<lparr> e_redis := r \<rparr>))" for n
    by (rule staysI) (simp add: outside_def split: prod.splits)
  then show ?thesis
    unfolding update_balance_def
    by (intro out.stays_ask)
       (auto simp: out.stays_ret out.stays_raise split: option.split
             intro!: out.stays_and_then out_fresh out_log_balance)
qed

lemma out_escrow:
  "stays outside (increase_cash_escrow x u a c)" "stays outside (decrease_cash_escrow x u a c)"
  "stays outside (increase_asset_escrow x u a c)" "stays outside (decrease_asset_escrow x u a c)"
  unfolding increase_cash_escrow_def decrease_cash_escrow_def increase_asset_escrow_def decrease_asset_escrow_def
  by (intro out.stays_ask out_update)+

lemma out_settle: "stays outside (settle_ask x u q p c n)" "stays outside (settle_bid x u q p c n)"
  unfolding settle_ask_def settle_bid_def
  by (intro out.stays_ask;
      auto simp: out.stays_ret out.stays_raise split: option.split
           intro!: out.stays_and_then out_fresh out_log_balance out_redis)+

lemma out_reads: "stays outside (get_available_cash_balance x u)" "stays outside (get_available_asset_balance x u)"
proof -
  have "stays outside (get_or_set x k v)" for k v
    by (rule staysI) (simp add: get_or_set_def outside_def split: option.split)
  then show "stays outside (get_available_cash_balance x u)"
    unfolding get_available_cash_balance_def get_cash_balance_def get_cash_escrow_def
    by (intro out.stays_intros)
  show "stays outside (get_available_asset_balance x u)"
    unfolding get_available_asset_balance_def Let_def
    by (intro out.stays_ask out.stays_and_then out.stays_ret out.stays_run_all)
       (auto intro!: out.stays_only_if out_redis)
qed

lemma stays_mono: "stays R m \<Longrightarrow> (\<And>s t. R s t \<Longrightarrow> Q s t) \<Longrightarrow> stays Q m"
  by (simp add: stays_def)

lemmas outside_ops = out_log_event out_log_command out_fresh out_escrow out_settle out_reads

lemmas out_combine = out.stays_basic out.stays_discard out.stays_side outside_ops

lemma out_logs:
  "stays outside (log_order_event x u ev)" "stays outside (log_trade_event x u tev)"
  "stays outside (log_about x u t r dt)" "stays outside (log_own x t r dt)" "stays outside (log_bare x t r dt)"
  "stays outside (log_fill_event x r)"
  unfolding log_about_def log_own_def log_bare_def log_fill_event_def log_order_event_def log_trade_event_def
  by (intro out_combine)+

lemma out_release: "stays outside (release_escrow x r)" "stays outside (ctx_release_escrow x r)"
  unfolding release_escrow_def ctx_release_escrow_def Let_def by (intro out_combine)+

lemma out_check: "stays outside (check_sufficient_balance x r q v)"
  unfolding check_sufficient_balance_def Let_def by (intro out_combine)

lemma snd_set_obj: "snd (set_obj r f s) = s\<lparr> e_objs := (e_objs s)[r := f (e_objs s ! r)] \<rparr>"
  by (simp add: set_obj_def upd_def)

lemma snd_alloc: "snd (alloc od s) = s\<lparr> e_objs := e_objs s @ [od] \<rparr>"
  by (simp add: alloc_def)

lemma snd_store: "snd (store_add r s) = s\<lparr> e_store := dict_setdefault (e_store s) (order_id (obj s r)) r \<rparr>"
  "snd (store_remove r s) = s\<lparr> e_store := dict_pop (e_store s) (order_id (obj s r)) \<rparr>"
  by (simp_all add: store_add_def store_remove_def upd_def)

lemma snd_book:
  "snd (book_append x r v s) =
     s\<lparr> e_book := snd (ob_append (levels_api x) (e_book s) (order_id (obj s r)) (o_side (obj s r)) r v) \<rparr>"
  "snd (book_remove x r v s) =
     s\<lparr> e_book := snd (ob_remove (levels_api x) (e_book s) (order_id (obj s r)) (o_side (obj s r)) v) \<rparr>"
  by (simp_all add: book_append_def book_remove_def split: prod.splits)

lemmas snd_ops = snd_set_obj snd_alloc snd_store snd_book

text \<open>
  A relation that does not look at the outside world only has to be checked against the operations on
  the order objects, the store and the book.
\<close>

locale state_frame = frame R for R :: "('m, 'r) engine \<Rightarrow> ('m, 'r) engine \<Rightarrow> bool" +
  fixes x :: "('m, 'r) env"
  assumes of_outside: "outside s t \<Longrightarrow> R s t"
    and s_cmd: "R s (s\<lparr> e_cmd := c \<rparr>)"
    and s_alloc: "R s (s\<lparr> e_objs := e_objs s @ [new_order_obj lk d] \<rparr>)"
    and s_add_fill: "R s (s\<lparr> e_objs := (e_objs s)[r := add_fill q p (e_objs s ! r)] \<rparr>)"
    and s_assign: "R s (s\<lparr> e_objs := (e_objs s)[r := assign_price v (e_objs s ! r)] \<rparr>)"
    and s_status: "R s (s\<lparr> e_objs := (e_objs s)[r := (e_objs s ! r)\<lparr> o_status := st \<rparr>] \<rparr>)"
    and s_executed: "R s (s\<lparr> e_objs := (e_objs s)[r := (e_objs s ! r)\<lparr> executed_quantity := q \<rparr>] \<rparr>)"
    and s_links: "R s (s\<lparr> e_objs := (e_objs s)[r := (e_objs s ! r)\<lparr> links := lk \<rparr>] \<rparr>)"
    and s_store: "R s (s\<lparr> e_store := st' \<rparr>)"
    and s_append: "R s (s\<lparr> e_book := snd (ob_append (levels_api x) (e_book s) i sd r w) \<rparr>)"
    and s_remove: "R s (s\<lparr> e_book := snd (ob_remove (levels_api x) (e_book s) i sd w) \<rparr>)"
begin

lemma stays_outside: "stays outside m \<Longrightarrow> stays R m"
  by (erule stays_mono) (rule of_outside)

end

sublocale state_frame \<subseteq> engine_frame R x
proof unfold_locales
  show "stays R (upd (\<lambda>s. s\<lparr> e_cmd := c \<rparr>))" for c by (rule staysI) (simp add: upd_def s_cmd)
  show "stays R (alloc (new_order_obj lk d))" for lk d by (rule staysI) (simp add: snd_ops s_alloc)
  show "stays R (set_obj r (add_fill q p))" for r q p by (rule staysI) (simp add: snd_ops s_add_fill)
  show "stays R (set_obj r (assign_price v))" for r v by (rule staysI) (simp add: snd_ops s_assign)
  show "stays R (set_obj r (\<lambda>od. od\<lparr> o_status := st \<rparr>))" for r st by (rule staysI) (simp add: snd_ops s_status)
  show "stays R (set_obj r (\<lambda>od. od\<lparr> executed_quantity := q \<rparr>))" for r q
    by (rule staysI) (simp add: snd_ops s_executed)
  show "stays R (set_obj r (\<lambda>od. od\<lparr> links := set_active b (links od) \<rparr>))" for r b
    by (rule staysI) (simp add: snd_ops s_links)
  show "stays R (set_obj r (\<lambda>od. od\<lparr> links := lk \<rparr>))" for r lk by (rule staysI) (simp add: snd_ops s_links)
  show "stays R (store_add r)" for r by (rule staysI) (simp add: snd_ops s_store)
  show "stays R (store_remove r)" for r by (rule staysI) (simp add: snd_ops s_store)
  show "stays R (book_append x r v)" for r v by (rule staysI) (simp add: snd_ops s_append)
  show "stays R (book_remove x r v)" for r v by (rule staysI) (simp add: snd_ops s_remove)
qed (intro stays_outside outside_ops out_check)+

section \<open>The book invariant\<close>

definition engine_book_inv :: "('m, 'r) env \<Rightarrow> ('m \<Rightarrow> bool) \<Rightarrow> ('m, 'r) engine \<Rightarrow> bool" where
  "engine_book_inv x ok s \<longleftrightarrow> book_inv (levels_api x) ok (e_book s)"

locale book_env = order_book "levels_api x" ok for x :: "('m, 'r) env" and ok :: "'m \<Rightarrow> bool"

sublocale book_env \<subseteq> bk: state_frame "inv_rel (engine_book_inv x ok)" x
  by unfold_locales
     (auto simp: inv_rel_def engine_book_inv_def outside_def append_keeps_inv remove_keeps_inv)

context book_env
begin

lemma command_keeps_book: "stays (inv_rel (engine_book_inv x ok)) (handle_command x k cmd)"
  by (rule bk.stays_handle_command)

end

interpretation demo_book: book_env demo_env alist_ok
  unfolding book_env_def by (simp add: alb.order_book_axioms)

section \<open>Identities and constants\<close>

text \<open>
  What never changes of an existing order: who placed it, what it is for, how much and at what price.
  Its fills are only added to.
\<close>

definition same_order :: "order \<Rightarrow> order \<Rightarrow> bool" where
  "same_order a b \<longleftrightarrow>
     order_id b = order_id a \<and> user_id b = user_id a \<and> o_symbol b = o_symbol a \<and> o_side b = o_side a
     \<and> o_type b = o_type a \<and> quantity b = quantity a \<and> limit_price b = limit_price a
     \<and> stop_price b = stop_price a \<and> o_strategy b = o_strategy a
     \<and> (\<exists>fs. fills b = fills a @ fs)"

definition engine_constant :: "('m, 'r) engine \<Rightarrow> ('m, 'r) engine \<Rightarrow> bool" where
  "engine_constant s t \<longleftrightarrow>
     e_symbol t = e_symbol s \<and> attached t = attached s \<and> (e_shadow t = None) = (e_shadow s = None)
     \<and> ob_cur_price (e_book t) = ob_cur_price (e_book s)
     \<and> length (e_objs s) \<le> length (e_objs t)
     \<and> (\<forall>r < length (e_objs s). same_order (e_objs s ! r) (e_objs t ! r))"

lemma same_order_refl [simp]: "same_order od od"
  by (simp add: same_order_def)

lemma same_order_trans: "same_order a b \<Longrightarrow> same_order b c \<Longrightarrow> same_order a c"
  by (auto simp: same_order_def)

lemma ob_ops_price [simp]:
  "ob_cur_price (snd (ob_append d ob i sd r w)) = ob_cur_price ob"
  "ob_cur_price (snd (ob_remove d ob i sd w)) = ob_cur_price ob"
proof -
  have b: "ob_cur_price (case b of None \<Rightarrow> put_best sd (Some p) ob
              | Some k \<Rightarrow> if better sd p k then put_best sd (Some p) ob else ob) = ob_cur_price ob" for b p
    by (simp split: option.split)
  show "ob_cur_price (snd (ob_append d ob i sd r w)) = ob_cur_price ob"
    by (auto simp: ob_append_def Let_def b split: option.split sum.split)
  show "ob_cur_price (snd (ob_remove d ob i sd w)) = ob_cur_price ob"
    by (auto simp: ob_remove_def Let_def split: option.split sum.split)
qed

lemma same_orders_update:
  "same_order (os ! r) od \<Longrightarrow> \<forall>r' < length os. same_order (os ! r') (os[r := od] ! r')"
  by (cases "r < length os") (auto simp: nth_list_update)

interpretation const: state_frame engine_constant x for x :: "('m, 'r) env"
proof unfold_locales
  fix s t u :: "('m, 'r) engine"
  show "engine_constant s t \<Longrightarrow> engine_constant t u \<Longrightarrow> engine_constant s u"
    unfolding engine_constant_def by (auto intro: same_order_trans[of "e_objs s ! r" "e_objs t ! r" for r])
qed (auto simp: engine_constant_def outside_def nth_append
       intro!: same_orders_update[rule_format], auto simp: same_order_def assign_price_def)

section \<open>Shadow engines\<close>

text \<open>A shadow engine touches neither Redis nor Kafka, and it stays a shadow engine.\<close>

definition shadow_quiet :: "('m, 'r) engine \<Rightarrow> ('m, 'r) engine \<Rightarrow> bool" where
  "shadow_quiet s t \<longleftrightarrow>
     (e_shadow s \<noteq> None \<longrightarrow> e_shadow t \<noteq> None \<and> e_redis t = e_redis s \<and> e_kafka t = e_kafka s)"

interpretation shq: frame shadow_quiet
  by unfold_locales (auto simp: shadow_quiet_def)

lemma shadow_update: "stays shadow_quiet (update_balance x u c mk v l a)"
  by (rule staysI) (cases c; simp add: shadow_quiet_def update_balance_def act_simps)

lemma shadow_moves:
  "stays shadow_quiet (increase_cash_escrow x u a c)" "stays shadow_quiet (decrease_cash_escrow x u a c)"
  "stays shadow_quiet (increase_asset_escrow x u a c)" "stays shadow_quiet (decrease_asset_escrow x u a c)"
  unfolding increase_cash_escrow_def decrease_cash_escrow_def increase_asset_escrow_def decrease_asset_escrow_def
  by (intro shq.stays_ask shadow_update)+

interpretation shf: engine_frame shadow_quiet x for x :: "('m, 'r) env"
proof unfold_locales
  show "stays shadow_quiet (check_sufficient_balance x r q v)" for r q v
    by (rule staysI) (auto simp: shadow_quiet_def check_sufficient_balance_def act_simps Let_def)
  show "stays shadow_quiet (settle_ask x u q p c n)" "stays shadow_quiet (settle_bid x u q p c n)" for u q p c n
    by (rule staysI; cases c; simp add: shadow_quiet_def settle_ask_def settle_bid_def act_simps)+
qed (rule shadow_moves
     | rule staysI; auto simp: shadow_quiet_def snd_ops upd_def fresh_id_def log_event_def log_command_event_def
         raise_def advance_shadow_def)+

section \<open>The published order events\<close>

definition published_orders :: "('m, 'r) engine \<Rightarrow> order_event list" where
  "published_orders s = concat (map (\<lambda>km. case km_event km of OrderEvent ev \<Rightarrow> [ev] | _ \<Rightarrow> []) (e_kafka s))"

definition no_order_event :: "('m, 'r) engine \<Rightarrow> ('m, 'r) engine \<Rightarrow> bool" where
  "no_order_event s t \<longleftrightarrow> published_orders t = published_orders s"

interpretation noe: frame no_order_event
  by unfold_locales (auto simp: no_order_event_def)

lemma noe_log_balance: "stays no_order_event (log_balance_event x u ev)"
  by (rule staysI)
     (auto simp: log_balance_event_def log_event_def act_simps no_order_event_def published_orders_def
       send_event_def advance_shadow_def)

lemma noe_fresh: "stays no_order_event fresh_id"
  by (rule staysI) (simp add: fresh_id_def no_order_event_def published_orders_def)

lemma noe_update: "stays no_order_event (update_balance x u c mk v l a)"
proof -
  have "stays no_order_event (\<lambda>s. case lua_update_balance (redis_of x) (e_redis s) v l n a of
                         (w, r) \<Rightarrow> (Inr (Some w), s\<lparr> e_redis := r \<rparr>))" for n
    by (rule staysI) (simp add: no_order_event_def published_orders_def split: prod.splits)
  then show ?thesis
    unfolding update_balance_def
    by (intro noe.stays_ask)
       (auto simp: noe.stays_ret noe.stays_raise split: option.split
             intro!: noe.stays_and_then noe_fresh noe_log_balance)
qed

lemma noe_release: "stays no_order_event (release_escrow x r)"
  unfolding release_escrow_def decrease_cash_escrow_def decrease_asset_escrow_def Let_def
  by (intro noe.stays_basic noe.stays_discard noe.stays_side noe_update)

text \<open>Whatever else a command does, the messages it publishes come after those that were there, and every order event passes the validation of its class.\<close>

definition sound_msg :: "('m, 'r) env \<Rightarrow> kafka_msg \<Rightarrow> bool" where
  "sound_msg x km \<longleftrightarrow> (\<forall>ev. km_event km = OrderEvent ev \<longrightarrow> valid_order_event x ev \<and> km_category km = ORDER_CAT)"

definition feeds :: "('m, 'r) env \<Rightarrow> ('m, 'r) engine \<Rightarrow> ('m, 'r) engine \<Rightarrow> bool" where
  "feeds x s t \<longleftrightarrow> (\<exists>new. e_kafka t = e_kafka s @ new \<and> list_all (sound_msg x) new)"

interpretation fd: frame "feeds x" for x :: "('m, 'r) env"
  by unfold_locales (auto simp: feeds_def)

lemma feeds_same: "e_kafka t = e_kafka s \<Longrightarrow> feeds x s t"
  by (simp add: feeds_def)

lemma feeds_log:
  "(\<And>ev. km_event km = OrderEvent ev \<Longrightarrow> valid_order_event x ev \<and> km_category km = ORDER_CAT) \<Longrightarrow> stays (feeds x) (log_event km)"
  by (rule staysI)
     (auto simp: log_event_def act_simps feeds_def send_event_def advance_shadow_def sound_msg_def split: if_splits)

lemma feeds_log_balance: "stays (feeds x) (log_balance_event x u ev)"
  unfolding log_balance_event_def by (intro fd.stays_intros) (auto intro!: feeds_log fd.stays_ret)

lemma feeds_quiet: "(\<And>s. e_kafka (snd (m s)) = e_kafka s) \<Longrightarrow> stays (feeds x) m"
  by (rule staysI) (metis feeds_same snd_conv)

lemma feeds_fresh: "stays (feeds x) fresh_id"
  by (rule feeds_quiet) (simp add: fresh_id_def)

lemma feeds_redis: "stays (feeds x) (upd (\<lambda>s. s\<lparr> e_redis := f s \<rparr>))"
  by (rule feeds_quiet) (simp add: upd_def)

lemma feeds_update: "stays (feeds x) (update_balance x u c mk v l a)"
proof -
  have "stays (feeds x) (\<lambda>s. case lua_update_balance (redis_of x) (e_redis s) v l n a of
                         (w, r) \<Rightarrow> (Inr (Some w), s\<lparr> e_redis := r \<rparr>))" for n
    by (rule feeds_quiet) (simp split: prod.splits)
  then show ?thesis
    unfolding update_balance_def
    by (intro fd.stays_ask)
       (auto simp: fd.stays_ret fd.stays_raise split: option.split
             intro!: fd.stays_and_then feeds_fresh feeds_log_balance)
qed

lemma feeds_escrow:
  "stays (feeds x) (increase_cash_escrow x u a c)" "stays (feeds x) (decrease_cash_escrow x u a c)"
  "stays (feeds x) (increase_asset_escrow x u a c)" "stays (feeds x) (decrease_asset_escrow x u a c)"
  unfolding increase_cash_escrow_def decrease_cash_escrow_def increase_asset_escrow_def decrease_asset_escrow_def
  by (intro fd.stays_ask feeds_update)+

lemma feeds_settle: "stays (feeds x) (settle_ask x u q p c n)" "stays (feeds x) (settle_bid x u q p c n)"
  unfolding settle_ask_def settle_bid_def
  by (intro fd.stays_ask;
      auto simp: fd.stays_ret fd.stays_raise split: option.split
           intro!: fd.stays_and_then feeds_fresh feeds_log_balance feeds_redis)+

lemma feeds_reads:
  "stays (feeds x) (get_available_cash_balance x u)" "stays (feeds x) (get_available_asset_balance x u)"
proof -
  have "stays (feeds x) (get_or_set x k v)" for k v
    by (rule feeds_quiet) (simp add: get_or_set_def split: option.split)
  then show "stays (feeds x) (get_available_cash_balance x u)"
    unfolding get_available_cash_balance_def get_cash_balance_def get_cash_escrow_def
    by (intro fd.stays_intros)
  show "stays (feeds x) (get_available_asset_balance x u)"
    unfolding get_available_asset_balance_def Let_def
    by (intro fd.stays_ask fd.stays_and_then fd.stays_ret fd.stays_run_all)
       (auto intro!: fd.stays_only_if feeds_redis)
qed

lemma feeds_check: "stays (feeds x) (check_sufficient_balance x r q v)"
  unfolding check_sufficient_balance_def Let_def by (intro fd.stays_basic fd.stays_side feeds_reads)

interpretation fdf: engine_frame "feeds x" x for x :: "('m, 'r) env"
  by unfold_locales
     ((rule feeds_log feeds_fresh feeds_escrow feeds_settle feeds_check; blast)
      | (rule feeds_quiet, simp add: snd_ops upd_def log_command_event_def))+

section \<open>Redis and the published events\<close>

lemma sourced_local:
  assumes "e_redis t = e_redis s" "e_symbol t = e_symbol s" "e_uuid t = e_uuid s" "e_kafka t = e_kafka s"
  shows "sourced x s t"
  using assms by (intro sourced_quiet[of t s "[]"]) simp_all

context balance_env
begin

lemma sourced_check: "stays (sourced x) (check_sufficient_balance x r q v)"
  unfolding check_sufficient_balance_def Let_def
  by (intro src.stays_basic src.stays_side sourced_cash_available sourced_asset_available)

end

sublocale balance_env \<subseteq> sc: engine_frame "sourced x" x
proof unfold_locales
  fix km :: kafka_msg
  assume "\<And>ev. km_event km \<noteq> BalanceEvent ev"
  then have none: "total_moved [km] a u = 0" for a u by (simp split: engine_event.split)
  show "stays (sourced x) (log_event km)"
  proof (rule staysI)
    fix s :: "('m, 'r) engine"
    show "sourced x s (snd (log_event km s))"
      using sourced_quiet[of "send_event km s" s "[km]" x] sourced_local[of "advance_shadow s" s x] none src.frame_refl
      by (auto simp: log_event_def act_simps send_event_def advance_shadow_def)
  qed
next
  show "stays (sourced x) fresh_id"
    by (rule staysI) (rule sourced_quiet[of _ _ "[]"], simp_all add: fresh_id_def)
qed (rule sourced_cash_ops sourced_asset_ops sourced_settle_ask sourced_settle_bid sourced_check
     | rule staysI, rule sourced_local; simp add: snd_ops upd_def log_command_event_def)+

context balance_env
begin

lemma command_sourced: "stays (sourced x) (handle_command x k cmd)"
  by (rule sc.stays_handle_command)

end

end
