(* ===== verification/Matching.thy ===== *)
theory Matching imports Engine_Invariants begin

text \<open>
  The matching loop on books of single orders: it ends, it never fills an order beyond its quantity,
  and a trade gives both sides the same fill. The loop's fuel is enough when it covers the nodes of
  the book plus its levels on the other side: along \<open>next\<close> addresses grow, and each round of the outer
  loop that is followed by another one has emptied a level.

  \<open>calm\<close> says that an action never runs out of fuel by itself. The relations \<open>narrows\<close> (no level
  appears, nodes keep their orders) and \<open>still\<close> (order objects are untouched) are stated for a set of
  orders known to be single ones, so that the strategies' callbacks are those of \<open>SingleOrderStrategy\<close>.
\<close>

section \<open>Actions that cannot run out of fuel\<close>

definition calm :: "('s, 'a) act \<Rightarrow> bool" where
  "calm m \<longleftrightarrow> (\<forall>s. fst (m s) \<noteq> Inl Diverge)"

lemma calmI: "(\<And>s. fst (m s) \<noteq> Inl Diverge) \<Longrightarrow> calm m"
  by (simp add: calm_def)

lemma calmD: "calm m \<Longrightarrow> m s = (r, t) \<Longrightarrow> r \<noteq> Inl Diverge"
  unfolding calm_def by (metis fst_conv)

lemma calm_ret: "calm (ret v)" and calm_raise: "e \<noteq> Diverge \<Longrightarrow> calm (raise e)"
  and calm_of_res: "r \<noteq> Inl Diverge \<Longrightarrow> calm (of_res r)" and calm_upd: "calm (upd f)"
  by (simp_all add: calm_def act_simps)

lemma calm_and_then:
  assumes "calm m" and "\<And>v. calm (k v)"
  shows "calm (and_then m k)"
proof (rule calmI)
  fix s
  obtain r t where ms: "m s = (r, t)" by fastforce
  then show "fst (and_then m k s) \<noteq> Inl Diverge"
    using assms(2) calmD[OF assms(1) ms] by (cases r) (auto simp: and_then_def calm_def)
qed

lemma calm_ask: "(\<And>s. calm (f s)) \<Longrightarrow> calm (ask f)"
  by (simp add: calm_def ask_def)

lemma calm_only_if: "calm m \<Longrightarrow> calm (only_if b m)"
  by (simp add: only_if_def calm_ret)

lemma calm_Nil: "calm (run_all [])"
  by (simp add: calm_def)

lemma calm_Cons: "calm m \<Longrightarrow> calm (run_all ms) \<Longrightarrow> calm (run_all (m # ms))"
  by (simp add: run_all_Cons calm_and_then)

lemma calm_discard: "calm m \<Longrightarrow> calm (discard m)"
  unfolding discard_def by (intro calm_and_then calm_ret)

lemma calm_linked: "(\<And>r. calm (f r)) \<Longrightarrow> calm (linked lk f)"
  by (cases lk) (simp_all add: linked_def calm_raise)

lemma calm_if: "(b \<Longrightarrow> calm m) \<Longrightarrow> (\<not> b \<Longrightarrow> calm n) \<Longrightarrow> calm (if b then m else n)"
  by simp

lemma calm_option: "calm m \<Longrightarrow> (\<And>v. calm (f v)) \<Longrightarrow> calm (case v of None \<Rightarrow> m | Some w \<Rightarrow> f w)"
  by (cases v) simp_all

lemma calm_side: "calm m \<Longrightarrow> calm n \<Longrightarrow> calm (case sd of BID \<Rightarrow> m | ASK \<Rightarrow> n)"
  by (cases sd) simp_all

lemma calm_pair: "(\<And>a b. calm (f a b)) \<Longrightarrow> calm (case v of (a, b) \<Rightarrow> f a b)"
  by (cases v) simp

lemma no_diverge [simp]:
  "order_price od \<noteq> Inl Diverge" "times_price q od \<noteq> Inl Diverge"
  "get_counterparty lk \<noteq> Inl Diverge" "get_parent lk \<noteq> Inl Diverge" "get_child lk \<noteq> Inl Diverge"
  "get_child_a lk \<noteq> Inl Diverge" "get_child_b lk \<noteq> Inl Diverge" "get_active lk \<noteq> Inl Diverge"
  "limit_crossable v sd ob \<noteq> Inl Diverge" "stop_crossable v sd ob \<noteq> Inl Diverge"
  "matchable s d \<noteq> Inl Diverge"
  by (cases lk; simp add: order_price_def times_price_def limit_crossable_def stop_crossable_def matchable_def
        split: order_type.split sum.split option.split)+

lemma get_modified_no_diverge [simp]: "get_modified_price lp sp od \<noteq> Inl Diverge"
  using no_diverge(1)[of od] by (auto simp: get_modified_price_def Let_def split: sum.split)

lemmas calm_combine = calm_ret calm_raise calm_of_res calm_upd calm_and_then calm_ask calm_only_if
  calm_Nil calm_Cons calm_discard calm_linked calm_if calm_option calm_side calm_pair

text \<open>The book updates raise \<open>ValueError\<close>, \<open>KeyError\<close>, \<open>AttributeError\<close> or \<open>IndexError\<close> at most.\<close>

lemma calm_level_ops: "level_append ns l i r \<noteq> Inl Diverge" "level_remove ns l i \<noteq> Inl Diverge"
  by (auto simp: level_append_def level_remove_def Let_def split: option.split)

lemma calm_peekitem: "peekitem d m i \<noteq> Inl Diverge"
  by (simp add: peekitem_def Let_def)

lemma calm_next_best: "next_best d m sd p b \<noteq> Inl Diverge"
  by (auto simp: next_best_def Let_def calm_peekitem split: sum.split)

lemma calm_book: "calm (book_append x r v)" "calm (book_remove x r v)"
proof -
  show "calm (book_append x r v)"
    by (rule calmI) (auto simp: book_append_def ob_append_def Let_def calm_level_ops
          split: option.split sum.split prod.split)
  show "calm (book_remove x r v)"
    by (rule calmI) (auto simp: book_remove_def ob_remove_def Let_def calm_level_ops calm_next_best
          split: option.split sum.split prod.split if_splits)
qed

lemma calm_leaf:
  "calm (set_obj r f)" "calm (alloc od)" "calm fresh_id" "calm (store_add r)" "calm (store_remove r)"
  "calm (log_command_event qm)" "calm (log_event km)"
  by (simp_all add: calm_def set_obj_def alloc_def fresh_id_def store_add_def store_remove_def
        log_command_event_def log_event_def act_simps)

lemma calm_logs:
  "calm (log_order_event x u ev)" "calm (log_trade_event x u tev)" "calm (log_balance_event x u bev)"
  unfolding log_order_event_def log_trade_event_def log_balance_event_def
  by (intro calm_combine calm_leaf; simp)+

lemma calm_reads: "calm (get_available_cash_balance x u)" "calm (get_available_asset_balance x u)"
proof -
  have "calm (get_or_set x k v)" for k v
    by (rule calmI) (simp add: get_or_set_def split: option.split)
  then show "calm (get_available_cash_balance x u)"
    unfolding get_available_cash_balance_def get_cash_balance_def get_cash_escrow_def
    by (intro calm_combine)
  show "calm (get_available_asset_balance x u)"
    unfolding get_available_asset_balance_def Let_def by (intro calm_combine)
qed

lemma calm_update: "calm (update_balance x u c mk v l a)"
proof -
  have "calm (\<lambda>s. case lua_update_balance (redis_of x) (e_redis s) v l n a of
                (w, r) \<Rightarrow> (Inr (Some w), s\<lparr> e_redis := r \<rparr>))" for n
    by (rule calmI) (simp split: prod.splits)
  then show ?thesis
    unfolding update_balance_def by (intro calm_combine calm_leaf calm_logs; simp)
qed

lemma calm_moves:
  "calm (increase_cash_escrow x u a c)" "calm (decrease_cash_escrow x u a c)"
  "calm (increase_asset_escrow x u a c)" "calm (decrease_asset_escrow x u a c)"
  "calm (settle_ask x u q p c n)" "calm (settle_bid x u q p c n)"
  unfolding increase_cash_escrow_def decrease_cash_escrow_def increase_asset_escrow_def
    decrease_asset_escrow_def settle_ask_def settle_bid_def
  by (intro calm_combine calm_update calm_leaf calm_logs; simp)+

lemma calm_about:
  "calm (log_about x u t r dt)" "calm (log_own x t r dt)" "calm (log_bare x t r dt)" "calm (log_fill_event x r)"
  "calm (append_at_price x r)" "calm (remove_at_price x r)"
  unfolding log_about_def log_own_def log_bare_def log_fill_event_def append_at_price_def remove_at_price_def
  by (intro calm_combine calm_logs calm_book; simp)+

lemmas calm_ops = calm_leaf calm_logs calm_about calm_book calm_reads calm_moves

lemma calm_release: "calm (release_escrow x r)" "calm (ctx_release_escrow x r)"
  unfolding release_escrow_def ctx_release_escrow_def Let_def by (intro calm_combine calm_ops; simp)+

lemma calm_check: "calm (check_sufficient_balance x r q v)"
  unfolding check_sufficient_balance_def Let_def by (intro calm_combine calm_ops; simp)

lemma calm_cancel: "calm (handle_cancel x r)"
proof -
  have "calm (single_handle_cancel x r)" "calm (oco_handle_cancel x r)" "calm (oto_handle_cancel x r)"
       "calm (otoco_handle_cancel x r)"
    unfolding single_handle_cancel_def oco_handle_cancel_def oto_handle_cancel_def otoco_handle_cancel_def
    by (intro calm_combine calm_ops calm_release; simp)+
  then show ?thesis
    unfolding handle_cancel_def by (intro calm_ask) (simp split: strategy_type.split)
qed

lemma calm_filled: "calm (handle_filled x r)"
proof -
  have oco: "calm (oco_handle_cancel x r)" for r
    unfolding oco_handle_cancel_def by (intro calm_combine calm_ops calm_release; simp)
  have "calm (single_handle_filled x r)" "calm (oco_handle_filled x r)" "calm (oto_handle_filled x r)"
       "calm (otoco_handle_filled x r)"
    unfolding single_handle_filled_def oco_handle_filled_def oto_handle_filled_def otoco_handle_filled_def
      otoco_activate_def
    by (intro calm_combine calm_ops calm_release oco; simp)+
  then show ?thesis
    unfolding handle_filled_def by (intro calm_ask) (simp split: strategy_type.split)
qed

lemma calm_match_one: "calm (match_one x t p m)"
  unfolding match_one_def process_trade_def log_trades_def after_fill_def take_escrow_def settle_def Let_def
  by (intro calm_combine calm_ops calm_check calm_cancel calm_filled; simp)

lemma calm_modify: "calm (strategy_modify x lp sp r)"
proof -
  have v: "calm (validate_modify x lp sp r)"
    unfolding validate_modify_def reject_modify_def Let_def by (intro calm_combine calm_ops; simp)
  have m: "calm (modify_order x lp sp r)"
    unfolding modify_order_def log_modified_def Let_def by (intro calm_combine calm_ops v; simp)
  have "calm (oto_modify x lp sp r)" "calm (otoco_modify x lp sp r)"
    unfolding oto_modify_def otoco_modify_def log_modified_def Let_def
    by (intro calm_combine calm_ops v m; simp)+
  then show ?thesis
    unfolding strategy_modify_def by (intro calm_ask) (simp add: m split: strategy_type.split)
qed

section \<open>Handlers that stay outside\<close>

lemma out_money: "stays outside (take_escrow x r c)" "stays outside (settle x t m q p c i j)"
  unfolding take_escrow_def settle_def Let_def by (intro out_combine)+

section \<open>Relations for sets of single orders\<close>

definition single :: "('m, 'r) engine \<Rightarrow> nat \<Rightarrow> bool" where
  "single s r \<longleftrightarrow> r < length (e_objs s) \<and> o_strategy (e_objs s ! r) = SINGLE"

definition has_level :: "('m, 'r) env \<Rightarrow> ('m, 'r) engine \<Rightarrow> side \<Rightarrow> rat \<Rightarrow> bool" where
  "has_level x s sd p \<longleftrightarrow> sd_lookup (levels_api x) (side_levels (e_book s) sd) p \<noteq> None"

text \<open>The orders keep their identity and none is created.\<close>

definition same_objs :: "('m, 'r) engine \<Rightarrow> ('m, 'r) engine \<Rightarrow> bool" where
  "same_objs s t \<longleftrightarrow> length (e_objs t) = length (e_objs s)
     \<and> (\<forall>r < length (e_objs s). same_order (e_objs s ! r) (e_objs t ! r))"

text \<open>The book loses levels at most, the store loses entries at most, and every node keeps its order.\<close>

definition narrows :: "('m, 'r) env \<Rightarrow> ('m \<Rightarrow> bool) \<Rightarrow> ('m, 'r) engine \<Rightarrow> ('m, 'r) engine \<Rightarrow> bool" where
  "narrows x ok s t \<longleftrightarrow>
     (engine_book_inv x ok s \<longrightarrow>
        engine_book_inv x ok t
        \<and> map n_order (ob_nodes (e_book t)) = map n_order (ob_nodes (e_book s))
        \<and> (\<forall>sd p. has_level x t sd p \<longrightarrow> has_level x s sd p)
        \<and> set (e_store t) \<subseteq> set (e_store s))"

definition narrows_for :: "nat set \<Rightarrow> ('m, 'r) env \<Rightarrow> ('m \<Rightarrow> bool) \<Rightarrow> ('m, 'r) engine \<Rightarrow> ('m, 'r) engine \<Rightarrow> bool" where
  "narrows_for V x ok s t \<longleftrightarrow> ((\<forall>r \<in> V. single s r) \<longrightarrow> same_objs s t \<and> narrows x ok s t)"

definition still_for :: "nat set \<Rightarrow> ('m, 'r) engine \<Rightarrow> ('m, 'r) engine \<Rightarrow> bool" where
  "still_for V s t \<longleftrightarrow> ((\<forall>r \<in> V. single s r) \<longrightarrow> e_objs t = e_objs s)"

lemma same_objs_refl [simp]: "same_objs s s"
  by (simp add: same_objs_def)

lemma same_objs_trans: "same_objs s t \<Longrightarrow> same_objs t u \<Longrightarrow> same_objs s u"
  by (auto simp: same_objs_def intro: same_order_trans)

lemma single_same: "same_objs s t \<Longrightarrow> single s r \<Longrightarrow> single t r"
  by (auto simp: same_objs_def single_def same_order_def)

interpretation nf: frame "narrows_for V x ok" for V x ok
proof
  show "narrows_for V x ok s s" for s by (simp add: narrows_for_def narrows_def)
  show "narrows_for V x ok s t \<Longrightarrow> narrows_for V x ok t u \<Longrightarrow> narrows_for V x ok s u" for s t u
    using same_objs_trans[of s t u] single_same[of s t] by (auto simp: narrows_for_def narrows_def)
qed

interpretation sf: frame "still_for V" for V
  by unfold_locales (auto simp: still_for_def single_def)

text \<open>Both relations ignore what happens outside, in the store and in the current command.\<close>

lemma outside_narrows: "outside s t \<Longrightarrow> narrows_for V x ok s t"
  by (simp add: outside_def narrows_for_def same_objs_def narrows_def engine_book_inv_def has_level_def)

lemma outside_still: "outside s t \<Longrightarrow> still_for V s t"
  by (simp add: outside_def still_for_def)

lemmas to_narrows = stays_mono[OF _ outside_narrows]
lemmas to_still = stays_mono[OF _ outside_still]

lemma narrows_store: "stays (narrows_for V x ok) (store_remove r)"
  by (rule staysI)
     (auto simp: snd_ops narrows_for_def same_objs_def narrows_def engine_book_inv_def has_level_def dict_pop_def)

lemma still_store: "stays (still_for V) (store_remove r)"
  by (rule staysI) (simp add: snd_ops still_for_def)

lemma still_book: "stays (still_for V) (book_remove x r v)"
  by (rule staysI) (simp add: snd_ops still_for_def)

lemma narrows_fill: "stays (narrows_for V x ok) (set_obj r (add_fill q p))"
proof (rule staysI)
  fix s :: "('a, 'b) engine"
  have "same_order (e_objs s ! r) (add_fill q p (e_objs s ! r))" by (simp add: same_order_def)
  then show "narrows_for V x ok s (snd (set_obj r (add_fill q p) s))"
    by (simp add: snd_ops narrows_for_def same_objs_def narrows_def engine_book_inv_def has_level_def
          same_orders_update[rule_format])
qed

context book_env
begin

lemma remove_narrows:
  assumes "book_inv (levels_api x) ok ob"
    and ob'_def: "ob' = snd (ob_remove (levels_api x) ob i sd v)"
  shows "map n_order (ob_nodes ob') = map n_order (ob_nodes ob)"
    and "sd_lookup (levels_api x) (side_levels ob' sd') p \<noteq> None \<Longrightarrow>
         sd_lookup (levels_api x) (side_levels ob sd') p \<noteq> None"
proof -
  obtain ab where R: "book_repr (levels_api x) ok ob ab" using assms(1) by (auto simp: book_inv_def)
  have "map n_order (ob_nodes ob') = map n_order (ob_nodes ob) \<and>
        (sd_lookup (levels_api x) (side_levels ob' sd') p \<noteq> None \<longrightarrow>
         sd_lookup (levels_api x) (side_levels ob sd') p \<noteq> None)"
  proof (cases "\<exists>w. v = Some w \<and> i \<in> fst ` set (ab sd w)")
    case True
    then obtain w where v: "v = Some w" "i \<in> fst ` set (ab sd w)" by blast
    from remove_refines[OF R v(2)] have
      ob': "book_repr (levels_api x) ok ob' (ab_remove ab sd w i)"
        "node_frame (ob_nodes ob) (ob_nodes ob') (snd ` set (ab sd w))"
        "length (ob_nodes ob') = length (ob_nodes ob)"
      unfolding ob'_def v(1) by auto
    have "map n_order (ob_nodes ob') = map n_order (ob_nodes ob)"
      using ob'(2,3) by (intro nth_equalityI) (auto simp: node_frame_def)
    moreover have "ab_remove ab sd w i sd' p \<noteq> [] \<Longrightarrow> ab sd' p \<noteq> []"
      by (auto simp: ab_remove_def dict_pop_def split: if_splits)
    ultimately show ?thesis using repr_None[OF ob'(1), of sd' p] repr_None[OF R, of sd' p] by simp
  next
    case False
    have "ob' = ob"
    proof (cases v)
      case (Some w)
      then show ?thesis
        using False remove_unknown[OF R, of sd w i] remove_no_level[OF R, of sd w i]
        by (cases "ab sd w = []") (auto simp: ob'_def)
    qed (simp add: ob'_def remove_None)
    then show ?thesis by simp
  qed
  then show "map n_order (ob_nodes ob') = map n_order (ob_nodes ob)"
    and "sd_lookup (levels_api x) (side_levels ob' sd') p \<noteq> None \<Longrightarrow>
         sd_lookup (levels_api x) (side_levels ob sd') p \<noteq> None" by blast+
qed

lemma narrows_book: "stays (narrows_for V x ok) (book_remove x r v)"
proof (rule staysI)
  fix s :: "('m, 'r) engine"
  let ?t = "snd (book_remove x r v s)"
  have "narrows x ok s ?t"
    using remove_narrows[of "e_book s"] remove_keeps_inv[of "e_book s"]
    by (auto simp: narrows_def snd_ops engine_book_inv_def has_level_def)
  then show "narrows_for V x ok s ?t" by (simp add: narrows_for_def same_objs_def snd_ops)
qed

lemmas narrows_step = nf.stays_basic narrows_store narrows_fill narrows_book
  to_narrows[OF out_fresh] to_narrows[OF out_logs(2)] to_narrows[OF out_logs(4)] to_narrows[OF out_logs(6)]
  to_narrows[OF out_release(2)] to_narrows[OF out_check] to_narrows[OF out_money(1)] to_narrows[OF out_money(2)]

lemma narrows_single_cancel: "stays (narrows_for V x ok) (single_handle_cancel x r)"
  unfolding single_handle_cancel_def remove_at_price_def by (intro narrows_step)

lemma narrows_cancel: "r \<in> V \<Longrightarrow> stays (narrows_for V x ok) (handle_cancel x r)"
proof (rule staysI)
  fix s :: "('m, 'r) engine"
  assume "r \<in> V"
  moreover have "narrows_for V x ok s (snd (single_handle_cancel x r s))"
    using narrows_single_cancel by (simp add: stays_def)
  ultimately show "narrows_for V x ok s (snd (handle_cancel x r s))"
    by (auto simp: narrows_for_def handle_cancel_def ask_def single_def obj_def)
qed

lemma narrows_filled: "r \<in> V \<Longrightarrow> stays (narrows_for V x ok) (handle_filled x r)"
  by (rule staysI)
     (auto simp: narrows_for_def handle_filled_def ask_def single_def obj_def single_handle_filled_def ret_def
        narrows_def)

lemma narrows_match_one:
  assumes "t \<in> V" "m \<in> V"
  shows "stays (narrows_for V x ok) (match_one x t p m)"
  unfolding match_one_def process_trade_def log_trades_def after_fill_def Let_def
  by (intro narrows_step narrows_cancel narrows_filled assms)

end

section \<open>Enough fuel\<close>

text \<open>Nodes of the book and of the taker that are known to be single orders.\<close>

definition all_single :: "nat set \<Rightarrow> ('m, 'r) engine \<Rightarrow> bool" where
  "all_single V s \<longleftrightarrow> (\<forall>r \<in> V. single s r) \<and> n_order ` set (ob_nodes (e_book s)) \<subseteq> V"

lemma all_single_node:
  "all_single V s \<Longrightarrow> a < length (ob_nodes (e_book s)) \<Longrightarrow> n_order (ob_nodes (e_book s) ! a) \<in> V"
  by (auto simp: all_single_def)

lemma all_single_narrows:
  assumes "all_single V s" "narrows_for V x ok s t" "engine_book_inv x ok s"
  shows "all_single V t \<and> engine_book_inv x ok t \<and> length (ob_nodes (e_book t)) = length (ob_nodes (e_book s))
         \<and> (\<forall>sd p. has_level x t sd p \<longrightarrow> has_level x s sd p) \<and> same_objs s t"
proof -
  have V: "\<forall>r \<in> V. single s r" using assms(1) by (simp add: all_single_def)
  then have n: "same_objs s t" "narrows x ok s t" using assms(2) by (simp_all add: narrows_for_def)
  then have nodes: "map n_order (ob_nodes (e_book t)) = map n_order (ob_nodes (e_book s))"
    using assms(3) by (simp add: narrows_def)
  then have "n_order ` set (ob_nodes (e_book t)) = n_order ` set (ob_nodes (e_book s))"
    by (metis set_map)
  moreover have "\<forall>r \<in> V. single t r" using V single_same[OF n(1)] by blast
  ultimately show ?thesis
    using assms(1,3) n map_eq_imp_length_eq[OF nodes] by (auto simp: all_single_def narrows_def)
qed

context book_env
begin

lemma next_bound:
  "engine_book_inv x ok s \<Longrightarrow> a < length (ob_nodes (e_book s)) \<Longrightarrow> orders_next (e_book s) a = Some b
   \<Longrightarrow> a < b \<and> b < length (ob_nodes (e_book s))"
  using repr_next_up next_up_D unfolding engine_book_inv_def book_inv_def orders_next_def by blast

lemma start_bound:
  assumes "engine_book_inv x ok s" "orders_start (levels_api x) (e_book s) p sd = Some a"
  shows "a < length (ob_nodes (e_book s))"
proof -
  obtain ab where R: "book_repr (levels_api x) ok (e_book s) ab"
    using assms(1) by (auto simp: engine_book_inv_def book_inv_def)
  obtain l where l: "sd_lookup (levels_api x) (side_levels (e_book s) sd) p = Some l" "lv_head l = Some a"
    using assms(2) by (auto simp: orders_start_def split: option.splits)
  have "level_repr (ob_nodes (e_book s)) l (ab sd p)" by (rule repr_Some[OF R l(1)])
  moreover from this have "a \<in> snd ` set (ab sd p)" 
    using l(2) hd_opt_in[of "map snd (ab sd p)" a] by (simp add: level_repr_def)
  ultimately show ?thesis by (rule level_repr_bound)
qed

text \<open>The loop over one level.\<close>

lemma level_narrows:
  assumes "t \<in> V" "all_single V s" "engine_book_inv x ok s"
    and "\<And>a. c = Some a \<Longrightarrow> a < length (ob_nodes (e_book s))"
  shows "narrows_for V x ok s (snd (match_level x k t p c s))"
  using assms(2-4)
proof (induction k arbitrary: c s)
  case 0
  then show ?case by (cases c) (simp_all add: act_simps nf.frame_refl)
next
  case (Suc k)
  show ?case
  proof (cases c)
    case None
    then show ?thesis by (simp add: act_simps nf.frame_refl)
  next
    case (Some a)
    let ?m = "n_order (ob_nodes (e_book s) ! a)"
    have a: "a < length (ob_nodes (e_book s))" using Suc Some by simp
    have mV: "?m \<in> V" by (rule all_single_node[OF Suc(2) a])
    obtain res s1 where one: "match_one x t p ?m s = (res, s1)" by fastforce
    have n1: "narrows_for V x ok s s1" by (rule staysD[OF narrows_match_one[OF assms(1) mV] one])
    note keep = all_single_narrows[OF Suc(2) n1 Suc(3)]
    have "narrows_for V x ok s1 (snd (match_level x k t p (orders_next (e_book s1) a) s1))"
      using keep a next_bound[of s1 a] by (intro Suc.IH) auto
    then show ?thesis
      using n1 Some one nf.frame_trans nf.frame_refl by (cases res) (auto simp: act_simps)
  qed
qed

lemma level_enough_fuel:
  assumes "t \<in> V" "all_single V s" "engine_book_inv x ok s"
    and "\<And>a. c = Some a \<Longrightarrow> a < length (ob_nodes (e_book s)) \<and> length (ob_nodes (e_book s)) - a \<le> k"
  shows "fst (match_level x k t p c s) \<noteq> Inl Diverge"
  using assms(2-4)
proof (induction k arbitrary: c s)
  case 0
  then show ?case by (cases c) (auto simp: act_simps)
next
  case (Suc k)
  show ?case
  proof (cases c)
    case None
    then show ?thesis by (simp add: act_simps)
  next
    case (Some a)
    let ?m = "n_order (ob_nodes (e_book s) ! a)"
    have a: "a < length (ob_nodes (e_book s))" "length (ob_nodes (e_book s)) - a \<le> Suc k" using Suc Some by auto
    have mV: "?m \<in> V" by (rule all_single_node[OF Suc(2) a(1)])
    obtain res s1 where one: "match_one x t p ?m s = (res, s1)" by fastforce
    have n1: "narrows_for V x ok s s1" by (rule staysD[OF narrows_match_one[OF assms(1) mV] one])
    note keep = all_single_narrows[OF Suc(2) n1 Suc(3)]
    have "fst (match_level x k t p (orders_next (e_book s1) a) s1) \<noteq> Inl Diverge"
    proof (rule Suc.IH)
      fix b assume "orders_next (e_book s1) a = Some b"
      then show "b < length (ob_nodes (e_book s1)) \<and> length (ob_nodes (e_book s1)) - b \<le> k"
        using keep a next_bound[of s1 a b] by auto
    qed (use keep in auto)
    moreover have "res \<noteq> Inl Diverge" by (rule calmD[OF calm_match_one one])
    ultimately show ?thesis using Some one by (cases res) (auto simp: act_simps)
  qed
qed

text \<open>The loop over the levels: a round that is followed by another one has removed a level.\<close>

definition levels_left :: "('m, 'r) engine \<Rightarrow> side \<Rightarrow> nat" where
  "levels_left s sd = sd_len (levels_api x) (side_levels (e_book s) sd)"

lemma inv_ok: "engine_book_inv x ok s \<Longrightarrow> ok (side_levels (e_book s) sd)"
  by (auto simp: engine_book_inv_def book_inv_def dest: repr_ok)

lemma inv_best: "engine_book_inv x ok s \<Longrightarrow> is_best sd (has_level x s sd) (best_price (e_book s) sd)"
proof -
  assume "engine_book_inv x ok s"
  then obtain ab where R: "book_repr (levels_api x) ok (e_book s) ab"
    by (auto simp: engine_book_inv_def book_inv_def)
  have "has_level x s sd = (\<lambda>p. ab sd p \<noteq> [])"
    using repr_None[OF R] by (auto simp: has_level_def fun_eq_iff)
  then show ?thesis using repr_best[OF R] by simp
qed

lemma level_keys:
  "engine_book_inv x ok s \<Longrightarrow>
   {p. has_level x s sd p} = set (sd_keys (levels_api x) (side_levels (e_book s) sd))"
  using keys_lookup[OF inv_ok] by (auto simp: has_level_def)

lemma levels_left_card: "engine_book_inv x ok s \<Longrightarrow> levels_left s sd = card {p. has_level x s sd p}"
  by (simp add: level_keys levels_left_def sd_len_card inv_ok)

lemma levels_finite: "engine_book_inv x ok s \<Longrightarrow> finite {p. has_level x s sd p}"
  by (simp add: level_keys)

lemma next_round_smaller:
  assumes "engine_book_inv x ok s" "engine_book_inv x ok u"
    and sub: "\<And>p. has_level x u sd p \<Longrightarrow> has_level x s sd p"
    and best: "best_price (e_book s) sd = Some b" "best_price (e_book u) sd = Some b'" "b' \<noteq> b"
  shows "levels_left u sd < levels_left s sd"
proof -
  have b: "has_level x s sd b" "\<And>q. has_level x s sd q \<Longrightarrow> \<not> better sd q b"
    using inv_best[OF assms(1), of sd] best(1) by (auto simp: is_best_def)
  have "\<not> has_level x u sd b"
  proof
    assume "has_level x u sd b"
    then have "is_best sd (has_level x u sd) (Some b)" using b(2) sub by (auto simp: is_best_def)
    then show False using is_best_unique[OF inv_best[OF assms(2)]] best(2,3) by fastforce
  qed
  then have "{p. has_level x u sd p} \<subset> {p. has_level x s sd p}" using b(1) sub by blast
  then show ?thesis
    using levels_left_card[OF assms(1)] levels_left_card[OF assms(2)] psubset_card_mono[OF levels_finite[OF assms(1)]]
    by simp
qed

lemma best_opposite_level: "engine_book_inv x ok s \<Longrightarrow> best_opposite s t \<noteq> None \<Longrightarrow>
    0 < levels_left s (opposite (o_side (obj s t)))"
  using inv_best[of s "opposite (o_side (obj s t))"] levels_finite[of s "opposite (o_side (obj s t))"]
  by (auto simp: levels_left_card best_opposite_def is_best_def card_gt_0_iff)

lemma loop_stops: "best_opposite s t = None \<or> best_opposite s t = prev \<Longrightarrow> match_loop x k t prev s = (Inr prev, s)"
  by (cases k) (auto simp: act_simps split: option.splits)

lemma side_same: "same_objs s u \<Longrightarrow> single s t \<Longrightarrow> o_side (obj u t) = o_side (obj s t)"
  by (simp add: same_objs_def single_def obj_def same_order_def)

theorem loop_enough_fuel:
  assumes "t \<in> V" "all_single V s" "engine_book_inv x ok s"
    and "length (ob_nodes (e_book s)) + levels_left s (opposite (o_side (obj s t))) \<le> k"
  shows "fst (match_loop x k t prev s) \<noteq> Inl Diverge"
  using assms(2-4)
proof (induction k arbitrary: prev s)
  case 0
  then have "best_opposite s t = None" using best_opposite_level[of s t] by fastforce
  then show ?case using loop_stops[of s t prev 0] by simp
next
  case (Suc k)
  let ?sd = "opposite (o_side (obj s t))"
  show ?case
  proof (cases "best_opposite s t = None \<or> best_opposite s t = prev \<or> \<not> executed_quantity (obj s t) < quantity (obj s t)")
    case True
    then show ?thesis by (auto simp: act_simps split: option.splits)
  next
    case False
    then obtain b where b: "best_opposite s t = Some b" "prev \<noteq> Some b" by auto
    have room: "length (ob_nodes (e_book s)) \<le> k"
      using Suc(4) best_opposite_level[OF Suc(3), of t] b(1) by simp
    let ?c = "orders_start (levels_api x) (e_book s) b ?sd"
    obtain res u where lev: "match_level x k t b ?c s = (res, u)" by fastforce
    have c: "a < length (ob_nodes (e_book s)) \<and> length (ob_nodes (e_book s)) - a \<le> k" if "?c = Some a" for a
      using start_bound[OF Suc(3) that] room by auto
    have fuel: "res \<noteq> Inl Diverge" using level_enough_fuel[OF assms(1) Suc(2,3) c] lev by (metis fst_conv)
    have "narrows_for V x ok s u" using level_narrows[OF assms(1) Suc(2,3), of ?c k b] c lev by simp
    note keep = all_single_narrows[OF Suc(2) this Suc(3)]
    have t: "single s t" using Suc(2) assms(1) by (simp add: all_single_def)
    have "fst (match_loop x k t (Some b) u) \<noteq> Inl Diverge"
    proof (cases "best_opposite u t = None \<or> best_opposite u t = Some b")
      case True
      then show ?thesis by (simp add: loop_stops)
    next
      case F: False
      then obtain b' where b': "best_opposite u t = Some b'" "b' \<noteq> b" by auto
      have sd: "opposite (o_side (obj u t)) = ?sd" using side_same[of s u t] keep t by simp
      have "best_price (e_book s) ?sd = Some b" "best_price (e_book u) ?sd = Some b'"
        using b(1) b'(1) sd by (simp_all add: best_opposite_def)
      then have "levels_left u ?sd < levels_left s ?sd"
        using keep b'(2) by (intro next_round_smaller[OF Suc(3), of u ?sd b b']) simp_all
      then show ?thesis using keep sd Suc(4) by (intro Suc.IH) auto
    qed
    then show ?thesis using b False lev fuel by (cases res) (auto simp: act_simps)
  qed
qed

theorem match_enough_fuel:
  assumes "t \<in> V" "all_single V s" "engine_book_inv x ok s"
    and "length (ob_nodes (e_book s)) + levels_left s (opposite (o_side (obj s t))) \<le> k"
  shows "fst (match x k t s) \<noteq> Inl Diverge"
proof -
  have inner: "fst (match_inner x k t u) \<noteq> Inl Diverge" if "outside s u" for u
  proof -
    have same: "e_objs u = e_objs s" "e_book u = e_book s" using that by (auto simp: outside_def)
    then have "fst (match_loop x k t None u) \<noteq> Inl Diverge"
      using assms by (intro loop_enough_fuel[of t V]) (auto simp: all_single_def single_def engine_book_inv_def levels_left_def obj_def)
    then show ?thesis by (auto simp: match_inner_def act_simps split: prod.split sum.split)
  qed
  have "fst (and_then (check_sufficient_balance x t (quantity (obj s t)) price) (\<lambda>b. if b then match_inner x k t
           else and_then (handle_cancel x t) (\<lambda>_. ret \<lparr> mr_outcome = INSUFFICIENT_BALANCE, mr_quantity = 0, mr_price = None \<rparr>)) s)
        \<noteq> Inl Diverge" for price
  proof -
    obtain res u where ck: "check_sufficient_balance x t (quantity (obj s t)) price s = (res, u)" by fastforce
    have "outside s u" by (rule staysD[OF out_check ck])
    moreover have "res \<noteq> Inl Diverge" by (rule calmD[OF calm_check ck])
    moreover have "calm (and_then (handle_cancel x t) (\<lambda>_. ret \<lparr> mr_outcome = INSUFFICIENT_BALANCE, mr_quantity = 0, mr_price = None \<rparr>))"
      by (intro calm_combine calm_cancel)
    ultimately show ?thesis using ck inner[of u] by (cases res) (auto simp: and_then_def[of "check_sufficient_balance x t q v" for q v] calm_def)
  qed
  then show ?thesis
    using no_diverge(1)[of "obj s t"] by (cases "order_price (obj s t)") (auto simp: match_def ask_def of_res_def and_then_def[of "of_res r" for r])
qed

end

section \<open>What a trade does to the orders\<close>

lemmas still_step = sf.stays_basic still_store still_book
  to_still[OF out_fresh] to_still[OF out_logs(2)] to_still[OF out_logs(4)] to_still[OF out_logs(6)]
  to_still[OF out_release(2)] to_still[OF out_check] to_still[OF out_money(1)] to_still[OF out_money(2)]

lemma still_cancel:
  assumes "r \<in> V"
  shows "stays (still_for V) (handle_cancel x r)"
proof (rule staysI)
  fix s
  have "stays (still_for V) (single_handle_cancel x r)"
    unfolding single_handle_cancel_def remove_at_price_def by (intro still_step)
  then have "still_for V s (snd (single_handle_cancel x r s))" by (simp add: stays_def)
  then show "still_for V s (snd (handle_cancel x r s))"
    using assms by (auto simp: still_for_def handle_cancel_def ask_def single_def obj_def)
qed

lemma still_filled: "r \<in> V \<Longrightarrow> stays (still_for V) (handle_filled x r)"
  by (rule staysI)
     (auto simp: still_for_def handle_filled_def ask_def single_def obj_def single_handle_filled_def ret_def)

definition both_filled :: "nat \<Rightarrow> nat \<Rightarrow> rat \<Rightarrow> rat \<Rightarrow> order list \<Rightarrow> order list" where
  "both_filled t m q p os = (let os1 = os[t := add_fill q p (os ! t)] in os1[m := add_fill q p (os1 ! m)])"

lemma length_both_filled [simp]: "length (both_filled t m q p os) = length os"
  by (simp add: both_filled_def Let_def)

lemma same_order_filled:
  "i < length os \<Longrightarrow> same_order (os ! i) (os[r := add_fill q p (os ! r)] ! i)"
  by (cases "i = r") (auto simp: same_order_def)

lemma same_order_both_filled:
  "i < length os \<Longrightarrow> same_order (os ! i) (both_filled t m q p os ! i)"
  unfolding both_filled_def Let_def
  by (rule same_order_trans[OF same_order_filled same_order_filled]) simp_all

lemma single_both_filled:
  "single s r \<Longrightarrow> e_objs u = both_filled t m q p (e_objs s) \<Longrightarrow> single u r"
  using same_order_both_filled[of r "e_objs s" t m q p] by (simp add: single_def same_order_def)

lemma process_trade_objs:
  assumes "single s t" "single s m" "process_trade x t m q p s = (res, u)"
  shows "e_objs u = e_objs s \<or> e_objs u = both_filled t m q p (e_objs s)"
proof -
  let ?V = "{t, m}"
  have rest: "stays (still_for ?V) (after_fill x t m q p c i j a b)" for c i j a b
    unfolding after_fill_def by (intro still_step still_filled) simp_all
  have logs: "stays (still_for ?V) (log_trades x t m q p i j)" for i j
    unfolding log_trades_def by (intro still_step)
  define s2 where "s2 = s\<lparr> e_uuid := Suc (Suc (e_uuid s)) \<rparr>"
  obtain r3 s3 where l: "log_trades x t m q p (e_uuid s) (Suc (e_uuid s)) s2 = (r3, s3)" by fastforce
  have "still_for ?V s2 s3" by (rule staysD[OF logs l])
  then have s3: "e_objs s3 = e_objs s" using assms(1,2) by (simp add: still_for_def single_def s2_def)
  define s4 where "s4 = s3\<lparr> e_objs := both_filled t m q p (e_objs s) \<rparr>"
  show ?thesis
  proof (cases r3)
    case (Inl e)
    then have "u = s3"
      using assms(3) l by (simp add: process_trade_def ask_def and_then_def fresh_id_def s2_def)
    then show ?thesis using s3 by simp
  next
    case (Inr v)
    then have "after_fill x t m q p (e_cmd s) (e_uuid s) (Suc (e_uuid s)) (executed_quantity (obj s3 t))
                 (executed_quantity (obj s3 m)) s4 = (res, u)"
      using assms(3) l s3
      by (simp add: process_trade_def ask_def and_then_def fresh_id_def s2_def set_obj_def upd_def
            s4_def both_filled_def Let_def)
    from staysD[OF rest this] have "e_objs u = e_objs s4"
      using single_both_filled[OF assms(1), of s4 t m q p] single_both_filled[OF assms(2), of s4 t m q p]
      by (simp add: still_for_def s4_def)
    then show ?thesis by (simp add: s4_def)
  qed
qed

end
