(* ===== verification/Single_Engine.thy ===== *)
theory Single_Engine imports Matching begin

text \<open>
  An engine whose orders are all single ones. \<open>single_inv\<close> is its invariant: the book invariant, every
  reference from the book and from the store to an existing single order, and no order filled beyond
  its quantity. The lemmas show that the commands for single orders keep it, whatever they return,
  and that they never run out of fuel when the fuel covers the nodes and levels of the book;
  \<open>single_reach\<close> are the states such commands lead to from a new engine.
\<close>

section \<open>The invariant\<close>

definition filled_ok :: "('m, 'r) engine \<Rightarrow> bool" where
  "filled_ok s \<longleftrightarrow> (\<forall>od \<in> set (e_objs s). 0 \<le> executed_quantity od \<and> executed_quantity od \<le> quantity od)"

definition refs_single :: "('m, 'r) engine \<Rightarrow> bool" where
  "refs_single s \<longleftrightarrow>
     (\<forall>od \<in> set (e_objs s). o_strategy od = SINGLE)
     \<and> n_order ` set (ob_nodes (e_book s)) \<subseteq> {..<length (e_objs s)}
     \<and> snd ` set (e_store s) \<subseteq> {..<length (e_objs s)}"

definition single_inv :: "('m, 'r) env \<Rightarrow> ('m \<Rightarrow> bool) \<Rightarrow> ('m, 'r) engine \<Rightarrow> bool" where
  "single_inv x ok s \<longleftrightarrow> engine_book_inv x ok s \<and> refs_single s \<and> filled_ok s"

abbreviation all_refs :: "('m, 'r) engine \<Rightarrow> nat set" where
  "all_refs s \<equiv> {..<length (e_objs s)}"

lemma refs_single_all: "refs_single s \<Longrightarrow> all_single (all_refs s) s"
  by (fastforce simp: refs_single_def all_single_def single_def)

lemma refs_single_narrows:
  assumes "refs_single s" "narrows_for (all_refs s) x ok s u" "engine_book_inv x ok s"
  shows "refs_single u \<and> engine_book_inv x ok u \<and> length (e_objs u) = length (e_objs s)"
proof -
  note keep = all_single_narrows[OF refs_single_all[OF assms(1)] assms(2,3)]
  have "narrows x ok s u"
    using assms(2) refs_single_all[OF assms(1)] by (simp add: narrows_for_def all_single_def)
  then have "snd ` set (e_store u) \<subseteq> snd ` set (e_store s)" using assms(3) by (simp add: narrows_def image_mono)
  then have "snd ` set (e_store u) \<subseteq> {..<length (e_objs s)}"
    using assms(1) unfolding refs_single_def by (elim conjE) (rule subset_trans)
  moreover have len: "length (e_objs u) = length (e_objs s)" using keep by (simp add: same_objs_def)
  moreover have "o_strategy od = SINGLE" if "od \<in> set (e_objs u)" for od
    using that keep len by (auto simp: all_single_def single_def in_set_conv_nth)
  ultimately show ?thesis
    using keep by (simp add: refs_single_def all_single_def)
qed

section \<open>Steps that use one existing order\<close>

definition keeps_refs :: "nat \<Rightarrow> ('m, 'r) env \<Rightarrow> ('m \<Rightarrow> bool) \<Rightarrow> ('m, 'r) engine \<Rightarrow> ('m, 'r) engine \<Rightarrow> bool" where
  "keeps_refs r x ok s u \<longleftrightarrow>
     (single_inv x ok s \<and> r < length (e_objs s) \<longrightarrow> single_inv x ok u \<and> r < length (e_objs u))"

interpretation kr: frame "keeps_refs r x ok" for r x ok
  by unfold_locales (auto simp: keeps_refs_def)

lemma outside_keeps: "outside s u \<Longrightarrow> keeps_refs r x ok s u"
  by (auto simp: outside_def keeps_refs_def single_inv_def engine_book_inv_def refs_single_def filled_ok_def)

lemmas to_keeps = stays_mono[OF _ outside_keeps]

text \<open>The three shapes of a step: it changes objects, the store or the book only.\<close>

lemma keeps_refs_objs:
  assumes "e_book u = e_book s" "e_store u = e_store s" "length (e_objs u) = length (e_objs s)"
    and "\<And>i. i < length (e_objs s) \<Longrightarrow> o_strategy (e_objs u ! i) = o_strategy (e_objs s ! i)
           \<and> executed_quantity (e_objs u ! i) = executed_quantity (e_objs s ! i)
           \<and> quantity (e_objs u ! i) = quantity (e_objs s ! i)"
  shows "keeps_refs r x ok s u"
  using assms by (auto simp: keeps_refs_def single_inv_def engine_book_inv_def refs_single_def filled_ok_def all_set_conv_all_nth)

lemma keeps_refs_store:
  assumes "e_book u = e_book s" "e_objs u = e_objs s" "snd ` set (e_store u) \<subseteq> insert r (snd ` set (e_store s))"
  shows "keeps_refs r x ok s u"
proof -
  have "snd ` set (e_store u) \<subseteq> {..<length (e_objs u)}" if "refs_single s" "r < length (e_objs s)"
  proof -
    have "insert r (snd ` set (e_store s)) \<subseteq> {..<length (e_objs u)}"
      using that assms(2) by (simp add: refs_single_def)
    then show ?thesis using assms(3) by (rule subset_trans[rotated])
  qed
  then show ?thesis
    using assms(1,2) by (simp add: keeps_refs_def single_inv_def engine_book_inv_def refs_single_def filled_ok_def)
qed

lemma keeps_refs_book:
  assumes "e_store u = e_store s" "e_objs u = e_objs s" "engine_book_inv x ok s \<Longrightarrow> engine_book_inv x ok u"
    and "engine_book_inv x ok s \<Longrightarrow> n_order ` set (ob_nodes (e_book u)) \<subseteq> insert r (n_order ` set (ob_nodes (e_book s)))"
  shows "keeps_refs r x ok s u"
proof -
  have "n_order ` set (ob_nodes (e_book u)) \<subseteq> {..<length (e_objs u)}"
    if "refs_single s" "r < length (e_objs s)" "engine_book_inv x ok s"
  proof -
    have "insert r (n_order ` set (ob_nodes (e_book s))) \<subseteq> {..<length (e_objs u)}"
      using that assms(2) by (simp add: refs_single_def)
    then show ?thesis using assms(4)[OF that(3)] by (rule subset_trans[rotated])
  qed
  then show ?thesis
    using assms(1-3) by (simp add: keeps_refs_def single_inv_def refs_single_def filled_ok_def)
qed

lemma keeps_objs:
  assumes "\<And>od. o_strategy (f od) = o_strategy od" "\<And>od. executed_quantity (f od) = executed_quantity od"
    and "\<And>od. quantity (f od) = quantity od"
  shows "stays (keeps_refs r x ok) (set_obj r' f)"
proof (rule staysI, rule keeps_refs_objs)
  fix s :: "('a, 'b) engine" and i
  assume "i < length (e_objs s)"
  then show "o_strategy (e_objs (snd (set_obj r' f s)) ! i) = o_strategy (e_objs s ! i)
      \<and> executed_quantity (e_objs (snd (set_obj r' f s)) ! i) = executed_quantity (e_objs s ! i)
      \<and> quantity (e_objs (snd (set_obj r' f s)) ! i) = quantity (e_objs s ! i)"
    by (cases "i = r'") (simp_all add: snd_ops assms)
qed (simp_all add: snd_ops)

lemma keeps_store_add: "stays (keeps_refs r x ok) (store_add r)"
  by (rule staysI, rule keeps_refs_store) (auto simp: snd_ops dict_setdefault_def)

lemma keeps_store_remove: "stays (keeps_refs r x ok) (store_remove r')"
  by (rule staysI, rule keeps_refs_store) (auto simp: snd_ops dict_pop_def)

context book_env
begin

lemma append_nodes:
  assumes "book_inv (levels_api x) ok ob" "nd \<in> set (ob_nodes (snd (ob_append (levels_api x) ob i sd r v)))"
  shows "n_order nd = r \<or> (\<exists>nd' \<in> set (ob_nodes ob). n_order nd = n_order nd')"
proof -
  obtain ab where R: "book_repr (levels_api x) ok ob ab" using assms(1) by (auto simp: book_inv_def)
  show ?thesis
  proof (cases "\<exists>w. v = Some w \<and> i \<notin> fst ` set (ab sd w)")
    case True
    then obtain w where v: "v = Some w" "i \<notin> fst ` set (ab sd w)" by blast
    obtain ob' where ob': "ob_append (levels_api x) ob i sd r (Some w) = (Inr (), ob')"
        "node_frame (ob_nodes ob) (ob_nodes ob') (snd ` set (ab sd w))"
        "length (ob_nodes ob') = Suc (length (ob_nodes ob))" "n_order (ob_nodes ob' ! length (ob_nodes ob)) = r"
      using append_refines[OF R v(2)] by blast
    obtain a where "a < Suc (length (ob_nodes ob))" "nd = ob_nodes ob' ! a"
      using assms(2) ob' v(1) by (auto simp: in_set_conv_nth)
    then show ?thesis using ob'(2,4) by (cases "a = length (ob_nodes ob)") (auto simp: node_frame_def)
  next
    case False
    have "ob_nodes (snd (ob_append (levels_api x) ob i sd r v)) = ob_nodes ob"
    proof (cases v)
      case (Some w)
      then show ?thesis using False append_duplicate[OF R, of i sd w r] by fastforce
    qed (simp add: append_None)
    then show ?thesis using assms(2) by auto
  qed
qed

lemma keeps_append: "stays (keeps_refs r x ok) (book_append x r v)"
proof (rule staysI, rule keeps_refs_book)
  fix s :: "('m, 'r) engine"
  show "engine_book_inv x ok s \<Longrightarrow> engine_book_inv x ok (snd (book_append x r v s))"
    by (simp add: snd_ops engine_book_inv_def append_keeps_inv)
  show "n_order ` set (ob_nodes (e_book (snd (book_append x r v s)))) \<subseteq> insert r (n_order ` set (ob_nodes (e_book s)))"
    if "engine_book_inv x ok s"
    using that append_nodes[of "e_book s"] by (force simp: snd_ops engine_book_inv_def)
qed (simp_all add: snd_ops)

lemma keeps_remove: "stays (keeps_refs r x ok) (book_remove x r' v)"
proof (rule staysI, rule keeps_refs_book)
  fix s :: "('m, 'r) engine"
  show "engine_book_inv x ok s \<Longrightarrow> engine_book_inv x ok (snd (book_remove x r' v s))"
    by (simp add: snd_ops engine_book_inv_def remove_keeps_inv)
  assume "engine_book_inv x ok s"
  then have "map n_order (ob_nodes (e_book (snd (book_remove x r' v s)))) = map n_order (ob_nodes (e_book s))"
    by (simp add: snd_ops engine_book_inv_def remove_narrows(1)[of "e_book s"])
  from arg_cong[OF this, of set]
  show "n_order ` set (ob_nodes (e_book (snd (book_remove x r' v s)))) \<subseteq> insert r (n_order ` set (ob_nodes (e_book s)))"
    by auto
qed (simp_all add: snd_ops)

lemmas keeps_step = kr.stays_basic keeps_store_add keeps_store_remove keeps_append keeps_remove
  to_keeps[OF out_logs(1)] to_keeps[OF out_logs(4)] to_keeps[OF out_release(2)]

lemma keeps_single_cancel: "stays (keeps_refs r x ok) (single_handle_cancel x r)"
  unfolding single_handle_cancel_def remove_at_price_def by (intro keeps_step)

lemma keeps_modify: "stays (keeps_refs r x ok) (modify_order x lp sp r)"
proof -
  have "stays (keeps_refs r x ok) (set_obj r (assign_price v))" for v
    by (rule keeps_objs) (simp_all add: assign_price_def)
  then show ?thesis
    unfolding modify_order_def validate_modify_def reject_modify_def log_modified_def append_at_price_def
      remove_at_price_def Let_def
    by (intro keeps_step)
qed

lemma keeps_finish: "stays (keeps_refs r x ok) (single_finish x r res)"
proof -
  have "stays (keeps_refs r x ok) (set_obj r (\<lambda>od. od\<lparr> o_status := st \<rparr>))" for st
    by (rule keeps_objs) simp_all
  then have "stays (keeps_refs r x ok) (run_all
     [set_obj r (\<lambda>od. od\<lparr> o_status := ''placed'' \<rparr>), log_own x ORDER_PLACED r None, store_add r, append_at_price x r])"
    unfolding append_at_price_def by (intro keeps_step)
  moreover have "stays (keeps_refs r x ok)
      (run_all [log_own x ORDER_CANCELLED r dt, ctx_release_escrow x r])" for dt
    by (intro keeps_step)
  ultimately show ?thesis
    unfolding single_finish_def
    by (simp del: run_all.simps add: kr.stays_ret split: option.split match_outcome.split)
qed

section \<open>Matching keeps the invariant\<close>

lemma refs_single_single: "refs_single s \<Longrightarrow> r < length (e_objs s) \<Longrightarrow> single s r"
  by (simp add: refs_single_def single_def)

lemma filled_both:
  assumes "filled_ok s" "e_objs u = both_filled t m q p (e_objs s)" "t \<noteq> m" "0 \<le> q"
    and "q \<le> quantity (obj s m) - executed_quantity (obj s m)" "q \<le> quantity (obj s t) - executed_quantity (obj s t)"
  shows "filled_ok u"
proof -
  have "0 \<le> executed_quantity (e_objs u ! i) \<and> executed_quantity (e_objs u ! i) \<le> quantity (e_objs u ! i)"
    if i: "i < length (e_objs s)" for i
  proof -
    have "0 \<le> executed_quantity (e_objs s ! i)" "executed_quantity (e_objs s ! i) \<le> quantity (e_objs s ! i)"
      using assms(1) i by (simp_all add: filled_ok_def)
    then show ?thesis
      using assms i by (cases "i = t"; cases "i = m") (auto simp: both_filled_def Let_def obj_def)
  qed
  then show ?thesis using assms(2) by (simp add: filled_ok_def all_set_conv_all_nth)
qed

lemma match_one_filled:
  assumes "single s t" "single s m" "t \<noteq> m" "filled_ok s" "executed_quantity (obj s t) < quantity (obj s t)"
    and one: "match_one x t p m s = (res, u)"
  shows "filled_ok u"
proof -
  let ?q = "min (quantity (obj s m) - executed_quantity (obj s m)) (quantity (obj s t) - executed_quantity (obj s t))"
  obtain r1 s1 where ck: "check_sufficient_balance x m ?q (Some p) s = (r1, s1)" by fastforce
  have same: "e_objs s1 = e_objs s" using staysD[OF out_check ck] by (simp add: outside_def)
  then have s1: "single s1 t" "single s1 m" "filled_ok s1" using assms by (simp_all add: single_def filled_ok_def)
  have q: "0 \<le> ?q" using assms(2,4,5) by (simp add: filled_ok_def single_def obj_def)
  show ?thesis
  proof (cases r1)
    case (Inl e)
    then show ?thesis using one ck s1 by (simp add: match_one_def ask_def and_then_def Let_def)
  next
    case (Inr b)
    show ?thesis
    proof (cases b)
      case True
      then have "process_trade x t m ?q p s1 = (res, u)"
        using one ck Inr by (simp add: match_one_def ask_def and_then_def Let_def)
      from process_trade_objs[OF s1(1,2) this] show ?thesis
        using filled_both[OF s1(3), of u t m ?q p] assms(3) q s1(3) same by (auto simp: filled_ok_def obj_def)
    next
      case False
      then have "handle_cancel x m s1 = (res, u)"
        using one ck Inr by (simp add: match_one_def ask_def and_then_def Let_def)
      from staysD[OF still_cancel[of m "{m}"] this] s1 show ?thesis by (simp add: still_for_def filled_ok_def)
    qed
  qed
qed

text \<open>The taker is not in the book while it is matched.\<close>

definition taker_ok :: "nat \<Rightarrow> ('m, 'r) engine \<Rightarrow> bool" where
  "taker_ok t s \<longleftrightarrow> single_inv x ok s \<and> t < length (e_objs s) \<and> t \<notin> n_order ` set (ob_nodes (e_book s))"

lemma taker_ok_narrows:
  assumes "taker_ok t s" "narrows_for (all_refs s) x ok s u" "filled_ok u"
  shows "taker_ok t u \<and> all_refs u = all_refs s \<and> length (ob_nodes (e_book u)) = length (ob_nodes (e_book s))"
proof -
  have s: "refs_single s" "engine_book_inv x ok s" using assms(1) by (simp_all add: taker_ok_def single_inv_def)
  have "map n_order (ob_nodes (e_book u)) = map n_order (ob_nodes (e_book s))"
    using assms(2) refs_single_all[OF s(1)] s(2) by (simp add: narrows_for_def all_single_def narrows_def)
  from arg_cong[OF this, of set] arg_cong[OF this, of length] show ?thesis
    using refs_single_narrows[OF s(1) assms(2) s(2)] assms(1,3) by (simp add: taker_ok_def single_inv_def)
qed

lemma match_one_taker:
  assumes "taker_ok t s" "executed_quantity (obj s t) < quantity (obj s t)" "a < length (ob_nodes (e_book s))"
    and one: "match_one x t p (n_order (ob_nodes (e_book s) ! a)) s = (res, u)"
  shows "taker_ok t u \<and> all_refs u = all_refs s \<and> length (ob_nodes (e_book u)) = length (ob_nodes (e_book s))"
proof -
  let ?m = "n_order (ob_nodes (e_book s) ! a)"
  have s: "refs_single s" "filled_ok s" "t < length (e_objs s)" "t \<noteq> ?m"
    using assms(1,3) by (auto simp: taker_ok_def single_inv_def)
  have m: "?m < length (e_objs s)" using all_single_node[OF refs_single_all[OF s(1)] assms(3)] by simp
  have "narrows_for (all_refs s) x ok s u" using staysD[OF narrows_match_one one, of "all_refs s"] s m by simp
  moreover have "filled_ok u"
    using match_one_filled[OF _ _ s(4,2) assms(2) one] refs_single_single[OF s(1)] s(3) m by simp
  ultimately show ?thesis by (rule taker_ok_narrows[OF assms(1)])
qed

lemma level_taker:
  assumes "taker_ok t s" "\<And>a. c = Some a \<Longrightarrow> a < length (ob_nodes (e_book s))"
    and "match_level x k t p c s = (res, u)"
  shows "taker_ok t u \<and> all_refs u = all_refs s"
  using assms
proof (induction k arbitrary: c s)
  case 0
  then show ?case by (cases c) (auto simp: act_simps)
next
  case (Suc k)
  show ?case
  proof (cases "c = None \<or> quantity (obj s t) \<le> executed_quantity (obj s t)")
    case True
    then show ?thesis using Suc by (cases c) (auto simp: act_simps)
  next
    case False
    then obtain a where a: "c = Some a" "a < length (ob_nodes (e_book s))" using Suc by auto
    obtain r1 s1 where one: "match_one x t p (n_order (ob_nodes (e_book s) ! a)) s = (r1, s1)" by fastforce
    have s1: "taker_ok t s1" "all_refs s1 = all_refs s" "length (ob_nodes (e_book s1)) = length (ob_nodes (e_book s))"
      using match_one_taker[OF Suc(2) _ a(2) one] False by auto
    have I: "engine_book_inv x ok s1" using s1(1) by (simp add: taker_ok_def single_inv_def)
    show ?thesis
    proof (cases r1)
      case (Inl e)
      then show ?thesis using Suc(4) a False one s1 by (simp add: act_simps)
    next
      case (Inr v)
      then have rest: "match_level x k t p (orders_next (e_book s1) a) s1 = (res, u)"
        using Suc(4) a False one by (simp add: act_simps)
      have "b < length (ob_nodes (e_book s1))" if "orders_next (e_book s1) a = Some b" for b
        using next_bound[OF I _ that] a(2) s1(3) by simp
      from Suc.IH[OF s1(1) this rest] show ?thesis using s1(2) by simp
    qed
  qed
qed

lemma loop_taker:
  assumes "taker_ok t s" "match_loop x k t prev s = (res, u)"
  shows "taker_ok t u \<and> all_refs u = all_refs s"
  using assms
proof (induction k arbitrary: prev s)
  case 0
  then show ?case by (auto simp: act_simps split: if_splits)
next
  case (Suc k)
  show ?case
  proof (cases "executed_quantity (obj s t) < quantity (obj s t) \<and> best_opposite s t \<noteq> None \<and> best_opposite s t \<noteq> prev")
    case False
    then show ?thesis using Suc by (auto simp: act_simps split: option.splits if_splits)
  next
    case True
    then obtain b where b: "best_opposite s t = Some b" "prev \<noteq> Some b" by auto
    let ?c = "orders_start (levels_api x) (e_book s) b (opposite (o_side (obj s t)))"
    obtain r1 s1 where lev: "match_level x k t b ?c s = (r1, s1)" by fastforce
    have I: "engine_book_inv x ok s" using Suc(2) by (simp add: taker_ok_def single_inv_def)
    have s1: "taker_ok t s1 \<and> all_refs s1 = all_refs s"
      using start_bound[OF I] by (intro level_taker[OF Suc(2) _ lev]) blast
    show ?thesis
    proof (cases r1)
      case (Inl e)
      then show ?thesis using Suc(3) True b lev s1 by (simp add: act_simps)
    next
      case (Inr v)
      then have "match_loop x k t (Some b) s1 = (res, u)" using Suc(3) True b lev by (simp add: act_simps)
      from Suc.IH[OF _ this] s1 show ?thesis by simp
    qed
  qed
qed

text \<open>A match on a single order: the taker stays valid and the quantity reported for it is in range.\<close>

lemma keeps_cancel:
  assumes "single_inv x ok s" "r < length (e_objs s)" "handle_cancel x r s = (res, u)"
  shows "single_inv x ok u \<and> r < length (e_objs u)"
proof -
  have "o_strategy (obj s r) = SINGLE" using assms(1,2) by (simp add: single_inv_def refs_single_def obj_def)
  then have "single_handle_cancel x r s = (res, u)" using assms(3) by (simp add: handle_cancel_def ask_def)
  from staysD[OF keeps_single_cancel this] show ?thesis using assms(1,2) by (simp add: keeps_refs_def)
qed

lemma match_taker:
  assumes "taker_ok t s" "match x k t s = (res, u)"
  shows "single_inv x ok u \<and> t < length (e_objs u) \<and>
         (\<forall>mr. res = Inr mr \<longrightarrow> 0 \<le> mr_quantity mr \<and> mr_quantity mr \<le> quantity (obj u t))"
proof -
  have range: "0 \<le> executed_quantity (obj w t) \<and> executed_quantity (obj w t) \<le> quantity (obj w t)"
    if "single_inv x ok w" "t < length (e_objs w)" for w
    using that by (simp add: single_inv_def filled_ok_def obj_def)
  show ?thesis
  proof (cases "order_price (obj s t)")
    case (Inl e)
    then show ?thesis using assms by (auto simp: match_def act_simps taker_ok_def)
  next
    case (Inr price)
    obtain r1 s1 where ck: "check_sufficient_balance x t (quantity (obj s t)) price s = (r1, s1)" by fastforce
    have o: "outside s s1" by (rule staysD[OF out_check ck])
    then have s1: "taker_ok t s1"
      using assms(1) by (auto simp: taker_ok_def outside_def single_inv_def engine_book_inv_def refs_single_def filled_ok_def)
    show ?thesis
    proof (cases r1)
      case (Inl e)
      then show ?thesis using assms(2) Inr ck s1 by (auto simp: match_def act_simps taker_ok_def)
    next
      case Inr1: (Inr b)
      show ?thesis
      proof (cases b)
        case True
        then have "match_inner x k t s1 = (res, u)" using assms(2) Inr Inr1 ck by (simp add: match_def act_simps)
        then obtain r2 where lp: "match_loop x k t None s1 = (r2, u)"
            "res = (case r2 of Inl e \<Rightarrow> Inl e | Inr prev \<Rightarrow> Inr (match_result_of (obj u t) prev))"
          by (auto simp: match_inner_def act_simps split: prod.splits sum.splits)
        have u: "single_inv x ok u" "t < length (e_objs u)" using loop_taker[OF s1 lp(1)] by (auto simp: taker_ok_def)
        have "0 \<le> mr_quantity mr \<and> mr_quantity mr \<le> quantity (obj u t)" if "res = Inr mr" for mr
          using that lp(2) range[OF u] by (auto simp: match_result_of_def split: sum.splits)
        then show ?thesis using u by blast
      next
        case False
        then obtain r2 where hc: "handle_cancel x t s1 = (r2, u)"
            "\<And>mr. res = Inr mr \<Longrightarrow> mr_quantity mr = 0"
          using assms(2) Inr Inr1 ck by (fastforce simp: match_def act_simps split: prod.splits sum.splits)
        have "single_inv x ok u \<and> t < length (e_objs u)"
          using s1 by (intro keeps_cancel[OF _ _ hc(1)]) (simp_all add: taker_ok_def)
        then show ?thesis using hc(2) range[of u] by (fastforce intro: order_trans)
      qed
    qed
  qed
qed

lemma set_executed_inv:
  assumes "single_inv x ok s" "r < length (e_objs s)" "0 \<le> q" "q \<le> quantity (obj s r)"
  shows "single_inv x ok (snd (set_executed r q s)) \<and> r < length (e_objs (snd (set_executed r q s)))"
proof -
  let ?os = "(e_objs s)[r := (e_objs s ! r)\<lparr> executed_quantity := q \<rparr>]"
  have "o_strategy (?os ! i) = SINGLE \<and> 0 \<le> executed_quantity (?os ! i) \<and> executed_quantity (?os ! i) \<le> quantity (?os ! i)"
    if "i < length (e_objs s)" for i
    using assms that
    by (cases "i = r") (simp_all add: single_inv_def filled_ok_def refs_single_def obj_def)
  then show ?thesis
    using assms(1,2)
    by (simp add: set_executed_def snd_ops single_inv_def engine_book_inv_def refs_single_def filled_ok_def all_set_conv_all_nth)
qed

lemma try_match_inv:
  assumes "taker_ok t s" "try_match x k t d s = (res, u)"
  shows "single_inv x ok u \<and> t < length (e_objs u)"
proof (cases "matchable s d = Inr True \<and> attached s")
  case False
  then show ?thesis
    using assms by (auto simp: try_match_def ctx_match_def act_simps taker_ok_def split: sum.splits if_splits)
next
  case True
  obtain r1 s1 where m: "match x k t s = (r1, s1)" by fastforce
  note mt = match_taker[OF assms(1) m]
  show ?thesis
  proof (cases r1)
    case (Inl e)
    then show ?thesis using assms(2) True m mt by (auto simp: try_match_def ctx_match_def act_simps)
  next
    case (Inr mr)
    then have "u = snd (set_executed t (mr_quantity mr) s1)"
      using assms(2) True m
      by (auto simp: try_match_def ctx_match_def act_simps set_executed_def set_obj_def)
    then show ?thesis using set_executed_inv[of s1 t "mr_quantity mr"] mt Inr by simp
  qed
qed

end

section \<open>Commands for single orders\<close>

definition start_quantity :: "order_dict \<Rightarrow> rat" where
  "start_quantity d = (case od_executed_quantity d of None \<Rightarrow> 0 | Some q \<Rightarrow> q)"

fun single_body :: "command_body \<Rightarrow> bool" where
  "single_body (NewOrderCommand st (NewSingle d)) =
     (od_strategy_type d = SINGLE \<and> 0 \<le> start_quantity d \<and> start_quantity d \<le> od_quantity d)"
| "single_body (NewOrderCommand st _) = False"
| "single_body _ = True"

definition fuel_for :: "('m, 'r) env \<Rightarrow> ('m, 'r) engine \<Rightarrow> nat" where
  "fuel_for x s = length (ob_nodes (e_book s)) + sd_len (levels_api x) (ob_bids (e_book s))
     + sd_len (levels_api x) (ob_asks (e_book s))"

context book_env
begin

lemma alloc_taker:
  assumes "single_inv x ok s" "od_strategy_type d = SINGLE" "0 \<le> start_quantity d" "start_quantity d \<le> od_quantity d"
  shows "taker_ok (length (e_objs s)) (s\<lparr> e_objs := e_objs s @ [new_order_obj Plain (effective_price s d)] \<rparr>)"
proof -
  have "{..<length (e_objs s)} \<subseteq> {..<Suc (length (e_objs s))}" by auto
  then show ?thesis
    using assms
    by (auto simp: taker_ok_def single_inv_def engine_book_inv_def refs_single_def filled_ok_def
          new_order_obj_def effective_price_def start_quantity_def)
qed

lemma new_single_inv:
  assumes inv: "single_inv x ok s" and d: "single_body (NewOrderCommand SINGLE (NewSingle d))"
    and run: "single_handle_new x k d s = (res, u)"
  shows "single_inv x ok u"
proof -
  let ?d = "effective_price s d" and ?r = "length (e_objs s)"
  define s1 where "s1 = s\<lparr> e_objs := e_objs s @ [new_order_obj Plain ?d] \<rparr>"
  have t: "taker_ok ?r s1" unfolding s1_def using inv d by (intro alloc_taker) auto
  obtain r2 s2 where tm: "try_match x k ?r ?d s1 = (r2, s2)" by fastforce
  note s2 = try_match_inv[OF t tm]
  show ?thesis
  proof (cases r2)
    case (Inl e)
    then show ?thesis
      using run tm s2 by (simp add: single_handle_new_def ask_def alloc_def and_then_def s1_def Let_def)
  next
    case (Inr oc)
    then have "single_finish x ?r oc s2 = (res, u)"
      using run tm by (simp add: single_handle_new_def ask_def alloc_def and_then_def s1_def Let_def)
    from staysD[OF keeps_finish this] s2 show ?thesis by (simp add: keeps_refs_def)
  qed
qed

lemma store_ref: "single_inv x ok s \<Longrightarrow> store_get s i = Some r \<Longrightarrow> r < length (e_objs s)"
proof -
  assume "single_inv x ok s" "store_get s i = Some r"
  then have "(i, r) \<in> set (e_store s)" and sub: "snd ` set (e_store s) \<subseteq> {..<length (e_objs s)}"
    by (simp_all add: store_get_def map_of_SomeD single_inv_def refs_single_def)
  then have "r \<in> snd ` set (e_store s)" by force
  then show ?thesis using sub by blast
qed

lemma cancel_order_inv:
  "single_inv x ok s \<Longrightarrow> handle_cancel_order x i s = (res, u) \<Longrightarrow> single_inv x ok u"
  using keeps_cancel[of s _ res u] store_ref[of s i]
  by (auto simp: handle_cancel_order_def ask_def ret_def split: option.splits)

lemma modify_order_inv:
  assumes "single_inv x ok s" "handle_modify_order x i lp sp s = (res, u)"
  shows "single_inv x ok u"
proof (cases "store_get s i")
  case None
  then show ?thesis using assms by (simp add: handle_modify_order_def act_simps)
next
  case (Some r)
  have r: "r < length (e_objs s)" by (rule store_ref[OF assms(1) Some])
  then have "o_strategy (obj s r) = SINGLE" using assms(1) by (simp add: single_inv_def refs_single_def obj_def)
  then have "modify_order x lp sp r s = (res, u)"
    using assms(2) Some by (simp add: handle_modify_order_def strategy_modify_def ask_def)
  from staysD[OF keeps_modify this] show ?thesis using assms(1) r by (simp add: keeps_refs_def)
qed

lemma new_order_inv:
  assumes "single_inv x ok s" "single_body (NewOrderCommand st b)" "handle_new_order x k st b s = (res, u)"
  shows "single_inv x ok u"
proof (cases b)
  case (NewSingle d)
  then show ?thesis
    using assms new_single_inv[OF assms(1), of d k res u] by (cases st) (auto simp: handle_new_order_def act_simps)
qed (use assms in auto)

lemma single_inv_cmd: "single_inv x ok s \<Longrightarrow> single_inv x ok (s\<lparr> e_cmd := c \<rparr>)"
  "single_inv x ok s \<Longrightarrow> single_inv x ok (s\<lparr> e_queue := q \<rparr>)"
  by (auto simp: single_inv_def engine_book_inv_def refs_single_def filled_ok_def)

lemma handle_command_cases:
  assumes "handle_command x k cmd s = (res, u)"
  shows "run_handler x k (cmd_body cmd) = None \<and> u = s \<and> res = Inr () \<or>
         (\<exists>h r1 s1. run_handler x k (cmd_body cmd) = Some h \<and>
            h (s\<lparr> e_cmd := Some (cmd_id cmd), e_queue := map_option (\<lambda>q. q @ [QReceived cmd]) (e_queue s) \<rparr>) = (r1, s1) \<and>
            (case r1 of Inl e \<Rightarrow> res = Inl e \<and> u = s1
             | Inr _ \<Rightarrow> res = Inr () \<and> u = s1\<lparr> e_queue := map_option (\<lambda>q. q @ [QProcessed (e_cmd s1)]) (e_queue s1) \<rparr>))"
  using assms
  by (auto simp: handle_command_def log_command_event_def act_simps split: option.splits prod.splits sum.splits)

theorem command_keeps_single:
  assumes "single_inv x ok s" "single_body (cmd_body cmd)" "handle_command x k cmd s = (res, u)"
  shows "single_inv x ok u"
proof -
  let ?s = "s\<lparr> e_cmd := Some (cmd_id cmd), e_queue := map_option (\<lambda>q. q @ [QReceived cmd]) (e_queue s) \<rparr>"
  have inv: "single_inv x ok ?s" using single_inv_cmd(2)[OF single_inv_cmd(1)[OF assms(1)]] by simp
  have step: "single_inv x ok s1" if "run_handler x k (cmd_body cmd) = Some h" "h ?s = (r1, s1)" for h r1 s1
    using that assms(2) inv new_order_inv[OF inv] cancel_order_inv[OF inv] modify_order_inv[OF inv]
    by (cases "cmd_body cmd") (auto simp: run_handler_def)
  show ?thesis
    using handle_command_cases[OF assms(3)] assms(1) step single_inv_cmd(2) by (fastforce split: sum.splits)
qed

section \<open>Fuel\<close>

lemma calm_finish: "calm (single_finish x r res)"
proof -
  have "calm (run_all [set_obj r (\<lambda>od. od\<lparr> o_status := ''placed'' \<rparr>), log_own x ORDER_PLACED r None,
                       store_add r, append_at_price x r])"
       "calm (run_all [log_own x ORDER_CANCELLED r dt, ctx_release_escrow x r])" for dt
    by (intro calm_combine calm_ops calm_release)+
  then show ?thesis
    unfolding single_finish_def
    by (simp del: run_all.simps add: calm_ret split: option.split match_outcome.split)
qed

lemma levels_left_fuel: "length (ob_nodes (e_book s)) + levels_left s sd \<le> fuel_for x s"
  by (cases sd) (simp_all add: fuel_for_def levels_left_def side_levels_def)

lemma try_match_fuel:
  assumes "taker_ok t s" "fuel_for x s \<le> k"
  shows "fst (try_match x k t d s) \<noteq> Inl Diverge"
proof -
  have t: "t \<in> all_refs s" "all_single (all_refs s) s" "engine_book_inv x ok s"
    using assms(1) refs_single_all by (auto simp: taker_ok_def single_inv_def)
  have "length (ob_nodes (e_book s)) + levels_left s (opposite (o_side (obj s t))) \<le> k"
    using levels_left_fuel assms(2) by (rule order_trans)
  then have "fst (match x k t s) \<noteq> Inl Diverge" by (rule match_enough_fuel[OF t])
  then show ?thesis
    using no_diverge(11)[of s d]
    by (auto simp: try_match_def ctx_match_def set_executed_def set_obj_def act_simps split: prod.splits sum.splits)
qed

lemma new_single_fuel:
  assumes inv: "single_inv x ok s" and d: "single_body (NewOrderCommand SINGLE (NewSingle d))"
    and k: "fuel_for x s \<le> k"
  shows "fst (single_handle_new x k d s) \<noteq> Inl Diverge"
proof -
  let ?r = "length (e_objs s)" and ?d = "effective_price s d"
  define s1 where "s1 = s\<lparr> e_objs := e_objs s @ [new_order_obj Plain ?d] \<rparr>"
  have t: "taker_ok ?r s1" unfolding s1_def using inv d by (intro alloc_taker) auto
  have "fuel_for x s1 \<le> k" using k by (simp add: s1_def fuel_for_def)
  note fuel = try_match_fuel[OF t this, of ?d]
  obtain r2 s2 where tm: "try_match x k ?r ?d s1 = (r2, s2)" by fastforce
  have "single_handle_new x k d s = (case r2 of Inl e \<Rightarrow> (Inl e, s2) | Inr oc \<Rightarrow> single_finish x ?r oc s2)"
    using tm by (simp add: single_handle_new_def ask_def alloc_def and_then_def s1_def Let_def split: sum.split)
  then show ?thesis using fuel tm calm_finish by (cases r2) (auto simp: calm_def)
qed

theorem command_enough_fuel:
  assumes "single_inv x ok s" "single_body (cmd_body cmd)" "fuel_for x s \<le> k"
  shows "fst (handle_command x k cmd s) \<noteq> Inl Diverge"
proof -
  obtain res u where run: "handle_command x k cmd s = (res, u)" by fastforce
  let ?s = "s\<lparr> e_cmd := Some (cmd_id cmd), e_queue := map_option (\<lambda>q. q @ [QReceived cmd]) (e_queue s) \<rparr>"
  have inv: "single_inv x ok ?s" using single_inv_cmd(2)[OF single_inv_cmd(1)[OF assms(1)]] by simp
  have fuel: "fuel_for x ?s \<le> k" using assms(3) by (simp add: fuel_for_def)
  have c: "calm (handle_cancel_order x i)" "calm (handle_modify_order x i lp sp)" for i lp sp
    unfolding handle_cancel_order_def handle_modify_order_def
    by (intro calm_combine calm_cancel calm_modify)+
  have handler: "r1 \<noteq> Inl Diverge" if "run_handler x k (cmd_body cmd) = Some h" "h ?s = (r1, s1)" for h r1 s1
  proof (cases "cmd_body cmd")
    case (NewOrderCommand st b)
    then obtain d where b: "b = NewSingle d" using assms(2) by (cases b) auto
    then show ?thesis
      using that NewOrderCommand assms(2) new_single_fuel[OF inv, of d k] fuel
      by (cases st) (auto simp: run_handler_def handle_new_order_def raise_def)
  next
    case (CancelOrderCommand i)
    then show ?thesis using that calmD[OF c(1), of i ?s r1 s1] by (simp add: run_handler_def)
  next
    case (ModifyOrderCommand i lp sp)
    then show ?thesis using that calmD[OF c(2), of i lp sp ?s r1 s1] by (simp add: run_handler_def)
  qed (use that in \<open>simp add: run_handler_def\<close>)
  from handle_command_cases[OF run] have "res \<noteq> Inl Diverge"
  proof (elim disjE exE conjE)
    fix h r1 s1
    assume h: "run_handler x k (cmd_body cmd) = Some h" "h ?s = (r1, s1)"
      and r: "case r1 of Inl e \<Rightarrow> res = Inl e \<and> u = s1
        | Inr _ \<Rightarrow> res = Inr () \<and> u = s1\<lparr> e_queue := map_option (\<lambda>q. q @ [QProcessed (e_cmd s1)]) (e_queue s1) \<rparr>"
    from handler[OF h] r show ?thesis by (cases r1) auto
  qed simp
  then show ?thesis using run by simp
qed

end

section \<open>Reachable engines\<close>

text \<open>
  The states of an engine that has only received commands for single orders, each run with the fuel
  its state asks for, and each leaving its state behind also when it raised.
\<close>

inductive single_reach :: "('m, 'r) env \<Rightarrow> ('m, 'r) engine \<Rightarrow> bool" for x where
  start: "single_reach x (new_engine x sy r n)"
| command: "single_reach x s \<Longrightarrow> single_body (cmd_body cmd) \<Longrightarrow>
     handle_command x (fuel_for x s) cmd s = (res, u) \<Longrightarrow> single_reach x u"

inductive_cases single_reach_cases: "single_reach x s"

context book_env
begin

lemma new_engine_inv: "single_inv x ok (new_engine x sy r n)"
  using repr_new[of 100]
  by (auto simp: single_inv_def engine_book_inv_def book_inv_def refs_single_def filled_ok_def new_engine_def)
     (simp add: new_orderbook_def)

lemma reach_inv: "single_reach x s \<Longrightarrow> single_inv x ok s"
  by (induction rule: single_reach.induct) (auto intro: new_engine_inv command_keeps_single)

end

end
