(* ===== verification/Behaviour.thy ===== *)
theory Behaviour imports Single_Engine begin

text \<open>
  What the handlers for single orders do, run to the end: a new order that does not cross rests at
  the back of its level, a cancelled order leaves the book and its unfilled part is taken off the
  escrow. The first section says when an order event is published and what a balance movement does
  to the account it is for.
\<close>

section \<open>Logging and moving, step by step\<close>

definition can_log :: "('m, 'r) env \<Rightarrow> ('m, 'r) engine \<Rightarrow> nat \<Rightarrow> bool" where
  "can_log x s r \<longleftrightarrow>
     user_id (obj s r) = system_user x
     \<or> is_uuid x (order_id (obj s r)) \<and> (\<exists>c. e_cmd s = Some c \<and> is_uuid x c) \<and> json_ok (obj s r)"

definition same_money :: "('m, 'r) engine \<Rightarrow> ('m, 'r) engine \<Rightarrow> bool" where
  "same_money s t \<longleftrightarrow> e_redis t = e_redis s \<and> e_uuid t = e_uuid s"

text \<open>The events an order publishes about itself: none for the system user, and none from a shadow.\<close>

definition own_events ::
    "('m, 'r) env \<Rightarrow> ('m, 'r) engine \<Rightarrow> order_event_type \<Rightarrow> order \<Rightarrow> event_details option \<Rightarrow> order_event list" where
  "own_events x s ty od dt =
     (if user_id od = system_user x \<or> e_shadow s \<noteq> None then []
      else [order_event_of s ty (order_id od) dt (Some od)])"

lemma log_own_done:
  assumes "can_log x s r" "ty \<notin> {ORDER_MODIFIED, ORDER_MODIFY_REJECTED}"
  shows "\<exists>t. log_own x ty r dt s = (Inr (), t) \<and> outside s t \<and> same_money s t
     \<and> published_orders t = published_orders s @ own_events x s ty (obj s r) dt"
proof -
  obtain res t where run: "log_own x ty r dt s = (res, t)" by fastforce
  have "outside s t" by (rule staysD[OF out_logs(4) run])
  moreover have "res = Inr () \<and> same_money s t \<and> published_orders t = published_orders s @ own_events x s ty (obj s r) dt"
    using run assms
    by (auto simp: published_orders_def own_events_def log_own_def log_about_def log_order_event_def log_event_def act_simps can_log_def
          valid_order_event_def order_event_of_def send_event_def advance_shadow_def same_money_def
          split: if_splits)
  ultimately show ?thesis using run by simp
qed

lemma outside_obj: "outside s t \<Longrightarrow> obj t r = obj s r"
  by (simp add: outside_def obj_def)

lemma fresh_logs_same: "outside s t \<Longrightarrow> same_money s t \<Longrightarrow> fresh_logs x t = fresh_logs x s"
  by (simp add: outside_def same_money_def fresh_logs_def)

lemma acct_same: "same_money s t \<Longrightarrow> acct x t a u = acct x s a u"
  by (simp add: same_money_def acct_def)

text \<open>The unfilled part of an order, at price \<open>p\<close>, taken off the escrow it is booked on.\<close>

definition released :: "rat \<Rightarrow> string \<Rightarrow> order \<Rightarrow> account \<Rightarrow> string \<Rightarrow> rat" where
  "released p sy od b w =
     (let q = quantity od - executed_quantity od
      in case o_side od of
           BID \<Rightarrow> on_acct CashEscrow (user_id od) (- (q * p)) b w
         | ASK \<Rightarrow> on_acct (AssetEscrow sy) (user_id od) (- q) b w)"

context balance_env
begin

lemma update_balance_effect:
  assumes "keys_apart x (e_symbol s)" "fresh_logs x s" "a \<in> accounts (e_symbol s)"
    and "e_shadow s = None" "u \<noteq> system_user x"
  shows "\<exists>v t. update_balance x u (Some c) mk (account_key x a u) (account_log x a u) delta s = (Inr (Some v), t)
           \<and> outside s t
           \<and> (\<forall>b \<in> accounts (e_symbol s). \<forall>w. acct x t b w = acct x s b w + on_acct a u delta b w)"
proof -
  obtain res t where run: "update_balance x u (Some c) mk (account_key x a u) (account_log x a u) delta s = (res, t)"
    by fastforce
  have out: "outside s t" by (rule staysD[OF out_update run])
  obtain v where res: "res = Inr (Some v)" and rd: "e_redis t = run_moves x u [(a, e_uuid s, delta, delta)] (e_redis s)"
    using run assms(4,5)
    by (auto simp: update_balance_def act_simps fresh_id_def log_balance_event_def log_event_def send_event_def
          update_is_step[symmetric] split: prod.splits)
  have "acct x t b w = acct x s b w + on_acct a u delta b w" if b: "b \<in> accounts (e_symbol s)" for b w
    using run_moves_num[OF assms(1) b, of "[(a, e_uuid s, delta, delta)]" "e_redis s" u w] assms(2,3) rd
    by (simp add: acct_def fresh_logs_def)
  then show ?thesis using run res out by blast
qed

lemma release_effect:
  assumes "keys_apart x (e_symbol s)" "fresh_logs x s" "e_shadow s = None" "e_cmd s = Some c"
    and "user_id (obj s r) \<noteq> system_user x" "executed_quantity (obj s r) < quantity (obj s r)"
    and "order_price (obj s r) = Inr (Some p)"
  defines "q \<equiv> quantity (obj s r) - executed_quantity (obj s r)" and "u \<equiv> user_id (obj s r)"
  shows "\<exists>t. release_escrow x r s = (Inr (), t) \<and> outside s t
           \<and> (\<forall>b \<in> accounts (e_symbol s). \<forall>w. acct x t b w = acct x s b w + released p (e_symbol s) (obj s r) b w)"
proof (cases "o_side (obj s r)")
  case BID
  obtain v t where "update_balance x u (Some c) (\<lambda>n c. CashEscrowDecreased n u (q * p) c)
        (account_key x CashEscrow u) (account_log x CashEscrow u) (- (q * p)) s = (Inr (Some v), t)"
      "outside s t" "\<forall>b \<in> accounts (e_symbol s). \<forall>w. acct x t b w = acct x s b w + on_acct CashEscrow u (- (q * p)) b w"
    using update_balance_effect[OF assms(1,2) _ assms(3), of CashEscrow u c
        "\<lambda>n c. CashEscrowDecreased n u (q * p) c" "- (q * p)"] assms(5) u_def
    by (auto simp: accounts_def)
  then show ?thesis
    using BID assms
    by (simp add: release_escrow_def released_def Let_def act_simps times_price_def discard_def decrease_cash_escrow_def)
next
  case ASK
  obtain v t where "update_balance x u (Some c) (\<lambda>n c. AssetEscrowDecreased n u (e_symbol s) q c)
        (account_key x (AssetEscrow (e_symbol s)) u) (account_log x (AssetEscrow (e_symbol s)) u) (- q) s = (Inr (Some v), t)"
      "outside s t" "\<forall>b \<in> accounts (e_symbol s). \<forall>w. acct x t b w = acct x s b w + on_acct (AssetEscrow (e_symbol s)) u (- q) b w"
    using update_balance_effect[OF assms(1,2) _ assms(3), of "AssetEscrow (e_symbol s)" u c
        "\<lambda>n c. AssetEscrowDecreased n u (e_symbol s) q c" "- q"] assms(5) u_def
    by (auto simp: accounts_def)
  then show ?thesis
    using ASK assms
    by (simp add: release_escrow_def released_def Let_def act_simps discard_def decrease_asset_escrow_def)
qed

end

section \<open>Settlement\<close>

context balance_env
begin

lemma settle_bid_effect:
  assumes "keys_apart x (e_symbol s)" "fresh_logs x s" "e_shadow s = None" "u \<noteq> system_user x"
  shows "\<exists>t. settle_bid x u q p (Some c) tid s = (Inr (), t) \<and> outside s t \<and> fresh_logs x t
     \<and> (\<forall>b \<in> accounts (e_symbol s). \<forall>w. acct x t b w = acct x s b w + on_acct CashEscrow u (- (q * p)) b w
          + on_acct CashBalance u (- (q * p)) b w + on_acct (AssetBalance (e_symbol s)) u q b w)"
proof -
  let ?n = "e_uuid s"
  let ?ms = "[(CashEscrow, ?n, - (q * p), q * p), (CashBalance, Suc ?n, - (q * p), q * p),
              (AssetBalance (e_symbol s), Suc (Suc ?n), q, q)]"
  obtain res t where run: "settle_bid x u q p (Some c) tid s = (res, t)" by fastforce
  have out: "outside s t" by (rule staysD[OF out_settle(2) run])
  have rd: "res = Inr ()" "e_redis t = run_moves x u ?ms (e_redis s)"
    using run assms(3,4)
    by (auto simp: settle_bid_def act_simps fresh_id_def log_balance_event_def log_event_def send_event_def
          lua_settle_bid_def Let_def)
  have "sourced x s t" by (rule staysD[OF sourced_settle_bid run])
  then have "fresh_logs x t" using assms(1,2) by (simp add: sourced_def)
  moreover have "acct x t b w = acct x s b w + on_acct CashEscrow u (- (q * p)) b w
      + on_acct CashBalance u (- (q * p)) b w + on_acct (AssetBalance (e_symbol s)) u q b w"
    if "b \<in> accounts (e_symbol s)" for b w
    using run_moves_num[OF assms(1) that, of ?ms "e_redis s" u w] assms(2) rd(2)
    by (simp add: acct_def accounts_def fresh_logs_def) fastforce
  ultimately show ?thesis using run rd(1) out by blast
qed

lemma settle_ask_effect:
  assumes "keys_apart x (e_symbol s)" "fresh_logs x s" "e_shadow s = None" "u \<noteq> system_user x"
  shows "\<exists>t. settle_ask x u q p (Some c) tid s = (Inr (), t) \<and> outside s t \<and> fresh_logs x t
     \<and> (\<forall>b \<in> accounts (e_symbol s). \<forall>w. acct x t b w = acct x s b w + on_acct (AssetEscrow (e_symbol s)) u (- q) b w
          + on_acct (AssetBalance (e_symbol s)) u (- q) b w + on_acct CashBalance u (q * p) b w)"
proof -
  let ?n = "e_uuid s"
  let ?ms = "[(AssetEscrow (e_symbol s), Suc ?n, - q, q), (AssetBalance (e_symbol s), ?n, - q, q),
              (CashBalance, Suc (Suc ?n), q * p, q * p)]"
  obtain res t where run: "settle_ask x u q p (Some c) tid s = (res, t)" by fastforce
  have out: "outside s t" by (rule staysD[OF out_settle(1) run])
  have rd: "res = Inr ()" "e_redis t = run_moves x u ?ms (e_redis s)"
    using run assms(3,4)
    by (auto simp: settle_ask_def act_simps fresh_id_def log_balance_event_def log_event_def send_event_def
          lua_settle_ask_def Let_def)
  have "sourced x s t" by (rule staysD[OF sourced_settle_ask run])
  then have "fresh_logs x t" using assms(1,2) by (simp add: sourced_def)
  moreover have "acct x t b w = acct x s b w + on_acct (AssetEscrow (e_symbol s)) u (- q) b w
      + on_acct (AssetBalance (e_symbol s)) u (- q) b w + on_acct CashBalance u (q * p) b w"
    if "b \<in> accounts (e_symbol s)" for b w
    using run_moves_num[OF assms(1) that, of ?ms "e_redis s" u w] assms(2) rd(2)
    by (simp add: acct_def accounts_def fresh_logs_def) fastforce
  ultimately show ?thesis using run rd(1) out by blast
qed

end

section \<open>A new order that does not cross\<close>

context book_env
begin

lemma append_done:
  assumes "book_repr (levels_api x) ok (e_book s) ab" "order_price (obj s r) = Inr (Some p)"
    and "order_id (obj s r) \<notin> fst ` set (ab (o_side (obj s r)) p)"
  shows "\<exists>ob. append_at_price x r s = (Inr (), s\<lparr> e_book := ob \<rparr>)
     \<and> book_repr (levels_api x) ok ob
         (ab_append ab (o_side (obj s r)) p (order_id (obj s r)) (length (ob_nodes (e_book s))))
     \<and> n_order (ob_nodes ob ! length (ob_nodes (e_book s))) = r
     \<and> (\<forall>b < length (ob_nodes (e_book s)). n_order (ob_nodes ob ! b) = n_order (ob_nodes (e_book s) ! b))"
  using append_refines[OF assms(1,3), of r] assms(2)
  by (auto simp: append_at_price_def book_append_def act_simps node_frame_def)

lemma finish_rests:
  assumes "book_repr (levels_api x) ok (e_book s) ab" "can_log x s r" "r < length (e_objs s)"
    and "order_price (obj s r) = Inr (Some p)"
    and "order_id (obj s r) \<notin> fst ` set (ab (o_side (obj s r)) p)" "store_get s (order_id (obj s r)) = None"
  shows "\<exists>t. single_finish x r None s = (Inr (), t)
     \<and> book_repr (levels_api x) ok (e_book t)
         (ab_append ab (o_side (obj s r)) p (order_id (obj s r)) (length (ob_nodes (e_book s))))
     \<and> n_order (ob_nodes (e_book t) ! length (ob_nodes (e_book s))) = r
     \<and> (\<forall>b < length (ob_nodes (e_book s)). n_order (ob_nodes (e_book t) ! b) = n_order (ob_nodes (e_book s) ! b))
     \<and> e_objs t = (e_objs s)[r := (obj s r)\<lparr> o_status := ''placed'' \<rparr>]
     \<and> store_get t (order_id (obj s r)) = Some r \<and> same_money s t \<and> o_status (obj t r) = ''placed''
     \<and> e_store t = e_store s @ [(order_id (obj s r), r)]
     \<and> published_orders t = published_orders s @ own_events x s ORDER_PLACED ((obj s r)\<lparr> o_status := ''placed'' \<rparr>) None"
proof -
  let ?s1 = "s\<lparr> e_objs := (e_objs s)[r := (e_objs s ! r)\<lparr> o_status := ''placed'' \<rparr>] \<rparr>"
  have o1: "obj ?s1 r = (obj s r)\<lparr> o_status := ''placed'' \<rparr>" using assms(3) by (simp add: obj_def)
  then have "can_log x ?s1 r" using assms(2) by (auto simp: can_log_def json_ok_def)
  then obtain s2 where s2: "log_own x ORDER_PLACED r None ?s1 = (Inr (), s2)" "outside ?s1 s2" "same_money ?s1 s2"
      "published_orders s2 = published_orders ?s1 @ own_events x ?s1 ORDER_PLACED (obj ?s1 r) None"
    using log_own_done[of x ?s1 r ORDER_PLACED None] by auto
  have o2: "obj s2 r = (obj s r)\<lparr> o_status := ''placed'' \<rparr>" using outside_obj[OF s2(2)] o1 by simp
  let ?s3 = "s2\<lparr> e_store := dict_setdefault (e_store s2) (order_id (obj s r)) r \<rparr>"
  have o3: "obj ?s3 r = (obj s r)\<lparr> o_status := ''placed'' \<rparr>" using o2 by (simp add: obj_def)
  have b3: "e_book ?s3 = e_book s" using s2(2) by (simp add: outside_def)
  have pr: "order_price (obj ?s3 r) = Inr (Some p)"
    using assms(4) o3 by (simp add: order_price_def split: order_type.splits)
  obtain ob where ob: "append_at_price x r ?s3 = (Inr (), ?s3\<lparr> e_book := ob \<rparr>)"
      "book_repr (levels_api x) ok ob
         (ab_append ab (o_side (obj s r)) p (order_id (obj s r)) (length (ob_nodes (e_book s))))"
      "n_order (ob_nodes ob ! length (ob_nodes (e_book s))) = r"
      "\<forall>b < length (ob_nodes (e_book s)). n_order (ob_nodes ob ! b) = n_order (ob_nodes (e_book s) ! b)"
    using append_done[of ?s3 ab r p] assms(1,5) o3 b3 pr by auto
  have "single_finish x r None s = (Inr (), ?s3\<lparr> e_book := ob \<rparr>)"
    using s2(1) ob(1) o2 by (simp add: single_finish_def set_obj_def store_add_def upd_def)
  moreover have "store_get ?s3 (order_id (obj s r)) = Some r"
    using assms(6) s2(2) map_of_dict_setdefault[of "e_store s" "order_id (obj s r)" r]
    by (simp add: store_get_def outside_def)
  moreover have "e_objs ?s3 = (e_objs s)[r := (obj s r)\<lparr> o_status := ''placed'' \<rparr>]"
    using s2(2) by (simp add: outside_def obj_def)
  moreover have "same_money s ?s3" using s2(3) by (simp add: same_money_def)
  moreover have "e_store ?s3 = e_store s @ [(order_id (obj s r), r)]"
    using assms(6) s2(2) by (simp add: store_get_def outside_def dict_setdefault_def map_of_eq_None_iff)
  moreover have "published_orders ?s3 = published_orders s @ own_events x s ORDER_PLACED ((obj s r)\<lparr> o_status := ''placed'' \<rparr>) None"
    using s2(4) o1 by (simp add: published_orders_def own_events_def order_event_of_def)
  ultimately show ?thesis
    using ob o3 by (intro exI[of _ "?s3\<lparr> e_book := ob \<rparr>"]) (auto simp: store_get_def same_money_def obj_def published_orders_def)
qed

lemma new_rests:
  assumes R: "book_repr (levels_api x) ok (e_book s) ab"
    and d: "od_order_type d = LIMIT" "od_limit_price d = Some p"
    and un: "limit_crossable (Some p) (od_side d) (e_book s) = Inr False"
    and new: "od_order_id d \<notin> fst ` set (ab (od_side d) p)" "store_get s (od_order_id d) = None"
    and log: "od_user_id d = system_user x \<or> is_uuid x (od_order_id d) \<and> (\<exists>c. e_cmd s = Some c \<and> is_uuid x c)"
  shows "\<exists>t. single_handle_new x k d s = (Inr (), t)
     \<and> book_repr (levels_api x) ok (e_book t)
         (ab_append ab (od_side d) p (od_order_id d) (length (ob_nodes (e_book s))))
     \<and> n_order (ob_nodes (e_book t) ! length (ob_nodes (e_book s))) = length (e_objs s)
     \<and> store_get t (od_order_id d) = Some (length (e_objs s)) \<and> same_money s t
     \<and> o_status (obj t (length (e_objs s))) = ''placed''
     \<and> e_store t = e_store s @ [(od_order_id d, length (e_objs s))]
     \<and> published_orders t =
         published_orders s @ own_events x s ORDER_PLACED ((new_order_obj Plain d)\<lparr> o_status := ''placed'' \<rparr>) None"
proof -
  let ?r = "length (e_objs s)" and ?od = "new_order_obj Plain d"
  let ?s1 = "s\<lparr> e_objs := e_objs s @ [?od] \<rparr>"
  have e: "effective_price s d = d" using d(1) by (simp add: effective_price_def)
  have o1: "obj ?s1 ?r = ?od" by (simp add: obj_def)
  have f: "order_id ?od = od_order_id d" "user_id ?od = od_user_id d" "o_side ?od = od_side d"
      "order_price ?od = Inr (Some p)" "json_ok ?od"
    using d by (simp_all add: new_order_obj_def order_price_def json_ok_def)
  have "try_match x k ?r d ?s1 = (Inr None, ?s1)"
    using d un by (simp add: try_match_def matchable_def act_simps)
  moreover have "can_log x ?s1 ?r" using log f o1 by (simp add: can_log_def)
  ultimately show ?thesis
    using finish_rests[of ?s1 ab ?r p] R f o1 new e
    by (auto simp: single_handle_new_def act_simps alloc_def Let_def same_money_def store_get_def
          published_orders_def own_events_def order_event_of_def)
qed

end

section \<open>Cancelling a resting order\<close>

locale engine_env = book_env x ok + balance_env x for x :: "('m, 'r) env" and ok :: "'m \<Rightarrow> bool"
begin

lemma remove_done:
  assumes "book_repr (levels_api x) ok (e_book s) ab" "order_price (obj s r) = Inr (Some p)"
    and "order_id (obj s r) \<in> fst ` set (ab (o_side (obj s r)) p)"
  shows "\<exists>ob. remove_at_price x r s = (Inr (), s\<lparr> e_book := ob \<rparr>)
     \<and> book_repr (levels_api x) ok ob (ab_remove ab (o_side (obj s r)) p (order_id (obj s r)))"
  using remove_refines[OF assms(1,3)] assms(2) by (auto simp: remove_at_price_def book_remove_def act_simps)

lemma cancel_resting:
  assumes R: "book_repr (levels_api x) ok (e_book s) ab"
    and r: "order_price (obj s r) = Inr (Some p)" "order_id (obj s r) \<in> fst ` set (ab (o_side (obj s r)) p)"
    and log: "can_log x s r" "user_id (obj s r) \<noteq> system_user x"
    and unfilled: "executed_quantity (obj s r) < quantity (obj s r)"
    and env: "attached s" "e_shadow s = None" "e_cmd s = Some c" "keys_apart x (e_symbol s)" "fresh_logs x s"
  shows "\<exists>t. single_handle_cancel x r s = (Inr (), t)
     \<and> book_repr (levels_api x) ok (e_book t) (ab_remove ab (o_side (obj s r)) p (order_id (obj s r)))
     \<and> store_get t (order_id (obj s r)) = None
     \<and> (\<forall>b \<in> accounts (e_symbol s). \<forall>w. acct x t b w = acct x s b w + released p (e_symbol s) (obj s r) b w)
     \<and> published_orders t = published_orders s @
         [order_event_of s ORDER_CANCELLED (order_id (obj s r)) (Some (Reason ''User cancelled order.'')) (Some (obj s r))]"
proof -
  let ?i = "order_id (obj s r)"
  obtain s1 where s1: "log_own x ORDER_CANCELLED r (Some (Reason ''User cancelled order.'')) s = (Inr (), s1)"
      "outside s s1" "same_money s s1"
      "published_orders s1 = published_orders s @ own_events x s ORDER_CANCELLED (obj s r) (Some (Reason ''User cancelled order.''))"
    using log_own_done[OF log(1), of ORDER_CANCELLED] by auto
  have o1: "obj s1 r = obj s r" by (rule outside_obj[OF s1(2)])
  have "book_repr (levels_api x) ok (e_book s1) ab" using R s1(2) by (simp add: outside_def)
  then obtain ob where ob: "remove_at_price x r s1 = (Inr (), s1\<lparr> e_book := ob \<rparr>)"
      "book_repr (levels_api x) ok ob (ab_remove ab (o_side (obj s r)) p ?i)"
    using remove_done[of s1 ab r p] r o1 by auto
  define s3 where "s3 = s1\<lparr> e_book := ob, e_store := dict_pop (e_store s1) ?i \<rparr>"
  have o3: "obj s3 r = obj s r" using o1 by (simp add: s3_def obj_def)
  have e3: "e_symbol s3 = e_symbol s" "attached s3" "e_shadow s3 = None" "e_cmd s3 = Some c" "fresh_logs x s3"
    using s1(2,3) env fresh_logs_same[OF s1(2,3), of x] by (auto simp: s3_def outside_def fresh_logs_def)
  have a3: "acct x s3 b w = acct x s b w" for b w using acct_same[OF s1(3), of x b w] by (simp add: s3_def acct_def)
  obtain t where t: "release_escrow x r s3 = (Inr (), t)" "outside s3 t"
      "\<forall>b \<in> accounts (e_symbol s). \<forall>w. acct x t b w = acct x s b w + released p (e_symbol s) (obj s r) b w"
    using release_effect[of s3 c r p] env log unfilled r e3 o3 a3 by auto
  have "single_handle_cancel x r s = (Inr (), t)"
    using s1(1) ob(1) t(1) e3(2) o1 s3_def
    by (simp add: single_handle_cancel_def store_remove_def upd_def ctx_release_escrow_def ask_def obj_def)
  moreover have "store_get t ?i = None"
    using t(2) by (simp add: store_get_def outside_def s3_def map_of_dict_pop)
  moreover have "e_book t = ob" using t(2) by (simp add: outside_def s3_def)
  moreover have "published_orders t = published_orders s1"
    using staysD[OF noe_release t(1)] by (simp add: no_order_event_def s3_def published_orders_def)
  ultimately show ?thesis using ob(2) t(3) s1(4) log(2) env(2) by (simp add: own_events_def)
qed

end

interpretation demo_eng: engine_env demo_env alist_ok ..

end
