(* ===== verification/Error_Paths.thy ===== *)
theory Error_Paths imports Behaviour begin

text \<open>
  The commands the engine answers with an exception, whatever the state of the book: market orders,
  linked orders and modifications of users other than the system user. The modification the system
  user may make keeps the price and loses the place in the queue.
\<close>

section \<open>Running a command\<close>

definition received :: "command \<Rightarrow> ('m, 'r) engine \<Rightarrow> ('m, 'r) engine" where
  "received cmd s = s\<lparr> e_cmd := Some (cmd_id cmd), e_queue := map_option (\<lambda>q. q @ [QReceived cmd]) (e_queue s) \<rparr>"

lemma command_raises:
  assumes "run_handler x k (cmd_body cmd) = Some h" "h (received cmd s) = (Inl e, t)"
  shows "handle_command x k cmd s = (Inl e, t)"
  using assms by (simp add: handle_command_def received_def log_command_event_def act_simps)

lemma command_returns:
  assumes "run_handler x k (cmd_body cmd) = Some h" "h (received cmd s) = (Inr (), t)"
  shows "handle_command x k cmd s =
           (Inr (), t\<lparr> e_queue := map_option (\<lambda>q. q @ [QProcessed (e_cmd t)]) (e_queue t) \<rparr>)"
  using assms by (simp add: handle_command_def received_def log_command_event_def act_simps)

lemma received_simps [simp]:
  "e_symbol (received cmd s) = e_symbol s" "e_objs (received cmd s) = e_objs s"
  "e_book (received cmd s) = e_book s" "e_store (received cmd s) = e_store s"
  "e_cmd (received cmd s) = Some (cmd_id cmd)" "e_redis (received cmd s) = e_redis s"
  "e_uuid (received cmd s) = e_uuid s" "e_kafka (received cmd s) = e_kafka s"
  "e_shadow (received cmd s) = e_shadow s" "attached (received cmd s) = attached s"
  "obj (received cmd s) r = obj s r" "store_get (received cmd s) i = store_get s i"
  by (simp_all add: received_def obj_def store_get_def)

section \<open>Market orders\<close>

lemma market_raises:
  assumes "od_order_type d = MARKET" "attached s"
  shows "single_handle_new x k d s =
           (Inl NotImplementedError, s\<lparr> e_objs := e_objs s @ [new_order_obj Plain (effective_price s d)] \<rparr>)"
  using assms
  by (simp add: single_handle_new_def effective_price_def try_match_def matchable_def ctx_match_def match_def
        order_price_def new_order_obj_def obj_def alloc_def act_simps Let_def)

section \<open>Linked orders\<close>

text \<open>An order that holds another order object cannot be serialised into its event.\<close>

lemma log_own_linked:
  assumes "user_id (obj s r) \<noteq> system_user x" "is_uuid x (order_id (obj s r))" "e_cmd s = Some c" "is_uuid x c"
    and "\<not> json_ok (obj s r)" "ty \<notin> {ORDER_MODIFIED, ORDER_MODIFY_REJECTED}"
  shows "log_own x ty r dt s = (Inl TypeError, s)"
  using assms
  by (auto simp: log_own_def log_about_def log_order_event_def log_event_def act_simps valid_order_event_def
        order_event_of_def)

lemma oco_raises:
  assumes "od_user_id da \<noteq> system_user x" "is_uuid x (od_order_id da)" "e_cmd s = Some c" "is_uuid x c"
  shows "\<exists>t. oco_handle_new x [da, db] s = (Inl TypeError, t) \<and> e_book t = e_book s \<and> e_store t = e_store s
           \<and> e_kafka t = e_kafka s \<and> e_redis t = e_redis s"
proof -
  let ?a = "length (e_objs s)" and ?b = "Suc (length (e_objs s))"
  let ?s1 = "s\<lparr> e_objs := e_objs s @ [(new_order_obj (OCOLinks None) da)\<lparr> links := OCOLinks (Some ?b) \<rparr>,
                                      (new_order_obj (OCOLinks None) db)\<lparr> links := OCOLinks (Some ?a) \<rparr>] \<rparr>"
  have "log_own x ORDER_PLACED ?a None ?s1 = (Inl TypeError, ?s1)"
    using assms by (intro log_own_linked[where c = c]) (auto simp: obj_def nth_append json_ok_def new_order_obj_def)
  then have "oco_handle_new x [da, db] s = (Inl TypeError, ?s1)"
    by (simp add: oco_handle_new_def alloc_def set_obj_def act_simps nth_append list_update_append)
  then show ?thesis by simp
qed

section \<open>Modifications\<close>

text \<open>The events for a modification leave out the order, which the event class requires.\<close>

lemma log_without_order:
  assumes "user_id (obj s r) \<noteq> system_user x" "oe_order ev = None"
  shows "log_order_event x (user_id (obj s r)) ev s = (Inl ValidationError, s)"
  using assms by (simp add: log_order_event_def valid_order_event_def act_simps)

lemma modify_raises:
  assumes "user_id (obj s r) \<noteq> system_user x" "o_type (obj s r) = LIMIT"
  shows "modify_order x (Some v) sp r s = (Inl ValidationError, s)"
proof -
  have lc: "\<exists>b. limit_crossable (Some v) (o_side (obj s r)) (e_book s) = Inr b"
    by (cases "best_price (e_book s) (opposite (o_side (obj s r)))") (auto simp: limit_crossable_def)
  then show ?thesis
    using assms
    by (auto simp: modify_order_def validate_modify_def reject_modify_def log_modified_def Let_def act_simps
          get_modified_price_def order_price_def log_without_order order_event_of_def)
qed

lemma same_book_update: "(s :: ('m, 'r) engine)\<lparr> e_book := a \<rparr> = s\<lparr> e_book := b \<rparr> \<longleftrightarrow> a = b"
  by (cases s) simp

lemma updates_commute:
  "(s :: ('m, 'r) engine)\<lparr> e_objs := os, e_book := a \<rparr> = s\<lparr> e_book := a, e_objs := os \<rparr>"
  by simp

context book_env
begin

lemma remove_then_append:
  assumes R: "book_repr (levels_api x) ok (e_book s) ab" "order_price (obj s r) = Inr (Some p)"
    and "order_id (obj s r) \<in> fst ` set (ab (o_side (obj s r)) p)"
  defines "i \<equiv> order_id (obj s r)" and "sd \<equiv> o_side (obj s r)"
  shows "\<exists>ob ob'. remove_at_price x r s = (Inr (), s\<lparr> e_book := ob \<rparr>) \<and> length (ob_nodes ob) = length (ob_nodes (e_book s))
     \<and> book_repr (levels_api x) ok ob (ab_remove ab sd p i)
     \<and> append_at_price x r (s\<lparr> e_book := ob \<rparr>) = (Inr (), s\<lparr> e_book := ob' \<rparr>)
     \<and> book_repr (levels_api x) ok ob' (ab_append (ab_remove ab sd p i) sd p i (length (ob_nodes (e_book s))))"
proof -
  obtain ob where ob: "ob_remove (levels_api x) (e_book s) i sd (Some p) = (Inr (), ob)"
      "book_repr (levels_api x) ok ob (ab_remove ab sd p i)" "length (ob_nodes ob) = length (ob_nodes (e_book s))"
    using remove_refines[OF R(1)] assms(3) unfolding i_def sd_def by blast
  have o: "obj (s\<lparr> e_book := ob \<rparr>) r = obj s r" by (simp add: obj_def)
  have "i \<notin> fst ` set (ab_remove ab sd p i sd p)" by (auto simp: ab_remove_def dict_pop_def)
  then obtain ob' where "append_at_price x r (s\<lparr> e_book := ob \<rparr>) = (Inr (), s\<lparr> e_book := ob' \<rparr>)"
      "book_repr (levels_api x) ok ob' (ab_append (ab_remove ab sd p i) sd p i (length (ob_nodes ob)))"
    using append_done[of "s\<lparr> e_book := ob \<rparr>" "ab_remove ab sd p i" r p] ob(2) R(2) o i_def sd_def by auto
  moreover have "remove_at_price x r s = (Inr (), s\<lparr> e_book := ob \<rparr>)"
    using ob(1) R(2) by (simp add: remove_at_price_def book_remove_def act_simps i_def sd_def)
  ultimately show ?thesis using ob by auto
qed

lemma system_modify:
  assumes R: "book_repr (levels_api x) ok (e_book s) ab" "order_price (obj s r) = Inr (Some p)"
    and i: "order_id (obj s r) \<in> fst ` set (ab (o_side (obj s r)) p)"
    and sys: "user_id (obj s r) = system_user x" "o_type (obj s r) = LIMIT" "r < length (e_objs s)"
    and un: "limit_crossable (Some v) (o_side (obj s r)) (e_book s) = Inr False"
  shows "\<exists>t. modify_order x (Some v) None r s = (Inr (), t) \<and> order_price (obj t r) = Inr (Some p)
     \<and> book_repr (levels_api x) ok (e_book t)
         (ab_append (ab_remove ab (o_side (obj s r)) p (order_id (obj s r))) (o_side (obj s r)) p
            (order_id (obj s r)) (length (ob_nodes (e_book s))))"
proof -
  let ?f = "assign_price (Some v)" and ?i = "order_id (obj s r)" and ?sd = "o_side (obj s r)"
  let ?up = "\<lambda>s. s\<lparr> e_objs := (e_objs s)[r := ?f (e_objs s ! r)] \<rparr>"
  obtain ob ob' where ob: "remove_at_price x r s = (Inr (), s\<lparr> e_book := ob \<rparr>)"
      "append_at_price x r (s\<lparr> e_book := ob \<rparr>) = (Inr (), s\<lparr> e_book := ob' \<rparr>)"
      "book_repr (levels_api x) ok ob' (ab_append (ab_remove ab ?sd p ?i) ?sd p ?i (length (ob_nodes (e_book s))))"
    using remove_then_append[OF R i] by blast
  have o: "obj (?up (s\<lparr> e_book := ob \<rparr>)) r = ?f (obj s r)" using sys(3) by (simp add: obj_def)
  have "append_at_price x r (?up (s\<lparr> e_book := ob \<rparr>)) = (Inr (), ?up (s\<lparr> e_book := ob' \<rparr>))"
    using ob(2) o sys(3)
    by (auto simp: append_at_price_def book_append_def act_simps obj_def assign_price_def order_price_def
          same_book_update updates_commute
          split: prod.splits sum.splits order_type.splits)
  then have "modify_order x (Some v) None r s = (Inr (), ?up (s\<lparr> e_book := ob' \<rparr>))"
    using ob(1) sys un R(2)
    by (simp add: modify_order_def validate_modify_def log_modified_def Let_def act_simps get_modified_price_def
          log_order_event_def set_obj_def)
  moreover have "order_price (obj (?up (s\<lparr> e_book := ob' \<rparr>)) r) = Inr (Some p)"
    using R(2) sys(3) order_price_assign[of "Some v" "obj s r"] by (simp add: obj_def)
  ultimately show ?thesis using ob(3) by auto
qed

end

end
