(* ===== verification/Database.thy ===== *)
theory Database imports Engine_Types begin

text \<open>
  The tables of \<open>infra/db/models\<close> that the services read and write: one record per table with its
  columns, and the database as the collection of tables. A table is a list of rows in insertion order;
  \<open>Orders\<close>, \<open>Instruments\<close> and \<open>AssetBalances\<close> are looked up by primary key. Ids are strings.
  Columns the database fills in by itself (creation and update times) and the raw JSON payload of the
  event tables are left out.
\<close>

section \<open>Rows\<close>

record order_row =
  or_order_id :: string
  or_user_id :: string
  or_group_id :: "string option"
  or_parent_id :: "string option"
  or_symbol :: string
  or_side :: side
  or_strategy :: strategy_type
  or_type :: order_type
  or_quantity :: rat
  or_executed :: rat
  or_limit :: "rat option"
  or_stop :: "rat option"
  or_avg_fill :: "rat option"
  or_status :: order_status

record order_event_row =
  oer_event_id :: string
  oer_order_id :: string
  oer_user_id :: string
  oer_command_id :: string
  oer_type :: string
  oer_symbol :: string
  oer_timestamp :: rat

record balance_event_row =
  ber_event_id :: string
  ber_user_id :: string
  ber_command_id :: string
  ber_type :: string
  ber_symbol :: "string option"
  ber_timestamp :: rat

record event_log_row =
  elr_type :: event_category
  elr_event_id :: string
  elr_timestamp :: rat

record instrument_row =
  ir_id :: string
  ir_symbol :: string
  ir_starting_price :: rat
  ir_status :: instrument_status

record asset_balance_row =
  ab_balance :: rat
  ab_escrow :: rat

record database =
  db_users :: "string list"
  db_orders :: "(string \<times> order_row) list"
  db_order_events :: "order_event_row list"
  db_balance_events :: "balance_event_row list"
  db_event_logs :: "event_log_row list"
  db_instruments :: "instrument_row list"
  db_assets :: "((string \<times> string) \<times> asset_balance_row) list"

section \<open>Sessions\<close>

text \<open>
  \<open>get_db_sess\<close> runs its body in a transaction: an exception rolls every change back and propagates.
  A body is a function that gives an exception or the changed database with a value.
\<close>

definition in_session :: "(database \<Rightarrow> exn + 'a \<times> database) \<Rightarrow> database \<Rightarrow> (exn + 'a) \<times> database" where
  "in_session body db = (case body db of Inl e \<Rightarrow> (Inl e, db) | Inr (a, db') \<Rightarrow> (Inr a, db'))"

lemma in_session_raises: "fst (in_session body db) = Inl e \<Longrightarrow> snd (in_session body db) = db"
  by (auto simp: in_session_def split: sum.splits)

definition get_order :: "database \<Rightarrow> string \<Rightarrow> order_row option" where
  "get_order db i = map_of (db_orders db) i"

definition put_order :: "order_row \<Rightarrow> database \<Rightarrow> database" where
  "put_order r db = db\<lparr> db_orders := dict_put (db_orders db) (or_order_id r) r \<rparr>"

definition instrument_id :: "database \<Rightarrow> string \<Rightarrow> string option" where
  "instrument_id db sy = map_option ir_id (find (\<lambda>r. ir_symbol r = sy) (db_instruments db))"

definition empty_db :: database where
  "empty_db = \<lparr> db_users = [], db_orders = [], db_order_events = [], db_balance_events = [],
               db_event_logs = [], db_instruments = [], db_assets = [] \<rparr>"

text \<open>Every order is filed under its own id.\<close>

definition orders_keyed :: "database \<Rightarrow> bool" where
  "orders_keyed db \<longleftrightarrow> (\<forall>(i, r) \<in> set (db_orders db). or_order_id r = i)"

lemma get_order_id: "orders_keyed db \<Longrightarrow> get_order db i = Some r \<Longrightarrow> or_order_id r = i"
  by (auto simp: orders_keyed_def get_order_def dest: map_of_SomeD)

lemma get_put_order: "get_order (put_order r db) i = (if i = or_order_id r then Some r else get_order db i)"
  by (simp add: get_order_def put_order_def map_of_dict_put)

lemma orders_keyed_put: "orders_keyed db \<Longrightarrow> orders_keyed (put_order r db)"
  by (auto simp: orders_keyed_def put_order_def dest!: set_dict_put)

section \<open>Responses\<close>

text \<open>
  How a request fails: with the status of an \<open>HTTPException\<close> (a \<open>JWTError\<close> and a failed validation are
  turned into 401 and 422 by the handlers of the application), or with an exception nothing catches.
\<close>

datatype api_error = HTTPException nat | Uncaught exn

end
