(* ===== verification/Orchestrator.thy ===== *)
theory Orchestrator imports Snapshots Error_Paths Database begin

text \<open>
  Starting an engine and keeping it running: \<open>restoration/engine_loader.py\<close>,
  \<open>engine_orchestrator/engine_orchestrator.py\<close> and \<open>engine_orchestrator/engine_shadow.py\<close>.

  The loader restores an engine from a snapshot or creates it and seeds the book; the ids \<open>uuid4\<close>
  returns are the values of a function \<open>gen\<close>. The orchestrator hands the commands of its symbol to the
  engine and stops at the first exception. The shadow replays every processed command on its own
  engine, with the events of the command as its source for the funds check, and stores a snapshot
  every \<open>snapshot_interval\<close> commands. The two processes are joined by the engine's queue. Where a
  message was on Kafka travels in the details of the command dictionary, here beside it.
\<close>

section \<open>The loader\<close>

record position =
  kp_topic :: string
  kp_partition :: nat
  kp_offset :: nat

record snapshot_row =
  sr_symbol :: string
  sr_snapshot :: ctx_snap
  sr_position :: position

text \<open>The outer join: an instrument comes with each of its snapshots, or alone when it has none.\<close>

definition load_rows :: "string list \<Rightarrow> instrument_row list \<Rightarrow> snapshot_row list \<Rightarrow> (instrument_row \<times> snapshot_row option) list" where
  "load_rows symbols ins snaps =
     concat (map (\<lambda>i. let rs = filter (\<lambda>r. sr_symbol r = ir_symbol i) snaps
                      in if rs = [] then [(i, None)] else map (\<lambda>r. (i, Some r)) rs)
       (filter (\<lambda>i. symbols = [] \<or> ir_symbol i \<in> set symbols) ins))"

definition seed_price :: "rat \<Rightarrow> nat \<Rightarrow> rat" where
  "seed_price starting_price i = round2 (starting_price * (1 + of_nat i * (5 / 1000)))"

definition seed_command :: "('m, 'r) env \<Rightarrow> (nat \<Rightarrow> string) \<Rightarrow> string \<Rightarrow> rat \<Rightarrow> nat \<Rightarrow> command" where
  "seed_command x gen sy starting_price i =
     \<lparr> cmd_id = gen (2 * i + 1),
       cmd_body = NewOrderCommand SINGLE (NewSingle
         \<lparr> od_order_id = gen (2 * i), od_user_id = system_user x, od_symbol = sy, od_side = ASK,
           od_order_type = LIMIT, od_quantity = 10, od_limit_price = Some (seed_price starting_price i),
           od_stop_price = None, od_status = ''PENDING'', od_strategy_type = SINGLE,
           od_executed_quantity = Some 0, od_avg_fill_price = None \<rparr>) \<rparr>"

definition seed_liquidity :: "('m, 'r) env \<Rightarrow> nat \<Rightarrow> (nat \<Rightarrow> string) \<Rightarrow> string \<Rightarrow> rat \<Rightarrow> ('m, 'r, unit) eact" where
  "seed_liquidity x k gen sy starting_price =
     run_all (map (\<lambda>i. handle_command x k (seed_command x gen sy starting_price i)) [0 ..< 10])"

record ('m, 'r) load_context =
  lc_engine :: "('m, 'r) engine"
  lc_position :: "position option"

text \<open>\<open>w\<close> is the world outside the process; \<open>depth\<close> the recursion limit, \<open>k\<close> the fuel of the commands.\<close>

definition load_engine ::
    "('m, 'r) env \<Rightarrow> nat \<Rightarrow> nat \<Rightarrow> (nat \<Rightarrow> string) \<Rightarrow> ('m, 'r) engine \<Rightarrow> instrument_row \<times> snapshot_row option
     \<Rightarrow> exn + ('m, 'r) load_context" where
  "load_engine x depth k gen w row =
     (case row of
        (i, Some r) \<Rightarrow>
          (case ctx_from_dict depth x (sr_snapshot r) w of
             Inl e \<Rightarrow> Inl e
           | Inr s \<Rightarrow> Inr \<lparr> lc_engine = s, lc_position = Some (sr_position r) \<rparr>)
      | (i, None) \<Rightarrow>
          let s0 = (new_engine x (ir_symbol i) (e_redis w) (e_uuid w))\<lparr> e_kafka := e_kafka w \<rparr>;
              s1 = s0\<lparr> e_book := (e_book s0)\<lparr> ob_cur_price := ir_starting_price i \<rparr> \<rparr>
          in case seed_liquidity x k gen (ir_symbol i) (ir_starting_price i) s1 of
               (Inl e, s) \<Rightarrow> Inl e
             | (Inr _, s) \<Rightarrow> Inr \<lparr> lc_engine = s, lc_position = None \<rparr>)"

section \<open>The shadow\<close>

record ('m, 'r) shadow =
  sh_engine :: "('m, 'r) engine"
  sh_cmd :: "command option"
  sh_count :: nat
  sh_saved :: "snapshot_row list"

text \<open>
  \<open>_create_shadow\<close> and \<open>_run_shadow_in_subprocess\<close>: the main engine gets the queue, the shadow an engine
  read back from the main one's dictionary, with the patched logger and funds check.
\<close>

definition create_shadow ::
    "('m, 'r) env \<Rightarrow> nat \<Rightarrow> ('m, 'r) engine \<Rightarrow> exn + ('m, 'r) engine \<times> ('m, 'r) shadow" where
  "create_shadow x depth s =
     (case ctx_to_dict depth x s of
        Inl e \<Rightarrow> Inl e
      | Inr sn \<Rightarrow>
          (case ctx_from_dict depth x sn s of
             Inl e \<Rightarrow> Inl e
           | Inr t \<Rightarrow>
               Inr (s\<lparr> e_queue := Some [] \<rparr>,
                    \<lparr> sh_engine = t\<lparr> e_shadow := Some ([], 0), attached := True \<rparr>, sh_cmd = None, sh_count = 0,
                      sh_saved = [] \<rparr>)))"

definition save_snapshot ::
    "('m, 'r) env \<Rightarrow> nat \<Rightarrow> ('m, 'r) engine \<Rightarrow> position \<Rightarrow> snapshot_row list \<Rightarrow> exn + snapshot_row list" where
  "save_snapshot x depth s pos saved =
     (case ctx_to_dict depth x s of
        Inl e \<Rightarrow> Inl e
      | Inr sn \<Rightarrow> Inr (saved @ [\<lparr> sr_symbol = e_symbol s, sr_snapshot = sn, sr_position = pos \<rparr>]))"

text \<open>One message of the queue. Reading the id of a command that was never received is a \<open>TypeError\<close>.\<close>

definition shadow_step ::
    "('m, 'r) env \<Rightarrow> nat \<Rightarrow> nat \<Rightarrow> nat \<Rightarrow> (command \<Rightarrow> position) \<Rightarrow> queue_msg \<Rightarrow> ('m, 'r) shadow \<Rightarrow> exn + ('m, 'r) shadow" where
  "shadow_step x depth k interval details msg sh =
     (case msg of
        QReceived cmd \<Rightarrow> Inr (sh\<lparr> sh_cmd := Some cmd \<rparr>)
      | QProcessed i \<Rightarrow>
          (case sh_cmd sh of
             None \<Rightarrow> Inl TypeError
           | Some cmd \<Rightarrow>
               if i \<noteq> Some (cmd_id cmd) then Inl ValueError
               else (case handle_command x k cmd (sh_engine sh) of
                       (Inl e, s) \<Rightarrow> Inl e
                     | (Inr _, s) \<Rightarrow>
                         let s' = s\<lparr> e_shadow := Some ([], 0) \<rparr>;
                             sh' = sh\<lparr> sh_engine := s', sh_cmd := None, sh_count := Suc (sh_count sh) \<rparr>
                         in if Suc (sh_count sh) < interval then Inr sh'
                            else (case save_snapshot x depth s' (details cmd) (sh_saved sh) of
                                    Inl e \<Rightarrow> Inl e
                                  | Inr saved \<Rightarrow> Inr (sh'\<lparr> sh_count := 0, sh_saved := saved \<rparr>))))
      | QEvent ev \<Rightarrow>
          Inr (if sh_cmd sh = None then sh
               else sh\<lparr> sh_engine := (sh_engine sh)
                          \<lparr> e_shadow := map_option (\<lambda>(b, i). (b @ [ev], i)) (e_shadow (sh_engine sh)) \<rparr> \<rparr>))"

fun shadow_run ::
    "('m, 'r) env \<Rightarrow> nat \<Rightarrow> nat \<Rightarrow> nat \<Rightarrow> (command \<Rightarrow> position) \<Rightarrow> queue_msg list \<Rightarrow> ('m, 'r) shadow \<Rightarrow> exn + ('m, 'r) shadow" where
  "shadow_run x depth k interval details [] sh = Inr sh"
| "shadow_run x depth k interval details (m # ms) sh =
     (case shadow_step x depth k interval details m sh of
        Inl e \<Rightarrow> Inl e
      | Inr sh' \<Rightarrow> shadow_run x depth k interval details ms sh')"

definition set_instrument_status :: "instrument_status \<Rightarrow> string \<Rightarrow> database \<Rightarrow> database" where
  "set_instrument_status st sy db =
     db\<lparr> db_instruments := map (\<lambda>r. if ir_symbol r = sy then r\<lparr> ir_status := st \<rparr> else r) (db_instruments db) \<rparr>"

section \<open>The orchestrator\<close>

record consumer_record =
  cr_headers :: "(string \<times> string) list"
  cr_value :: "command option"

definition read_header :: "bool \<times> string option \<Rightarrow> string \<times> string \<Rightarrow> bool \<times> string option" where
  "read_header acc kv =
     (if fst kv = ''event_category'' then (snd kv = ''command'', snd acc)
      else if fst kv = ''symbol'' then (fst acc, Some (snd kv)) else acc)"

definition parse_message :: "string \<Rightarrow> consumer_record \<Rightarrow> exn + command option" where
  "parse_message sy msg =
     (case foldl read_header (False, None) (cr_headers msg) of
        (is_command, symbol) \<Rightarrow>
          if \<not> is_command \<or> symbol \<noteq> Some sy then Inr None
          else (case cr_value msg of None \<Rightarrow> Inl ValueError | Some cmd \<Rightarrow> Inr (Some cmd)))"

text \<open>Where the consumer starts: behind the last command of the snapshot, or where its group stands.\<close>

definition start_offset :: "('m, 'r) load_context \<Rightarrow> nat option" where
  "start_offset lc = map_option (\<lambda>p. kp_offset p + 1) (lc_position lc)"

text \<open>The loop of \<open>run\<close>; each message comes with whether the shadow process is alive when it arrives.\<close>

fun command_loop ::
    "('m, 'r) env \<Rightarrow> nat \<Rightarrow> string \<Rightarrow> (consumer_record \<times> bool) list \<Rightarrow> ('m, 'r) engine \<Rightarrow> (exn + unit) \<times> ('m, 'r) engine" where
  "command_loop x k sy [] s = (Inr (), s)"
| "command_loop x k sy ((msg, alive) # ms) s =
     (case parse_message sy msg of
        Inl e \<Rightarrow> (Inl e, s)
      | Inr None \<Rightarrow> command_loop x k sy ms s
      | Inr (Some cmd) \<Rightarrow>
          if e_queue s \<noteq> None \<and> \<not> alive then (Inl RuntimeError, s)
          else (case handle_command x k cmd s of
                  (Inl e, t) \<Rightarrow> (Inl e, t)
                | (Inr _, t) \<Rightarrow> command_loop x k sy ms t))"

text \<open>
  The handler around the loop logs the variable \<open>cmd\<close> and raises the exception again. When the very first message cannot
  be parsed, the variable was never assigned and reading it raises instead.
\<close>

definition cmd_unbound :: "string \<Rightarrow> (consumer_record \<times> bool) list \<Rightarrow> bool" where
  "cmd_unbound sy ms = (case ms of [] \<Rightarrow> False | (msg, _) # _ \<Rightarrow> isl (parse_message sy msg))"

definition orchestrate ::
    "('m, 'r) env \<Rightarrow> nat \<Rightarrow> string \<Rightarrow> (consumer_record \<times> bool) list \<Rightarrow> ('m, 'r) engine \<Rightarrow> (exn + unit) \<times> ('m, 'r) engine" where
  "orchestrate x k sy ms s =
     (case command_loop x k sy ms s of
        (Inl e, t) \<Rightarrow> (Inl (if cmd_unbound sy ms then UnboundLocalError else e), t)
      | (Inr v, t) \<Rightarrow> (Inr v, t))"

section \<open>What a message says\<close>

text \<open>
  Without the parser: the value of a header is the last one under its name; a message is for an instrument when its
  category is the one of commands and its symbol the instrument's; and its command is its value.
\<close>

definition header_value :: "string \<Rightarrow> consumer_record \<Rightarrow> string option" where
  "header_value key msg = map_of (rev (cr_headers msg)) key"

definition for_symbol :: "string \<Rightarrow> consumer_record \<Rightarrow> bool" where
  "for_symbol sy msg \<longleftrightarrow>
     header_value ''event_category'' msg = Some ''command'' \<and> header_value ''symbol'' msg = Some sy"

definition own_messages :: "string \<Rightarrow> (consumer_record \<times> bool) list \<Rightarrow> (consumer_record \<times> bool) list" where
  "own_messages sy ms = filter (\<lambda>(msg, alive). for_symbol sy msg) ms"

definition own_commands :: "string \<Rightarrow> (consumer_record \<times> bool) list \<Rightarrow> command list" where
  "own_commands sy ms =
     concat (map (\<lambda>(msg, alive). case cr_value msg of None \<Rightarrow> [] | Some cmd \<Rightarrow> [cmd]) (own_messages sy ms))"

lemma own_messages_Cons:
  "own_messages sy ((msg, alive) # ms) = (if for_symbol sy msg then [(msg, alive)] else []) @ own_messages sy ms"
  "own_messages sy [] = []"
  by (simp_all add: own_messages_def)

lemma own_commands_Cons:
  "own_commands sy ((msg, alive) # ms) =
     (if for_symbol sy msg then (case cr_value msg of None \<Rightarrow> [] | Some cmd \<Rightarrow> [cmd]) else []) @ own_commands sy ms"
  "own_commands sy [] = []"
  by (simp_all add: own_commands_def own_messages_Cons)

lemma read_headers:
  "foldl read_header acc kvs =
     ((case map_of (rev kvs) ''event_category'' of None \<Rightarrow> fst acc | Some v \<Rightarrow> v = ''command''),
      (case map_of (rev kvs) ''symbol'' of None \<Rightarrow> snd acc | Some v \<Rightarrow> Some v))"
  by (induction kvs arbitrary: acc) (auto simp: read_header_def map_add_def split: option.splits)

text \<open>The parser reads exactly that.\<close>

lemma parse_message_eq:
  "parse_message sy msg =
     (if for_symbol sy msg then (case cr_value msg of None \<Rightarrow> Inl ValueError | Some cmd \<Rightarrow> Inr (Some cmd)) else Inr None)"
  by (auto simp: parse_message_def read_headers for_symbol_def header_value_def split: option.splits)

text \<open>
  What the loop is to do with one message for its instrument in the state \<open>s\<close>: serve its command, or stop, because
  there is no command in it, because there is a shadow and it is not alive, or because the handler raises.
\<close>

definition serves :: "('m, 'r) env \<Rightarrow> nat \<Rightarrow> consumer_record \<times> bool \<Rightarrow> ('m, 'r) engine \<Rightarrow> ('m, 'r) engine \<Rightarrow> bool" where
  "serves x k m s t \<longleftrightarrow>
     (\<exists>cmd. cr_value (fst m) = Some cmd \<and> (e_queue s \<noteq> None \<longrightarrow> snd m) \<and> handle_command x k cmd s = (Inr (), t))"

definition stops_with ::
    "('m, 'r) env \<Rightarrow> nat \<Rightarrow> consumer_record \<times> bool \<Rightarrow> ('m, 'r) engine \<Rightarrow> exn \<Rightarrow> ('m, 'r) engine \<Rightarrow> bool" where
  "stops_with x k m s e t \<longleftrightarrow>
     (case cr_value (fst m) of
        None \<Rightarrow> e = ValueError \<and> t = s
      | Some cmd \<Rightarrow>
          if e_queue s \<noteq> None \<and> \<not> snd m then e = RuntimeError \<and> t = s else handle_command x k cmd s = (Inl e, t))"

inductive all_served ::
    "('m, 'r) env \<Rightarrow> nat \<Rightarrow> (consumer_record \<times> bool) list \<Rightarrow> ('m, 'r) engine \<Rightarrow> ('m, 'r) engine \<Rightarrow> bool"
  for x k where
  served_none: "all_served x k [] s s"
| served_more: "serves x k m s t \<Longrightarrow> all_served x k ms t u \<Longrightarrow> all_served x k (m # ms) s u"

inductive_simps all_served_simps [simp]: "all_served x k [] s u" "all_served x k (m # ms) s u"

lemma all_served_serve:
  "all_served x k ms s t \<Longrightarrow> list_all (\<lambda>m. for_symbol sy (fst m)) ms \<Longrightarrow> serve x k (own_commands sy ms) s = t"
  by (induction rule: all_served.induct) (auto simp: own_commands_Cons serves_def)

lemma loop_outcome:
  "\<exists>before rest u. own_messages sy ms = before @ rest \<and> all_served x k before s u
     \<and> (case rest of
          [] \<Rightarrow> command_loop x k sy ms s = (Inr (), u)
        | m # _ \<Rightarrow> \<exists>e t. stops_with x k m u e t \<and> command_loop x k sy ms s = (Inl e, t))"
proof (induction ms arbitrary: s)
  case Nil
  show ?case by (simp add: own_messages_Cons)
next
  case (Cons am ms)
  obtain m alive where am: "am = (m, alive)" by (cases am)
  show ?case
  proof (cases "for_symbol sy m")
    case False
    then have same: "own_messages sy (am # ms) = own_messages sy ms" "command_loop x k sy (am # ms) s = command_loop x k sy ms s"
      using am by (simp_all add: own_messages_Cons parse_message_eq)
    show ?thesis unfolding same by (rule Cons)
  next
    case own: True
    show ?thesis
    proof (cases "\<exists>u. serves x k (m, alive) s u")
      case True
      then obtain u where u: "serves x k (m, alive) s u" by blast
      obtain before rest v where IH: "own_messages sy ms = before @ rest" "all_served x k before u v"
          "case rest of [] \<Rightarrow> command_loop x k sy ms u = (Inr (), v)
           | m # _ \<Rightarrow> \<exists>e t. stops_with x k m v e t \<and> command_loop x k sy ms u = (Inl e, t)"
        using Cons[of u] by blast
      have same: "command_loop x k sy (am # ms) s = command_loop x k sy ms u"
        using u am own by (auto simp: serves_def parse_message_eq)
      have "case rest of [] \<Rightarrow> command_loop x k sy (am # ms) s = (Inr (), v)
           | m # _ \<Rightarrow> \<exists>e t. stops_with x k m v e t \<and> command_loop x k sy (am # ms) s = (Inl e, t)"
        unfolding same by (rule IH(3))
      then show ?thesis using IH(1,2) u am own
        by (intro exI[of _ "(m, alive) # before"] exI[of _ rest] exI[of _ v]) (auto simp: own_messages_Cons)
    next
      case False
      obtain e t where "stops_with x k (m, alive) s e t" "command_loop x k sy (am # ms) s = (Inl e, t)"
      proof (cases "cr_value m")
        case None
        then show thesis using that[of ValueError s] am own by (simp add: stops_with_def parse_message_eq)
      next
        case (Some cmd)
        obtain r t where rt: "handle_command x k cmd s = (r, t)" by fastforce
        show thesis
        proof (cases "e_queue s \<noteq> None \<and> \<not> alive")
          case True
          then show thesis using that[of RuntimeError s] am own Some by (simp add: stops_with_def parse_message_eq)
        next
          case live: False
          then obtain e where "r = Inl e" using False Some rt by (cases r) (auto simp: serves_def)
          then show thesis using that[of e t] am own Some rt live by (auto simp: stops_with_def parse_message_eq)
        qed
      qed
      then show ?thesis using am own
        by (intro exI[of _ "[]"] exI[of _ "(m, alive) # own_messages sy ms"] exI[of _ s]) (auto simp: own_messages_Cons)
    qed
  qed
qed

section \<open>The seeded book\<close>

text \<open>The book after \<open>n\<close> seeds: no bids, and the asks in the order they were placed.\<close>

definition seeded :: "('m, 'r) env \<Rightarrow> ('m \<Rightarrow> bool) \<Rightarrow> (nat \<Rightarrow> string) \<Rightarrow> rat \<Rightarrow> nat \<Rightarrow> ('m, 'r) engine \<Rightarrow> abs_book \<Rightarrow> bool" where
  "seeded x ok gen p n t ab \<longleftrightarrow>
     book_repr (levels_api x) ok (e_book t) ab \<and> (\<forall>q. ab BID q = [])
     \<and> (\<forall>q. map fst (ab ASK q) = map (\<lambda>i. gen (2 * i)) (filter (\<lambda>i. seed_price p i = q) [0 ..< n]))
     \<and> map fst (e_store t) = map (\<lambda>i. gen (2 * i)) [0 ..< n]"

lemma seeded_uncrossed: "seeded x ok gen p n t ab \<Longrightarrow> limit_crossable v ASK (e_book t) = Inr False"
proof -
  assume "seeded x ok gen p n t ab"
  then have "is_best BID (\<lambda>q. ab BID q \<noteq> []) (best_price (e_book t) BID)" "\<forall>q. ab BID q = []"
    unfolding seeded_def book_repr_def by blast+
  then have "best_price (e_book t) BID = None" by (simp add: is_best_def split: option.splits)
  then show ?thesis by (simp add: limit_crossable_def)
qed

lemma run_all_snoc:
  "run_all ms s = (Inr (), t) \<Longrightarrow> run_all (ms @ [m]) s = m t"
  by (induction ms arbitrary: s) (auto simp: act_simps and_then_def split: prod.splits sum.splits)

context book_env
begin

lemma seed_one:
  assumes S: "seeded x ok gen p n s ab" and gen: "inj gen"
  shows "\<exists>t ab'. handle_command x k (seed_command x gen sy p n) s = (Inr (), t) \<and> seeded x ok gen p (Suc n) t ab'
           \<and> e_redis t = e_redis s"
proof -
  let ?cmd = "seed_command x gen sy p n" and ?q = "seed_price p n"
  obtain d where d: "cmd_body ?cmd = NewOrderCommand SINGLE (NewSingle d)" "od_order_type d = LIMIT"
      "od_limit_price d = Some ?q" "od_side d = ASK" "od_order_id d = gen (2 * n)" "od_user_id d = system_user x"
    by (simp add: seed_command_def)
  have run: "run_handler x k (cmd_body ?cmd) = Some (single_handle_new x k d)"
    by (simp add: run_handler_def handle_new_order_def d(1))
  have R: "book_repr (levels_api x) ok (e_book s) ab" "map fst (e_store s) = map (\<lambda>i. gen (2 * i)) [0 ..< n]"
    "\<And>q. map fst (ab ASK q) = map (\<lambda>i. gen (2 * i)) (filter (\<lambda>i. seed_price p i = q) [0 ..< n])"
    using S by (simp_all add: seeded_def)
  have fresh: "gen (2 * n) \<notin> gen ` (\<lambda>i. 2 * i) ` {..<n}" using gen by (auto dest: injD)
  then have "gen (2 * n) \<notin> set (map fst (e_store s))" "gen (2 * n) \<notin> set (map fst (ab ASK ?q))"
    unfolding R by auto
  then have new: "store_get (received ?cmd s) (gen (2 * n)) = None" "gen (2 * n) \<notin> fst ` set (ab ASK ?q)"
    by (simp_all add: store_get_def map_of_eq_None_iff)
  obtain t where t: "single_handle_new x k d (received ?cmd s) = (Inr (), t)"
      "book_repr (levels_api x) ok (e_book t) (ab_append ab ASK ?q (gen (2 * n)) (length (ob_nodes (e_book s))))"
      "e_store t = e_store s @ [(gen (2 * n), length (e_objs s))]" "e_redis t = e_redis s"
    using new_rests[of "received ?cmd s" ab d ?q k] R(1) d new seeded_uncrossed[OF S] by (auto simp: same_money_def)
  have "seeded x ok gen p (Suc n) (t\<lparr> e_queue := q \<rparr>) (ab_append ab ASK ?q (gen (2 * n)) (length (ob_nodes (e_book s))))" for q
    using S t(2,3) by (auto simp: seeded_def ab_append_def)
  then show ?thesis using command_returns[OF run t(1)] t(4) by auto
qed

lemma seed_all:
  assumes "seeded x ok gen p 0 s ab" "inj gen"
  shows "\<exists>t ab'. run_all (map (\<lambda>i. handle_command x k (seed_command x gen sy p i)) [0 ..< n]) s = (Inr (), t)
           \<and> seeded x ok gen p n t ab' \<and> e_redis t = e_redis s"
proof (induction n)
  case 0
  then show ?case using assms(1) by (auto simp: act_simps)
next
  case (Suc n)
  then obtain t ab' where t: "run_all (map (\<lambda>i. handle_command x k (seed_command x gen sy p i)) [0 ..< n]) s = (Inr (), t)"
      "seeded x ok gen p n t ab'" "e_redis t = e_redis s" by blast
  then show ?case using seed_one[OF t(2) assms(2), of k sy] run_all_snoc[OF t(1)] by auto
qed

end

text \<open>
  C17. An instrument without a snapshot starts with a seeded book: loading it succeeds, there are no bids,
  the ten asks of the system rest at the rounded prices in steps of half a percent, in the order they
  were placed, the best ask is the smallest of these prices, the store knows the ten orders, and no
  balance moves.
\<close>

theorem new_instrument_is_seeded:
  assumes "order_book (levels_api x) ok" and "inj gen"
  shows "\<exists>s ab. load_engine x depth k gen w (i, None) = Inr \<lparr> lc_engine = s, lc_position = None \<rparr>
     \<and> book_repr (levels_api x) ok (e_book s) ab \<and> (\<forall>q. ab BID q = [])
     \<and> (\<forall>q. map fst (ab ASK q) =
              map (\<lambda>n. gen (2 * n)) (filter (\<lambda>n. seed_price (ir_starting_price i) n = q) [0 ..< 10]))
     \<and> best_price (e_book s) BID = None
     \<and> best_price (e_book s) ASK = Some (Min (seed_price (ir_starting_price i) ` {0 ..< 10}))
     \<and> map fst (e_store s) = map (\<lambda>n. gen (2 * n)) [0 ..< 10]
     \<and> e_redis s = e_redis w"
proof -
  let ?p = "ir_starting_price i"
  let ?s0 = "(new_engine x (ir_symbol i) (e_redis w) (e_uuid w))\<lparr> e_kafka := e_kafka w \<rparr>"
  let ?s1 = "?s0\<lparr> e_book := (e_book ?s0)\<lparr> ob_cur_price := ?p \<rparr> \<rparr>"
  have env: "book_env x ok" using assms(1) by (simp add: book_env_def)
  have "book_repr (levels_api x) ok (new_orderbook (levels_api x) 100) (\<lambda>_ _. [])"
    by (rule order_book.repr_new[OF assms(1)])
  then have "seeded x ok gen ?p 0 ?s1 (\<lambda>_ _. [])"
    by (simp add: seeded_def new_engine_def repr_cur_price)
  from book_env.seed_all[OF env this assms(2), of k "ir_symbol i" 10] obtain s ab where
    s: "seed_liquidity x k gen (ir_symbol i) ?p ?s1 = (Inr (), s)" "seeded x ok gen ?p 10 s ab" "e_redis s = e_redis w"
    by (auto simp: seed_liquidity_def new_engine_def)
  have best: "is_best sd (\<lambda>q. ab sd q \<noteq> []) (best_price (e_book s) sd)" for sd
    using s(2) unfolding seeded_def book_repr_def by blast
  have "best_price (e_book s) BID = None"
    using best[of BID] s(2) by (simp add: seeded_def is_best_def split: option.splits)
  moreover have "best_price (e_book s) ASK = Some (Min (seed_price ?p ` {0 ..< 10}))"
  proof (rule is_best_unique[OF best])
    have "ab ASK q \<noteq> [] \<longleftrightarrow> q \<in> seed_price ?p ` {0 ..< 10}" for q
    proof -
      have "map fst (ab ASK q) = map (\<lambda>n. gen (2 * n)) (filter (\<lambda>n. seed_price ?p n = q) [0 ..< 10])"
        using s(2) by (simp add: seeded_def del: upt.simps)
      then have "ab ASK q = [] \<longleftrightarrow> filter (\<lambda>n. seed_price ?p n = q) [0 ..< 10] = []" by (metis map_is_Nil_conv)
      then show ?thesis by (auto simp: filter_empty_conv simp del: upt.simps)
    qed
    then show "is_best ASK (\<lambda>q. ab ASK q \<noteq> []) (Some (Min (seed_price ?p ` {0 ..< 10})))"
      by (auto simp: is_best_def better_def not_less)
  qed
  ultimately show ?thesis using s by (auto simp: load_engine_def Let_def seeded_def simp del: upt.simps)
qed

theorem new_instrument_is_seeded_witness:
  "\<exists>s. load_engine demo_env 0 0 (\<lambda>n. replicate n (CHR ''x'')) (new_engine demo_env ''W'' empty_maps 0)
          (\<lparr> ir_id = ''i'', ir_symbol = ''BTC'', ir_starting_price = 200, ir_status = DEAD \<rparr>, None)
        = Inr \<lparr> lc_engine = s, lc_position = None \<rparr> \<and> best_price (e_book s) ASK = Some 200"
proof -
  let ?i = "\<lparr> ir_id = ''i'', ir_symbol = ''BTC'', ir_starting_price = 200, ir_status = DEAD \<rparr>"
  have "inj (\<lambda>n. replicate n (CHR ''x''))" unfolding inj_def by (metis length_replicate)
  moreover have "Min (seed_price 200 ` {0 ..< 10}) = 200"
    by code_simp
  ultimately show ?thesis
    using new_instrument_is_seeded[of demo_env alist_ok "\<lambda>n. replicate n (CHR ''x'')" 0 0 "new_engine demo_env ''W'' empty_maps 0" ?i]
      alb.order_book_axioms by auto
qed

end
