(* ===== verification/Linked_Snapshots.thy ===== *)
theory Linked_Snapshots imports Snapshots begin

text \<open>
  \<open>to_dict\<close> and \<open>from_dict\<close> of the linked order classes (\<open>engine/orders/oco_order.py\<close>, \<open>oto_order.py\<close>,
  \<open>otoco_order.py\<close>).

  These dictionaries refer to each other, so they live in a heap of their own and are known by their
  address. \<open>to_dict\<close> of an order asks the orders it is linked to for their dictionaries and hands them its own as the
  first argument, which each class takes for the first of its links: the counterparty of an OCO
  order, the parent of an OTO and of an OTOCO order. The number \<open>k\<close> is how many nested calls are allowed.
\<close>

section \<open>Dictionaries\<close>

datatype link_field = Parent | Child | ChildA | ChildB | Counterparty

record link_snap =
  lk_order :: order_snap
  lk_links :: links
  lk_type :: string
  lk_fields :: "(link_field \<times> nat option) list"
  lk_triggered :: "bool option"

fun link_fields :: "links \<Rightarrow> (link_field \<times> nat option) list" where
  "link_fields Plain = []"
| "link_fields (OCOLinks c) = [(Counterparty, c)]"
| "link_fields (OTOLinks p c act) = [(Parent, p), (Child, c)]"
| "link_fields (OTOCOLinks p a b c act) = [(Parent, p), (ChildA, a), (ChildB, b), (Counterparty, c)]"

fun class_name :: "links \<Rightarrow> string" where
  "class_name Plain = ''Order''"
| "class_name (OCOLinks c) = ''OCOOrder''"
| "class_name (OTOLinks p c act) = ''OTOOrder''"
| "class_name (OTOCOLinks p a b c act) = ''OTOCOOrder''"

fun triggered_of :: "links \<Rightarrow> bool option" where
  "triggered_of (OTOLinks p c act) = Some act"
| "triggered_of (OTOCOLinks p a b c act) = Some act"
| "triggered_of lk = None"

text \<open>\<open>Order.to_dict\<close>: the copied dictionary, links included, and the name of the class.\<close>

definition base_snap :: "order \<Rightarrow> link_snap" where
  "base_snap od = \<lparr> lk_order = order_to_dict od, lk_links = links od, lk_type = class_name (links od),
                    lk_fields = [], lk_triggered = None \<rparr>"

definition put_field :: "nat \<Rightarrow> link_field \<Rightarrow> nat option \<Rightarrow> link_snap list \<Rightarrow> link_snap list" where
  "put_field a f v h = h[a := (h ! a)\<lparr> lk_fields := dict_put (lk_fields (h ! a)) f v \<rparr>]"

definition put_triggered :: "nat \<Rightarrow> bool option \<Rightarrow> link_snap list \<Rightarrow> link_snap list" where
  "put_triggered a v h = h[a := (h ! a)\<lparr> lk_triggered := v \<rparr>]"

fun linked_to_dict :: "nat \<Rightarrow> order list \<Rightarrow> nat \<Rightarrow> nat option \<Rightarrow> link_snap list \<Rightarrow> (exn + nat) \<times> link_snap list"
and fill_fields :: "nat \<Rightarrow> order list \<Rightarrow> nat \<Rightarrow> nat \<Rightarrow> (link_field \<times> nat option) list \<Rightarrow> link_snap list \<Rightarrow> (exn + nat) \<times> link_snap list" where
  "linked_to_dict 0 os r given h = (Inl RecursionError, h)"
| "linked_to_dict (Suc k) os r given h =
     (case (link_fields (links (os ! r)), given) of
        ((f, v) # fs, Some d) \<Rightarrow> fill_fields k os r (length h) fs (put_field (length h) f (Some d) (h @ [base_snap (os ! r)]))
      | (fs, _) \<Rightarrow> fill_fields k os r (length h) fs (h @ [base_snap (os ! r)]))"
| "fill_fields k os r a [] h = (Inr a, put_triggered a (triggered_of (links (os ! r))) h)"
| "fill_fields k os r a ((f, None) # fs) h = fill_fields k os r a fs (put_field a f None h)"
| "fill_fields k os r a ((f, Some q) # fs) h =
     (case linked_to_dict k os q (Some a) h of
        (Inl e, h') \<Rightarrow> (Inl e, h')
      | (Inr b, h') \<Rightarrow> fill_fields k os r a fs (put_field a f (Some b) h'))"

text \<open>Writing the dictionary as JSON begins with the copied dictionary: an order object in it is refused.\<close>

definition dump_snap :: "link_snap \<Rightarrow> exn + unit" where
  "dump_snap sn = (if unlinked (lk_links sn) then Inr () else Inl TypeError)"

section \<open>Reading\<close>

definition field_of :: "link_snap \<Rightarrow> link_field \<Rightarrow> nat option" where
  "field_of sn f = (case map_of (lk_fields sn) f of Some v \<Rightarrow> v | None \<Rightarrow> None)"

definition linked_order :: "link_snap \<Rightarrow> links \<Rightarrow> order" where
  "linked_order sn lk = (new_order_obj lk (os_dict (lk_order sn)))\<lparr> price_entry := os_price (lk_order sn) \<rparr>"

definition oco_from_dict :: "link_snap list \<Rightarrow> nat \<Rightarrow> bool \<Rightarrow> order list \<Rightarrow> nat \<times> order list" where
  "oco_from_dict h a is_counterparty os =
     (case (if is_counterparty then None else field_of (h ! a) Counterparty) of
        None \<Rightarrow> (length os, os @ [linked_order (h ! a) (OCOLinks None)])
      | Some c \<Rightarrow>
          let q = length os; r = Suc q; other = linked_order (h ! c) (OCOLinks None)
          in (r, os @ [other\<lparr> links := OCOLinks (Some r) \<rparr>, linked_order (h ! a) (OCOLinks (Some q))]))"

text \<open>
  An OTO order: parent and child are read as leaves, and nothing links them back. The flag of the
  dictionary decides whether the order is active.
\<close>

definition oto_leaf :: "link_snap \<Rightarrow> order" where
  "oto_leaf sn =
     linked_order sn (OTOLinks None None
       (case lk_triggered sn of Some v \<Rightarrow> v | None \<Rightarrow> field_of sn Parent = None))"

definition oto_from_dict :: "link_snap list \<Rightarrow> nat \<Rightarrow> order list \<Rightarrow> nat \<times> order list" where
  "oto_from_dict h a os =
     (let sn = h ! a;
          (p, os1) = (case field_of sn Parent of None \<Rightarrow> (None, os) | Some b \<Rightarrow> (Some (length os), os @ [oto_leaf (h ! b)]));
          (c, os2) = (case field_of sn Child of None \<Rightarrow> (None, os1) | Some b \<Rightarrow> (Some (length os1), os1 @ [oto_leaf (h ! b)]));
          act = (case lk_triggered sn of Some v \<Rightarrow> v | None \<Rightarrow> field_of sn Parent = None)
      in (length os2, os2 @ [linked_order sn (OTOLinks p c act)]))"

text \<open>
  An OTOCO order: a child is read without parent and children, a counterparty without counterparty, and
  a child's counterparty is no child again. The parent's first child and the
  counterparty's counterparty are set to the new order; the flag of the dictionary is not looked at.
\<close>

definition read_link ::
    "bool \<Rightarrow> nat option \<Rightarrow> (nat \<Rightarrow> order list \<Rightarrow> exn + nat \<times> order list) \<Rightarrow> order list \<Rightarrow> exn + nat option \<times> order list" where
  "read_link skip data rd os =
     (case (if skip then None else data) of
        None \<Rightarrow> Inr (None, os)
      | Some b \<Rightarrow> (case rd b os of Inl e \<Rightarrow> Inl e | Inr (q, os') \<Rightarrow> Inr (Some q, os')))"

fun set_child_a :: "nat \<Rightarrow> links \<Rightarrow> links" where
  "set_child_a r (OTOCOLinks p a b c act) = OTOCOLinks p (Some r) b c act"
| "set_child_a r lk = lk"

fun set_otoco_counterparty :: "nat \<Rightarrow> links \<Rightarrow> links" where
  "set_otoco_counterparty r (OTOCOLinks p a b c act) = OTOCOLinks p a b (Some r) act"
| "set_otoco_counterparty r lk = lk"

definition relink :: "(links \<Rightarrow> links) \<Rightarrow> nat option \<Rightarrow> order list \<Rightarrow> order list" where
  "relink f q os = (case q of None \<Rightarrow> os | Some r \<Rightarrow> os[r := (os ! r)\<lparr> links := f (links (os ! r)) \<rparr>])"

fun otoco_from_dict :: "nat \<Rightarrow> link_snap list \<Rightarrow> nat \<Rightarrow> bool \<Rightarrow> bool \<Rightarrow> order list \<Rightarrow> exn + nat \<times> order list" where
  "otoco_from_dict 0 h x is_child is_counterparty os = Inl RecursionError"
| "otoco_from_dict (Suc k) h x is_child is_counterparty os =
     (case read_link is_child (field_of (h ! x) Parent) (\<lambda>b. otoco_from_dict k h b True False) os of
        Inl e \<Rightarrow> Inl e
      | Inr (p, os1) \<Rightarrow>
     (case read_link is_child (field_of (h ! x) ChildA) (\<lambda>b. otoco_from_dict k h b True False) os1 of
        Inl e \<Rightarrow> Inl e
      | Inr (ca, os2) \<Rightarrow>
     (case read_link is_child (field_of (h ! x) ChildB) (\<lambda>b. otoco_from_dict k h b True False) os2 of
        Inl e \<Rightarrow> Inl e
      | Inr (cb, os3) \<Rightarrow>
     (case read_link is_counterparty (field_of (h ! x) Counterparty) (\<lambda>b. otoco_from_dict k h b False True) os3 of
        Inl e \<Rightarrow> Inl e
      | Inr (c, os4) \<Rightarrow>
          let r = length os4
          in Inr (r, relink (set_otoco_counterparty r) c
                       (relink (set_child_a r) p
                         (os4 @ [linked_order (h ! x) (OTOCOLinks p ca cb c (p = None))])))))))"

section \<open>What comes of it\<close>

lemma linked_order_back:
  "linked_order (base_snap od) lk = od\<lparr> links := lk, fills := [] \<rparr>"
  by (simp add: linked_order_def base_snap_def order_to_dict_def new_order_obj_def)

text \<open>An order that is linked to another cannot be written as JSON.\<close>

lemma linked_snap_not_dumped: "\<not> unlinked (links od) \<Longrightarrow> dump_snap (base_snap od) = Inl TypeError"
  by (simp add: dump_snap_def base_snap_def)

text \<open>
  The two children of an OTOCO order are each other's counterparty, and each hands its dictionary to the
  other as the parent: writing either of them never ends, whatever depth of calls is allowed.
\<close>

theorem otoco_to_dict_never_ends:
  assumes "links (os ! x) = OTOCOLinks p None None (Some y) act" "links (os ! y) = OTOCOLinks p' None None (Some x) act'"
  shows "fst (linked_to_dict k os x (Some d) h) = Inl RecursionError"
  using assms
proof (induction k arbitrary: x y p p' act act' d h)
  case (Suc k)
  let ?h = "put_field (length h) ChildB None (put_field (length h) ChildA None (put_field (length h) Parent (Some d) (h @ [base_snap (os ! x)])))"
  have "fst (linked_to_dict k os y (Some (length h)) ?h) = Inl RecursionError" using Suc.IH[OF Suc.prems(2,1)] .
  then show ?case using Suc.prems(1)
    by (cases "linked_to_dict k os y (Some (length h)) ?h") auto
qed simp

text \<open>
  Two OCO orders that are each other's counterparty: the dictionaries refer to each other, and reading them back gives two
  orders with the same data, without their fills, that are each other's counterparty again.
\<close>

theorem oco_dict_roundtrip:
  assumes "links (os ! x) = OCOLinks (Some y)" "links (os ! y) = OCOLinks (Some x)"
  shows "fst (linked_to_dict 2 os x None h) = Inr (length h)
     \<and> oco_from_dict (snd (linked_to_dict 2 os x None h)) (length h) False os' =
         (Suc (length os'),
          os' @ [(os ! y)\<lparr> links := OCOLinks (Some (Suc (length os'))), fills := [] \<rparr>,
                 (os ! x)\<lparr> links := OCOLinks (Some (length os')), fills := [] \<rparr>])"
proof -
  have reread: "linked_order (base_snap od\<lparr> lk_fields := f, lk_triggered := v \<rparr>) lk = od\<lparr> links := lk, fills := [] \<rparr>" for od f v lk
    using linked_order_back[of od lk] by (simp add: linked_order_def)
  have "linked_to_dict 2 os x None h =
      (Inr (length h), h @ [(base_snap (os ! x))\<lparr> lk_fields := [(Counterparty, Some (Suc (length h)))], lk_triggered := None \<rparr>,
                            (base_snap (os ! y))\<lparr> lk_fields := [(Counterparty, Some (length h))], lk_triggered := None \<rparr>])"
    using assms(1,2)
    by (simp add: numeral_2_eq_2 put_field_def put_triggered_def base_snap_def nth_append list_update_append)
  then show ?thesis
    by (simp add: oco_from_dict_def field_of_def nth_append reread Let_def)
qed

text \<open>After reading an OTO order back, its child does not know its parent any more.\<close>

lemma oto_child_loses_parent:
  assumes "field_of (h ! a) Parent = None" "field_of (h ! a) Child = Some b"
  shows "\<exists>act act' r os2. oto_from_dict h a os = (r, os2)
     \<and> links (os2 ! r) = OTOLinks None (Some (length os)) act \<and> links (os2 ! length os) = OTOLinks None None act'"
  using assms by (simp add: oto_from_dict_def oto_leaf_def linked_order_def new_order_obj_def nth_append Let_def)

text \<open>
  Reading an OTOCO order gives an object at a new address, always: it ends within the calls that are
  allowed. A child comes back active and without parent, whatever its dictionary says.
\<close>

lemma relink_nth: "q \<noteq> Some r \<Longrightarrow> relink f q os ! r = os ! r"
  by (cases q) (auto simp: relink_def)

lemma relink_length [simp]: "length (relink f q os) = length os"
  by (cases q) (auto simp: relink_def)

lemma otoco_from_dict_new: "otoco_from_dict k h x b c os = Inr (r, os') \<Longrightarrow> Suc r = length os'"
  by (cases k) (auto simp: Let_def split: sum.splits)

lemma read_link_new:
  assumes "read_link skip data (\<lambda>b. otoco_from_dict k h b ic ip) os = Inr (Some q, os')"
  shows "q < length os'"
  using assms by (auto simp: read_link_def split: option.splits sum.splits if_splits dest!: otoco_from_dict_new)

theorem otoco_child_comes_back_active:
  assumes "otoco_from_dict k h x True cp os = Inr (r, os')"
  shows "\<exists>c. links (os' ! r) = OTOCOLinks None None None c True"
proof (cases k)
  case (Suc n)
  then obtain c os4 where
    rd: "read_link cp (field_of (h ! x) Counterparty) (\<lambda>b. otoco_from_dict n h b False True) os = Inr (c, os4)"
    and r: "r = length os4"
    and os': "os' = relink (set_otoco_counterparty r) c (os4 @ [linked_order (h ! x) (OTOCOLinks None None None c True)])"
    using assms by (auto simp: Let_def read_link_def relink_def split: sum.splits)
  have "c \<noteq> Some r" using read_link_new[of cp "field_of (h ! x) Counterparty" n h False True os] rd r by auto
  then show ?thesis using r os' by (simp add: relink_nth linked_order_def new_order_obj_def)
qed (use assms in simp)

end
