(* ===== verification/Ohlc_Builder.thy ===== *)
theory Ohlc_Builder imports Engine_Types begin

text \<open>
  \<open>services/ohlc_builder\<close>: the bars of each instrument and time frame, updated by the trade events of
  the engine and rolled over by one task per time frame.

  The dictionaries are association lists in insertion order. The critical sections the code guards by
  a lock per symbol are single steps, so an execution is a sequence of them (\<open>ohlc_step\<close>). The table
  of finished bars is a parameter: inserting rows gives a new table or raises. A message carries its
  decoded value, or nothing when decoding raises. \<open>get_seconds\<close> never raises, so \<open>seconds_of\<close> is its
  value.
\<close>

section \<open>Bars\<close>

record bar =
  b_open :: rat
  b_high :: rat
  b_low :: rat
  b_close :: rat
  b_timestamp :: int

definition bar_update :: "rat \<Rightarrow> bar \<Rightarrow> bar" where
  "bar_update price b =
     (let b1 = (if b_high b < price then b\<lparr> b_high := price \<rparr> else b);
          b2 = (if price < b_low b1 then b1\<lparr> b_low := price \<rparr> else b1)
      in b2\<lparr> b_close := price \<rparr>)"

definition new_bar :: "rat \<Rightarrow> int \<Rightarrow> bar" where
  "new_bar price ts = \<lparr> b_open = price, b_high = price, b_low = price, b_close = price, b_timestamp = ts \<rparr>"

definition seconds_of :: "time_frame \<Rightarrow> int" where
  "seconds_of tf = (case get_seconds tf of Inl e \<Rightarrow> 0 | Inr n \<Rightarrow> int n)"

definition get_bar_timestamp :: "rat \<Rightarrow> time_frame \<Rightarrow> int" where
  "get_bar_timestamp ts tf = \<lfloor>ts / of_int (seconds_of tf)\<rfloor> * seconds_of tf"

definition sleep_until_next_boundary :: "rat \<Rightarrow> time_frame \<Rightarrow> rat" where
  "sleep_until_next_boundary now tf =
     of_int ((\<lfloor>now\<rfloor> div seconds_of tf + 1) * seconds_of tf) - now"

section \<open>The builder\<close>

definition all_frames :: "time_frame list" where
  "all_frames = [M1, M5, M15, H1, H4, D1]"

type_synonym frames = "(time_frame \<times> bar) list"

record ohlc_row =
  row_symbol :: string
  row_frame :: string
  row_bar :: bar

record 'd ohlc =
  oh_bars :: "(string \<times> frames) list"
  oh_sent :: "(string \<times> time_frame \<times> bar) list"
  oh_db :: 'd

record trade_msg =
  tm_symbol :: "string option"
  tm_price :: "rat option"
  tm_timestamp :: "rat option"

text \<open>The body of the loop over the time frames in \<open>_handle_trade_event\<close>.\<close>

definition touch_bar :: "rat \<Rightarrow> rat \<Rightarrow> time_frame \<Rightarrow> frames \<Rightarrow> frames" where
  "touch_bar price ts tf bs =
     (let bt = get_bar_timestamp ts tf
      in case map_of bs tf of
           None \<Rightarrow> dict_put bs tf (new_bar price bt)
         | Some c \<Rightarrow> if b_timestamp c \<noteq> bt then dict_put bs tf (new_bar price bt)
                     else dict_put bs tf (bar_update price c))"

definition frames_of :: "'d ohlc \<Rightarrow> string \<Rightarrow> frames" where
  "frames_of s sy = (case map_of (oh_bars s) sy of None \<Rightarrow> [] | Some bs \<Rightarrow> bs)"

definition snapshots_of :: "frames \<Rightarrow> (time_frame \<times> bar) list" where
  "snapshots_of bs = concat (map (\<lambda>tf. case map_of bs tf of None \<Rightarrow> [] | Some b \<Rightarrow> [(tf, b)]) all_frames)"

definition handle_trade_event :: "trade_msg \<Rightarrow> 'd ohlc \<Rightarrow> 'd ohlc" where
  "handle_trade_event ev s =
     (case (tm_symbol ev, tm_price ev, tm_timestamp ev) of
        (Some sy, Some price, Some ts) \<Rightarrow>
          if sy = [] \<or> price = 0 \<or> ts = 0 then s
          else let bs = fold (touch_bar price ts) all_frames (frames_of s sy)
               in s\<lparr> oh_bars := dict_put (oh_bars s) sy bs,
                     oh_sent := oh_sent s @ map (\<lambda>(tf, b). (sy, tf, b)) (snapshots_of bs) \<rparr>
      | _ \<Rightarrow> s)"

text \<open>One message of the consumer loop: the first category header decides, and errors are only logged.\<close>

definition consume_trade :: "(string \<times> string) list \<Rightarrow> trade_msg option \<Rightarrow> 'd ohlc \<Rightarrow> 'd ohlc" where
  "consume_trade headers value s =
     (case value of
        None \<Rightarrow> s
      | Some ev \<Rightarrow> if map_of headers ''event_category'' = Some ''trade'' then handle_trade_event ev s else s)"

section \<open>Rolling over\<close>

definition roll_bar :: "time_frame \<Rightarrow> bar \<Rightarrow> bar" where
  "roll_bar tf b =
     \<lparr> b_open = b_close b, b_high = b_close b, b_low = b_close b, b_close = b_close b,
       b_timestamp = b_timestamp b + seconds_of tf \<rparr>"

text \<open>The section for one symbol: the snapshot, if there is a bar, and the bars it leaves.\<close>

definition roll_symbol :: "time_frame \<Rightarrow> string \<Rightarrow> 'd ohlc \<Rightarrow> (string \<times> bar) list \<times> 'd ohlc" where
  "roll_symbol tf sy s =
     (case map_of (frames_of s sy) tf of
        None \<Rightarrow> ([], s)
      | Some b \<Rightarrow>
          ([(sy, b)], s\<lparr> oh_bars := dict_put (oh_bars s) sy (dict_put (frames_of s sy) tf (roll_bar tf b)) \<rparr>))"

fun roll_symbols :: "time_frame \<Rightarrow> string list \<Rightarrow> 'd ohlc \<Rightarrow> (string \<times> bar) list \<times> 'd ohlc" where
  "roll_symbols tf [] s = ([], s)"
| "roll_symbols tf (sy # sys) s =
     (let (x, s1) = roll_symbol tf sy s; (xs, s2) = roll_symbols tf sys s1 in (x @ xs, s2))"

definition batch_rows :: "time_frame \<Rightarrow> (string \<times> bar) list \<Rightarrow> ohlc_row list" where
  "batch_rows tf snaps =
     map (\<lambda>(sy, b). \<lparr> row_symbol = sy, row_frame = time_frame_value tf, row_bar = b \<rparr>) snaps"

definition persist_and_emit ::
    "(ohlc_row list \<Rightarrow> 'd \<Rightarrow> exn + 'd) \<Rightarrow> time_frame \<Rightarrow> 'd ohlc \<Rightarrow> (exn + unit) \<times> 'd ohlc" where
  "persist_and_emit ins tf s =
     (case roll_symbols tf (map fst (oh_bars s)) s of
        (snaps, s1) \<Rightarrow>
          if snaps = [] then (Inr (), s1)
          else case ins (batch_rows tf snaps) (oh_db s1) of
                 Inl e \<Rightarrow> (Inl e, s1)
               | Inr db \<Rightarrow> (Inr (), s1\<lparr> oh_db := db,
                   oh_sent := oh_sent s1 @ map (\<lambda>(sy, b). (sy, tf, b)) snaps \<rparr>))"

section \<open>Time frames and buckets\<close>

lemma seconds_pos [simp]: "0 < seconds_of tf"
  by (cases tf) (simp_all add: seconds_of_def get_seconds_def parse_int_def Let_def)

lemma bucket_bounds:
  "seconds_of tf dvd get_bar_timestamp ts tf" "of_int (get_bar_timestamp ts tf) \<le> ts"
  "ts < of_int (get_bar_timestamp ts tf + seconds_of tf)"
proof -
  let ?n = "of_int (seconds_of tf) :: rat"
  have n: "0 < ?n" by simp
  show "seconds_of tf dvd get_bar_timestamp ts tf" by (simp add: get_bar_timestamp_def)
  have "of_int \<lfloor>ts / ?n\<rfloor> \<le> ts / ?n" "ts / ?n < of_int \<lfloor>ts / ?n\<rfloor> + 1" by linarith+
  then have "of_int \<lfloor>ts / ?n\<rfloor> * ?n \<le> ts" "ts < (of_int \<lfloor>ts / ?n\<rfloor> + 1) * ?n"
    using n by (simp_all add: le_divide_eq divide_less_eq)
  then show "of_int (get_bar_timestamp ts tf) \<le> ts" "ts < of_int (get_bar_timestamp ts tf + seconds_of tf)"
    by (simp_all add: get_bar_timestamp_def algebra_simps)
qed

section \<open>The invariant of the bars\<close>

definition bar_ok :: "time_frame \<Rightarrow> bar \<Rightarrow> bool" where
  "bar_ok tf b \<longleftrightarrow>
     b_low b \<le> b_open b \<and> b_open b \<le> b_high b \<and> b_low b \<le> b_close b \<and> b_close b \<le> b_high b
     \<and> seconds_of tf dvd b_timestamp b"

definition frames_ok :: "frames \<Rightarrow> bool" where
  "frames_ok bs \<longleftrightarrow> distinct (map fst bs) \<and> (\<forall>(tf, b) \<in> set bs. bar_ok tf b)"

definition ohlc_ok :: "'d ohlc \<Rightarrow> bool" where
  "ohlc_ok s \<longleftrightarrow> distinct (map fst (oh_bars s)) \<and> (\<forall>(sy, bs) \<in> set (oh_bars s). frames_ok bs)"

lemma bar_ok_new: "bar_ok tf (new_bar p (get_bar_timestamp ts tf))"
  by (simp add: bar_ok_def new_bar_def bucket_bounds)

lemma bar_ok_update: "bar_ok tf b \<Longrightarrow> bar_ok tf (bar_update p b)"
  by (auto simp: bar_ok_def bar_update_def Let_def)

lemma bar_ok_roll: "bar_ok tf b \<Longrightarrow> bar_ok tf (roll_bar tf b)"
  by (simp add: bar_ok_def roll_bar_def)

lemma frames_ok_lookup: "frames_ok bs \<Longrightarrow> map_of bs tf = Some b \<Longrightarrow> bar_ok tf b"
  by (auto simp: frames_ok_def dest: map_of_SomeD)

lemma frames_ok_put: "frames_ok bs \<Longrightarrow> bar_ok tf b \<Longrightarrow> frames_ok (dict_put bs tf b)"
  by (auto simp: frames_ok_def distinct_dict_put dest!: set_dict_put)

lemma frames_ok_touch: "frames_ok bs \<Longrightarrow> frames_ok (touch_bar p ts tf bs)"
  by (auto simp: touch_bar_def Let_def split: option.split
        intro: frames_ok_put bar_ok_new bar_ok_update frames_ok_lookup)

lemma frames_ok_fold: "frames_ok bs \<Longrightarrow> frames_ok (fold (touch_bar p ts) tfs bs)"
  by (induction tfs arbitrary: bs) (auto simp: frames_ok_touch)

lemma frames_ok_of: "ohlc_ok s \<Longrightarrow> frames_ok (frames_of s sy)"
  by (auto simp: ohlc_ok_def frames_of_def frames_ok_def split: option.split dest!: map_of_SomeD)

lemma ohlc_ok_put: "ohlc_ok s \<Longrightarrow> frames_ok bs \<Longrightarrow> ohlc_ok (s\<lparr> oh_bars := dict_put (oh_bars s) sy bs \<rparr>)"
  by (auto simp: ohlc_ok_def distinct_dict_put dest!: set_dict_put)

lemma ohlc_ok_sent [simp]: "ohlc_ok (s\<lparr> oh_sent := x \<rparr>) = ohlc_ok s" "ohlc_ok (s\<lparr> oh_db := d \<rparr>) = ohlc_ok s"
  by (simp_all add: ohlc_ok_def)

lemma ohlc_ok_trade: "ohlc_ok s \<Longrightarrow> ohlc_ok (handle_trade_event ev s)"
proof -
  assume s: "ohlc_ok s"
  have "ohlc_ok (s\<lparr> oh_bars := dict_put (oh_bars s) sy (fold (touch_bar p ts) all_frames (frames_of s sy)), oh_sent := x \<rparr>)"
    for sy p ts x
    using ohlc_ok_put[OF s frames_ok_fold[OF frames_ok_of[OF s]]] by (simp add: ohlc_ok_def)
  then show ?thesis using s by (auto simp: handle_trade_event_def Let_def split: option.split)
qed

lemma ohlc_ok_consume: "ohlc_ok s \<Longrightarrow> ohlc_ok (consume_trade hs v s)"
  by (simp add: consume_trade_def ohlc_ok_trade split: option.split)

lemma ohlc_ok_roll: "ohlc_ok s \<Longrightarrow> ohlc_ok (snd (roll_symbol tf sy s))"
  by (auto simp: roll_symbol_def split: option.split
        intro!: ohlc_ok_put frames_ok_put bar_ok_roll intro: frames_ok_of frames_ok_lookup)

section \<open>Executions\<close>

text \<open>Messages and the per-symbol sections of the roll-over tasks, in any order.\<close>

inductive ohlc_step :: "'d ohlc \<Rightarrow> 'd ohlc \<Rightarrow> bool" where
  message: "ohlc_step s (consume_trade hs v s)"
| roll: "ohlc_step s (snd (roll_symbol tf sy s))"
| publish: "ohlc_step s (s\<lparr> oh_db := d, oh_sent := x \<rparr>)"

inductive ohlc_reach :: "'d ohlc \<Rightarrow> bool" where
  start: "ohlc_reach \<lparr> oh_bars = [], oh_sent = [], oh_db = d \<rparr>"
| step: "ohlc_reach s \<Longrightarrow> ohlc_step s t \<Longrightarrow> ohlc_reach t"

lemma ohlc_step_ok: "ohlc_step s t \<Longrightarrow> ohlc_ok s \<Longrightarrow> ohlc_ok t"
proof (induction rule: ohlc_step.induct)
  case (message s hs v)
  then show ?case by (rule ohlc_ok_consume)
next
  case (roll s tf sy)
  then show ?case by (rule ohlc_ok_roll)
next
  case (publish s x d)
  then show ?case by (simp add: ohlc_ok_def)
qed

lemma ohlc_reach_ok: "ohlc_reach s \<Longrightarrow> ohlc_ok s"
proof (induction rule: ohlc_reach.induct)
  case (start d)
  then show ?case by (simp add: ohlc_ok_def)
next
  case (step s t)
  then show ?case by (blast intro: ohlc_step_ok)
qed

lemma roll_symbols_reach: "ohlc_reach s \<Longrightarrow> ohlc_reach (snd (roll_symbols tf sys s))"
proof (induction sys arbitrary: s)
  case (Cons sy sys)
  have "ohlc_reach (snd (roll_symbol tf sy s))" by (rule ohlc_reach.step[OF Cons.prems ohlc_step.roll])
  from Cons.IH[OF this] show ?case by (simp add: Let_def case_prod_beta)
qed simp

lemma persist_reach: "ohlc_reach s \<Longrightarrow> ohlc_reach (snd (persist_and_emit ins tf s))"
proof -
  assume "ohlc_reach s"
  then have r: "ohlc_reach (snd (roll_symbols tf (map fst (oh_bars s)) s))" by (rule roll_symbols_reach)
  have "ohlc_reach (u\<lparr> oh_db := d, oh_sent := x \<rparr>)" if "ohlc_reach u" for u :: "'a ohlc" and d x
    using ohlc_reach.step[OF that ohlc_step.publish[where x = x and d = d]] by simp
  then show ?thesis
    using r by (auto simp: persist_and_emit_def split: prod.split sum.split)
qed

section \<open>One time frame at a time\<close>

lemma touch_other: "tf' \<noteq> tf \<Longrightarrow> map_of (touch_bar p ts tf' bs) tf = map_of bs tf"
  by (simp add: touch_bar_def Let_def map_of_dict_put split: option.split)

lemma fold_touch:
  "distinct tfs \<Longrightarrow> map_of (fold (touch_bar p ts) tfs bs) tf =
     (if tf \<in> set tfs then map_of (touch_bar p ts tf bs) tf else map_of bs tf)"
proof (induction tfs arbitrary: bs)
  case (Cons a tfs)
  show ?case
  proof (cases "a = tf")
    case True
    then show ?thesis using Cons by simp
  next
    case False
    then have "map_of (touch_bar p ts tf (touch_bar p ts a bs)) tf = map_of (touch_bar p ts tf bs) tf"
      using touch_other[OF False, of p ts bs] by (simp add: touch_bar_def Let_def map_of_dict_put split: option.split)
    then show ?thesis using Cons False by (simp add: touch_other)
  qed
qed simp

lemma distinct_all_frames [simp]: "distinct all_frames"
  by (simp add: all_frames_def)

lemma in_all_frames [simp]: "tf \<in> set all_frames"
  by (cases tf) (simp_all add: all_frames_def)

definition trade_at :: "string \<Rightarrow> rat \<times> rat \<Rightarrow> trade_msg" where
  "trade_at sy pt = \<lparr> tm_symbol = Some sy, tm_price = Some (fst pt), tm_timestamp = Some (snd pt) \<rparr>"

definition bar_at :: "'d ohlc \<Rightarrow> string \<Rightarrow> time_frame \<Rightarrow> bar option" where
  "bar_at s sy tf = map_of (frames_of s sy) tf"

lemma bar_at_trade:
  assumes "sy \<noteq> []" "p \<noteq> 0" "ts \<noteq> 0"
  shows "bar_at (handle_trade_event (trade_at sy (p, ts)) s) sy tf =
           Some (case bar_at s sy tf of
                   None \<Rightarrow> new_bar p (get_bar_timestamp ts tf)
                 | Some c \<Rightarrow> if b_timestamp c \<noteq> get_bar_timestamp ts tf then new_bar p (get_bar_timestamp ts tf)
                             else bar_update p c)"
proof -
  have "frames_of (handle_trade_event (trade_at sy (p, ts)) s) sy = fold (touch_bar p ts) all_frames (frames_of s sy)"
    using assms by (simp add: handle_trade_event_def trade_at_def Let_def frames_of_def map_of_dict_put)
  then have "bar_at (handle_trade_event (trade_at sy (p, ts)) s) sy tf = map_of (touch_bar p ts tf (frames_of s sy)) tf"
    by (simp add: bar_at_def fold_touch)
  then show ?thesis by (simp add: touch_bar_def map_of_dict_put bar_at_def Let_def split: option.split)
qed

lemma bar_at_other: "sy' \<noteq> sy \<Longrightarrow> bar_at (handle_trade_event (trade_at sy' pt) s) sy tf = bar_at s sy tf"
  by (auto simp: handle_trade_event_def trade_at_def Let_def bar_at_def frames_of_def map_of_dict_put)

lemma bar_update_eq:
  "bar_update p b = b\<lparr> b_high := max (b_high b) p, b_low := min (b_low b) p, b_close := p \<rparr>"
  by (simp add: bar_update_def Let_def max_def min_def)

text \<open>A bar with further prices: the open stays, the range takes in every price, the close is the last one.\<close>

definition extend_bar :: "bar \<Rightarrow> rat list \<Rightarrow> bar" where
  "extend_bar c ps =
     \<lparr> b_open = b_open c, b_high = Max (insert (b_high c) (set ps)), b_low = Min (insert (b_low c) (set ps)),
       b_close = last (b_close c # ps), b_timestamp = b_timestamp c \<rparr>"

text \<open>The bar the first price of a bucket meets or makes.\<close>

definition bar_before :: "bar option \<Rightarrow> int \<Rightarrow> rat \<Rightarrow> bar" where
  "bar_before prev b p = (case prev of None \<Rightarrow> new_bar p b | Some c \<Rightarrow> if b_timestamp c = b then c else new_bar p b)"

lemma extend_bar_simps [simp]:
  "extend_bar c [p] = bar_update p c" "extend_bar (bar_update p c) ps = extend_bar c (p # ps)"
proof -
  have "Max (insert (max h p) (set ps)) = Max (insert h (insert p (set ps)))"
    "Min (insert (min h p) (set ps)) = Min (insert h (insert p (set ps)))" for h
    by (cases "set ps = {}"; simp add: max.assoc min.assoc)+
  then show "extend_bar (bar_update p c) ps = extend_bar c (p # ps)" by (simp add: extend_bar_def bar_update_eq)
  show "extend_bar c [p] = bar_update p c" by (simp add: extend_bar_def bar_update_eq)
qed

definition trades_of :: "string \<Rightarrow> (string \<times> rat \<times> rat) list \<Rightarrow> (rat \<times> rat) list" where
  "trades_of sy evs = map snd (filter (\<lambda>ev. fst ev = sy) evs)"

lemma trades_bar:
  assumes "sy \<noteq> []" "\<forall>(p, ts) \<in> set (trades_of sy evs). p \<noteq> 0 \<and> ts \<noteq> 0 \<and> get_bar_timestamp ts tf = b"
  shows "bar_at (fold handle_trade_event (map (\<lambda>(sy', pt). trade_at sy' pt) evs) s) sy tf =
     (case map fst (trades_of sy evs) of
        [] \<Rightarrow> bar_at s sy tf
      | p # ps \<Rightarrow> Some (extend_bar (bar_before (bar_at s sy tf) b p) (p # ps)))"
  using assms(2)
proof (induction evs arbitrary: s)
  case Nil
  show ?case by (simp add: trades_of_def)
next
  case (Cons ev evs)
  obtain sy' p ts where ev: "ev = (sy', p, ts)" by (cases ev) auto
  let ?s = "handle_trade_event (trade_at sy' (p, ts)) s"
  have rest: "\<forall>(p, ts) \<in> set (trades_of sy evs). p \<noteq> 0 \<and> ts \<noteq> 0 \<and> get_bar_timestamp ts tf = b"
    using Cons.prems by (auto simp: trades_of_def)
  show ?case
  proof (cases "sy' = sy")
    case False
    then have same: "bar_at ?s sy tf = bar_at s sy tf" "trades_of sy (ev # evs) = trades_of sy evs"
      by (auto simp: bar_at_other ev trades_of_def)
    show ?thesis using Cons.IH[OF rest, of ?s] unfolding same by (simp add: ev)
  next
    case True
    have own: "trades_of sy (ev # evs) = (p, ts) # trades_of sy evs" using True by (simp add: ev trades_of_def)
    then have "p \<noteq> 0" "ts \<noteq> 0" "get_bar_timestamp ts tf = b" using Cons.prems by auto
    then have now: "bar_at ?s sy tf = Some (bar_update p (bar_before (bar_at s sy tf) b p))"
      using assms(1) True by (auto simp: bar_at_trade bar_before_def bar_update_eq new_bar_def split: option.split)
    have "b_timestamp (bar_update p (bar_before (bar_at s sy tf) b p)) = b"
      by (auto simp: bar_update_eq bar_before_def new_bar_def split: option.split)
    then have "bar_before (bar_at ?s sy tf) b q = bar_update p (bar_before (bar_at s sy tf) b p)" for q
      by (simp add: now bar_before_def)
    then show ?thesis using Cons.IH[OF rest, of ?s] now own by (auto simp: ev split: list.splits)
  qed
qed

section \<open>Rolling over every symbol\<close>

lemma roll_symbol_other: "sy' \<noteq> sy \<Longrightarrow> bar_at (snd (roll_symbol tf sy s)) sy' tf' = bar_at s sy' tf'"
  by (simp add: roll_symbol_def bar_at_def frames_of_def map_of_dict_put split: option.split)

lemma roll_symbol_this:
  "fst (roll_symbol tf sy s) = (case bar_at s sy tf of None \<Rightarrow> [] | Some b \<Rightarrow> [(sy, b)])"
  "bar_at (snd (roll_symbol tf sy s)) sy tf = map_option (roll_bar tf) (bar_at s sy tf)"
  by (simp_all add: roll_symbol_def bar_at_def frames_of_def map_of_dict_put split: option.split)

lemma roll_symbols_all:
  "distinct sys \<Longrightarrow>
     fst (roll_symbols tf sys s) = concat (map (\<lambda>sy. case bar_at s sy tf of None \<Rightarrow> [] | Some b \<Rightarrow> [(sy, b)]) sys)
     \<and> (\<forall>sy. bar_at (snd (roll_symbols tf sys s)) sy tf =
           (if sy \<in> set sys then map_option (roll_bar tf) (bar_at s sy tf) else bar_at s sy tf))"
proof (induction sys arbitrary: s)
  case (Cons a sys)
  have same: "bar_at (snd (roll_symbol tf a s)) sy tf = bar_at s sy tf" if "sy \<in> set sys" for sy
    using Cons.prems that by (intro roll_symbol_other) auto
  have "concat (map (\<lambda>sy. case bar_at (snd (roll_symbol tf a s)) sy tf of None \<Rightarrow> [] | Some b \<Rightarrow> [(sy, b)]) sys) =
             concat (map (\<lambda>sy. case bar_at s sy tf of None \<Rightarrow> [] | Some b \<Rightarrow> [(sy, b)]) sys)"
    by (rule arg_cong[where f = concat], rule map_cong[OF refl]) (simp add: same)
  moreover have "bar_at (snd (roll_symbol tf a s)) sy tf = bar_at s sy tf" if "sy \<noteq> a" for sy
    using that by (rule roll_symbol_other)
  ultimately show ?case
    using Cons.IH[of "snd (roll_symbol tf a s)"] Cons.prems same
    by (simp add: Let_def case_prod_beta roll_symbol_this)
qed simp

definition bars_to_roll :: "time_frame \<Rightarrow> 'd ohlc \<Rightarrow> (string \<times> bar) list" where
  "bars_to_roll tf s =
     concat (map (\<lambda>sy. case bar_at s sy tf of None \<Rightarrow> [] | Some b \<Rightarrow> [(sy, b)]) (map fst (oh_bars s)))"

section \<open>What the builder promises\<close>

text \<open>
  In every state of the builder, whatever the messages and however they interleave with the roll-over
  tasks, each bar has its open and its close between its low and its high, and starts at a multiple of
  the seconds of its time frame.
\<close>

theorem ohlc_bars_consistent:
  assumes "ohlc_reach s" and "bar_at s sy tf = Some b"
  shows "b_low b \<le> min (b_open b) (b_close b) \<and> max (b_open b) (b_close b) \<le> b_high b
         \<and> seconds_of tf dvd b_timestamp b"
proof -
  have "bar_ok tf b"
    using frames_ok_lookup[OF frames_ok_of[OF ohlc_reach_ok[OF assms(1)]]] assms(2) by (simp add: bar_at_def)
  then show ?thesis by (simp add: bar_ok_def)
qed

definition no_bars :: "ohlc_row list ohlc" where
  "no_bars = \<lparr> oh_bars = [], oh_sent = [], oh_db = [] \<rparr>"

definition one_trade :: "ohlc_row list ohlc" where
  "one_trade = consume_trade [(''event_category'', ''trade'')] (Some (trade_at ''BTC'' (100, 59))) no_bars"

lemma one_trade_eval:
  "ohlc_reach one_trade" "bar_at one_trade ''BTC'' M1 = Some (new_bar 100 0)"
  "map fst (oh_bars one_trade) = [''BTC'']" "oh_db one_trade = []"
proof -
  have "ohlc_reach no_bars" unfolding no_bars_def by (rule ohlc_reach.start)
  then show "ohlc_reach one_trade" unfolding one_trade_def by (rule ohlc_reach.step[OF _ ohlc_step.message])
  have "get_bar_timestamp 59 M1 = 0" by code_simp
  then show "bar_at one_trade ''BTC'' M1 = Some (new_bar 100 0)"
    by (simp add: one_trade_def consume_trade_def bar_at_trade) (simp add: no_bars_def bar_at_def frames_of_def)
  show "map fst (oh_bars one_trade) = [''BTC'']" "oh_db one_trade = []"
    by (simp_all add: one_trade_def consume_trade_def handle_trade_event_def trade_at_def no_bars_def Let_def)
qed

lemma seconds_M1: "seconds_of M1 = 60"
  by code_simp

theorem ohlc_bars_consistent_witness:
  "\<exists>b. bar_at one_trade ''BTC'' M1 = Some b \<and> b_low b \<le> min (b_open b) (b_close b) \<and> 60 dvd b_timestamp b"
  using ohlc_bars_consistent[OF one_trade_eval(1,2)] one_trade_eval(2) by (simp add: seconds_M1)

text \<open>
  C22. What a run of trades makes of the bar of a time frame, whatever trades of other instruments come between, when the
  trades of the instrument fall into one bucket. If the instrument has no bar of the time frame, or one of another
  bucket, the bar becomes the candlestick of the prices: the first price, the highest, the lowest and the last one,
  at the start of the bucket. If it already has a bar of the bucket (from earlier trades, or because the
  roll-over has opened it at the last close), that bar keeps its open, its range is widened to the prices, and its
  close is the last price.
\<close>

theorem trades_make_candlestick:
  assumes "sy \<noteq> []" and "trades_of sy evs \<noteq> []"
    and "\<forall>(p, ts) \<in> set (trades_of sy evs). p \<noteq> 0 \<and> ts \<noteq> 0 \<and> get_bar_timestamp ts tf = b"
  shows "bar_at (fold handle_trade_event (map (\<lambda>(sy', pt). trade_at sy' pt) evs) s) sy tf =
    (let prices = map fst (trades_of sy evs);
         fresh = \<lparr> b_open = hd prices, b_high = Max (set prices), b_low = Min (set prices),
                   b_close = last prices, b_timestamp = b \<rparr>
     in Some (case bar_at s sy tf of
                None \<Rightarrow> fresh
              | Some c \<Rightarrow>
                  if b_timestamp c \<noteq> b then fresh
                  else \<lparr> b_open = b_open c, b_high = Max (insert (b_high c) (set prices)),
                         b_low = Min (insert (b_low c) (set prices)), b_close = last prices, b_timestamp = b \<rparr>))"
proof -
  obtain p ps where ps: "map fst (trades_of sy evs) = p # ps" using assms(2) by (cases "trades_of sy evs") auto
  have "bar_at (fold handle_trade_event (map (\<lambda>(sy', pt). trade_at sy' pt) evs) s) sy tf =
      Some (extend_bar (bar_before (bar_at s sy tf) b p) (p # ps))"
    using trades_bar[OF assms(1,3), of s] by (simp add: ps)
  then show ?thesis unfolding ps by (auto simp: Let_def extend_bar_def bar_before_def new_bar_def split: option.split)
qed

definition rolled_trade :: "ohlc_row list ohlc" where
  "rolled_trade = snd (roll_symbol M1 ''BTC'' one_trade)"

theorem trades_make_candlestick_witness:
  "bar_at (fold handle_trade_event
       [trade_at ''BTC'' (100, 61), trade_at ''ETH'' (7, 70), trade_at ''BTC'' (120, 75), trade_at ''BTC'' (90, 119)] no_bars) ''BTC'' M1 =
     Some \<lparr> b_open = 100, b_high = 120, b_low = 90, b_close = 90, b_timestamp = 60 \<rparr>
   \<and> bar_at (fold handle_trade_event [trade_at ''BTC'' (120, 75), trade_at ''BTC'' (110, 119)] rolled_trade) ''BTC'' M1 =
     Some \<lparr> b_open = 100, b_high = 120, b_low = 100, b_close = 110, b_timestamp = 60 \<rparr>"
proof -
  have "get_bar_timestamp 61 M1 = 60" "get_bar_timestamp 75 M1 = 60" "get_bar_timestamp 119 M1 = 60"
    "bar_at no_bars ''BTC'' M1 = None" by code_simp+
  moreover have "bar_at rolled_trade ''BTC'' M1 = Some (new_bar 100 60)"
    by (simp add: rolled_trade_def roll_symbol_this one_trade_eval) (simp add: roll_bar_def new_bar_def seconds_M1)
  ultimately show ?thesis
    using trades_make_candlestick[of "''BTC''" "[(''BTC'', 100, 61), (''ETH'', 7, 70), (''BTC'', 120, 75), (''BTC'', 90, 119)]" M1 60 no_bars]
      trades_make_candlestick[of "''BTC''" "[(''BTC'', 120, 75), (''BTC'', 110, 119)]" M1 60 rolled_trade]
    by (simp add: trades_of_def Let_def new_bar_def)
qed

text \<open>
  A trade belongs to the bucket it is filed under: the bucket starts at a multiple of the time frame,
  not after the trade, and ends after it. And the roll-over task always sleeps a positive time of at
  most one time frame and wakes at a multiple of it.
\<close>

theorem buckets_and_boundaries:
  assumes "0 \<le> now"
  shows "of_int (get_bar_timestamp ts tf) \<le> ts \<and> ts < of_int (get_bar_timestamp ts tf + seconds_of tf)
         \<and> seconds_of tf dvd get_bar_timestamp ts tf
         \<and> 0 < sleep_until_next_boundary now tf \<and> sleep_until_next_boundary now tf \<le> of_int (seconds_of tf)
         \<and> (\<exists>m. now + sleep_until_next_boundary now tf = of_int (m * seconds_of tf))"
proof -
  let ?n = "seconds_of tf" and ?k = "\<lfloor>now\<rfloor>"
  have n: "0 < ?n" by simp
  have d: "?k div ?n * ?n \<le> ?k" "?k < (?k div ?n + 1) * ?n"
    using n by (simp_all add: minus_mod_eq_div_mult[symmetric] distrib_right)
  then have "?k + 1 \<le> (?k div ?n + 1) * ?n" by simp
  then have "of_int ?k + 1 \<le> (of_int ((?k div ?n + 1) * ?n) :: rat)" by (metis of_int_1 of_int_add of_int_le_iff)
  then have pos: "0 < sleep_until_next_boundary now tf"
    unfolding sleep_until_next_boundary_def by linarith
  have "(of_int (?k div ?n * ?n) :: rat) \<le> of_int ?k" using d(1) of_int_le_iff by blast
  then have "(of_int (?k div ?n * ?n) :: rat) \<le> now" by linarith
  then have le: "sleep_until_next_boundary now tf \<le> of_int ?n"
    by (simp add: sleep_until_next_boundary_def algebra_simps)
  have "now + sleep_until_next_boundary now tf = of_int ((?k div ?n + 1) * ?n)"
    by (simp add: sleep_until_next_boundary_def)
  then show ?thesis using bucket_bounds[where tf = tf and ts = ts] pos le by blast
qed

theorem buckets_and_boundaries_witness:
  "get_bar_timestamp 61 M1 = 60 \<and> 0 < sleep_until_next_boundary 59 M1 \<and> sleep_until_next_boundary 59 M1 = 1"
proof -
  have "get_bar_timestamp 61 M1 = 60" "sleep_until_next_boundary 59 M1 = 1" by code_simp+
  then show ?thesis using buckets_and_boundaries[of 59 61 M1] by simp
qed

text \<open>
  C23. A roll-over writes exactly one row per symbol that has a bar of the time frame, the bar as it
  stood, emits the same bars, and leaves for each of them a bar of the next bucket whose four prices
  are the old close.
\<close>

theorem rollover_persists_every_bar:
  assumes "ohlc_reach s" and "\<And>rows db. ins rows db = Inr (db @ rows)"
  shows "\<exists>t. persist_and_emit ins tf s = (Inr (), t)
           \<and> oh_db t = oh_db s @ batch_rows tf (bars_to_roll tf s)
           \<and> oh_sent t = oh_sent s @ map (\<lambda>(sy, b). (sy, tf, b)) (bars_to_roll tf s)
           \<and> (\<forall>sy. bar_at t sy tf = map_option (roll_bar tf) (bar_at s sy tf))"
proof -
  let ?r = "roll_symbols tf (map fst (oh_bars s)) s"
  have d: "distinct (map fst (oh_bars s))" using ohlc_reach_ok[OF assms(1)] by (simp add: ohlc_ok_def)
  have same: "oh_db (snd (roll_symbols tf sys u)) = oh_db u" "oh_sent (snd (roll_symbols tf sys u)) = oh_sent u" for sys u
    by (induction sys arbitrary: u) (simp_all add: Let_def case_prod_beta roll_symbol_def split: option.split)
  have none: "bar_at s sy tf = None" if "sy \<notin> set (map fst (oh_bars s))" for sy
    using that by (simp add: bar_at_def frames_of_def map_of_eq_None_iff[symmetric])
  have bars: "bar_at (snd ?r) sy tf = map_option (roll_bar tf) (bar_at s sy tf)" for sy
    using roll_symbols_all[OF d, of tf s] none[of sy] by (cases "sy \<in> set (map fst (oh_bars s))") auto
  have f: "fst ?r = bars_to_roll tf s" using roll_symbols_all[OF d, of tf s] by (simp add: bars_to_roll_def)
  have upd: "bar_at (u\<lparr> oh_db := a, oh_sent := c \<rparr>) sy tf = bar_at u sy tf" for u :: "ohlc_row list ohlc" and a c sy
    by (simp add: bar_at_def frames_of_def)
  show ?thesis
    using f bars same[of "map fst (oh_bars s)" s] assms(2)
    by (cases "bars_to_roll tf s = []") (auto simp: persist_and_emit_def upd batch_rows_def split: prod.splits)
qed

theorem rollover_persists_every_bar_witness:
  "\<exists>t. persist_and_emit (\<lambda>rows db. Inr (db @ rows)) M1 one_trade = (Inr (), t)
     \<and> oh_db t = [\<lparr> row_symbol = ''BTC'', row_frame = ''1m'', row_bar = new_bar 100 0 \<rparr>]
     \<and> bar_at t ''BTC'' M1 = Some (new_bar 100 60)"
  using rollover_persists_every_bar[OF one_trade_eval(1), of "\<lambda>rows db. Inr (db @ rows)" M1] one_trade_eval
  by (auto simp: batch_rows_def roll_bar_def new_bar_def bars_to_roll_def seconds_M1)

text \<open>
  A trade of the next bucket that is handled before the roll-over task runs overwrites the finished
  bar: nothing has been written to the table, the finished bar is gone, and the roll-over that follows
  moves the new bar to the bucket after the one still open, so that the next trade overwrites it again.
\<close>

theorem late_rollover_loses_bar:
  assumes "bar_at s sy tf = Some b" and "b_timestamp b \<noteq> get_bar_timestamp ts tf" and "sy \<noteq> []" "p \<noteq> 0" "ts \<noteq> 0"
  shows "let t = handle_trade_event (trade_at sy (p, ts)) s in
           oh_db t = oh_db s \<and> bar_at t sy tf = Some (new_bar p (get_bar_timestamp ts tf))
           \<and> bar_at (snd (roll_symbol tf sy t)) sy tf = Some (new_bar p (get_bar_timestamp ts tf + seconds_of tf))"
proof -
  let ?t = "handle_trade_event (trade_at sy (p, ts)) s"
  have "bar_at ?t sy tf = Some (new_bar p (get_bar_timestamp ts tf))" using assms by (simp add: bar_at_trade)
  moreover have "oh_db ?t = oh_db s" by (simp add: handle_trade_event_def Let_def split: option.split)
  ultimately show ?thesis by (simp add: Let_def roll_symbol_this) (simp add: roll_bar_def new_bar_def)
qed

theorem late_rollover_loses_bar_witness:
  "let t = handle_trade_event (trade_at ''BTC'' (200, 61)) one_trade in
   oh_db t = [] \<and> bar_at one_trade ''BTC'' M1 = Some (new_bar 100 0) \<and> bar_at t ''BTC'' M1 = Some (new_bar 200 60)
   \<and> bar_at (snd (roll_symbol M1 ''BTC'' t)) ''BTC'' M1 = Some (new_bar 200 120)"
proof -
  have "get_bar_timestamp 61 M1 = 60" by code_simp
  then show ?thesis
    using late_rollover_loses_bar[OF one_trade_eval(2), of 61 200] one_trade_eval
    by (simp add: new_bar_def seconds_M1 Let_def)
qed

end
