(* ===== verification/Event_Handlers.thy ===== *)
theory Event_Handlers imports Database begin

text \<open>
  \<open>services/event_handlers\<close>: the consumers that mirror the engine's order and balance events into the
  database, and the fan-out of engine events onto topics.

  A message is the decoded JSON object with the fields the event classes declare; \<open>None\<close> where a field
  is missing. Validation is the class's: required fields and, as a parameter, the parser of UUIDs. A
  handler runs in one session, so an exception leaves the database as it was; \<open>handle_event\<close> logs it.
  Committing checks the primary key of the event tables and the foreign key to the users.
\<close>

section \<open>Order events\<close>

record order_msg =
  om_type :: "string option"
  om_id :: string
  om_order_id :: string
  om_command_id :: string
  om_symbol :: "string option"
  om_order :: bool
  om_executed :: "rat option"
  om_limit :: "rat option"
  om_stop :: "rat option"
  om_reason :: "string option"
  om_timestamp :: rat

definition order_event_types :: "string list" where
  "order_event_types =
     [''order_placed'', ''order_partially_filled'', ''order_filled'', ''order_modified'',
      ''order_modify_rejected'', ''order_cancelled'']"

definition valid_order_msg :: "(string \<Rightarrow> bool) \<Rightarrow> string \<Rightarrow> order_msg \<Rightarrow> exn + unit" where
  "valid_order_msg uuid ty ev =
     (if \<not> (uuid (om_id ev) \<and> uuid (om_order_id ev) \<and> uuid (om_command_id ev) \<and> om_order ev) then Inl ValidationError
      else if ty = ''order_modified''
           then (if om_limit ev = None \<and> om_stop ev = None then Inl ValueError else Inr ())
      else if om_symbol ev = None \<or> ty = ''order_modify_rejected'' \<and> om_reason ev = None then Inl ValidationError
      else Inr ())"

text \<open>The handler for each type; \<open>OrderPartiallyFilledEvent\<close> has no \<open>executed_quantity\<close>.\<close>

definition apply_order_event :: "string \<Rightarrow> order_msg \<Rightarrow> order_row \<Rightarrow> exn + order_row" where
  "apply_order_event ty ev r =
     (if ty = ''order_placed'' then Inr (r\<lparr> or_status := PLACED \<rparr>)
      else if ty = ''order_partially_filled'' then Inl AttributeError
      else if ty = ''order_filled''
           then (case om_executed ev of
                   None \<Rightarrow> Inl KeyError
                 | Some q \<Rightarrow> Inr (r\<lparr> or_executed := q, or_status := FILLED \<rparr>))
      else if ty = ''order_modified''
           then let r1 = (case om_limit ev of None \<Rightarrow> r | Some v \<Rightarrow> r\<lparr> or_limit := Some v \<rparr>)
                in Inr (case om_stop ev of None \<Rightarrow> r1 | Some v \<Rightarrow> r1\<lparr> or_stop := Some v \<rparr>)
      else if ty = ''order_modify_rejected'' then Inr r
      else Inr (r\<lparr> or_status := CANCELLED \<rparr>))"

definition order_event_seen :: "string \<Rightarrow> order_msg \<Rightarrow> database \<Rightarrow> bool" where
  "order_event_seen ty ev db =
     list_ex (\<lambda>r. oer_command_id r = om_command_id ev \<and> oer_order_id r = om_order_id ev \<and> oer_type r = ty)
       (db_order_events db)"

text \<open>The symbol of the event, or of its order when the class has none.\<close>

definition order_event_symbol :: "string \<Rightarrow> order_msg \<Rightarrow> order_row \<Rightarrow> string" where
  "order_event_symbol ty ev r =
     (if ty = ''order_modified'' then or_symbol r
      else case om_symbol ev of None \<Rightarrow> or_symbol r | Some s \<Rightarrow> if s = [] then or_symbol r else s)"

definition record_order_event :: "string \<Rightarrow> order_msg \<Rightarrow> order_row \<Rightarrow> database \<Rightarrow> database" where
  "record_order_event ty ev r db =
     db\<lparr> db_order_events := db_order_events db @
           [\<lparr> oer_event_id = om_id ev, oer_order_id = om_order_id ev, oer_user_id = or_user_id r,
              oer_command_id = om_command_id ev, oer_type = ty,
              oer_symbol = order_event_symbol ty ev r, oer_timestamp = om_timestamp ev \<rparr>],
         db_event_logs := db_event_logs db @
           [\<lparr> elr_type = ORDER_CAT, elr_event_id = om_id ev, elr_timestamp = om_timestamp ev \<rparr>] \<rparr>"

text \<open>The body of the session in \<open>handle_event\<close>; the commit rejects an event id that is already there.\<close>

definition order_session :: "string \<Rightarrow> order_msg \<Rightarrow> database \<Rightarrow> exn + unit \<times> database" where
  "order_session ty ev db =
     (if order_event_seen ty ev db then Inr ((), db)
      else case get_order db (om_order_id ev) of
             None \<Rightarrow> Inr ((), db)
           | Some r \<Rightarrow>
               (case apply_order_event ty ev r of
                  Inl e \<Rightarrow> Inl e
                | Inr r' \<Rightarrow>
                    if om_id ev \<in> oer_event_id ` set (db_order_events db) then Inl IntegrityError
                    else Inr ((), put_order r' (record_order_event ty ev r db))))"

definition handle_order_event :: "(string \<Rightarrow> bool) \<Rightarrow> order_msg \<Rightarrow> database \<Rightarrow> database" where
  "handle_order_event uuid ev db =
     (case om_type ev of
        None \<Rightarrow> db
      | Some ty \<Rightarrow>
          if ty \<notin> set order_event_types then db
          else case valid_order_msg uuid ty ev of
                 Inl e \<Rightarrow> db
               | Inr _ \<Rightarrow> snd (in_session (order_session ty ev) db))"

text \<open>The consumer loop: a message that does not decode ends it with the exception.\<close>

fun order_handler_run :: "(string \<Rightarrow> bool) \<Rightarrow> order_msg option list \<Rightarrow> database \<Rightarrow> (exn + unit) \<times> database" where
  "order_handler_run uuid [] db = (Inr (), db)"
| "order_handler_run uuid (None # ms) db = (Inl ValueError, db)"
| "order_handler_run uuid (Some ev # ms) db = order_handler_run uuid ms (handle_order_event uuid ev db)"

section \<open>Balance events\<close>

record balance_msg =
  bm_type :: "string option"
  bm_id :: string
  bm_user_id :: "string option"
  bm_command_id :: "string option"
  bm_symbol :: "string option"
  bm_amount :: "rat option"
  bm_increase :: "rat option"
  bm_settled :: bool
  bm_timestamp :: rat

definition balance_event_types :: "string list" where
  "balance_event_types =
     [''cash_balance_increased'', ''cash_balance_decreased'', ''cash_escrow_increased'',
      ''cash_escrow_decreased'', ''asset_balance_increased'', ''asset_balance_decreased'',
      ''asset_escrow_increased'', ''asset_escrow_decreased'', ''ask_settled'', ''bid_settled'',
      ''asset_balance_snapshot'']"

definition cash_types :: "string list" where
  "cash_types = [''cash_balance_increased'', ''cash_balance_decreased'', ''cash_escrow_increased'', ''cash_escrow_decreased'']"

definition asset_types :: "string list" where
  "asset_types = [''asset_balance_increased'', ''asset_balance_decreased'', ''asset_escrow_increased'', ''asset_escrow_decreased'']"

text \<open>
  \<open>bm_increase\<close> is the amount of the nested \<open>asset_balance_increased\<close> event, \<open>bm_settled\<close> tells that the
  other fields of a settlement or of a snapshot are there.
\<close>

definition valid_balance_msg :: "(string \<Rightarrow> bool) \<Rightarrow> string \<Rightarrow> balance_msg \<Rightarrow> bool" where
  "valid_balance_msg uuid ty ev \<longleftrightarrow>
     uuid (bm_id ev) \<and> bm_user_id ev \<noteq> None \<and> bm_command_id ev \<noteq> None
     \<and> (ty \<in> set cash_types \<longrightarrow> bm_amount ev \<noteq> None)
     \<and> (ty \<in> set asset_types \<longrightarrow> bm_symbol ev \<noteq> None \<and> bm_amount ev \<noteq> None)
     \<and> (ty = ''ask_settled'' \<or> ty = ''asset_balance_snapshot'' \<longrightarrow> bm_symbol ev \<noteq> None \<and> bm_settled ev)
     \<and> (ty = ''bid_settled'' \<longrightarrow> bm_symbol ev \<noteq> None \<and> bm_increase ev \<noteq> None \<and> bm_settled ev)"

text \<open>The four updates of the asset table; without the instrument they do nothing.\<close>

definition with_instrument ::
    "string \<Rightarrow> (string \<Rightarrow> database \<Rightarrow> database) \<Rightarrow> database \<Rightarrow> database" where
  "with_instrument sy f db = (case instrument_id db sy of None \<Rightarrow> db | Some i \<Rightarrow> f i db)"

definition put_asset :: "string \<times> string \<Rightarrow> asset_balance_row \<Rightarrow> database \<Rightarrow> database" where
  "put_asset k r db = db\<lparr> db_assets := dict_put (db_assets db) k r \<rparr>"

definition increase_db_balance :: "string \<Rightarrow> string \<Rightarrow> rat \<Rightarrow> database \<Rightarrow> database" where
  "increase_db_balance u sy amount = with_instrument sy (\<lambda>i db.
     case map_of (db_assets db) (i, u) of
       Some r \<Rightarrow> put_asset (i, u) (r\<lparr> ab_balance := ab_balance r + amount \<rparr>) db
     | None \<Rightarrow> put_asset (i, u) \<lparr> ab_balance = amount, ab_escrow = 0 \<rparr> db)"

definition decrease_db_balance :: "string \<Rightarrow> string \<Rightarrow> rat \<Rightarrow> database \<Rightarrow> database" where
  "decrease_db_balance u sy amount = with_instrument sy (\<lambda>i db.
     case map_of (db_assets db) (i, u) of
       Some r \<Rightarrow> put_asset (i, u) (r\<lparr> ab_balance := ab_balance r - amount \<rparr>) db
     | None \<Rightarrow> db)"

definition increase_db_escrow :: "string \<Rightarrow> string \<Rightarrow> rat \<Rightarrow> database \<Rightarrow> database" where
  "increase_db_escrow u sy amount = with_instrument sy (\<lambda>i db.
     case map_of (db_assets db) (i, u) of
       Some r \<Rightarrow> put_asset (i, u) (r\<lparr> ab_escrow := ab_escrow r + amount \<rparr>) db
     | None \<Rightarrow> put_asset (i, u) \<lparr> ab_balance = 0, ab_escrow = amount \<rparr> db)"

definition decrease_db_escrow :: "string \<Rightarrow> string \<Rightarrow> rat \<Rightarrow> database \<Rightarrow> database" where
  "decrease_db_escrow u sy amount = with_instrument sy (\<lambda>i db.
     case map_of (db_assets db) (i, u) of
       Some r \<Rightarrow> put_asset (i, u) (r\<lparr> ab_escrow := ab_escrow r - amount \<rparr>) db
     | None \<Rightarrow> db)"

text \<open>\<open>AskSettledEvent\<close> has no field \<open>asset_balance_increased\<close>, so reading it raises.\<close>

definition adjust_asset_balance :: "string \<Rightarrow> string \<Rightarrow> balance_msg \<Rightarrow> database \<Rightarrow> exn + database" where
  "adjust_asset_balance ty u ev db =
     (case (bm_symbol ev, bm_amount ev) of
        (Some sy, Some amount) \<Rightarrow>
          if ty = ''asset_balance_increased'' then Inr (increase_db_balance u sy amount db)
          else if ty = ''asset_balance_decreased'' then Inr (decrease_db_balance u sy amount db)
          else if ty = ''asset_escrow_increased'' then Inr (increase_db_escrow u sy amount db)
          else if ty = ''asset_escrow_decreased'' then Inr (decrease_db_escrow u sy amount db)
          else if ty = ''ask_settled'' then Inl AttributeError
          else if ty = ''bid_settled''
               then (case bm_increase ev of None \<Rightarrow> Inl AttributeError
                                          | Some v \<Rightarrow> Inr (increase_db_balance u sy v db))
          else Inr db
      | (Some sy, None) \<Rightarrow>
          if ty = ''ask_settled'' then Inl AttributeError
          else if ty = ''bid_settled''
               then (case bm_increase ev of None \<Rightarrow> Inl AttributeError
                                          | Some v \<Rightarrow> Inr (increase_db_balance u sy v db))
          else Inr db
      | _ \<Rightarrow> Inr db)"

definition balance_event_seen :: "string \<Rightarrow> string \<Rightarrow> string \<Rightarrow> database \<Rightarrow> bool" where
  "balance_event_seen ty u c db =
     list_ex (\<lambda>r. ber_command_id r = c \<and> ber_user_id r = u \<and> ber_type r = ty) (db_balance_events db)"

definition record_balance_event :: "string \<Rightarrow> string \<Rightarrow> string \<Rightarrow> balance_msg \<Rightarrow> database \<Rightarrow> database" where
  "record_balance_event ty u c ev db =
     db\<lparr> db_balance_events := db_balance_events db @
           [\<lparr> ber_event_id = bm_id ev, ber_user_id = u, ber_command_id = c, ber_type = ty,
              ber_symbol = (if ty \<in> set cash_types then None else bm_symbol ev), ber_timestamp = bm_timestamp ev \<rparr>],
         db_event_logs := db_event_logs db @
           [\<lparr> elr_type = BALANCE_CAT, elr_event_id = bm_id ev, elr_timestamp = bm_timestamp ev \<rparr>] \<rparr>"

text \<open>The classes declare the two ids as plain strings; comparing them with the UUID columns fails for any other string.\<close>

definition balance_session ::
    "(string \<Rightarrow> bool) \<Rightarrow> string \<Rightarrow> string \<Rightarrow> string \<Rightarrow> balance_msg \<Rightarrow> database \<Rightarrow> exn + unit \<times> database" where
  "balance_session uuid ty u c ev db =
     (if \<not> uuid c \<or> \<not> uuid u then Inl DataError
      else if balance_event_seen ty u c db then Inr ((), db)
      else case adjust_asset_balance ty u ev (record_balance_event ty u c ev db) of
             Inl e \<Rightarrow> Inl e
           | Inr db' \<Rightarrow>
               if bm_id ev \<in> ber_event_id ` set (db_balance_events db) \<or> u \<notin> set (db_users db) then Inl IntegrityError
               else Inr ((), db'))"

definition handle_balance_event :: "(string \<Rightarrow> bool) \<Rightarrow> balance_msg \<Rightarrow> database \<Rightarrow> database" where
  "handle_balance_event uuid ev db =
     (case (bm_type ev, bm_user_id ev, bm_command_id ev) of
        (Some ty, Some u, Some c) \<Rightarrow>
          if ty \<in> set balance_event_types \<and> valid_balance_msg uuid ty ev
          then snd (in_session (balance_session uuid ty u c ev) db) else db
      | _ \<Rightarrow> db)"

fun balance_handler_run :: "(string \<Rightarrow> bool) \<Rightarrow> balance_msg option list \<Rightarrow> database \<Rightarrow> (exn + unit) \<times> database" where
  "balance_handler_run uuid [] db = (Inr (), db)"
| "balance_handler_run uuid (None # ms) db = (Inl ValueError, db)"
| "balance_handler_run uuid (Some ev # ms) db = balance_handler_run uuid ms (handle_balance_event uuid ev db)"

section \<open>The fan-out\<close>

record topics =
  balance_topic :: string
  order_topic :: string
  instrument_topic :: string

record 'v fan_msg =
  fm_headers :: "(string \<times> string) list"
  fm_value :: 'v
  fm_trade :: "(string \<times> rat) option"

record 'v fan_state =
  fs_sent :: "(string \<times> 'v \<times> (string \<times> string) list) list"
  fs_prices :: "(string \<times> rat) list"

definition category_topic :: "topics \<Rightarrow> string \<Rightarrow> string option" where
  "category_topic tp c =
     (if c = ''balance'' then Some (balance_topic tp)
      else if c = ''order'' then Some (order_topic tp)
      else if c = ''trade'' then Some (instrument_topic tp) else None)"

text \<open>\<open>fm_trade\<close> is the symbol and price of the decoded value, \<open>None\<close> when decoding or a key lookup raises.\<close>

fun fanout_run :: "topics \<Rightarrow> 'v fan_msg list \<Rightarrow> 'v fan_state \<Rightarrow> 'v fan_state" where
  "fanout_run tp [] s = s"
| "fanout_run tp (m # ms) s =
     (case map_of (fm_headers m) ''event_category'' of
        None \<Rightarrow> fanout_run tp ms s
      | Some c \<Rightarrow>
          (case category_topic tp c of
             None \<Rightarrow> fanout_run tp ms s
           | Some t \<Rightarrow>
               let s1 = s\<lparr> fs_sent := fs_sent s @ [(t, fm_value m, fm_headers m)] \<rparr>
               in if c = ''trade''
                  then (case fm_trade m of
                          None \<Rightarrow> s1
                        | Some (sy, p) \<Rightarrow> fanout_run tp ms (s1\<lparr> fs_prices := dict_put (fs_prices s1) sy p \<rparr>))
                  else fanout_run tp ms s1))"

section \<open>Order events in the database\<close>

text \<open>The result of a handled event, by the case that applies.\<close>

definition order_event_applies :: "(string \<Rightarrow> bool) \<Rightarrow> order_msg \<Rightarrow> string \<Rightarrow> order_row \<Rightarrow> order_row \<Rightarrow> database \<Rightarrow> bool" where
  "order_event_applies uuid ev ty r r' db \<longleftrightarrow>
     om_type ev = Some ty \<and> ty \<in> set order_event_types \<and> valid_order_msg uuid ty ev = Inr ()
     \<and> \<not> order_event_seen ty ev db \<and> get_order db (om_order_id ev) = Some r
     \<and> apply_order_event ty ev r = Inr r' \<and> om_id ev \<notin> oer_event_id ` set (db_order_events db)"

lemma handle_order_event_cases:
  "(\<exists>ty r r'. order_event_applies uuid ev ty r r' db
      \<and> handle_order_event uuid ev db = put_order r' (record_order_event ty ev r db))
   \<or> handle_order_event uuid ev db = db \<and> (\<nexists>ty r r'. order_event_applies uuid ev ty r r' db)"
  by (auto simp: handle_order_event_def order_event_applies_def order_session_def in_session_def
        split: option.splits sum.splits if_splits)

lemma apply_keeps_keys:
  "apply_order_event ty ev r = Inr r' \<Longrightarrow>
   or_order_id r' = or_order_id r \<and> or_user_id r' = or_user_id r \<and> or_quantity r' = or_quantity r"
  by (auto simp: apply_order_event_def Let_def split: if_splits option.splits)

lemma seen_after_record: "order_event_seen ty ev (put_order r' (record_order_event ty ev r db))"
  by (simp add: order_event_seen_def record_order_event_def put_order_def)

lemma seen_not_applies: "om_type ev = Some ty \<Longrightarrow> order_event_seen ty ev db \<Longrightarrow> \<not> order_event_applies uuid ev ty' r r' db"
  by (auto simp: order_event_applies_def)

lemma handle_order_event_twice:
  "handle_order_event uuid ev (handle_order_event uuid ev db) = handle_order_event uuid ev db"
proof (cases "\<exists>ty r r'. order_event_applies uuid ev ty r r' db")
  case True
  then obtain ty r r' where a: "order_event_applies uuid ev ty r r' db"
      "handle_order_event uuid ev db = put_order r' (record_order_event ty ev r db)"
    using handle_order_event_cases[of uuid ev db] by blast
  then have "om_type ev = Some ty" by (simp add: order_event_applies_def)
  then show ?thesis
    using a(2) seen_not_applies[OF _ seen_after_record] handle_order_event_cases[of uuid ev "handle_order_event uuid ev db"]
    by metis
next
  case False
  then show ?thesis using handle_order_event_cases[of uuid ev db] by auto
qed

text \<open>
  What the event tables keep: rows belong to orders that exist, event ids and the triples the duplicate
  check looks for are unique, and every order event has its entry in the log.
\<close>

definition order_tables_ok :: "database \<Rightarrow> bool" where
  "order_tables_ok db \<longleftrightarrow>
     orders_keyed db
     \<and> (\<forall>e \<in> set (db_order_events db). \<exists>r. get_order db (oer_order_id e) = Some r \<and> or_user_id r = oer_user_id e)
     \<and> distinct (map oer_event_id (db_order_events db))
     \<and> distinct (map (\<lambda>e. (oer_command_id e, oer_order_id e, oer_type e)) (db_order_events db))
     \<and> map elr_event_id (filter (\<lambda>l. elr_type l = ORDER_CAT) (db_event_logs db)) = map oer_event_id (db_order_events db)"

lemma order_tables_ok_handle:
  assumes "order_tables_ok db"
  shows "order_tables_ok (handle_order_event uuid ev db)"
proof (cases "\<exists>ty r r'. order_event_applies uuid ev ty r r' db")
  case True
  then obtain ty r r' where a: "order_event_applies uuid ev ty r r' db"
      "handle_order_event uuid ev db = put_order r' (record_order_event ty ev r db)"
    using handle_order_event_cases[of uuid ev db] by blast
  let ?t = "put_order r' (record_order_event ty ev r db)"
  have r: "get_order db (om_order_id ev) = Some r" "or_order_id r = om_order_id ev" "or_order_id r' = om_order_id ev"
    "or_user_id r' = or_user_id r"
    using a(1) assms get_order_id[of db] apply_keeps_keys[of ty ev r r']
    by (auto simp: order_event_applies_def order_tables_ok_def)
  have get: "get_order ?t i = (if i = om_order_id ev then Some r' else get_order db i)" for i
    using r by (simp add: get_put_order) (simp add: get_order_def record_order_event_def)
  have new: "(om_command_id ev, om_order_id ev, ty) \<notin> (\<lambda>e. (oer_command_id e, oer_order_id e, oer_type e)) ` set (db_order_events db)"
    using a(1) by (auto simp: order_event_applies_def order_event_seen_def list_ex_iff)
  have "orders_keyed (record_order_event ty ev r db)"
    using assms by (simp add: order_tables_ok_def orders_keyed_def record_order_event_def)
  then have "orders_keyed ?t" by (rule orders_keyed_put)
  moreover have tables: "db_order_events ?t = db_order_events (record_order_event ty ev r db)"
      "db_event_logs ?t = db_event_logs (record_order_event ty ev r db)"
    by (simp_all add: put_order_def)
  moreover have "\<exists>q. get_order ?t (oer_order_id e) = Some q \<and> or_user_id q = oer_user_id e"
    if "e \<in> set (db_order_events ?t)" for e
  proof -
    have "e \<in> set (db_order_events db) \<or> oer_order_id e = om_order_id ev \<and> oer_user_id e = or_user_id r"
      using that tables(1) by (auto simp: record_order_event_def)
    then show ?thesis using assms r by (auto simp: get order_tables_ok_def)
  qed
  moreover have "distinct (map oer_event_id (db_order_events ?t))"
      "distinct (map (\<lambda>e. (oer_command_id e, oer_order_id e, oer_type e)) (db_order_events ?t))"
    using assms a(1) new tables(1) by (auto simp: order_tables_ok_def order_event_applies_def record_order_event_def)
  moreover have "map elr_event_id (filter (\<lambda>l. elr_type l = ORDER_CAT) (db_event_logs ?t)) = map oer_event_id (db_order_events ?t)"
    using assms tables by (simp add: order_tables_ok_def record_order_event_def)
  ultimately show ?thesis using a(2) by (simp add: order_tables_ok_def)
next
  case False
  then show ?thesis using handle_order_event_cases[of uuid ev db] assms by auto
qed

text \<open>The messages a run handles before it ends: all of them, or those before the first that does not decode.\<close>

lemma order_handler_run_fold:
  "order_handler_run uuid (map Some evs) db = (Inr (), fold (handle_order_event uuid) evs db)"
  by (induction evs arbitrary: db) simp_all

lemma order_handler_run_inv:
  assumes "\<And>ev db. P db \<Longrightarrow> P (handle_order_event uuid ev db)" "P db"
  shows "P (snd (order_handler_run uuid ms db))"
  using assms(2)
proof (induction ms arbitrary: db)
  case (Cons m ms)
  then show ?case by (cases m) (simp_all add: assms(1))
qed simp

section \<open>What the handlers promise\<close>

text \<open>
  C24. Whatever messages the order handler consumes, the tables stay consistent: every recorded event
  belongs to an existing order of the recorded user, no event id and no combination of command, order
  and type is recorded twice, and the event log lists exactly the recorded order events, in order.
\<close>

theorem order_handler_keeps_tables:
  assumes "order_tables_ok db"
  shows "order_tables_ok (snd (order_handler_run uuid ms db))"
  by (rule order_handler_run_inv[where P = order_tables_ok, OF order_tables_ok_handle assms])

definition sample_row :: order_row where
  "sample_row = \<lparr> or_order_id = ''a'', or_user_id = ''u'', or_group_id = None, or_parent_id = None, or_symbol = ''BTC'',
     or_side = BID, or_strategy = SINGLE, or_type = LIMIT, or_quantity = 10, or_executed = 0, or_limit = Some 100,
     or_stop = None, or_avg_fill = None, or_status = PENDING \<rparr>"

definition sample_db :: database where
  "sample_db = empty_db\<lparr> db_users := [''u''], db_orders := [(''a'', sample_row)],
     db_instruments := [\<lparr> ir_id = ''i'', ir_symbol = ''BTC'', ir_starting_price = 100, ir_status = ALIVE \<rparr>] \<rparr>"

definition sample_event :: "string \<Rightarrow> string \<Rightarrow> order_msg" where
  "sample_event i ty = \<lparr> om_type = Some ty, om_id = i, om_order_id = ''a'', om_command_id = ''c'', om_symbol = Some ''BTC'',
     om_order = True, om_executed = Some 10, om_limit = None, om_stop = None, om_reason = None, om_timestamp = 1 \<rparr>"

lemma sample_db_ok: "order_tables_ok sample_db"
  by (simp add: order_tables_ok_def sample_db_def empty_db_def orders_keyed_def sample_row_def)

theorem order_handler_keeps_tables_witness:
  "let t = snd (order_handler_run (\<lambda>_. True) [Some (sample_event ''e'' ''order_placed''), Some (sample_event ''f'' ''order_filled'')] sample_db)
   in order_tables_ok t \<and> map oer_event_id (db_order_events t) = [''e'', ''f''] \<and> map_option or_status (get_order t ''a'') = Some FILLED"
proof -
  let ?ms = "[Some (sample_event ''e'' ''order_placed''), Some (sample_event ''f'' ''order_filled'')]"
  let ?t = "snd (order_handler_run (\<lambda>_. True) ?ms sample_db)"
  have "map oer_event_id (db_order_events ?t) = [''e'', ''f'']" "map_option or_status (get_order ?t ''a'') = Some FILLED"
    by code_simp+
  then show ?thesis using order_handler_keeps_tables[OF sample_db_ok, of "\<lambda>_. True" ?ms] by (simp add: Let_def)
qed

text \<open>
  C25. Delivering an order event again changes nothing: at any later point of any run, handling an event
  that was applied before leaves the database as it is.
\<close>

theorem order_event_applied_once:
  assumes "om_type ev = Some ty" and "order_event_seen ty ev db"
  shows "handle_order_event uuid ev (snd (order_handler_run uuid ms db)) = snd (order_handler_run uuid ms db)"
proof -
  have "order_event_seen ty ev (handle_order_event uuid ev' d)" if "order_event_seen ty ev d" for ev' d
    using handle_order_event_cases[of uuid ev' d] that
    by (auto simp: order_event_seen_def record_order_event_def put_order_def)
  then have "order_event_seen ty ev (snd (order_handler_run uuid ms db))"
    by (rule order_handler_run_inv[where P = "order_event_seen ty ev", OF _ assms(2)])
  then show ?thesis
    using handle_order_event_cases[of uuid ev "snd (order_handler_run uuid ms db)"] seen_not_applies[OF assms(1)] by blast
qed

theorem order_event_applied_once_witness:
  "let ev = sample_event ''e'' ''order_placed''; d = handle_order_event (\<lambda>_. True) ev sample_db;
       t = snd (order_handler_run (\<lambda>_. True) [Some (sample_event ''f'' ''order_filled'')] d)
   in handle_order_event (\<lambda>_. True) ev t = t \<and> map_option or_status (get_order t ''a'') = Some FILLED"
proof -
  let ?ev = "sample_event ''e'' ''order_placed''"
  let ?d = "handle_order_event (\<lambda>_. True) ?ev sample_db"
  have "order_event_seen ''order_placed'' ?ev ?d" by code_simp
  moreover have "map_option or_status (get_order (snd (order_handler_run (\<lambda>_. True) [Some (sample_event ''f'' ''order_filled'')] ?d)) ''a'')
      = Some FILLED" by code_simp
  ultimately show ?thesis
    using order_event_applied_once[of ?ev "''order_placed''" ?d "\<lambda>_. True" "[Some (sample_event ''f'' ''order_filled'')]"]
    by (simp add: Let_def sample_event_def)
qed

text \<open>The row an event leaves, for every type but the partial fill.\<close>

definition order_after :: "string \<Rightarrow> order_msg \<Rightarrow> rat \<Rightarrow> order_row \<Rightarrow> order_row" where
  "order_after ty ev q r =
     (if ty = ''order_placed'' then r\<lparr> or_status := PLACED \<rparr>
      else if ty = ''order_cancelled'' then r\<lparr> or_status := CANCELLED \<rparr>
      else if ty = ''order_filled'' then r\<lparr> or_executed := q, or_status := FILLED \<rparr>
      else if ty = ''order_modified''
           then r\<lparr> or_limit := (if om_limit ev = None then or_limit r else om_limit ev),
                  or_stop := (if om_stop ev = None then or_stop r else om_stop ev) \<rparr>
      else r)"

lemma apply_order_after:
  assumes "ty \<in> set order_event_types" "ty \<noteq> ''order_partially_filled''" "om_executed ev = Some q"
  shows "apply_order_event ty ev r = Inr (order_after ty ev q r)"
proof -
  have "ty = ''order_placed'' \<or> ty = ''order_filled'' \<or> ty = ''order_modified'' \<or> ty = ''order_modify_rejected'' \<or> ty = ''order_cancelled''"
    using assms(1,2) by (auto simp: order_event_types_def)
  then show ?thesis
    using assms(3) by (elim disjE) (auto simp: apply_order_event_def order_after_def Let_def split: option.split)
qed

text \<open>
  C26. What a valid, new event does to its order: a placed, cancelled or filled event sets the status, a
  filled one also the executed quantity, a modified one the given prices, and no other order changes. A
  partial fill is never recorded: its handler reads a field the event does not have, and the whole
  session is rolled back.
\<close>

theorem order_event_effect:
  assumes "om_type ev = Some ty" and "ty \<in> set order_event_types" and "valid_order_msg uuid ty ev = Inr ()"
    and "order_tables_ok db" and "\<not> order_event_seen ty ev db" and "get_order db (om_order_id ev) = Some r"
    and "om_id ev \<notin> oer_event_id ` set (db_order_events db)" and "om_executed ev = Some q"
  shows "if ty = ''order_partially_filled'' then handle_order_event uuid ev db = db
         else \<forall>i. get_order (handle_order_event uuid ev db) i =
                (if i = om_order_id ev then Some (order_after ty ev q r) else get_order db i)"
proof (cases "ty = ''order_partially_filled''")
  case True
  then have "\<not> order_event_applies uuid ev ty' r'' r' db" for ty' r'' r'
    using assms(1) by (auto simp: order_event_applies_def apply_order_event_def)
  then show ?thesis using True handle_order_event_cases[of uuid ev db] by auto
next
  case False
  have k: "or_order_id r = om_order_id ev" using assms(4,6) by (auto simp: order_tables_ok_def dest: get_order_id)
  have ap: "apply_order_event ty ev r = Inr (order_after ty ev q r)" by (rule apply_order_after[OF assms(2) False assms(8)])
  then have k': "or_order_id (order_after ty ev q r) = om_order_id ev" using apply_keeps_keys k by metis
  have "handle_order_event uuid ev db = put_order (order_after ty ev q r) (record_order_event ty ev r db)"
    using assms ap by (simp add: handle_order_event_def in_session_def order_session_def)
  moreover have "get_order (record_order_event ty ev r db) j = get_order db j" for j
    by (simp add: get_order_def record_order_event_def)
  ultimately show ?thesis using False k' by (simp add: get_put_order)
qed

theorem order_event_effect_witness:
  "get_order (handle_order_event (\<lambda>_. True) (sample_event ''f'' ''order_filled'') sample_db) ''a'' =
     Some (sample_row\<lparr> or_executed := 10, or_status := FILLED \<rparr>)"
proof -
  have "get_order sample_db ''a'' = Some sample_row" by (simp add: sample_db_def get_order_def)
  moreover have "\<not> order_event_seen ''order_filled'' (sample_event ''f'' ''order_filled'') sample_db" by code_simp
  ultimately show ?thesis
    using order_event_effect[of "sample_event ''f'' ''order_filled''" "''order_filled''" "\<lambda>_. True" sample_db sample_row 10]
      sample_db_ok
    by (simp add: order_after_def sample_event_def order_event_types_def valid_order_msg_def sample_db_def empty_db_def)
qed

section \<open>Balance events in the database\<close>

definition asset_row :: "database \<Rightarrow> string \<Rightarrow> string \<Rightarrow> asset_balance_row option" where
  "asset_row db sy u = (case instrument_id db sy of None \<Rightarrow> None | Some i \<Rightarrow> map_of (db_assets db) (i, u))"

definition no_assets :: asset_balance_row where
  "no_assets = \<lparr> ab_balance = 0, ab_escrow = 0 \<rparr>"

definition assets_of :: "database \<Rightarrow> string \<Rightarrow> string \<Rightarrow> asset_balance_row" where
  "assets_of db sy u = (case asset_row db sy u of None \<Rightarrow> no_assets | Some r \<Rightarrow> r)"

definition instruments_distinct :: "database \<Rightarrow> bool" where
  "instruments_distinct db \<longleftrightarrow> (\<forall>sy sy' i. instrument_id db sy = Some i \<and> instrument_id db sy' = Some i \<longrightarrow> sy = sy')"

lemma instrument_id_put [simp]:
  "instrument_id (put_asset k r db) sy = instrument_id db sy"
  "instrument_id (record_balance_event ty u c ev db) sy = instrument_id db sy"
  by (simp_all add: instrument_id_def put_asset_def record_balance_event_def)

lemma assets_put [simp]:
  "db_assets (put_asset k r db) = dict_put (db_assets db) k r"
  "db_assets (record_balance_event ty u c ev db) = db_assets db"
  by (simp_all add: put_asset_def record_balance_event_def)

lemma asset_row_put:
  assumes "instruments_distinct db" "instrument_id db sy = Some i"
  shows "asset_row (put_asset (i, u) r db) sy' u' = (if sy' = sy \<and> u' = u then Some r else asset_row db sy' u')"
proof (cases "instrument_id db sy'")
  case None
  then show ?thesis using assms(2) by (auto simp: asset_row_def)
next
  case (Some i')
  have "i' = i \<longleftrightarrow> sy' = sy" using assms Some unfolding instruments_distinct_def by auto
  then show ?thesis using Some assms(2) by (simp add: asset_row_def map_of_dict_put)
qed

lemma asset_row_record [simp]: "asset_row (record_balance_event ty u c ev db) sy u' = asset_row db sy u'"
  by (simp add: asset_row_def split: option.split)

text \<open>What each type of event makes of the row of its user and instrument; \<open>None\<close> where there is none.\<close>

definition moved_assets :: "string \<Rightarrow> rat \<Rightarrow> asset_balance_row option \<Rightarrow> asset_balance_row option" where
  "moved_assets ty v row =
     (let r = (case row of None \<Rightarrow> no_assets | Some r \<Rightarrow> r)
      in if ty = ''asset_balance_increased'' \<or> ty = ''bid_settled'' then Some (r\<lparr> ab_balance := ab_balance r + v \<rparr>)
         else if ty = ''asset_escrow_increased'' then Some (r\<lparr> ab_escrow := ab_escrow r + v \<rparr>)
         else if ty = ''asset_balance_decreased'' then map_option (\<lambda>r. r\<lparr> ab_balance := ab_balance r - v \<rparr>) row
         else if ty = ''asset_escrow_decreased'' then map_option (\<lambda>r. r\<lparr> ab_escrow := ab_escrow r - v \<rparr>) row
         else row)"

definition moved_amount :: "string \<Rightarrow> balance_msg \<Rightarrow> rat" where
  "moved_amount ty ev = (case if ty = ''bid_settled'' then bm_increase ev else bm_amount ev of None \<Rightarrow> 0 | Some v \<Rightarrow> v)"

definition row_moved :: "string \<Rightarrow> rat \<Rightarrow> string \<Rightarrow> string \<Rightarrow> database \<Rightarrow> database \<Rightarrow> bool" where
  "row_moved ty v sy u db db' \<longleftrightarrow>
     (\<forall>sy' u'. asset_row db' sy' u' =
        (if sy' = sy \<and> u' = u \<and> instrument_id db sy \<noteq> None then moved_assets ty v (asset_row db sy u) else asset_row db sy' u'))"

lemma asset_updates:
  assumes "instruments_distinct db"
  shows "row_moved ''asset_balance_increased'' v sy u db (increase_db_balance u sy v db)"
    and "row_moved ''bid_settled'' v sy u db (increase_db_balance u sy v db)"
    and "row_moved ''asset_escrow_increased'' v sy u db (increase_db_escrow u sy v db)"
    and "row_moved ''asset_balance_decreased'' v sy u db (decrease_db_balance u sy v db)"
    and "row_moved ''asset_escrow_decreased'' v sy u db (decrease_db_escrow u sy v db)"
proof -
  note defs = row_moved_def moved_assets_def increase_db_balance_def increase_db_escrow_def decrease_db_balance_def
    decrease_db_escrow_def with_instrument_def no_assets_def
  have "row_moved ''asset_balance_increased'' v sy u db (increase_db_balance u sy v db)
    \<and> row_moved ''bid_settled'' v sy u db (increase_db_balance u sy v db)
    \<and> row_moved ''asset_escrow_increased'' v sy u db (increase_db_escrow u sy v db)
    \<and> row_moved ''asset_balance_decreased'' v sy u db (decrease_db_balance u sy v db)
    \<and> row_moved ''asset_escrow_decreased'' v sy u db (decrease_db_escrow u sy v db)"
  proof (cases "instrument_id db sy")
    case None
    then show ?thesis by (simp add: defs)
  next
    case (Some i)
    then have row: "asset_row db sy u = map_of (db_assets db) (i, u)" by (simp add: asset_row_def)
    show ?thesis using Some row
      by (cases "map_of (db_assets db) (i, u)") (simp_all add: defs asset_row_put[OF assms Some])
  qed
  then show "row_moved ''asset_balance_increased'' v sy u db (increase_db_balance u sy v db)"
    "row_moved ''bid_settled'' v sy u db (increase_db_balance u sy v db)"
    "row_moved ''asset_escrow_increased'' v sy u db (increase_db_escrow u sy v db)"
    "row_moved ''asset_balance_decreased'' v sy u db (decrease_db_balance u sy v db)"
    "row_moved ''asset_escrow_decreased'' v sy u db (decrease_db_escrow u sy v db)" by blast+
qed

lemma row_not_moved:
  assumes "ty \<notin> set asset_types" "ty \<noteq> ''bid_settled''"
  shows "row_moved ty v sy u db db"
  using assms by (simp add: row_moved_def moved_assets_def asset_types_def)

text \<open>The updates touch the table of assets only.\<close>

lemma only_assets:
  "\<exists>as. increase_db_balance u sy v db = db\<lparr> db_assets := as \<rparr>" "\<exists>as. decrease_db_balance u sy v db = db\<lparr> db_assets := as \<rparr>"
  "\<exists>as. increase_db_escrow u sy v db = db\<lparr> db_assets := as \<rparr>" "\<exists>as. decrease_db_escrow u sy v db = db\<lparr> db_assets := as \<rparr>"
  "\<exists>as. db = db\<lparr> db_assets := as \<rparr>"
proof -
  show same: "\<exists>as. db = db\<lparr> db_assets := as \<rparr>" by (rule exI[of _ "db_assets db"]) simp
  have put: "\<exists>as. put_asset k r db = db\<lparr> db_assets := as \<rparr>" for k r by (auto simp: put_asset_def)
  show "\<exists>as. increase_db_balance u sy v db = db\<lparr> db_assets := as \<rparr>" "\<exists>as. decrease_db_balance u sy v db = db\<lparr> db_assets := as \<rparr>"
    "\<exists>as. increase_db_escrow u sy v db = db\<lparr> db_assets := as \<rparr>" "\<exists>as. decrease_db_escrow u sy v db = db\<lparr> db_assets := as \<rparr>"
    using same put
    by (auto simp: increase_db_balance_def decrease_db_balance_def increase_db_escrow_def decrease_db_escrow_def with_instrument_def
        split: option.split)
qed

lemma adjust_effect:
  assumes "ty \<in> set balance_event_types" "ty \<noteq> ''ask_settled''" "valid_balance_msg uuid ty ev" "instruments_distinct db"
  shows "\<exists>db' as. adjust_asset_balance ty u ev db = Inr db' \<and> db' = db\<lparr> db_assets := as \<rparr>
     \<and> (case bm_symbol ev of
          None \<Rightarrow> db' = db
        | Some sy \<Rightarrow> row_moved ty (moved_amount ty ev) sy u db db')"
proof (cases "bm_symbol ev")
  case None
  then show ?thesis using only_assets(5)[of db] by (simp add: adjust_asset_balance_def)
next
  case (Some sy)
  show ?thesis
  proof (cases "ty \<in> set asset_types \<or> ty = ''bid_settled''")
    case True
    let ?v = "moved_amount ty ev"
    have ty: "ty = ''asset_balance_increased'' \<or> ty = ''asset_balance_decreased'' \<or> ty = ''asset_escrow_increased''
        \<or> ty = ''asset_escrow_decreased'' \<or> ty = ''bid_settled''"
      using True by (auto simp: asset_types_def)
    have "if ty = ''bid_settled'' then bm_increase ev = Some ?v else bm_amount ev = Some ?v"
      using ty assms(3) by (elim disjE) (auto simp: valid_balance_msg_def moved_amount_def asset_types_def)
    then have adj: "adjust_asset_balance ty u ev db = Inr
        (if ty = ''asset_balance_increased'' \<or> ty = ''bid_settled'' then increase_db_balance u sy ?v db
         else if ty = ''asset_balance_decreased'' then decrease_db_balance u sy ?v db
         else if ty = ''asset_escrow_increased'' then increase_db_escrow u sy ?v db else decrease_db_escrow u sy ?v db)"
      using ty Some by (elim disjE) (auto simp: adjust_asset_balance_def split: option.split)
    show ?thesis unfolding adj using ty Some asset_updates[OF assms(4)] only_assets(1-4)[of u sy ?v db]
      by (elim disjE) auto
  next
    case False
    then have "adjust_asset_balance ty u ev db = Inr db"
      using Some assms(2) by (auto simp: adjust_asset_balance_def asset_types_def split: option.split)
    then show ?thesis using Some False row_not_moved only_assets(5)[of db] by simp
  qed
qed

text \<open>
  C27. What a valid balance event of a known user does to the database, for every type. An ask settlement
  changes nothing: its handler reads a field the event lacks, and the session is rolled back. An event of a user, command
  and type that are already recorded together is dropped. Every other event is recorded, in the event table and in the log, and
  apart from that only the table of assets may change. There the row of the user and the event's
  instrument moves by exactly the amount and no other row changes: increases and bid settlements raise what they name and
  create the row when there is none, decreases lower it and leave a missing row missing, the cash events and
  the snapshot move no row, and an instrument that does not exist has no rows.
\<close>

theorem balance_event_effect:
  assumes "bm_type ev = Some ty" "bm_user_id ev = Some u" "bm_command_id ev = Some c"
    and "ty \<in> set balance_event_types" and "valid_balance_msg uuid ty ev" and "uuid c" and "uuid u"
    and "bm_id ev \<notin> ber_event_id ` set (db_balance_events db)" and "u \<in> set (db_users db)" and "instruments_distinct db"
  shows "if ty = ''ask_settled'' \<or> balance_event_seen ty u c db then handle_balance_event uuid ev db = db
     else (\<exists>as. handle_balance_event uuid ev db = (record_balance_event ty u c ev db)\<lparr> db_assets := as \<rparr>)
       \<and> (\<forall>sy' u'. asset_row (handle_balance_event uuid ev db) sy' u' =
            (if bm_symbol ev = Some sy' \<and> u' = u \<and> instrument_id db sy' \<noteq> None
             then moved_assets ty (moved_amount ty ev) (asset_row db sy' u)
             else asset_row db sy' u'))"
proof -
  let ?d = "record_balance_event ty u c ev db"
  have session: "handle_balance_event uuid ev db = snd (in_session (balance_session uuid ty u c ev) db)"
    using assms(1-5) by (simp add: handle_balance_event_def)
  have ask: "adjust_asset_balance ''ask_settled'' u ev ?d = Inl AttributeError" if "ty = ''ask_settled''"
    using that assms(5) by (auto simp: adjust_asset_balance_def valid_balance_msg_def split: option.splits)
  show ?thesis
  proof (cases "ty = ''ask_settled'' \<or> balance_event_seen ty u c db")
    case True
    then show ?thesis using assms(6,7) ask by (auto simp: session in_session_def balance_session_def)
  next
    case False
    have "instruments_distinct ?d" using assms(10) by (simp add: instruments_distinct_def)
    then obtain db' as where db': "adjust_asset_balance ty u ev ?d = Inr db'" "db' = ?d\<lparr> db_assets := as \<rparr>"
        "case bm_symbol ev of None \<Rightarrow> db' = ?d | Some sy \<Rightarrow> row_moved ty (moved_amount ty ev) sy u ?d db'"
      using adjust_effect[OF assms(4) _ assms(5)] False by blast
    then have run: "handle_balance_event uuid ev db = db'"
      using assms(6-9) False by (simp add: session in_session_def balance_session_def)
    have "asset_row db' sy' u' = (if bm_symbol ev = Some sy' \<and> u' = u \<and> instrument_id db sy' \<noteq> None
        then moved_assets ty (moved_amount ty ev) (asset_row db sy' u) else asset_row db sy' u')" for sy' u'
      using db'(3) by (auto simp: row_moved_def split: option.splits)
    then show ?thesis using False db'(2) by (auto simp: run)
  qed
qed

definition sample_assets :: database where
  "sample_assets = sample_db\<lparr> db_assets := [((''i'', ''u''), \<lparr> ab_balance = 5, ab_escrow = 0 \<rparr>)] \<rparr>"

definition sample_balance :: "string \<Rightarrow> string \<Rightarrow> rat \<Rightarrow> balance_msg" where
  "sample_balance i ty v = \<lparr> bm_type = Some ty, bm_id = i, bm_user_id = Some ''u'', bm_command_id = Some ''c'',
     bm_symbol = Some ''BTC'', bm_amount = Some v, bm_increase = Some v, bm_settled = True, bm_timestamp = 1 \<rparr>"

lemma sample_instruments: "instruments_distinct sample_assets"
  by (auto simp: instruments_distinct_def instrument_id_def sample_assets_def sample_db_def split: if_splits)

theorem balance_event_effect_witness:
  "let h = (\<lambda>ty. handle_balance_event (\<lambda>_. True) (sample_balance ''e'' ty 3)) in
   asset_row (h ''bid_settled'' sample_assets) ''BTC'' ''u'' = Some \<lparr> ab_balance = 8, ab_escrow = 0 \<rparr>
   \<and> asset_row (h ''asset_escrow_increased'' sample_db) ''BTC'' ''u'' = Some \<lparr> ab_balance = 0, ab_escrow = 3 \<rparr>
   \<and> asset_row (h ''asset_balance_decreased'' sample_db) ''BTC'' ''u'' = None \<and> h ''ask_settled'' sample_assets = sample_assets"
proof -
  have rows: "asset_row sample_assets ''BTC'' ''u'' = Some \<lparr> ab_balance = 5, ab_escrow = 0 \<rparr>" "asset_row sample_db ''BTC'' ''u'' = None"
    "instrument_id sample_assets ''BTC'' = Some ''i''" "instrument_id sample_db ''BTC'' = Some ''i''"
    by (simp_all add: asset_row_def instrument_id_def sample_assets_def sample_db_def empty_db_def)
  have "\<not> balance_event_seen ty ''u'' ''c'' sample_assets" "\<not> balance_event_seen ty ''u'' ''c'' sample_db" for ty
    by (simp_all add: balance_event_seen_def sample_assets_def sample_db_def empty_db_def)
  moreover have "instruments_distinct sample_db"
    by (auto simp: instruments_distinct_def instrument_id_def sample_db_def split: if_splits)
  moreover have "ty \<in> set balance_event_types \<Longrightarrow> valid_balance_msg (\<lambda>_. True) ty (sample_balance ''e'' ty 3)" for ty
    by (simp add: sample_balance_def valid_balance_msg_def)
  moreover have "ty \<in> set balance_event_types" if "ty \<in> {''bid_settled'', ''asset_escrow_increased'', ''asset_balance_decreased'', ''ask_settled''}" for ty
    using that by (auto simp: balance_event_types_def)
  ultimately show ?thesis
    using rows sample_instruments
      balance_event_effect[of "sample_balance ''e'' ''bid_settled'' 3" "''bid_settled''" "''u''" "''c''" "\<lambda>_. True" sample_assets]
      balance_event_effect[of "sample_balance ''e'' ''asset_escrow_increased'' 3" "''asset_escrow_increased''" "''u''" "''c''" "\<lambda>_. True" sample_db]
      balance_event_effect[of "sample_balance ''e'' ''asset_balance_decreased'' 3" "''asset_balance_decreased''" "''u''" "''c''" "\<lambda>_. True" sample_db]
      balance_event_effect[of "sample_balance ''e'' ''ask_settled'' 3" "''ask_settled''" "''u''" "''c''" "\<lambda>_. True" sample_assets]
    by (simp add: Let_def sample_balance_def moved_assets_def moved_amount_def no_assets_def sample_assets_def sample_db_def empty_db_def)
qed

text \<open>
  Two gaps of the balance mirror. An ask settlement never reaches the database: its handler reads a
  field the event lacks and the session is rolled back. And once an event of a user, command and type is
  recorded, every other event with these three is dropped, also one with its own id and amount, as the
  second settlement of an order that trades with two counterparties in one command.
\<close>

theorem balance_events_dropped:
  assumes "bm_type ev = Some ty" and "bm_user_id ev = Some u" and "bm_command_id ev = Some c"
    and "ty = ''ask_settled'' \<or> balance_event_seen ty u c db"
  shows "handle_balance_event uuid ev db = db"
proof (cases "balance_event_seen ty u c db")
  case True
  then show ?thesis using assms by (simp add: handle_balance_event_def in_session_def balance_session_def)
next
  case False
  then have ask: "ty = ''ask_settled''" using assms(4) by blast
  have "adjust_asset_balance ty u ev d = Inl AttributeError" if "valid_balance_msg uuid ty ev" for d
    using that ask by (auto simp: adjust_asset_balance_def valid_balance_msg_def split: option.splits)
  then show ?thesis
    using assms(1-3) False by (simp add: handle_balance_event_def in_session_def balance_session_def)
qed

theorem balance_events_dropped_witness:
  "let d = handle_balance_event (\<lambda>_. True) (sample_balance ''e'' ''bid_settled'' 3) sample_assets
   in handle_balance_event (\<lambda>_. True) (sample_balance ''f'' ''bid_settled'' 4) d = d
      \<and> ab_balance (assets_of d ''BTC'' ''u'') = 8"
proof -
  let ?d = "handle_balance_event (\<lambda>_. True) (sample_balance ''e'' ''bid_settled'' 3) sample_assets"
  have "balance_event_seen ''bid_settled'' ''u'' ''c'' ?d" "ab_balance (assets_of ?d ''BTC'' ''u'') = 8" by code_simp+
  then show ?thesis
    using balance_events_dropped[of "sample_balance ''f'' ''bid_settled'' 4" "''bid_settled''" "''u''" "''c''" ?d "\<lambda>_. True"]
    by (simp add: Let_def sample_balance_def)
qed

section \<open>Routing\<close>

definition routed :: "topics \<Rightarrow> 'v fan_msg \<Rightarrow> (string \<times> 'v \<times> (string \<times> string) list) list" where
  "routed tp m =
     (case Option.bind (map_of (fm_headers m) ''event_category'') (category_topic tp) of
        None \<Rightarrow> [] | Some t \<Rightarrow> [(t, fm_value m, fm_headers m)])"

definition traded :: "'v fan_msg \<Rightarrow> (string \<times> rat) list" where
  "traded m = (if map_of (fm_headers m) ''event_category'' = Some ''trade''
               then (case fm_trade m of None \<Rightarrow> [] | Some sp \<Rightarrow> [sp]) else [])"

definition put_price :: "string \<times> rat \<Rightarrow> (string \<Rightarrow> rat option) \<Rightarrow> string \<Rightarrow> rat option" where
  "put_price sp prices = prices(fst sp \<mapsto> snd sp)"

text \<open>
  As long as every trade message decodes, the fan-out forwards each message of a known category to
  the topic of its category, once and in the order received, drops the others, and leaves for every
  symbol the price of its last trade.
\<close>

theorem fanout_routes_in_order:
  assumes "\<forall>m \<in> set ms. map_of (fm_headers m) ''event_category'' = Some ''trade'' \<longrightarrow> fm_trade m \<noteq> None"
  shows "fs_sent (fanout_run tp ms s) = fs_sent s @ concat (map (routed tp) ms)
         \<and> map_of (fs_prices (fanout_run tp ms s)) =
             fold put_price (concat (map traded ms)) (map_of (fs_prices s))"
  using assms
proof (induction ms arbitrary: s)
  case (Cons m ms)
  show ?case
  proof (cases "map_of (fm_headers m) ''event_category''")
    case None
    then show ?thesis using Cons by (simp add: routed_def traded_def)
  next
    case (Some c)
    then have m: "routed tp m = (case category_topic tp c of None \<Rightarrow> [] | Some t \<Rightarrow> [(t, fm_value m, fm_headers m)])"
        "traded m = (if c = ''trade'' then (case fm_trade m of None \<Rightarrow> [] | Some sp \<Rightarrow> [sp]) else [])"
      by (simp_all add: routed_def traded_def)
    have put: "(map_of ps)(sy \<mapsto> p) = put_price (sy, p) (map_of ps)" for ps :: "(string \<times> rat) list" and sy p
      by (simp add: put_price_def)
    have trade: "category_topic tp ''trade'' = Some (instrument_topic tp)" by (simp add: category_topic_def)
    show ?thesis
    proof (cases "c = ''trade''")
      case True
      then obtain sy p where "fm_trade m = Some (sy, p)" using Cons.prems Some by auto
      then show ?thesis using Cons Some True trade by (simp add: m map_of_dict_put put Let_def)
    next
      case False
      then show ?thesis using Cons Some by (cases "category_topic tp c") (simp_all add: m Let_def)
    qed
  qed
qed simp

theorem fanout_routes_in_order_witness:
  "let tp = \<lparr> balance_topic = ''b'', order_topic = ''o'', instrument_topic = ''i'' \<rparr>;
       h = (\<lambda>c. [(''event_category'', c)]);
       ms = [\<lparr> fm_headers = h ''trade'', fm_value = 1, fm_trade = Some (''BTC'', 7) \<rparr>,
             \<lparr> fm_headers = h ''command'', fm_value = 2, fm_trade = None \<rparr>,
             \<lparr> fm_headers = h ''order'', fm_value = (3::nat), fm_trade = None \<rparr>];
       t = fanout_run tp ms \<lparr> fs_sent = [], fs_prices = [] \<rparr>
   in map (\<lambda>(t, v, _). (t, v)) (fs_sent t) = [(''i'', 1), (''o'', 3)] \<and> map_of (fs_prices t) ''BTC'' = Some 7"
proof -
  let ?tp = "\<lparr> balance_topic = ''b'', order_topic = ''o'', instrument_topic = ''i'' \<rparr>"
  let ?ms = "[\<lparr> fm_headers = [(''event_category'', ''trade'')], fm_value = 1, fm_trade = Some (''BTC'', 7) \<rparr>,
             \<lparr> fm_headers = [(''event_category'', ''command'')], fm_value = 2, fm_trade = None \<rparr>,
             \<lparr> fm_headers = [(''event_category'', ''order'')], fm_value = (3::nat), fm_trade = None \<rparr>]"
  show ?thesis
    using fanout_routes_in_order[of ?ms ?tp "\<lparr> fs_sent = [], fs_prices = [] \<rparr>"]
    by (simp add: Let_def routed_def traded_def category_topic_def put_price_def)
qed

end
