(* ===== verification/Book_Publisher.thy ===== *)
theory Book_Publisher imports Database begin

text \<open>
  \<open>services/orderbook_publisher\<close>: the aggregated book that is rebuilt from the database, kept up to date
  from order and trade events, and published as snapshots.

  A level dictionary maps a price to a quantity; the price is \<open>None\<close> when an order has neither a limit
  nor a stop price. The sections under a lock are single steps. A message carries its decoded fields,
  with the defaults the code gives missing ones, and \<open>bk_valid\<close> tells whether the event class accepts
  it. The clock and Kafka are arguments and results.
\<close>

section \<open>State\<close>

type_synonym levels_dict = "(rat option \<times> rat) list"

record order_info =
  oi_price :: "rat option"
  oi_side :: side
  oi_remaining :: rat

record book_state =
  bs_bids :: levels_dict
  bs_asks :: levels_dict
  bs_last_snapshot :: rat

record publisher =
  pb_books :: "(string \<times> book_state) list"
  pb_active :: "(string \<times> order_info) list"

definition new_book :: book_state where
  "new_book = \<lparr> bs_bids = [], bs_asks = [], bs_last_snapshot = 0 \<rparr>"

definition book_of :: "publisher \<Rightarrow> string \<Rightarrow> book_state" where
  "book_of s sy = (case map_of (pb_books s) sy of None \<Rightarrow> new_book | Some b \<Rightarrow> b)"

definition book_side :: "book_state \<Rightarrow> side \<Rightarrow> levels_dict" where
  "book_side b sd = (case sd of BID \<Rightarrow> bs_bids b | ASK \<Rightarrow> bs_asks b)"

definition put_side :: "side \<Rightarrow> levels_dict \<Rightarrow> book_state \<Rightarrow> book_state" where
  "put_side sd l b = (case sd of BID \<Rightarrow> b\<lparr> bs_bids := l \<rparr> | ASK \<Rightarrow> b\<lparr> bs_asks := l \<rparr>)"

text \<open>Updating one side of one book; the default dictionary creates a missing book.\<close>

definition on_side :: "string \<Rightarrow> side \<Rightarrow> (levels_dict \<Rightarrow> levels_dict) \<Rightarrow> publisher \<Rightarrow> publisher" where
  "on_side sy sd f s =
     (let b = book_of s sy
      in s\<lparr> pb_books := dict_put (pb_books s) sy (put_side sd (f (book_side b sd)) b) \<rparr>)"

definition level_qty :: "levels_dict \<Rightarrow> rat option \<Rightarrow> rat" where
  "level_qty l p = (case map_of l p of None \<Rightarrow> 0 | Some q \<Rightarrow> q)"

definition increment_level :: "rat option \<Rightarrow> rat \<Rightarrow> levels_dict \<Rightarrow> levels_dict" where
  "increment_level p q l = dict_put l p (level_qty l p + q)"

definition dust :: rat where
  "dust = 1 / 100000000"

definition decrement_level :: "rat option \<Rightarrow> rat \<Rightarrow> levels_dict \<Rightarrow> levels_dict" where
  "decrement_level p q l =
     (case map_of l p of
        None \<Rightarrow> l
      | Some v \<Rightarrow> if v - q \<le> dust then dict_pop l p else dict_put l p (v - q))"

definition price_or :: "rat option \<Rightarrow> rat option \<Rightarrow> rat option" where
  "price_or lp sp = (if lp = None \<or> lp = Some 0 then sp else lp)"

section \<open>Messages\<close>

record book_msg =
  bk_type :: string
  bk_valid :: bool
  bk_symbol :: string
  bk_order_id :: string
  bk_executed :: rat
  bk_quantity :: rat
  bk_limit :: "rat option"
  bk_stop :: "rat option"
  bk_side :: side
  bk_role :: liquidity_role
  bk_traded :: rat

definition handle_order_placed :: "book_msg \<Rightarrow> publisher \<Rightarrow> publisher" where
  "handle_order_placed ev s =
     (let price = price_or (bk_limit ev) (bk_stop ev);
          resting = bk_quantity ev - bk_executed ev
      in if resting \<le> 0 then s
         else (on_side (bk_symbol ev) (bk_side ev) (increment_level price resting) s)
                \<lparr> pb_active := dict_put (pb_active s) (bk_order_id ev)
                    \<lparr> oi_price = price, oi_side = bk_side ev, oi_remaining = resting \<rparr> \<rparr>)"

definition handle_order_cancelled :: "book_msg \<Rightarrow> publisher \<Rightarrow> publisher" where
  "handle_order_cancelled ev s =
     (case map_of (pb_active s) (bk_order_id ev) of
        None \<Rightarrow> s
      | Some info \<Rightarrow>
          on_side (bk_symbol ev) (oi_side info) (decrement_level (oi_price info) (oi_remaining info))
            (s\<lparr> pb_active := dict_pop (pb_active s) (bk_order_id ev) \<rparr>))"

definition handle_trade :: "book_msg \<Rightarrow> publisher \<Rightarrow> publisher" where
  "handle_trade ev s =
     (if bk_role ev \<noteq> MAKER then s
      else case map_of (pb_active s) (bk_order_id ev) of
             None \<Rightarrow> s
           | Some info \<Rightarrow>
               let new_qty = oi_remaining info - bk_traded ev;
                   s1 = on_side (bk_symbol ev) (oi_side info) (decrement_level (oi_price info) (bk_traded ev)) s
               in s1\<lparr> pb_active :=
                        (if new_qty \<le> dust then dict_pop (pb_active s) (bk_order_id ev)
                         else dict_put (pb_active s) (bk_order_id ev) (info\<lparr> oi_remaining := new_qty \<rparr>)) \<rparr>)"

text \<open>One message of \<open>_consume_loop\<close>: what does not decode or validate is skipped.\<close>

definition consume_book_msg :: "book_msg option \<Rightarrow> publisher \<Rightarrow> publisher" where
  "consume_book_msg m s =
     (case m of
        None \<Rightarrow> s
      | Some ev \<Rightarrow>
          if \<not> bk_valid ev then s
          else if bk_type ev = ''order_placed'' then handle_order_placed ev s
          else if bk_type ev = ''order_cancelled'' then handle_order_cancelled ev s
          else if bk_type ev = ''instrument_new_trade'' then handle_trade ev s
          else s)"

section \<open>Rehydration\<close>

definition rehydrate_order :: "order_row \<Rightarrow> publisher \<Rightarrow> publisher" where
  "rehydrate_order r s =
     (let remaining = or_quantity r - or_executed r;
          price = price_or (or_limit r) (or_stop r)
      in if 0 < remaining
         then (on_side (or_symbol r) (or_side r) (increment_level price remaining) s)
                \<lparr> pb_active := dict_put (pb_active s) (or_order_id r)
                    \<lparr> oi_price = price, oi_side = or_side r, oi_remaining = remaining \<rparr> \<rparr>
         else s)"

definition rehydrate_state :: "database \<Rightarrow> publisher \<Rightarrow> publisher" where
  "rehydrate_state db s =
     fold rehydrate_order
       (filter (\<lambda>r. (or_status r = PLACED \<or> or_status r = PARTIALLY_FILLED) \<and> or_type r \<noteq> MARKET)
          (map snd (db_orders db))) s"

section \<open>Snapshots\<close>

record snapshot =
  sn_symbol :: string
  sn_bids :: "(rat \<times> rat) list"
  sn_asks :: "(rat \<times> rat) list"

definition live_levels :: "levels_dict \<Rightarrow> levels_dict" where
  "live_levels l = filter (\<lambda>pq. 0 < snd pq) l"

text \<open>
  Sorting by price raises when a missing price meets another; a lone missing price passes the sort and
  fails the validation of the event.
\<close>

definition sorted_levels :: "bool \<Rightarrow> levels_dict \<Rightarrow> exn + (rat \<times> rat) list" where
  "sorted_levels reverse l =
     (let ls = live_levels l
      in if list_ex (\<lambda>pq. fst pq = None) ls
         then Inl (if length ls = 1 then ValidationError else TypeError)
         else let s = sort_key fst (map (\<lambda>(p, q). (the p, q)) ls)
              in Inr (take 20 (if reverse then rev s else s)))"

text \<open>Both sides are sorted before the event is validated.\<close>

definition publish_snapshot :: "string \<Rightarrow> book_state \<Rightarrow> exn + snapshot" where
  "publish_snapshot sy b =
     (case (sorted_levels True (bs_bids b), sorted_levels False (bs_asks b)) of
        (Inr bids, Inr asks) \<Rightarrow> Inr \<lparr> sn_symbol = sy, sn_bids = bids, sn_asks = asks \<rparr>
      | (bids, asks) \<Rightarrow> Inl (if bids = Inl TypeError \<or> asks = Inl TypeError then TypeError else ValidationError))"

text \<open>The section of \<open>_snapshot_loop\<close> for one symbol, with the two readings of the clock.\<close>

definition snapshot_symbol ::
    "rat \<Rightarrow> rat \<Rightarrow> rat \<Rightarrow> string \<Rightarrow> publisher \<Rightarrow> exn + snapshot list \<times> publisher" where
  "snapshot_symbol interval now later sy s =
     (let b = book_of s sy
      in if interval \<le> now - bs_last_snapshot b
         then (case publish_snapshot sy b of
                 Inl e \<Rightarrow> Inl e
               | Inr sn \<Rightarrow> Inr ([sn], s\<lparr> pb_books := dict_put (pb_books s) sy (b\<lparr> bs_last_snapshot := later \<rparr>) \<rparr>))
         else Inr ([], s))"

definition loop_sleep :: "rat \<Rightarrow> rat \<Rightarrow> rat" where
  "loop_sleep interval elapsed = max (1 / 10) (interval - elapsed)"

section \<open>Sorting\<close>

lemma distinct_keys_live: "distinct (map fst l) \<Longrightarrow> distinct (map fst (live_levels l))"
  by (simp add: live_levels_def distinct_map_filter)

lemma strictly_sorted_key:
  assumes "distinct (map fst xs)"
  shows "sorted_wrt (<) (map fst (sort_key fst (xs :: (rat \<times> rat) list)))"
proof -
  have "distinct (map fst (sort_key fst xs))"
    using assms by (metis distinct_map distinct_sort set_sort)
  moreover have "sorted (map fst (sort_key fst xs))" by simp
  ultimately show ?thesis by (simp add: strict_sorted_iff)
qed

lemma take_of_sorted:
  assumes "sorted_wrt R xs" "x \<in> set xs" "x \<notin> set (take n xs)" "y \<in> set (take n xs)"
  shows "R y x"
proof -
  have "xs = take n xs @ drop n xs" by simp
  moreover from this have "x \<in> set (drop n xs)" using assms(2,3) by (metis Un_iff set_append)
  ultimately show ?thesis using assms(1,4) by (metis sorted_wrt_append)
qed

section \<open>The levels and the orders behind them\<close>

text \<open>
  \<open>sm\<close> names the instrument of every order. \<open>behind\<close> is the quantity of the active orders at a symbol,
  side and price.
\<close>

definition contrib :: "(string \<Rightarrow> string) \<Rightarrow> string \<Rightarrow> side \<Rightarrow> rat option \<Rightarrow> string \<times> order_info \<Rightarrow> rat" where
  "contrib sm sy sd p a =
     (if sm (fst a) = sy \<and> oi_side (snd a) = sd \<and> oi_price (snd a) = p then oi_remaining (snd a) else 0)"

definition behind :: "(string \<Rightarrow> string) \<Rightarrow> (string \<times> order_info) list \<Rightarrow> string \<Rightarrow> side \<Rightarrow> rat option \<Rightarrow> rat" where
  "behind sm act sy sd p = sum_list (map (contrib sm sy sd p) act)"

lemma behind_put_new: "i \<notin> fst ` set act \<Longrightarrow> behind sm (dict_put act i a) sy sd p = behind sm act sy sd p + contrib sm sy sd p (i, a)"
  by (induction act) (auto simp: behind_def)

lemma behind_put:
  "map_of act i = Some a \<Longrightarrow>
   behind sm (dict_put act i b) sy sd p = behind sm act sy sd p - contrib sm sy sd p (i, a) + contrib sm sy sd p (i, b)"
  by (induction act) (auto simp: behind_def split: if_splits)

lemma behind_pop:
  "distinct (map fst act) \<Longrightarrow> map_of act i = Some a \<Longrightarrow>
   behind sm (dict_pop act i) sy sd p = behind sm act sy sd p - contrib sm sy sd p (i, a)"
proof (induction act)
  case (Cons x act)
  show ?case
  proof (cases "fst x = i")
    case True
    then have "dict_pop act i = act" using Cons.prems(1) by (auto intro: dict_pop_absent)
    then show ?thesis using True Cons.prems(2) by (cases x) (auto simp: behind_def dict_pop_def)
  next
    case False
    then show ?thesis using Cons by (auto simp: behind_def dict_pop_def)
  qed
qed simp

definition in_lots :: "rat \<Rightarrow> rat \<Rightarrow> bool" where
  "in_lots lot q \<longleftrightarrow> (\<exists>k. q = of_nat k * lot)"

lemma in_lots_0 [simp]: "in_lots lot 0"
  by (auto simp: in_lots_def intro: exI[of _ 0])

lemma in_lots_add: "in_lots lot a \<Longrightarrow> in_lots lot b \<Longrightarrow> in_lots lot (a + b)"
  unfolding in_lots_def by (metis distrib_right of_nat_add)

lemma in_lots_diff: "0 < lot \<Longrightarrow> in_lots lot a \<Longrightarrow> in_lots lot b \<Longrightarrow> b \<le> a \<Longrightarrow> in_lots lot (a - b)"
proof -
  assume lot: "0 < lot" and "in_lots lot a" "in_lots lot b" and le: "b \<le> a"
  then obtain m n where ab: "a = of_nat m * lot" "b = of_nat n * lot" by (auto simp: in_lots_def)
  then have "n \<le> m" using le lot by simp
  then have "a - b = of_nat (m - n) * lot" by (simp add: ab left_diff_distrib of_nat_diff)
  then show ?thesis unfolding in_lots_def by blast
qed

lemma in_lots_dust:
  assumes "dust < lot" "in_lots lot q"
  shows "q \<le> dust \<longleftrightarrow> q = 0"
proof -
  obtain k where k: "q = of_nat k * lot" using assms(2) by (auto simp: in_lots_def)
  have d: "0 < dust" by (simp add: dust_def)
  show ?thesis
  proof (cases k)
    case 0
    then show ?thesis using k d by simp
  next
    case (Suc n)
    then have "lot \<le> q" using k assms(1) d by simp
    then show ?thesis using assms(1) d by auto
  qed
qed

definition pub_ok :: "(string \<Rightarrow> string) \<Rightarrow> rat \<Rightarrow> publisher \<Rightarrow> bool" where
  "pub_ok sm lot s \<longleftrightarrow>
     distinct (map fst (pb_active s))
     \<and> (\<forall>(i, a) \<in> set (pb_active s). in_lots lot (oi_remaining a) \<and> 0 < oi_remaining a)
     \<and> (\<forall>sy sd. distinct (map fst (book_side (book_of s sy) sd)))
     \<and> (\<forall>sy sd p. level_qty (book_side (book_of s sy) sd) p = behind sm (pb_active s) sy sd p)"

lemma behind_lots:
  "\<forall>(i, a) \<in> set act. in_lots lot (oi_remaining a) \<and> 0 < oi_remaining a \<Longrightarrow>
   in_lots lot (behind sm act sy sd p) \<and> 0 \<le> behind sm act sy sd p"
  by (induction act) (auto simp: behind_def contrib_def in_lots_add)

lemma behind_ge:
  "\<forall>(i, a) \<in> set act. in_lots lot (oi_remaining a) \<and> 0 < oi_remaining a \<Longrightarrow> x \<in> set act \<Longrightarrow>
   contrib sm sy sd p x \<le> behind sm act sy sd p"
proof (induction act)
  case (Cons y act)
  then have "0 \<le> behind sm act sy sd p" "0 \<le> contrib sm sy sd p y"
    using behind_lots[of act lot sm sy sd p] by (auto simp: contrib_def)
  then show ?case using Cons by (auto simp: behind_def)
qed simp

section \<open>Updating a side\<close>

lemma book_side_put [simp]: "book_side (put_side sd l b) sd' = (if sd' = sd then l else book_side b sd')"
  by (cases sd; cases sd') (simp_all add: book_side_def put_side_def)

lemma book_on_side:
  "book_side (book_of (on_side sy sd f s) sy') sd' =
     (if sy' = sy \<and> sd' = sd then f (book_side (book_of s sy) sd) else book_side (book_of s sy') sd')"
  by (simp add: on_side_def book_of_def[of "s\<lparr> pb_books := x \<rparr>" for x] map_of_dict_put Let_def)
     (simp add: book_of_def)

lemma book_of_active [simp]: "book_of (s\<lparr> pb_active := x \<rparr>) sy = book_of s sy"
  by (simp add: book_of_def)

lemma on_side_active [simp]: "pb_active (on_side sy sd f s) = pb_active s"
  by (simp add: on_side_def Let_def)

lemma on_side_later: "on_side sy sd f (s\<lparr> pb_active := x \<rparr>) = (on_side sy sd f s)\<lparr> pb_active := x \<rparr>"
  by (simp add: on_side_def Let_def)

lemma level_qty_increment: "level_qty (increment_level p q l) p' = level_qty l p' + (if p' = p then q else 0)"
  by (simp add: increment_level_def level_qty_def map_of_dict_put)

lemma level_qty_decrement:
  assumes "dust < lot" "in_lots lot (level_qty l p - q)" "level_qty l p \<noteq> 0"
  shows "level_qty (decrement_level p q l) p' = level_qty l p' - (if p' = p then q else 0)"
proof -
  obtain v where v: "map_of l p = Some v" using assms(3) by (cases "map_of l p") (auto simp: level_qty_def)
  then have "v - q \<le> dust \<longleftrightarrow> v - q = 0" using in_lots_dust[OF assms(1,2)] by (simp add: level_qty_def)
  then show ?thesis using v by (auto simp: decrement_level_def level_qty_def map_of_dict_put map_of_dict_pop)
qed

lemma distinct_levels: "distinct (map fst l) \<Longrightarrow> distinct (map fst (increment_level p q l))"
  "distinct (map fst l) \<Longrightarrow> distinct (map fst (decrement_level p q l))"
  by (auto simp: increment_level_def decrement_level_def distinct_dict_put distinct_dict_pop split: option.split)

text \<open>Taking a quantity off an active order and off its level at the same time.\<close>

lemma take_off:
  assumes ok: "pub_ok sm lot s" and lot: "dust < lot" and a: "map_of (pb_active s) i = Some a"
    and q: "in_lots lot q" "q \<le> oi_remaining a"
    and act: "act = (if oi_remaining a = q then dict_pop (pb_active s) i
                     else dict_put (pb_active s) i (a\<lparr> oi_remaining := oi_remaining a - q \<rparr>))"
  shows "pub_ok sm lot ((on_side (sm i) (oi_side a) (decrement_level (oi_price a) q) s)\<lparr> pb_active := act \<rparr>)"
proof -
  let ?b = "behind sm (pb_active s) (sm i) (oi_side a) (oi_price a)"
  have lot0: "0 < lot" using lot by (simp add: dust_def)
  have all: "\<forall>(i, a) \<in> set (pb_active s). in_lots lot (oi_remaining a) \<and> 0 < oi_remaining a"
    and d: "distinct (map fst (pb_active s))" using ok by (auto simp: pub_ok_def)
  have mem: "(i, a) \<in> set (pb_active s)" using a by (rule map_of_SomeD)
  then have ra: "in_lots lot (oi_remaining a)" "0 < oi_remaining a" using all by auto
  have "oi_remaining a \<le> ?b" using behind_ge[OF all mem, of sm "sm i" "oi_side a" "oi_price a"] by (simp add: contrib_def)
  then have b: "?b \<noteq> 0" "in_lots lot (?b - q)"
    using ra q behind_lots[OF all, of sm "sm i" "oi_side a" "oi_price a"] in_lots_diff[OF lot0, of ?b q] by auto
  have sums: "behind sm act sy sd p =
      behind sm (pb_active s) sy sd p - (if sy = sm i \<and> sd = oi_side a \<and> p = oi_price a then q else 0)" for sy sd p
    using behind_pop[OF d a] behind_put[OF a] by (auto simp: act contrib_def)
  have levels: "level_qty (book_side (book_of s sy) sd) p = behind sm (pb_active s) sy sd p" for sy sd p
    using ok by (simp add: pub_ok_def)
  have "\<forall>(j, c) \<in> set act. in_lots lot (oi_remaining c) \<and> 0 < oi_remaining c"
    using all ra q in_lots_diff[OF lot0 ra(1) q(1,2)]
    by (auto simp: act dict_pop_def dest!: set_dict_put split: if_splits)
  moreover have "distinct (map fst act)" using d by (simp add: act distinct_dict_put distinct_dict_pop)
  moreover have "level_qty (decrement_level (oi_price a) q (book_side (book_of s (sm i)) (oi_side a))) p =
      behind sm (pb_active s) (sm i) (oi_side a) p - (if p = oi_price a then q else 0)" for p
    using level_qty_decrement[OF lot, of "book_side (book_of s (sm i)) (oi_side a)" "oi_price a" q p] b by (simp add: levels)
  ultimately show ?thesis
    using ok by (auto simp: pub_ok_def book_on_side sums levels distinct_levels)
qed

section \<open>Messages keep the levels\<close>

definition msg_fits :: "(string \<Rightarrow> string) \<Rightarrow> rat \<Rightarrow> publisher \<Rightarrow> book_msg option \<Rightarrow> bool" where
  "msg_fits sm lot s m \<longleftrightarrow>
     (case m of
        None \<Rightarrow> True
      | Some ev \<Rightarrow>
          bk_symbol ev = sm (bk_order_id ev)
          \<and> (bk_type ev = ''order_placed'' \<longrightarrow>
               bk_order_id ev \<notin> fst ` set (pb_active s)
               \<and> (bk_quantity ev \<le> bk_executed ev \<or> in_lots lot (bk_quantity ev - bk_executed ev)))
          \<and> (bk_type ev = ''instrument_new_trade'' \<longrightarrow>
               in_lots lot (bk_traded ev)
               \<and> (\<forall>a. map_of (pb_active s) (bk_order_id ev) = Some a \<longrightarrow> bk_traded ev \<le> oi_remaining a)))"

lemma placed_ok:
  assumes "pub_ok sm lot s" "bk_symbol ev = sm (bk_order_id ev)" "bk_order_id ev \<notin> fst ` set (pb_active s)"
    and "bk_quantity ev \<le> bk_executed ev \<or> in_lots lot (bk_quantity ev - bk_executed ev)"
  shows "pub_ok sm lot (handle_order_placed ev s)"
proof (cases "bk_quantity ev \<le> bk_executed ev")
  case True
  then show ?thesis using assms(1) by (simp add: handle_order_placed_def Let_def)
next
  case False
  let ?q = "bk_quantity ev - bk_executed ev" and ?p = "price_or (bk_limit ev) (bk_stop ev)"
  let ?a = "\<lparr> oi_price = ?p, oi_side = bk_side ev, oi_remaining = ?q \<rparr>"
  have e: "handle_order_placed ev s = (on_side (bk_symbol ev) (bk_side ev) (increment_level ?p ?q) s)
      \<lparr> pb_active := dict_put (pb_active s) (bk_order_id ev) ?a \<rparr>"
    using False by (simp add: handle_order_placed_def Let_def)
  have "\<forall>(j, c) \<in> set (dict_put (pb_active s) (bk_order_id ev) ?a). in_lots lot (oi_remaining c) \<and> 0 < oi_remaining c"
    using assms(1,4) False by (auto simp: pub_ok_def dest!: set_dict_put)
  then show ?thesis
    unfolding e using assms(1)
    by (auto simp: pub_ok_def book_on_side level_qty_increment distinct_levels distinct_dict_put
          behind_put_new[OF assms(3)] contrib_def assms(2))
qed

lemma cancelled_ok:
  assumes "pub_ok sm lot s" "dust < lot" "bk_symbol ev = sm (bk_order_id ev)"
  shows "pub_ok sm lot (handle_order_cancelled ev s)"
proof (cases "map_of (pb_active s) (bk_order_id ev)")
  case None
  then show ?thesis using assms(1) by (simp add: handle_order_cancelled_def)
next
  case (Some a)
  have "in_lots lot (oi_remaining a)" using assms(1) map_of_SomeD[OF Some] by (auto simp: pub_ok_def)
  from take_off[OF assms(1,2) Some this order.refl refl] show ?thesis
    using Some assms(3) by (simp add: handle_order_cancelled_def on_side_later)
qed

lemma trade_ok:
  assumes "pub_ok sm lot s" "dust < lot" "bk_symbol ev = sm (bk_order_id ev)" "in_lots lot (bk_traded ev)"
    and "\<forall>a. map_of (pb_active s) (bk_order_id ev) = Some a \<longrightarrow> bk_traded ev \<le> oi_remaining a"
  shows "pub_ok sm lot (handle_trade ev s)"
proof (cases "bk_role ev = MAKER \<and> map_of (pb_active s) (bk_order_id ev) \<noteq> None")
  case False
  then show ?thesis using assms(1) by (auto simp: handle_trade_def split: option.split)
next
  case True
  then obtain a where a: "map_of (pb_active s) (bk_order_id ev) = Some a" and m: "bk_role ev = MAKER" by auto
  have le: "bk_traded ev \<le> oi_remaining a" using assms(5) a by blast
  have lot0: "0 < lot" using assms(2) by (simp add: dust_def)
  have "in_lots lot (oi_remaining a)" using assms(1) map_of_SomeD[OF a] by (auto simp: pub_ok_def)
  from in_lots_diff[OF lot0 this assms(4) le]
  have "oi_remaining a - bk_traded ev \<le> dust \<longleftrightarrow> oi_remaining a = bk_traded ev"
    using in_lots_dust[OF assms(2)] by simp
  with take_off[OF assms(1,2) a assms(4) le refl] show ?thesis
    using a m assms(3) by (simp add: handle_trade_def Let_def)
qed

lemma consume_ok:
  assumes "pub_ok sm lot s" "dust < lot" "msg_fits sm lot s m"
  shows "pub_ok sm lot (consume_book_msg m s)"
  using assms placed_ok[of sm lot s] cancelled_ok[of sm lot s] trade_ok[of sm lot s]
  by (auto simp: consume_book_msg_def msg_fits_def split: option.splits)

fun stream_fits :: "(string \<Rightarrow> string) \<Rightarrow> rat \<Rightarrow> book_msg option list \<Rightarrow> publisher \<Rightarrow> bool" where
  "stream_fits sm lot [] s = True"
| "stream_fits sm lot (m # ms) s = (msg_fits sm lot s m \<and> stream_fits sm lot ms (consume_book_msg m s))"

lemma stream_ok:
  "pub_ok sm lot s \<Longrightarrow> dust < lot \<Longrightarrow> stream_fits sm lot ms s \<Longrightarrow> pub_ok sm lot (fold consume_book_msg ms s)"
  by (induction ms arbitrary: s) (auto intro: consume_ok)

text \<open>Rehydrating an order has the effect of the event that placed it.\<close>

definition placed_msg :: "order_row \<Rightarrow> book_msg" where
  "placed_msg r =
     \<lparr> bk_type = ''order_placed'', bk_valid = True, bk_symbol = or_symbol r, bk_order_id = or_order_id r,
       bk_executed = or_executed r, bk_quantity = or_quantity r, bk_limit = or_limit r, bk_stop = or_stop r,
       bk_side = or_side r, bk_role = MAKER, bk_traded = 0 \<rparr>"

definition resting_rows :: "database \<Rightarrow> order_row list" where
  "resting_rows db =
     filter (\<lambda>r. (or_status r = PLACED \<or> or_status r = PARTIALLY_FILLED) \<and> or_type r \<noteq> MARKET) (map snd (db_orders db))"

lemma rehydrate_is_placed: "rehydrate_order r s = consume_book_msg (Some (placed_msg r)) s"
  by (simp add: rehydrate_order_def consume_book_msg_def placed_msg_def handle_order_placed_def Let_def)

lemma rehydrate_stream: "rehydrate_state db s = fold consume_book_msg (map (Some \<circ> placed_msg) (resting_rows db)) s"
proof -
  have "fold rehydrate_order rs s = fold consume_book_msg (map (Some \<circ> placed_msg) rs) s" for rs
    by (induction rs arbitrary: s) (simp_all add: rehydrate_is_placed)
  then show ?thesis by (simp add: rehydrate_state_def resting_rows_def)
qed

definition no_books :: publisher where
  "no_books = \<lparr> pb_books = [], pb_active = [] \<rparr>"

lemma no_books_ok: "pub_ok sm lot no_books"
  by (simp add: pub_ok_def no_books_def book_of_def new_book_def book_side_def behind_def level_qty_def split: side.split)

section \<open>What the publisher promises\<close>

text \<open>
  C28. The aggregated book is the sum of the orders behind it: rebuilt from the resting orders of the
  database and then fed any stream of messages, each level holds exactly the remaining quantities of
  the active orders of that instrument, side and price. The stream must make sense: an order is placed
  once, its events name its own instrument, it trades at most what remains, and quantities come in lots
  larger than the threshold below which the code deletes a level.
\<close>

theorem published_levels_are_sums:
  assumes "dust < lot" and "stream_fits sm lot (map (Some \<circ> placed_msg) (resting_rows db) @ ms) no_books"
  defines "s \<equiv> fold consume_book_msg ms (rehydrate_state db no_books)"
  shows "level_qty (book_side (book_of s sy) sd) p =
           (\<Sum>(i, a) \<leftarrow> pb_active s. if sm i = sy \<and> oi_side a = sd \<and> oi_price a = p then oi_remaining a else 0)"
proof -
  have "s = fold consume_book_msg (map (Some \<circ> placed_msg) (resting_rows db) @ ms) no_books"
    by (simp add: s_def rehydrate_stream)
  then have "pub_ok sm lot s" using stream_ok[OF no_books_ok assms(1,2)] by simp
  moreover have "behind sm (pb_active s) sy sd p =
      (\<Sum>(i, a) \<leftarrow> pb_active s. if sm i = sy \<and> oi_side a = sd \<and> oi_price a = p then oi_remaining a else 0)"
    unfolding behind_def by (intro arg_cong[where f = sum_list] map_cong refl) (auto simp: contrib_def)
  ultimately show ?thesis by (simp add: pub_ok_def)
qed

definition sample_placed :: "string \<Rightarrow> side \<Rightarrow> rat \<Rightarrow> rat \<Rightarrow> book_msg" where
  "sample_placed i sd q p =
     \<lparr> bk_type = ''order_placed'', bk_valid = True, bk_symbol = ''BTC'', bk_order_id = i, bk_executed = 0,
       bk_quantity = q, bk_limit = Some p, bk_stop = None, bk_side = sd, bk_role = MAKER, bk_traded = 0 \<rparr>"

definition sample_stream :: "book_msg option list" where
  "sample_stream =
     [Some (sample_placed ''a'' BID 10 100), None, Some (sample_placed ''b'' BID 5 100),
      Some ((sample_placed ''a'' BID 0 0)\<lparr> bk_type := ''instrument_new_trade'', bk_traded := 4 \<rparr>)]"

theorem published_levels_are_sums_witness:
  "level_qty (book_side (book_of (fold consume_book_msg sample_stream (rehydrate_state empty_db no_books)) ''BTC'') BID) (Some 100) = 11"
proof -
  let ?s = "fold consume_book_msg sample_stream (rehydrate_state empty_db no_books)"
  have lots: "in_lots 1 10" "in_lots 1 5" "in_lots 1 4"
    by (auto simp: in_lots_def intro: exI[of _ 10] exI[of _ 5] exI[of _ 4])
  have "stream_fits (\<lambda>_. ''BTC'') 1 (map (Some \<circ> placed_msg) (resting_rows empty_db) @ sample_stream) no_books"
    using lots
    by (simp add: sample_stream_def sample_placed_def msg_fits_def consume_book_msg_def handle_order_placed_def
          handle_trade_def no_books_def price_or_def resting_rows_def empty_db_def Let_def)
  from published_levels_are_sums[OF _ this, of "''BTC''" BID "Some 100"]
  have "level_qty (book_side (book_of ?s ''BTC'') BID) (Some 100) =
      (\<Sum>(i, a) \<leftarrow> pb_active ?s. if oi_side a = BID \<and> oi_price a = Some 100 then oi_remaining a else 0)"
    by (simp add: dust_def)
  moreover have "pb_active ?s = [(''a'', \<lparr> oi_price = Some 100, oi_side = BID, oi_remaining = 6 \<rparr>),
                                 (''b'', \<lparr> oi_price = Some 100, oi_side = BID, oi_remaining = 5 \<rparr>)]"
    by (simp add: sample_stream_def sample_placed_def consume_book_msg_def handle_order_placed_def handle_trade_def
          no_books_def price_or_def rehydrate_state_def empty_db_def dust_def Let_def)
  ultimately show ?thesis by simp
qed

text \<open>
  What the first twenty levels of a side are: live levels with their quantities, strictly ordered by price from the best
  one on (bids from the highest, asks from the lowest), and a live level is missing only when twenty better ones are there.
\<close>

definition ahead :: "side \<Rightarrow> rat \<Rightarrow> rat \<Rightarrow> bool" where
  "ahead sd p p' = (case sd of BID \<Rightarrow> p' < p | ASK \<Rightarrow> p < p')"

lemma ahead_simps [simp]: "ahead BID p p' \<longleftrightarrow> p' < p" "ahead ASK p p' \<longleftrightarrow> p < p'"
  by (simp_all add: ahead_def)

definition best_levels :: "side \<Rightarrow> levels_dict \<Rightarrow> (rat \<times> rat) list \<Rightarrow> bool" where
  "best_levels sd l xs \<longleftrightarrow>
     length xs \<le> 20 \<and> sorted_wrt (ahead sd) (map fst xs)
     \<and> (\<forall>(p, q) \<in> set xs. 0 < q \<and> map_of l (Some p) = Some q)
     \<and> (\<forall>p q. map_of l (Some p) = Some q \<and> 0 < q \<and> (p, q) \<notin> set xs \<longrightarrow>
          length xs = 20 \<and> (\<forall>(p', q') \<in> set xs. ahead sd p' p))"

lemma sorted_levels_best:
  assumes "distinct (map fst l)" and "sorted_levels (sd = BID) l = Inr xs"
  shows "best_levels sd l xs"
proof -
  let ?ls = "live_levels l"
  let ?ys = "map (\<lambda>(p, q). (the p, q)) ?ls"
  let ?ss = "if sd = BID then rev (sort_key fst ?ys) else sort_key fst ?ys"
  let ?R = "ahead sd"
  have some: "\<forall>pq \<in> set ?ls. fst pq \<noteq> None" and xs: "xs = take 20 ?ss"
    using assms(2) by (auto simp: sorted_levels_def Let_def list_ex_iff split: if_splits)
  have inj: "inj_on the (fst ` set ?ls)" using some by (intro inj_onI) (metis imageE option.expand)
  have "map fst ?ys = map the (map fst ?ls)" by (simp add: case_prod_beta)
  moreover have "distinct (map the (map fst ?ls))"
    using distinct_keys_live[OF assms(1)] inj by (subst distinct_map) simp
  ultimately have dy: "distinct (map fst ?ys)" by metis
  have mem: "(p, q) \<in> set ?ss \<longleftrightarrow> map_of l (Some p) = Some q \<and> 0 < q" for p q
  proof -
    have "(p, q) \<in> set ?ss \<longleftrightarrow> (Some p, q) \<in> set ?ls" using some by force
    also have "\<dots> \<longleftrightarrow> map_of l (Some p) = Some q \<and> 0 < q"
      using assms(1) by (auto simp: live_levels_def)
    finally show ?thesis .
  qed
  have srt: "sorted_wrt (\<lambda>x y. ?R (fst x) (fst y)) ?ss"
    using strictly_sorted_key[OF dy] by (cases sd) (auto simp: sorted_wrt_rev sorted_wrt_map)
  then have "sorted_wrt (\<lambda>x y. ?R (fst x) (fst y)) xs" unfolding xs by (rule sorted_wrt_take)
  moreover have "set xs \<subseteq> set ?ss" unfolding xs by (rule set_take_subset)
  moreover have "length xs = 20 \<and> (\<forall>(p', q') \<in> set xs. ?R p' p)" if "(p, q) \<in> set ?ss" "(p, q) \<notin> set xs" for p q
  proof -
    have "?R (fst y) p" if "y \<in> set xs" for y
      using take_of_sorted[OF srt \<open>(p, q) \<in> set ?ss\<close>, of 20 y] that \<open>(p, q) \<notin> set xs\<close>
      by (simp add: xs)
    moreover have "\<not> length ?ss \<le> 20" using that xs by auto
    ultimately show ?thesis by (auto simp: xs)
  qed
  ultimately show ?thesis using mem by (fastforce simp: best_levels_def xs sorted_wrt_map)
qed

lemma sorted_levels_fails:
  assumes "distinct (map fst l)" "sorted_levels rv l = Inl e"
  shows "\<exists>q. map_of l None = Some q \<and> 0 < q"
proof -
  obtain q where "(None, q) \<in> set (live_levels l)"
    using assms(2) by (force simp: sorted_levels_def Let_def list_ex_iff split: if_splits)
  then show ?thesis using assms(1) by (auto simp: live_levels_def)
qed

lemma consume_distinct:
  assumes "\<And>sy sd. distinct (map fst (book_side (book_of s sy) sd))"
  shows "distinct (map fst (book_side (book_of (consume_book_msg m s) sy) sd))"
  using assms
  by (auto simp: consume_book_msg_def handle_order_placed_def handle_order_cancelled_def handle_trade_def Let_def
        book_on_side distinct_levels split: option.split)

lemma stream_distinct:
  "(\<And>sy sd. distinct (map fst (book_side (book_of s sy) sd))) \<Longrightarrow>
   distinct (map fst (book_side (book_of (fold consume_book_msg ms s) sy) sd))"
proof (induction ms arbitrary: s)
  case (Cons m ms)
  show ?case using Cons.IH[of "consume_book_msg m s"] consume_distinct[OF Cons.prems, of m] by simp
qed simp

lemma publisher_distinct:
  "distinct (map fst (book_side (book_of (fold consume_book_msg ms (rehydrate_state db no_books)) sy) sd))"
proof -
  have "distinct (map fst (book_side (book_of no_books sy) sd))" for sy sd
    by (simp add: no_books_def book_of_def new_book_def book_side_def split: side.split)
  from stream_distinct[OF stream_distinct[OF this]] show ?thesis unfolding rehydrate_stream .
qed

text \<open>
  C29. What a snapshot publishes, whatever the database held and whatever messages came since: under the symbol, the
  bids of its book as their first twenty live levels with the highest price first, and the asks as theirs with the lowest
  price first. Taking it raises only when a side has a live level without a price.
\<close>

theorem snapshot_shows_best_levels:
  "let b = book_of (fold consume_book_msg ms (rehydrate_state db no_books)) sy in
   case publish_snapshot sy b of
     Inr sn \<Rightarrow> sn_symbol sn = sy \<and> best_levels BID (book_side b BID) (sn_bids sn) \<and> best_levels ASK (book_side b ASK) (sn_asks sn)
   | Inl e \<Rightarrow> \<exists>sd q. map_of (book_side b sd) None = Some q \<and> 0 < q"
proof -
  let ?b = "book_of (fold consume_book_msg ms (rehydrate_state db no_books)) sy"
  have d: "distinct (map fst (book_side ?b sd))" for sd by (rule publisher_distinct)
  have sides: "book_side ?b BID = bs_bids ?b" "book_side ?b ASK = bs_asks ?b" by (simp_all add: book_side_def)
  show ?thesis
  proof (cases "publish_snapshot sy ?b")
    case (Inl e)
    then obtain sd rv e' where "sorted_levels rv (book_side ?b sd) = Inl e'"
      unfolding publish_snapshot_def sides[symmetric] by (auto split: sum.splits)
    from sorted_levels_fails[OF d this] show ?thesis unfolding Let_def Inl sum.case by (rule exI)
  next
    case (Inr sn)
    then have "sorted_levels True (book_side ?b BID) = Inr (sn_bids sn)" "sorted_levels False (book_side ?b ASK) = Inr (sn_asks sn)"
        "sn_symbol sn = sy"
      unfolding publish_snapshot_def sides by (auto split: sum.splits)
    then show ?thesis using sorted_levels_best[OF d, of BID] sorted_levels_best[OF d, of ASK] by (simp add: Let_def Inr)
  qed
qed

theorem snapshot_shows_best_levels_witness:
  "let b = book_of (fold consume_book_msg [Some (sample_placed ''a'' BID 5 100), Some (sample_placed ''b'' BID 1 120),
              Some (sample_placed ''c'' ASK 2 150), Some (sample_placed ''d'' ASK 3 130)] (rehydrate_state empty_db no_books)) ''BTC''
   in publish_snapshot ''BTC'' b =
        Inr \<lparr> sn_symbol = ''BTC'', sn_bids = [(120, 1), (100, 5)], sn_asks = [(130, 3), (150, 2)] \<rparr>
      \<and> best_levels BID (book_side b BID) [(120, 1), (100, 5)] \<and> best_levels ASK (book_side b ASK) [(130, 3), (150, 2)]"
proof -
  let ?ms = "[Some (sample_placed ''a'' BID 5 100), Some (sample_placed ''b'' BID 1 120),
              Some (sample_placed ''c'' ASK 2 150), Some (sample_placed ''d'' ASK 3 130)]"
  have "publish_snapshot ''BTC'' (book_of (fold consume_book_msg ?ms (rehydrate_state empty_db no_books)) ''BTC'') =
      Inr \<lparr> sn_symbol = ''BTC'', sn_bids = [(120, 1), (100, 5)], sn_asks = [(130, 3), (150, 2)] \<rparr>" by code_simp
  then show ?thesis using snapshot_shows_best_levels[of ?ms empty_db "''BTC''"] by (simp add: Let_def)
qed

text \<open>
  An order without a price breaks the publisher: once such an order rests, taking a snapshot of its
  instrument raises, and the snapshot loop ends with the exception.
\<close>

theorem priceless_order_breaks_snapshot:
  assumes "bk_valid ev" and "bk_type ev = ''order_placed''" and "bk_limit ev = None" and "bk_stop ev = None"
    and "bk_executed ev < bk_quantity ev" and "0 \<le> level_qty (book_side (book_of s (bk_symbol ev)) (bk_side ev)) None"
    and "interval \<le> now - bs_last_snapshot (book_of (consume_book_msg (Some ev) s) (bk_symbol ev))"
  shows "\<exists>e. snapshot_symbol interval now later (bk_symbol ev) (consume_book_msg (Some ev) s) = Inl e"
proof -
  let ?t = "consume_book_msg (Some ev) s"
  let ?b = "book_of ?t (bk_symbol ev)"
  have t: "book_side ?b (bk_side ev) =
      increment_level None (bk_quantity ev - bk_executed ev) (book_side (book_of s (bk_symbol ev)) (bk_side ev))"
    using assms(1-5) by (simp add: consume_book_msg_def handle_order_placed_def price_or_def Let_def book_on_side)
  then have "map_of (book_side ?b (bk_side ev)) None \<noteq> None \<and> 0 < level_qty (book_side ?b (bk_side ev)) None"
    using assms(5,6) level_qty_increment[of None _ _ None] by (simp add: increment_level_def map_of_dict_put)
  then obtain q where "(None, q) \<in> set (live_levels (book_side ?b (bk_side ev)))"
    using map_of_SomeD by (fastforce simp: level_qty_def live_levels_def)
  then have "list_ex (\<lambda>pq. fst pq = None) (live_levels (book_side ?b (bk_side ev)))" by (force simp: list_ex_iff)
  then have bad: "\<exists>e. sorted_levels rv (book_side ?b (bk_side ev)) = Inl e" for rv
    by (simp add: sorted_levels_def Let_def)
  obtain e1 e2 where "sorted_levels True (book_side ?b (bk_side ev)) = Inl e1"
      "sorted_levels False (book_side ?b (bk_side ev)) = Inl e2" using bad by blast
  then have "\<exists>e. publish_snapshot (bk_symbol ev) ?b = Inl e"
    by (cases "bk_side ev") (auto simp: publish_snapshot_def book_side_def split: sum.split)
  then show ?thesis using assms(7) by (auto simp: snapshot_symbol_def Let_def)
qed

theorem priceless_order_breaks_snapshot_witness:
  "\<exists>e. snapshot_symbol (1 / 2) 1 1 ''BTC''
         (consume_book_msg (Some ((sample_placed ''a'' BID 10 100)\<lparr> bk_limit := None \<rparr>)) no_books) = Inl e"
proof -
  let ?ev = "(sample_placed ''a'' BID 10 100)\<lparr> bk_limit := None \<rparr>"
  have "bs_last_snapshot (book_of (consume_book_msg (Some ?ev) no_books) ''BTC'') = 0"
    by (simp add: sample_placed_def consume_book_msg_def handle_order_placed_def on_side_def book_of_def no_books_def
          new_book_def put_side_def Let_def)
  then show ?thesis
    using priceless_order_breaks_snapshot[of ?ev no_books "1 / 2" 1 1]
    by (simp add: sample_placed_def level_qty_def book_of_def no_books_def new_book_def book_side_def)
qed

end
