(* ===== verification/Order_Api.thy ===== *)
theory Order_Api imports Database begin

text \<open>
  The order endpoints: the request models (\<open>api/routers/orders/models.py\<close>), the service that stores the
  orders and publishes the command (\<open>service/service.py\<close>) and the router.

  The state is the database, the number of UUIDs drawn and the commands put on the engine topic, each
  with the symbol it is keyed by. \<open>gen n\<close> is the \<open>n\<close>-th UUID, \<open>uuid\<close> the parser of UUIDs. A handler runs in one session: an
  exception rolls the database back, while what was committed or sent before it stays. An HTTP error
  is a value of \<open>api_error\<close>; an exception the handler does not catch is \<open>Uncaught\<close>.
  Rows are in the order of their creation time.
\<close>

section \<open>Requests\<close>

record order_spec =
  sp_type :: order_type
  sp_side :: side
  sp_quantity :: rat
  sp_limit :: "rat option"
  sp_stop :: "rat option"

datatype create_request =
    SingleOrderCreate (req_strategy: strategy_type) (req_symbol: string) (req_order: order_spec)
  | OCOOrderCreate (req_strategy: strategy_type) (req_symbol: string) (req_legs: "order_spec list")
  | OTOOrderCreate (req_strategy: strategy_type) (req_symbol: string) (req_parent: order_spec) (req_child: order_spec)
  | OTOCOOrderCreate (req_strategy: strategy_type) (req_symbol: string) (req_parent: order_spec) (req_legs: "order_spec list")

definition positive_if_given :: "rat option \<Rightarrow> bool" where
  "positive_if_given v = (case v of None \<Rightarrow> True | Some p \<Rightarrow> 0 < p)"

text \<open>The bound on the quantity is misspelt (\<open>g=0\<close>) and has no effect.\<close>

definition validate_order :: "order_spec \<Rightarrow> exn + order_spec" where
  "validate_order sp =
     (if sp_type sp = MARKET \<or> \<not> positive_if_given (sp_limit sp) \<or> \<not> positive_if_given (sp_stop sp)
      then Inl ValidationError
      else let q = round2 (sp_quantity sp)
           in if q \<noteq> 0 then Inr (sp\<lparr> sp_quantity := q \<rparr>) else Inl ValidationError)"

fun validate_orders :: "order_spec list \<Rightarrow> exn + order_spec list" where
  "validate_orders [] = Inr []"
| "validate_orders (sp # sps) =
     (case validate_order sp of
        Inl e \<Rightarrow> Inl e
      | Inr v \<Rightarrow> (case validate_orders sps of Inl e \<Rightarrow> Inl e | Inr vs \<Rightarrow> Inr (v # vs)))"

definition validate_oco :: "order_spec list \<Rightarrow> exn + order_spec list" where
  "validate_oco legs =
     (case validate_orders legs of
        Inl e \<Rightarrow> Inl e
      | Inr vs \<Rightarrow> if length vs \<noteq> 2 \<or> list_ex (\<lambda>o1. sp_type o1 = MARKET) vs then Inl ValidationError else Inr vs)"

definition validate_oto :: "order_spec \<Rightarrow> order_spec \<Rightarrow> exn + order_spec \<times> order_spec" where
  "validate_oto pa ch =
     (case validate_order pa of
        Inl e \<Rightarrow> Inl e
      | Inr p \<Rightarrow>
          (case validate_order ch of
             Inl e \<Rightarrow> Inl e
           | Inr c \<Rightarrow>
               if sp_type c = MARKET then Inl ValidationError
               else if sp_quantity p \<noteq> sp_quantity c then Inl ValueError
               else if sp_side p = sp_side c then Inl ValueError
               else Inr (p, c)))"

definition validate_otoco :: "order_spec \<Rightarrow> order_spec list \<Rightarrow> exn + order_spec \<times> order_spec list" where
  "validate_otoco pa legs =
     (case validate_order pa of
        Inl e \<Rightarrow> Inl e
      | Inr p \<Rightarrow>
          (case validate_orders legs of
             Inl e \<Rightarrow> Inl e
           | Inr vs \<Rightarrow>
               if length vs \<noteq> 2 then Inl ValidationError
               else if list_ex (\<lambda>leg. sp_quantity leg \<noteq> sp_quantity p) vs then Inl ValueError
               else if list_ex (\<lambda>leg. sp_type leg = MARKET) vs then Inl ValueError
               else if list_ex (\<lambda>leg. sp_side leg = sp_side p) vs then Inl ValueError
               else Inr (p, vs)))"

definition validate_request :: "create_request \<Rightarrow> exn + create_request" where
  "validate_request rq =
     (case rq of
        SingleOrderCreate st sy sp \<Rightarrow>
          (case validate_order sp of Inl e \<Rightarrow> Inl e | Inr v \<Rightarrow> Inr (SingleOrderCreate st sy v))
      | OCOOrderCreate st sy legs \<Rightarrow>
          (case validate_oco legs of Inl e \<Rightarrow> Inl e | Inr vs \<Rightarrow> Inr (OCOOrderCreate st sy vs))
      | OTOOrderCreate st sy p c \<Rightarrow>
          (case validate_oto p c of Inl e \<Rightarrow> Inl e | Inr (p', c') \<Rightarrow> Inr (OTOOrderCreate st sy p' c'))
      | OTOCOOrderCreate st sy p legs \<Rightarrow>
          (case validate_otoco p legs of Inl e \<Rightarrow> Inl e | Inr (p', vs) \<Rightarrow> Inr (OTOCOOrderCreate st sy p' vs)))"

section \<open>The service\<close>

record api =
  api_db :: database
  api_drawn :: nat
  api_sent :: "(string \<times> command) list"

definition uuid4 :: "(nat \<Rightarrow> string) \<Rightarrow> (api, string) act" where
  "uuid4 gen = (\<lambda>s. (Inr (gen (api_drawn s)), s\<lparr> api_drawn := Suc (api_drawn s) \<rparr>))"

definition put_command :: "(nat \<Rightarrow> string) \<Rightarrow> command_body \<Rightarrow> string \<Rightarrow> (api, unit) act" where
  "put_command gen b sy =
     and_then (uuid4 gen) (\<lambda>c. upd (\<lambda>s. s\<lparr> api_sent := api_sent s @ [(sy, \<lparr> cmd_id = c, cmd_body = b \<rparr>)] \<rparr>))"

definition build_db_order :: "string \<Rightarrow> string \<Rightarrow> order_spec \<Rightarrow> string \<Rightarrow> strategy_type \<Rightarrow> order_row" where
  "build_db_order sy u sp i st =
     \<lparr> or_order_id = i, or_user_id = u, or_group_id = None, or_parent_id = None, or_symbol = sy,
       or_side = sp_side sp, or_strategy = st, or_type = sp_type sp, or_quantity = sp_quantity sp,
       or_executed = 0, or_limit = sp_limit sp, or_stop = sp_stop sp, or_avg_fill = None, or_status = PENDING \<rparr>"

definition to_order_dict :: "string \<Rightarrow> string \<Rightarrow> order_spec \<Rightarrow> string \<Rightarrow> strategy_type \<Rightarrow> order_dict" where
  "to_order_dict i u sp sy st =
     \<lparr> od_order_id = i, od_user_id = u, od_symbol = sy, od_side = sp_side sp, od_order_type = sp_type sp,
       od_quantity = sp_quantity sp, od_limit_price = sp_limit sp, od_stop_price = sp_stop sp,
       od_status = ''pending'', od_strategy_type = st, od_executed_quantity = Some 0, od_avg_fill_price = None \<rparr>"

text \<open>
  Adding the new rows and committing; the user must exist and the ids be unused. The session of a request is the block
  \<open>async with smaker.begin()\<close> of \<open>depends_db_sess\<close>: committing inside the block closes its transaction, and SQLAlchemy
  then refuses every further statement of the session with an \<open>InvalidRequestError\<close>, a \<open>refresh\<close> too.
\<close>

datatype transaction = OpenTransaction | ClosedTransaction

definition commit_orders :: "order_row list \<Rightarrow> (api, transaction) act" where
  "commit_orders rows = ask (\<lambda>s.
     if list_ex (\<lambda>r. or_user_id r \<notin> set (db_users (api_db s)) \<or> or_order_id r \<in> fst ` set (db_orders (api_db s))) rows
     then raise IntegrityError
     else and_then (upd (\<lambda>s. s\<lparr> api_db := (api_db s)\<lparr> db_orders := db_orders (api_db s) @ map (\<lambda>r. (or_order_id r, r)) rows \<rparr> \<rparr>)) (\<lambda>_.
          ret ClosedTransaction))"

definition refresh_order :: "transaction \<Rightarrow> order_row \<Rightarrow> (api, unit) act" where
  "refresh_order tx r = (case tx of OpenTransaction \<Rightarrow> ret () | ClosedTransaction \<Rightarrow> raise InvalidRequestError)"

text \<open>A single order is not refreshed (the call is commented out); its dictionary also carries the creation time, which is not modelled.\<close>

definition create_single :: "(nat \<Rightarrow> string) \<Rightarrow> string \<Rightarrow> create_request \<Rightarrow> (api, order_row list) act" where
  "create_single gen u rq =
     (case rq of
        SingleOrderCreate st sy sp \<Rightarrow>
          and_then (uuid4 gen) (\<lambda>i.
          let r = build_db_order sy u sp i SINGLE
          in and_then (commit_orders [r]) (\<lambda>_.
             and_then (put_command gen (NewOrderCommand SINGLE (NewSingle (to_order_dict i u sp sy SINGLE))) sy) (\<lambda>_.
             ret [r])))
      | _ \<Rightarrow> raise AttributeError)"

text \<open>The loop over the legs of a group: each draws its id.\<close>

fun draw_legs :: "(nat \<Rightarrow> string) \<Rightarrow> 'a list \<Rightarrow> (api, (string \<times> 'a) list) act" where
  "draw_legs gen [] = ret []"
| "draw_legs gen (sp # sps) =
     and_then (uuid4 gen) (\<lambda>i. and_then (draw_legs gen sps) (\<lambda>rest. ret ((i, sp) # rest)))"

definition leg_row :: "string \<Rightarrow> string \<Rightarrow> string \<Rightarrow> string option \<Rightarrow> strategy_type \<Rightarrow> string \<times> order_spec \<Rightarrow> order_row" where
  "leg_row sy u g pa st leg =
     (build_db_order sy u (snd leg) (fst leg) st)\<lparr> or_group_id := Some g, or_parent_id := pa \<rparr>"

definition leg_dict :: "string \<Rightarrow> string \<Rightarrow> strategy_type \<Rightarrow> string \<times> order_spec \<Rightarrow> order_dict" where
  "leg_dict sy u st leg = to_order_dict (fst leg) u (snd leg) sy st"

definition create_oco :: "(nat \<Rightarrow> string) \<Rightarrow> string \<Rightarrow> create_request \<Rightarrow> (api, order_row list) act" where
  "create_oco gen u rq =
     and_then (uuid4 gen) (\<lambda>g.
       case rq of
         OCOOrderCreate st sy specs \<Rightarrow>
           and_then (draw_legs gen specs) (\<lambda>legs.
           let rows = map (leg_row sy u g None OCO) legs
           in and_then (commit_orders rows) (\<lambda>tx.
              and_then (run_all (map (refresh_order tx) rows)) (\<lambda>_.
              and_then (put_command gen (NewOrderCommand OCO (NewOCO (map (leg_dict sy u OCO) legs))) sy) (\<lambda>_.
              ret rows))))
       | _ \<Rightarrow> raise AttributeError)"

definition create_oto :: "(nat \<Rightarrow> string) \<Rightarrow> string \<Rightarrow> create_request \<Rightarrow> (api, order_row list) act" where
  "create_oto gen u rq =
     and_then (uuid4 gen) (\<lambda>g. and_then (uuid4 gen) (\<lambda>p.
       case rq of
         OTOOrderCreate st sy ps cs \<Rightarrow>
           and_then (uuid4 gen) (\<lambda>c.
           let rows = [leg_row sy u g None OTO (p, ps), leg_row sy u g (Some p) OTO (c, cs)]
           in and_then (commit_orders rows) (\<lambda>tx.
              and_then (run_all (map (refresh_order tx) rows)) (\<lambda>_.
              and_then (put_command gen
                (NewOrderCommand OTO (NewOTO (leg_dict sy u OTO (p, ps)) (leg_dict sy u OTO (c, cs)))) sy) (\<lambda>_.
              ret rows))))
       | _ \<Rightarrow> raise AttributeError))"

definition create_otoco :: "(nat \<Rightarrow> string) \<Rightarrow> string \<Rightarrow> create_request \<Rightarrow> (api, order_row list) act" where
  "create_otoco gen u rq =
     and_then (uuid4 gen) (\<lambda>g. and_then (uuid4 gen) (\<lambda>p.
       case rq of
         OTOCOOrderCreate st sy ps specs \<Rightarrow>
           and_then (draw_legs gen specs) (\<lambda>legs.
           let rows = leg_row sy u g None OTOCO (p, ps) # map (leg_row sy u g (Some p) OTOCO) legs
           in and_then (commit_orders rows) (\<lambda>tx.
              and_then (run_all (map (refresh_order tx) rows)) (\<lambda>_.
              and_then (put_command gen
                (NewOrderCommand OTOCO (NewOTOCO (leg_dict sy u OTOCO (p, ps)) (map (leg_dict sy u OTOCO) legs))) sy) (\<lambda>_.
              ret rows))))
       | _ \<Rightarrow> raise AttributeError))"

definition create :: "(nat \<Rightarrow> string) \<Rightarrow> (string \<Rightarrow> bool) \<Rightarrow> string \<Rightarrow> create_request \<Rightarrow> (api, order_row list) act" where
  "create gen uuid u rq =
     (if \<not> uuid u then raise ValueError
      else case req_strategy rq of
        SINGLE \<Rightarrow> create_single gen u rq
      | OCO \<Rightarrow> create_oco gen u rq
      | OTO \<Rightarrow> create_oto gen u rq
      | OTOCO \<Rightarrow> create_otoco gen u rq)"

section \<open>The router\<close>

text \<open>The four creation endpoints: the request is validated (422), a \<open>ValueError\<close> becomes 400.\<close>

definition create_order ::
    "(nat \<Rightarrow> string) \<Rightarrow> (string \<Rightarrow> bool) \<Rightarrow> string \<Rightarrow> create_request \<Rightarrow> api \<Rightarrow> (api_error + order_row list) \<times> api" where
  "create_order gen uuid u rq s =
     (case validate_request rq of
        Inl e \<Rightarrow> (Inl (HTTPException 422), s)
      | Inr v \<Rightarrow>
          (case create gen uuid u v s of
             (Inl ValueError, t) \<Rightarrow> (Inl (HTTPException 400), t)
           | (Inl e, t) \<Rightarrow> (Inl (Uncaught e), t)
           | (Inr rows, t) \<Rightarrow> (Inr rows, t)))"

record order_query =
  oq_page :: nat
  oq_symbols :: "string list"
  oq_status :: "order_status list"
  oq_side :: "side list"
  oq_desc :: bool

record 'a page =
  pg_page :: nat
  pg_size :: nat
  pg_has_next :: bool
  pg_data :: "'a list"

definition query_orders :: "string \<Rightarrow> order_query \<Rightarrow> database \<Rightarrow> order_row list" where
  "query_orders u qr db =
     (let rows = filter (\<lambda>r. or_user_id r = u
                   \<and> (oq_symbols qr = [] \<or> or_symbol r \<in> set (oq_symbols qr))
                   \<and> (oq_status qr = [] \<or> or_status r \<in> set (oq_status qr))
                   \<and> (oq_side qr = [] \<or> or_side r \<in> set (oq_side qr))) (map snd (db_orders db))
      in if oq_desc qr then rev rows else rows)"

definition get_orders_page :: "nat \<Rightarrow> string \<Rightarrow> order_query \<Rightarrow> database \<Rightarrow> order_row page" where
  "get_orders_page page_size u qr db =
     (let rows = take (page_size + 1) (drop ((oq_page qr - 1) * page_size) (query_orders u qr db))
      in \<lparr> pg_page = oq_page qr, pg_size = length (take page_size rows),
           pg_has_next = page_size < length rows, pg_data = take page_size rows \<rparr>)"

text \<open>
  The column holds a UUID object, the subject of the token is a string: Python's \<open>!=\<close> holds between
  values of these two types, whatever they contain.
\<close>

datatype py_id = UuidObj string | Str string

definition get_order_by_id :: "string \<Rightarrow> string \<Rightarrow> database \<Rightarrow> api_error + order_row" where
  "get_order_by_id sub i db =
     (case get_order db i of
        None \<Rightarrow> Inl (HTTPException 404)
      | Some r \<Rightarrow> if UuidObj (or_user_id r) \<noteq> Str sub then Inl (HTTPException 404) else Inr r)"

definition get_orders_by_group :: "string \<Rightarrow> string \<Rightarrow> database \<Rightarrow> api_error + order_row list" where
  "get_orders_by_group u g db =
     (let rows = filter (\<lambda>r. or_group_id r = Some g \<and> or_user_id r = u) (map snd (db_orders db))
      in if rows = [] then Inl (HTTPException 404) else Inr rows)"

definition own_order :: "string \<Rightarrow> string \<Rightarrow> database \<Rightarrow> order_row option" where
  "own_order u i db = (case get_order db i of None \<Rightarrow> None | Some r \<Rightarrow> if or_user_id r = u then Some r else None)"

definition modify_order_route ::
    "(nat \<Rightarrow> string) \<Rightarrow> string \<Rightarrow> string \<Rightarrow> rat option \<Rightarrow> rat option \<Rightarrow> api \<Rightarrow> (api_error + unit) \<times> api" where
  "modify_order_route gen u i lp sp s =
     (case own_order u i (api_db s) of
        None \<Rightarrow> (Inl (HTTPException 404), s)
      | Some r \<Rightarrow>
          if or_status r = FILLED then (Inl (HTTPException 400), s)
          else if \<not> positive_if_given lp \<or> \<not> positive_if_given sp then (Inl (Uncaught ValidationError), s)
          else (Inr (), snd (put_command gen (ModifyOrderCommand i lp sp) (or_symbol r) s)))"

definition cancel_order_route :: "(nat \<Rightarrow> string) \<Rightarrow> string \<Rightarrow> string \<Rightarrow> api \<Rightarrow> (api_error + unit) \<times> api" where
  "cancel_order_route gen u i s =
     (case own_order u i (api_db s) of
        None \<Rightarrow> (Inl (HTTPException 404), s)
      | Some r \<Rightarrow> (Inr (), snd (put_command gen (CancelOrderCommand i) (or_symbol r) s)))"

section \<open>What is stored and what is sent\<close>

fun request_orders :: "create_request \<Rightarrow> order_spec list" where
  "request_orders (SingleOrderCreate st sy sp) = [sp]"
| "request_orders (OCOOrderCreate st sy legs) = legs"
| "request_orders (OTOOrderCreate st sy p c) = [p, c]"
| "request_orders (OTOCOOrderCreate st sy p legs) = p # legs"

fun strategy_fits :: "create_request \<Rightarrow> bool" where
  "strategy_fits (SingleOrderCreate st sy sp) = (st = SINGLE)"
| "strategy_fits (OCOOrderCreate st sy legs) = (st = OCO)"
| "strategy_fits (OTOOrderCreate st sy p c) = (st = OTO)"
| "strategy_fits (OTOCOOrderCreate st sy p legs) = (st = OTOCO)"

text \<open>The dictionary form of a stored order that is still pending.\<close>

definition row_dict :: "order_row \<Rightarrow> order_dict" where
  "row_dict r =
     \<lparr> od_order_id = or_order_id r, od_user_id = or_user_id r, od_symbol = or_symbol r, od_side = or_side r,
       od_order_type = or_type r, od_quantity = or_quantity r, od_limit_price = or_limit r,
       od_stop_price = or_stop r, od_status = ''pending'', od_strategy_type = or_strategy r,
       od_executed_quantity = Some (or_executed r), od_avg_fill_price = or_avg_fill r \<rparr>"

lemma row_dict_build [simp]:
  "row_dict (build_db_order sy u sp i st) = to_order_dict i u sp sy st"
  "row_dict (leg_row sy u g pa st leg) = leg_dict sy u st leg"
  by (simp_all add: row_dict_def build_db_order_def to_order_dict_def leg_row_def leg_dict_def)

text \<open>What a stored row has to say about the order that was asked for.\<close>

definition row_for :: "string \<Rightarrow> string \<Rightarrow> strategy_type \<Rightarrow> order_spec \<Rightarrow> order_row \<Rightarrow> bool" where
  "row_for u sy st sp r \<longleftrightarrow>
     or_user_id r = u \<and> or_symbol r = sy \<and> or_strategy r = st \<and> or_side r = sp_side sp \<and> or_type r = sp_type sp
     \<and> or_quantity r = sp_quantity sp \<and> or_limit r = sp_limit sp \<and> or_stop r = sp_stop sp
     \<and> or_status r = PENDING \<and> or_executed r = 0 \<and> or_avg_fill r = None"

lemma row_for_build [simp]: "row_for u sy st sp (build_db_order sy u sp i st)"
    "row_for u sy st (snd leg) (leg_row sy u g pa st leg)"
  by (simp_all add: row_for_def build_db_order_def leg_row_def)

lemma row_for_legs:
  "length ids = length sps \<Longrightarrow> list_all2 (row_for u sy st) sps (map (leg_row sy u g pa st) (zip ids sps))"
  by (auto simp: list_all2_conv_all_nth row_for_def leg_row_def build_db_order_def)

lemma row_ids [simp]:
  "or_order_id (build_db_order sy u sp i st) = i" "or_user_id (build_db_order sy u sp i st) = u"
  "or_order_id (leg_row sy u g pa st leg) = fst leg" "or_user_id (leg_row sy u g pa st leg) = u"
  by (simp_all add: build_db_order_def leg_row_def)

definition add_orders :: "order_row list \<Rightarrow> database \<Rightarrow> database" where
  "add_orders rows db = db\<lparr> db_orders := db_orders db @ map (\<lambda>r. (or_order_id r, r)) rows \<rparr>"

definition ids_fresh :: "(nat \<Rightarrow> string) \<Rightarrow> api \<Rightarrow> bool" where
  "ids_fresh gen s \<longleftrightarrow> inj gen \<and> (\<forall>n \<ge> api_drawn s. gen n \<notin> fst ` set (db_orders (api_db s)))"

lemma draw_legs_eq:
  "draw_legs gen sps s =
     (Inr (zip (map gen [api_drawn s ..< api_drawn s + length sps]) sps), s\<lparr> api_drawn := api_drawn s + length sps \<rparr>)"
proof (induction sps arbitrary: s)
  case Nil
  then show ?case by (simp add: ret_def)
next
  case (Cons sp sps)
  have "[api_drawn s ..< api_drawn s + length (sp # sps)] = api_drawn s # [Suc (api_drawn s) ..< Suc (api_drawn s) + length sps]"
    by (simp add: upt_rec)
  then show ?case
    using Cons[of "s\<lparr> api_drawn := Suc (api_drawn s) \<rparr>"] by (simp add: uuid4_def act_simps)
qed

lemma commit_done:
  assumes "u \<in> set (db_users (api_db s))" "\<forall>r \<in> set rows. or_user_id r = u \<and> or_order_id r \<notin> fst ` set (db_orders (api_db s))"
  shows "commit_orders rows s = (Inr ClosedTransaction, s\<lparr> api_db := add_orders rows (api_db s) \<rparr>)"
proof -
  have "\<not> list_ex (\<lambda>r. or_user_id r \<notin> set (db_users (api_db s)) \<or> or_order_id r \<in> fst ` set (db_orders (api_db s))) rows"
    using assms by (auto simp: list_ex_iff)
  then show ?thesis by (simp add: commit_orders_def act_simps add_orders_def)
qed

text \<open>The stored rows: one for each order asked for, in their order, under fresh and distinct ids.\<close>

definition orders_stored ::
    "(nat \<Rightarrow> string) \<Rightarrow> string \<Rightarrow> strategy_type \<Rightarrow> string \<Rightarrow> order_spec list \<Rightarrow> order_row list \<Rightarrow> api \<Rightarrow> api \<Rightarrow> bool" where
  "orders_stored gen u st sy sps rows s t \<longleftrightarrow>
     api_db t = add_orders rows (api_db s) \<and> list_all2 (row_for u sy st) sps rows
     \<and> distinct (map or_order_id rows) \<and> (\<forall>r \<in> set rows. \<exists>n \<ge> api_drawn s. or_order_id r = gen n)"

lemma rows_commit:
  assumes "ids_fresh gen s" "u \<in> set (db_users (api_db s))" "api_drawn s \<le> n"
    and ids: "map or_order_id rows = map gen [n ..< n']" and new: "list_all2 (row_for u sy st) sps rows"
  shows "commit_orders rows (s\<lparr> api_drawn := m \<rparr>) =
           (Inr ClosedTransaction, s\<lparr> api_drawn := m, api_db := add_orders rows (api_db s) \<rparr>)"
    and "api_db t = add_orders rows (api_db s) \<Longrightarrow> orders_stored gen u st sy sps rows s t"
proof -
  have fresh: "\<exists>k \<ge> api_drawn s. or_order_id r = gen k" if "r \<in> set rows" for r
  proof -
    have "or_order_id r \<in> set (map or_order_id rows)" using that by simp
    then obtain k where "n \<le> k" "or_order_id r = gen k" unfolding ids by auto
    then show ?thesis using assms(3) order.trans by blast
  qed
  have user: "or_user_id r = u" if "r \<in> set rows" for r
    using new that by (auto simp: list_all2_conv_all_nth row_for_def in_set_conv_nth)
  have "distinct (map or_order_id rows)"
    using assms(1) by (simp add: ids distinct_map ids_fresh_def inj_on_subset[of gen UNIV])
  then show "orders_stored gen u st sy sps rows s t" if "api_db t = add_orders rows (api_db s)"
    using that fresh new by (simp add: orders_stored_def)
  show "commit_orders rows (s\<lparr> api_drawn := m \<rparr>) =
      (Inr ClosedTransaction, s\<lparr> api_drawn := m, api_db := add_orders rows (api_db s) \<rparr>)"
    using commit_done[of u "s\<lparr> api_drawn := m \<rparr>" rows] assms(1,2) fresh user by (force simp: ids_fresh_def)
qed

text \<open>How the handlers of linked orders end: the rows are committed, the first refresh raises.\<close>

lemma linked_refused:
  assumes "ids_fresh gen s" "u \<in> set (db_users (api_db s))" "api_drawn s \<le> n"
    and "map or_order_id rows = map gen [n ..< n']" "list_all2 (row_for u sy st) sps rows" "sps \<noteq> []"
  shows "\<exists>t. and_then (commit_orders rows) (\<lambda>tx. and_then (run_all (map (refresh_order tx) rows)) (\<lambda>_. f tx))
               (s\<lparr> api_drawn := m \<rparr>) = (Inl InvalidRequestError, t)
           \<and> orders_stored gen u st sy sps rows s t \<and> api_sent t = api_sent s"
proof -
  obtain r rs where "rows = r # rs" using assms(5,6) by (cases rows) auto
  then show ?thesis
    using rows_commit(1)[OF assms(1-5), of m] rows_commit(2)[OF assms(1-5), of "s\<lparr> api_drawn := m, api_db := add_orders rows (api_db s) \<rparr>"]
    by (simp add: act_simps refresh_order_def)
qed

lemma draw_then: "and_then (uuid4 gen) f (s\<lparr> api_drawn := n \<rparr>) = f (gen n) (s\<lparr> api_drawn := Suc n \<rparr>)"
  "and_then (uuid4 gen) f s = f (gen (api_drawn s)) (s\<lparr> api_drawn := Suc (api_drawn s) \<rparr>)"
  by (simp_all add: uuid4_def act_simps)

lemma legs_then:
  "and_then (draw_legs gen sps) f (s\<lparr> api_drawn := n \<rparr>) =
     f (zip (map gen [n ..< n + length sps]) sps) (s\<lparr> api_drawn := n + length sps \<rparr>)"
  by (simp add: draw_legs_eq act_simps)

lemma create_single_stores:
  fixes sy :: string and sp :: order_spec
  assumes fr: "ids_fresh gen s" and u: "u \<in> set (db_users (api_db s))" and "uuid u"
  defines "i \<equiv> gen (api_drawn s)"
  defines "row \<equiv> build_db_order sy u sp i SINGLE"
  shows "\<exists>t c. create gen uuid u (SingleOrderCreate SINGLE sy sp) s = (Inr [row], t)
     \<and> orders_stored gen u SINGLE sy [sp] [row] s t
     \<and> api_sent t = api_sent s @ [(sy, \<lparr> cmd_id = gen c, cmd_body = NewOrderCommand SINGLE (NewSingle (to_order_dict i u sp sy SINGLE)) \<rparr>)]"
proof -
  let ?n = "api_drawn s"
  have "map or_order_id [row] = map gen [?n ..< Suc ?n]" "list_all2 (row_for u sy SINGLE) [sp] [row]"
    by (simp_all add: row_def i_def)
  note commit = rows_commit[OF fr u order_refl this]
  show ?thesis using commit(1)[of "Suc ?n"] commit(2) assms(3)
    by (auto simp: create_def create_single_def draw_then(2) Let_def row_def i_def act_simps put_command_def uuid4_def)
qed

lemma create_linked_stores:
  assumes fr: "ids_fresh gen s" and u: "u \<in> set (db_users (api_db s))" and "uuid u" "strategy_fits rq"
    and "req_strategy rq \<noteq> SINGLE" and ne: "request_orders rq \<noteq> []"
  shows "\<exists>rows t. create gen uuid u rq s = (Inl InvalidRequestError, t)
     \<and> orders_stored gen u (req_strategy rq) (req_symbol rq) (request_orders rq) rows s t \<and> api_sent t = api_sent s"
proof (cases rq)
  case (SingleOrderCreate st sy sp)
  then show ?thesis using assms(4,5) by simp
next
  case (OCOOrderCreate st sy specs)
  let ?n = "Suc (api_drawn s)" and ?g = "gen (api_drawn s)"
  let ?legs = "zip (map gen [?n ..< ?n + length specs]) specs"
  let ?rows = "map (leg_row sy u ?g None OCO) ?legs"
  have "map or_order_id ?rows = map gen [?n ..< ?n + length specs]" by (simp add: comp_def)
  moreover have "list_all2 (row_for u sy OCO) specs ?rows" by (rule row_for_legs) (simp del: upt_Suc)
  ultimately show ?thesis
    using linked_refused[OF fr u, of ?n ?rows "?n + length specs" sy OCO specs] assms(3,4) ne OCOOrderCreate
    by (fastforce simp: create_def create_oco_def draw_then(2) legs_then Let_def)
next
  case (OTOOrderCreate st sy ps cs)
  let ?g = "gen (api_drawn s)" and ?n = "Suc (api_drawn s)"
  let ?p = "gen ?n" and ?c = "gen (Suc ?n)"
  let ?rows = "[leg_row sy u ?g None OTO (?p, ps), leg_row sy u ?g (Some ?p) OTO (?c, cs)]"
  have "map or_order_id ?rows = map gen [?n ..< Suc (Suc ?n)]" by simp
  moreover have "list_all2 (row_for u sy OTO) [ps, cs] ?rows"
    using row_for_build(2)[of u sy OTO "(?p, ps)"] row_for_build(2)[of u sy OTO "(?c, cs)"] by simp
  ultimately show ?thesis
    using linked_refused[OF fr u, of ?n ?rows "Suc (Suc ?n)" sy OTO "[ps, cs]"] assms(3,4) OTOOrderCreate
    by (fastforce simp: create_def create_oto_def draw_then Let_def)
next
  case (OTOCOOrderCreate st sy ps specs)
  let ?g = "gen (api_drawn s)" and ?n = "Suc (api_drawn s)"
  let ?p = "gen ?n"
  let ?legs = "zip (map gen [Suc ?n ..< Suc ?n + length specs]) specs"
  let ?rows = "leg_row sy u ?g None OTOCO (?p, ps) # map (leg_row sy u ?g (Some ?p) OTOCO) ?legs"
  have "[?n ..< Suc ?n + length specs] = ?n # [Suc ?n ..< Suc ?n + length specs]" by (rule upt_conv_Cons) simp
  then have "map or_order_id ?rows = map gen [?n ..< Suc ?n + length specs]" by (simp add: comp_def del: upt_Suc)
  moreover have "list_all2 (row_for u sy OTOCO) specs (map (leg_row sy u ?g (Some ?p) OTOCO) ?legs)"
    by (rule row_for_legs) (simp del: upt_Suc)
  then have "list_all2 (row_for u sy OTOCO) (ps # specs) ?rows"
    using row_for_build(2)[of u sy OTOCO "(?p, ps)"] by simp
  ultimately show ?thesis
    using linked_refused[OF fr u, of ?n ?rows "Suc ?n + length specs" sy OTOCO "ps # specs"] assms(3,4) OTOCOOrderCreate
    by (fastforce simp: create_def create_otoco_def draw_then legs_then Let_def)
qed

lemma validate_keeps:
  "validate_request rq = Inr v \<Longrightarrow>
   req_strategy v = req_strategy rq \<and> req_symbol v = req_symbol rq \<and> strategy_fits v = strategy_fits rq"
  by (cases rq) (auto simp: validate_request_def split: sum.splits)

lemma validated_orders: "validate_request rq = Inr v \<Longrightarrow> request_orders v \<noteq> []"
  by (cases rq) (auto simp: validate_request_def validate_oco_def split: sum.splits if_splits)

section \<open>What the endpoints promise\<close>

text \<open>
  C30. What becomes of a request that validates and fits its endpoint. In every case the database gains exactly one
  pending row for each order asked for, of the caller, the symbol and the strategy, with the asked side, type, quantity
  and prices, under fresh and distinct ids. A single order is answered, and one command is put on the topic
  under the symbol, which carries the id and the fields of the stored row. An OCO, OTO or OTOCO request ends in a
  server error: the handler refreshes the rows after it has committed inside the session's block, so the rows stay
  stored as pending and no command is ever sent.
\<close>

theorem accepted_order_stored_and_sent:
  assumes "ids_fresh gen s" and "u \<in> set (db_users (api_db s))" and "uuid u"
    and "validate_request rq = Inr v" and "strategy_fits rq"
  shows "\<exists>rows t. orders_stored gen u (req_strategy rq) (req_symbol rq) (request_orders v) rows s t
     \<and> (if req_strategy rq = SINGLE
          then create_order gen uuid u rq s = (Inr rows, t)
            \<and> (\<exists>c. api_sent t = api_sent s @
                  [(req_symbol rq, \<lparr> cmd_id = gen c, cmd_body = NewOrderCommand SINGLE (NewSingle (row_dict (hd rows))) \<rparr>)])
          else create_order gen uuid u rq s = (Inl (Uncaught InvalidRequestError), t) \<and> api_sent t = api_sent s)"
proof (cases "req_strategy rq = SINGLE")
  case True
  then obtain sy sp where v: "v = SingleOrderCreate SINGLE sy sp" "req_symbol rq = sy"
    using validate_keeps[OF assms(4)] assms(5) by (cases v) auto
  obtain t c where "create gen uuid u v s = (Inr [build_db_order sy u sp (gen (api_drawn s)) SINGLE], t)"
      "orders_stored gen u SINGLE sy [sp] [build_db_order sy u sp (gen (api_drawn s)) SINGLE] s t"
      "api_sent t = api_sent s @ [(sy, \<lparr> cmd_id = gen c,
         cmd_body = NewOrderCommand SINGLE (NewSingle (to_order_dict (gen (api_drawn s)) u sp sy SINGLE)) \<rparr>)]"
    using create_single_stores[where uuid = uuid, OF assms(1,2,3)] v(1) by blast
  then show ?thesis using assms(4) v True by (intro exI[of _ "[_]"] exI[of _ t]) (auto simp: create_order_def)
next
  case False
  have v: "req_strategy v = req_strategy rq" "req_symbol v = req_symbol rq" "strategy_fits v"
    using validate_keeps[OF assms(4)] assms(5) by auto
  obtain rows t where "create gen uuid u v s = (Inl InvalidRequestError, t)"
      "orders_stored gen u (req_strategy rq) (req_symbol rq) (request_orders v) rows s t" "api_sent t = api_sent s"
    using create_linked_stores[where uuid = uuid, OF assms(1,2,3) v(3) _ validated_orders[OF assms(4)]] False v(1,2) by auto
  then show ?thesis using assms(4) False by (auto simp: create_order_def)
qed

definition sample_api :: api where
  "sample_api = \<lparr> api_db = empty_db\<lparr> db_users := [''u''] \<rparr>, api_drawn = 0, api_sent = [] \<rparr>"

definition sample_gen :: "nat \<Rightarrow> string" where
  "sample_gen n = replicate n (CHR ''x'')"

definition sample_spec :: "side \<Rightarrow> rat \<Rightarrow> rat option \<Rightarrow> order_spec" where
  "sample_spec sd q lp = \<lparr> sp_type = LIMIT, sp_side = sd, sp_quantity = q, sp_limit = lp, sp_stop = None \<rparr>"

lemma sample_fresh: "ids_fresh sample_gen sample_api" "''u'' \<in> set (db_users (api_db sample_api))"
proof -
  have "inj sample_gen"
    unfolding inj_def sample_gen_def by (metis length_replicate)
  then show "ids_fresh sample_gen sample_api" by (simp add: ids_fresh_def sample_api_def empty_db_def)
  show "''u'' \<in> set (db_users (api_db sample_api))" by (simp add: sample_api_def)
qed

lemma sample_valid: "0 < p \<Longrightarrow> validate_order (sample_spec sd 5 (Some p)) = Inr (sample_spec sd 5 (Some p))"
proof -
  assume "0 < p"
  moreover have "round2 5 = 5" by code_simp
  ultimately show ?thesis by (simp add: validate_order_def sample_spec_def positive_if_given_def)
qed

definition sample_oto :: create_request where
  "sample_oto = OTOOrderCreate OTO ''BTC'' (sample_spec BID 5 (Some 100)) (sample_spec ASK 5 (Some 120))"

lemma sample_oto_valid: "validate_request sample_oto = Inr sample_oto"
  by (simp add: sample_oto_def validate_request_def validate_oto_def sample_valid) (simp add: sample_spec_def)

definition sample_single :: create_request where
  "sample_single = SingleOrderCreate SINGLE ''BTC'' (sample_spec BID 5 (Some 100))"

lemma sample_single_valid: "validate_request sample_single = Inr sample_single"
  by (simp add: sample_single_def validate_request_def sample_valid)

theorem accepted_order_stored_and_sent_witness:
  "(\<exists>rows t. create_order sample_gen (\<lambda>_. True) ''u'' sample_single sample_api = (Inr rows, t)
      \<and> orders_stored sample_gen ''u'' SINGLE ''BTC'' [sample_spec BID 5 (Some 100)] rows sample_api t \<and> length (api_sent t) = 1)
   \<and> (\<exists>rows t. create_order sample_gen (\<lambda>_. True) ''u'' sample_oto sample_api = (Inl (Uncaught InvalidRequestError), t)
      \<and> orders_stored sample_gen ''u'' OTO ''BTC'' [sample_spec BID 5 (Some 100), sample_spec ASK 5 (Some 120)] rows sample_api t
      \<and> api_sent t = [])"
  using accepted_order_stored_and_sent[where uuid = "\<lambda>_. True", OF sample_fresh _ sample_single_valid]
    accepted_order_stored_and_sent[where uuid = "\<lambda>_. True", OF sample_fresh _ sample_oto_valid]
  by (auto simp: sample_oto_def sample_single_def sample_api_def)

text \<open>
  A request posted with a strategy that does not belong to its model passes validation and then
  raises an AttributeError no handler catches: the response is a server error, and neither the stored
  orders nor the topic change.
\<close>

theorem strategy_mismatch_uncaught:
  assumes "validate_request rq = Inr v" and "\<not> strategy_fits rq" and "uuid u"
  shows "\<exists>t. create_order gen uuid u rq s = (Inl (Uncaught AttributeError), t)
           \<and> api_db t = api_db s \<and> api_sent t = api_sent s"
proof -
  have "\<not> strategy_fits v" using validate_keeps[OF assms(1)] assms(2) by blast
  then have "\<exists>t. create gen uuid u v s = (Inl AttributeError, t) \<and> api_db t = api_db s \<and> api_sent t = api_sent s"
    using assms(3)
    by (cases v; cases "req_strategy v")
       (auto simp: create_def create_single_def create_oco_def create_oto_def create_otoco_def draw_then raise_def)
  then show ?thesis using assms(1) by (auto simp: create_order_def)
qed

theorem strategy_mismatch_uncaught_witness:
  "\<exists>t. create_order sample_gen (\<lambda>_. True) ''u'' (SingleOrderCreate OCO ''BTC'' (sample_spec BID 5 (Some 100))) sample_api
         = (Inl (Uncaught AttributeError), t) \<and> api_sent t = []"
proof -
  have "validate_request (SingleOrderCreate OCO ''BTC'' (sample_spec BID 5 (Some 100))) =
      Inr (SingleOrderCreate OCO ''BTC'' (sample_spec BID 5 (Some 100)))"
    by (simp add: validate_request_def sample_valid)
  from strategy_mismatch_uncaught[OF this, of "\<lambda>_. True" "''u''" sample_gen sample_api] show ?thesis
    by (auto simp: sample_api_def)
qed

definition spec_ok :: "order_spec \<Rightarrow> bool" where
  "spec_ok sp \<longleftrightarrow> sp_type sp \<noteq> MARKET \<and> positive_if_given (sp_limit sp) \<and> positive_if_given (sp_stop sp)
     \<and> sp_quantity sp \<noteq> 0 \<and> (\<exists>q. sp_quantity sp = round2 q)"

lemma validate_order_ok: "validate_order sp = Inr v \<Longrightarrow> spec_ok v"
  by (auto simp: validate_order_def spec_ok_def Let_def split: if_splits)

lemma validate_orders_ok: "validate_orders sps = Inr vs \<Longrightarrow> \<forall>v \<in> set vs. spec_ok v"
  by (induction sps arbitrary: vs) (auto simp: validate_order_ok split: sum.splits)

text \<open>
  C31. What the models let through: no market orders, only positive prices where given, quantities
  rounded to two places and not zero; the two sides of an OTO, and the parent and both legs of an OTOCO,
  have the same quantity and stand on opposite sides.
\<close>

theorem validated_requests_sound:
  assumes "validate_request rq = Inr v"
  shows "(\<forall>sp \<in> set (request_orders v). spec_ok sp)
         \<and> (case v of
              SingleOrderCreate st sy sp \<Rightarrow> True
            | OCOOrderCreate st sy legs \<Rightarrow> length legs = 2
            | OTOOrderCreate st sy p c \<Rightarrow> sp_quantity c = sp_quantity p \<and> sp_side c = opposite (sp_side p)
            | OTOCOOrderCreate st sy p legs \<Rightarrow>
                length legs = 2 \<and> (\<forall>c \<in> set legs. sp_quantity c = sp_quantity p \<and> sp_side c = opposite (sp_side p)))"
proof -
  have opp: "sp_side c \<noteq> sp_side p \<Longrightarrow> sp_side c = opposite (sp_side p)" for c p :: order_spec
    by (cases "sp_side c"; cases "sp_side p") simp_all
  show ?thesis
  proof (cases rq)
    case (SingleOrderCreate st sy sp)
    then show ?thesis using assms by (auto simp: validate_request_def validate_order_ok split: sum.splits)
  next
    case (OCOOrderCreate st sy legs)
    then show ?thesis
      using assms validate_orders_ok[of legs]
      by (auto simp: validate_request_def validate_oco_def split: sum.splits if_splits)
  next
    case (OTOOrderCreate st sy p c)
    then show ?thesis
      using assms opp
      by (auto simp: validate_request_def validate_oto_def validate_order_ok split: sum.splits if_splits)
  next
    case (OTOCOOrderCreate st sy p legs)
    then show ?thesis
      using assms validate_orders_ok[of legs] opp
      by (auto simp: validate_request_def validate_otoco_def validate_order_ok list_ex_iff split: sum.splits if_splits)
  qed
qed

theorem validated_requests_sound_witness:
  "validate_request sample_oto = Inr sample_oto
   \<and> spec_ok (sample_spec BID 5 (Some 100)) \<and> spec_ok (sample_spec ASK 5 (Some 120))"
  using validated_requests_sound[OF sample_oto_valid] sample_oto_valid by (simp add: sample_oto_def)

text \<open>
  What the models should not let through: a negative quantity is accepted, because the bound on the
  field is misspelt and the validator only rejects zero; and so is a limit order without a limit price.
\<close>

theorem negative_priceless_order_accepted:
  "validate_request (SingleOrderCreate SINGLE ''BTC'' (sample_spec BID (- 5) None)) =
     Inr (SingleOrderCreate SINGLE ''BTC'' (sample_spec BID (- 5) None))"
proof -
  have "round2 (- 5) = - 5" by code_simp
  then show ?thesis
    by (simp add: validate_request_def validate_order_def sample_spec_def positive_if_given_def)
qed

text \<open>
  Fetching an order by its id always answers 404: the owner check compares a UUID object with the
  string in the token.
\<close>

theorem get_order_never_found: "get_order_by_id sub i db = Inl (HTTPException 404)"
  by (simp add: get_order_by_id_def split: option.split)

text \<open>
  Paging through a query gives every matching order once and in order: the first pages together
  are the beginning of the result list, a page is never longer than the page size, and the flag for a
  next page is set exactly when orders are left.
\<close>

theorem pages_partition_result:
  assumes "0 < k"
  shows "concat (map (\<lambda>n. pg_data (get_orders_page k u (qr\<lparr> oq_page := n \<rparr>) db)) [1 ..< Suc m]) =
           take (m * k) (query_orders u qr db)
         \<and> (\<forall>n \<ge> 1. pg_size (get_orders_page k u (qr\<lparr> oq_page := n \<rparr>) db) \<le> k
              \<and> (pg_has_next (get_orders_page k u (qr\<lparr> oq_page := n \<rparr>) db) \<longleftrightarrow> n * k < length (query_orders u qr db)))"
proof -
  let ?rows = "query_orders u qr db"
  have q: "query_orders u (qr\<lparr> oq_page := n \<rparr>) db = ?rows" for n by (simp add: query_orders_def)
  have data: "pg_data (get_orders_page k u (qr\<lparr> oq_page := n \<rparr>) db) = take k (drop ((n - 1) * k) ?rows)" for n
    by (simp add: get_orders_page_def q Let_def)
  have "concat (map (\<lambda>n. pg_data (get_orders_page k u (qr\<lparr> oq_page := n \<rparr>) db)) [1 ..< Suc m]) = take (m * k) ?rows"
  proof (induction m)
    case (Suc m)
    have "take (Suc m * k) ?rows = take (m * k) ?rows @ take k (drop (m * k) ?rows)"
      using take_add[of "m * k" k ?rows] by (simp add: add.commute)
    then show ?case using Suc by (simp add: data)
  qed simp
  moreover have "pg_has_next (get_orders_page k u (qr\<lparr> oq_page := n \<rparr>) db) \<longleftrightarrow> n * k < length ?rows" if pos: "1 \<le> n" for n
  proof -
    obtain j where n: "n = Suc j" using pos by (cases n) auto
    have "pg_has_next (get_orders_page k u (qr\<lparr> oq_page := n \<rparr>) db) \<longleftrightarrow> k < min (k + 1) (length ?rows - j * k)"
      by (simp add: get_orders_page_def q Let_def n)
    then show ?thesis using assms n by auto
  qed
  moreover have "pg_size (get_orders_page k u (qr\<lparr> oq_page := n \<rparr>) db) \<le> k" for n
    by (simp add: get_orders_page_def Let_def)
  ultimately show ?thesis by blast
qed

definition sample_rows :: database where
  "sample_rows = add_orders (map (\<lambda>n. build_db_order ''BTC'' ''u'' (sample_spec BID 1 None) (sample_gen n) SINGLE) [1, 2, 3]) empty_db"

definition sample_query :: order_query where
  "sample_query = \<lparr> oq_page = 1, oq_symbols = [], oq_status = [], oq_side = [], oq_desc = True \<rparr>"

theorem pages_partition_result_witness:
  "map or_order_id (concat (map (\<lambda>n. pg_data (get_orders_page 2 ''u'' (sample_query\<lparr> oq_page := n \<rparr>) sample_rows)) [1, 2]))
      = [''xxx'', ''xx'', ''x'']"
proof -
  have "[1 ..< Suc 2] = [1, 2 :: nat]" by (simp add: upt_rec)
  moreover have "map or_order_id (take (2 * 2) (query_orders ''u'' sample_query sample_rows)) = [''xxx'', ''xx'', ''x'']" by code_simp
  ultimately show ?thesis
    using pages_partition_result[of 2 "''u''" sample_query sample_rows 2] by simp
qed

text \<open>
  C32. Only the owner reaches an order: a cancel or modify request puts at most one command on the topic,
  and it does so only for an order of the caller, with that order's id and under its symbol; a
  modification also needs an order that is not filled. The database never changes.
\<close>

theorem only_owner_commands:
  assumes "orders_keyed (api_db s)"
    and "run = cancel_order_route gen u i s \<and> b = CancelOrderCommand i
         \<or> run = modify_order_route gen u i lp sp s \<and> b = ModifyOrderCommand i lp sp"
  shows "api_db (snd run) = api_db s
         \<and> (case fst run of
              Inl e \<Rightarrow> snd run = s
            | Inr _ \<Rightarrow> \<exists>r c. get_order (api_db s) i = Some r \<and> or_user_id r = u \<and> or_order_id r = i
                \<and> api_sent (snd run) = api_sent s @ [(or_symbol r, \<lparr> cmd_id = c, cmd_body = b \<rparr>)]
                \<and> (b = ModifyOrderCommand i lp sp \<longrightarrow> or_status r \<noteq> FILLED))"
  using assms(2) get_order_id[OF assms(1)]
  by (auto simp: cancel_order_route_def modify_order_route_def own_order_def put_command_def uuid4_def act_simps
        split: option.splits if_splits)

theorem only_owner_commands_witness:
  "api_sent (snd (cancel_order_route sample_gen ''w'' ''x'' (sample_api\<lparr> api_db := sample_rows \<rparr>))) = []
   \<and> length (api_sent (snd (cancel_order_route sample_gen ''u'' ''x'' (sample_api\<lparr> api_db := sample_rows \<rparr>)))) = 1"
proof -
  let ?s = "sample_api\<lparr> api_db := sample_rows \<rparr>"
  have "orders_keyed (api_db ?s)"
    by (simp add: orders_keyed_def sample_rows_def add_orders_def empty_db_def)
  moreover have "\<exists>e. fst (cancel_order_route sample_gen ''w'' ''x'' ?s) = Inl e" "fst (cancel_order_route sample_gen ''u'' ''x'' ?s) = Inr ()"
    by (auto simp: cancel_order_route_def own_order_def get_order_def sample_rows_def add_orders_def empty_db_def
          build_db_order_def sample_gen_def eval_nat_numeral)
  ultimately show ?thesis
    using only_owner_commands[of ?s "cancel_order_route sample_gen ''w'' ''x'' ?s" sample_gen "''w''" "''x''" "CancelOrderCommand ''x''" None None]
      only_owner_commands[of ?s "cancel_order_route sample_gen ''u'' ''x'' ?s" sample_gen "''u''" "''x''" "CancelOrderCommand ''x''" None None]
    by (auto simp: sample_api_def)
qed

end
