(* ===== verification/Pipeline.thy ===== *)
theory Pipeline imports Error_Paths Event_Handlers Book_Publisher Order_Api begin

text \<open>
  From the engine to its consumers. An order event leaves the engine as a JSON object without an id: every
  consumer that builds the event class from it draws an id and takes the current time. The
  functions below are what the database handler and the book publisher read in the object; the lemmas follow one
  order from the request to the tables and to the published book, and back out.
\<close>

section \<open>The messages\<close>

fun order_event_name :: "order_event_type \<Rightarrow> string" where
  "order_event_name ORDER_PLACED = ''order_placed''"
| "order_event_name ORDER_PARTIALLY_FILLED = ''order_partially_filled''"
| "order_event_name ORDER_FILLED = ''order_filled''"
| "order_event_name ORDER_MODIFIED = ''order_modified''"
| "order_event_name ORDER_MODIFY_REJECTED = ''order_modify_rejected''"
| "order_event_name ORDER_CANCELLED = ''order_cancelled''"

definition order_msg_of :: "string \<Rightarrow> rat \<Rightarrow> order_event \<Rightarrow> order_msg" where
  "order_msg_of i now ev =
     \<lparr> om_type = Some (order_event_name (oe_type ev)), om_id = i, om_order_id = oe_order_id ev,
       om_command_id = (case oe_command_id ev of None \<Rightarrow> [] | Some c \<Rightarrow> c), om_symbol = Some (oe_symbol ev),
       om_order = (oe_order ev \<noteq> None), om_executed = map_option executed_quantity (oe_order ev),
       om_limit = oe_limit_price ev, om_stop = oe_stop_price ev, om_reason = oe_reason ev, om_timestamp = now \<rparr>"

text \<open>The publisher looks at the order's dictionary; the fields of a trade are not there.\<close>

definition book_msg_of :: "(string \<Rightarrow> bool) \<Rightarrow> string \<Rightarrow> order_event \<Rightarrow> book_msg option" where
  "book_msg_of uuid i ev =
     map_option (\<lambda>od.
       \<lparr> bk_type = order_event_name (oe_type ev),
         bk_valid = (valid_order_msg uuid (order_event_name (oe_type ev)) (order_msg_of i 0 ev) = Inr ()),
         bk_symbol = oe_symbol ev, bk_order_id = oe_order_id ev, bk_executed = executed_quantity od,
         bk_quantity = quantity od, bk_limit = limit_price od, bk_stop = stop_price od, bk_side = o_side od,
         bk_role = TAKER, bk_traded = 0 \<rparr>) (oe_order ev)"

section \<open>What the engine publishes is accepted\<close>

lemma order_event_name_known: "order_event_name ty \<in> set order_event_types"
  by (cases ty) (simp_all add: order_event_types_def)

lemma sound_event_validates:
  assumes "valid_order_event x ev" "is_uuid x i"
  shows "valid_order_msg (is_uuid x) (order_event_name (oe_type ev)) (order_msg_of i now ev) = Inr ()"
  using assms
  by (cases "oe_type ev") (auto simp: valid_order_event_def valid_order_msg_def order_msg_of_def split: option.splits)

definition accepted_msg :: "(string \<Rightarrow> bool) \<Rightarrow> string \<Rightarrow> rat \<Rightarrow> kafka_msg \<Rightarrow> bool" where
  "accepted_msg uuid i now km =
     (case km_event km of
        OrderEvent ev \<Rightarrow>
          order_event_name (oe_type ev) \<in> set order_event_types
          \<and> valid_order_msg uuid (order_event_name (oe_type ev)) (order_msg_of i now ev) = Inr ()
      | _ \<Rightarrow> True)"

lemma sound_msg_accepted: "sound_msg x km \<Longrightarrow> is_uuid x i \<Longrightarrow> accepted_msg (is_uuid x) i now km"
  using order_event_name_known sound_event_validates
  by (auto simp: sound_msg_def accepted_msg_def split: engine_event.split)

section \<open>One command, with what it publishes\<close>

lemma published_orders_received [simp]: "published_orders (received cmd s) = published_orders s"
  by (simp add: published_orders_def)

lemma published_orders_queue [simp]: "published_orders (t\<lparr> e_queue := q \<rparr>) = published_orders t"
  by (simp add: published_orders_def)

lemma new_order_command:
  assumes "order_book (levels_api x) ok" "book_repr (levels_api x) ok (e_book s) ab"
    and "cmd_body cmd = NewOrderCommand SINGLE (NewSingle d)" "od_order_type d = LIMIT" "od_limit_price d = Some p"
    and "limit_crossable (Some p) (od_side d) (e_book s) = Inr False"
    and "od_order_id d \<notin> fst ` set (ab (od_side d) p)" "store_get s (od_order_id d) = None"
    and "is_uuid x (od_order_id d)" "is_uuid x (cmd_id cmd)"
  shows "\<exists>t. handle_command x k cmd s = (Inr (), t)
     \<and> book_repr (levels_api x) ok (e_book t)
         (ab_append ab (od_side d) p (od_order_id d) (length (ob_nodes (e_book s))))
     \<and> n_order (ob_nodes (e_book t) ! length (ob_nodes (e_book s))) = length (e_objs s)
     \<and> store_get t (od_order_id d) = Some (length (e_objs s))
     \<and> o_status (obj t (length (e_objs s))) = ''placed'' \<and> e_redis t = e_redis s
     \<and> published_orders t = published_orders s @
         own_events x (received cmd s) ORDER_PLACED ((new_order_obj Plain d)\<lparr> o_status := ''placed'' \<rparr>) None"
proof -
  have env: "book_env x ok" using assms(1) by (simp add: book_env_def)
  have run: "run_handler x k (cmd_body cmd) = Some (single_handle_new x k d)"
    by (simp add: run_handler_def handle_new_order_def assms(3))
  show ?thesis
    using book_env.new_rests[OF env, of "received cmd s" ab d p k] assms
    by (auto simp: same_money_def obj_def store_get_def dest!: command_returns[OF run])
qed

lemma cancel_command:
  assumes "order_book (levels_api x) ok" "redis (redis_of x)" "book_repr (levels_api x) ok (e_book s) ab"
    and "cmd_body cmd = CancelOrderCommand (order_id (obj s r))" "store_get s (order_id (obj s r)) = Some r"
    and "o_strategy (obj s r) = SINGLE" "order_price (obj s r) = Inr (Some p)"
    and "order_id (obj s r) \<in> fst ` set (ab (o_side (obj s r)) p)"
    and "executed_quantity (obj s r) < quantity (obj s r)" "user_id (obj s r) \<noteq> system_user x"
    and "is_uuid x (order_id (obj s r))" "is_uuid x (cmd_id cmd)"
    and "json_ok (obj s r)" "attached s" "e_shadow s = None" "keys_apart x (e_symbol s)" "fresh_logs x s"
  shows "\<exists>t. handle_command x k cmd s = (Inr (), t)
     \<and> book_repr (levels_api x) ok (e_book t) (ab_remove ab (o_side (obj s r)) p (order_id (obj s r)))
     \<and> store_get t (order_id (obj s r)) = None
     \<and> (\<forall>b \<in> accounts (e_symbol s). \<forall>w. acct x t b w = acct x s b w + released p (e_symbol s) (obj s r) b w)
     \<and> published_orders t = published_orders s @
         [order_event_of (received cmd s) ORDER_CANCELLED (order_id (obj s r)) (Some (Reason ''User cancelled order.'')) (Some (obj s r))]"
proof -
  have env: "engine_env x ok" using assms(1,2) by (simp add: engine_env_def book_env_def balance_env_def)
  have run: "run_handler x k (cmd_body cmd) = Some (handle_cancel_order x (order_id (obj s r)))"
    by (simp add: run_handler_def assms(4))
  have go: "handle_cancel_order x (order_id (obj s r)) (received cmd s) = single_handle_cancel x r (received cmd s)"
    using assms(5,6) by (simp add: handle_cancel_order_def handle_cancel_def act_simps)
  have a: "acct x (t\<lparr> e_queue := q \<rparr>) b w = acct x t b w" "acct x (received cmd s) b w = acct x s b w" for t q b w
    by (simp_all add: acct_def)
  have "fresh_logs x (received cmd s)" using assms(17) by (simp add: fresh_logs_def)
  moreover have "can_log x (received cmd s) r" using assms(11-13) by (simp add: can_log_def)
  ultimately obtain t where t: "single_handle_cancel x r (received cmd s) = (Inr (), t)"
      "book_repr (levels_api x) ok (e_book t) (ab_remove ab (o_side (obj s r)) p (order_id (obj s r)))"
      "store_get t (order_id (obj s r)) = None"
      "\<forall>b \<in> accounts (e_symbol s). \<forall>w. acct x t b w = acct x s b w + released p (e_symbol s) (obj s r) b w"
      "published_orders t = published_orders s @
         [order_event_of (received cmd s) ORDER_CANCELLED (order_id (obj s r)) (Some (Reason ''User cancelled order.'')) (Some (obj s r))]"
    using engine_env.cancel_resting[OF env, of "received cmd s" ab r p "cmd_id cmd"] assms a by auto
  from command_returns[OF run] t go
  have "handle_command x k cmd s =
          (Inr (), t\<lparr> e_queue := map_option (\<lambda>q. q @ [QProcessed (e_cmd t)]) (e_queue t) \<rparr>)" by simp
  then show ?thesis using t a by (simp add: store_get_def)
qed

section \<open>The request\<close>

lemma create_single_done:
  assumes "ids_fresh gen a" "u \<in> set (db_users (api_db a))" "uuid u"
    and "validate_request rq = Inr (SingleOrderCreate SINGLE sy sp)"
  defines "i \<equiv> gen (api_drawn a)"
  defines "row \<equiv> build_db_order sy u sp i SINGLE"
  shows "\<exists>a' c. create_order gen uuid u rq a = (Inr [row], a')
     \<and> api_db a' = add_orders [row] (api_db a)
     \<and> api_sent a' = api_sent a @
         [(sy, \<lparr> cmd_id = gen c, cmd_body = NewOrderCommand SINGLE (NewSingle (to_order_dict i u sp sy SINGLE)) \<rparr>)]"
  using create_single_stores[where uuid = uuid, OF assms(1-3), of sy sp] assms(4)
    by (auto simp: create_order_def orders_stored_def row_def i_def)

section \<open>The event in the tables and in the published book\<close>

lemma event_reaches_row:
  assumes ev: "valid_order_event x ev" "is_uuid x j" "oe_type ev \<in> {ORDER_PLACED, ORDER_CANCELLED}"
    and db: "orders_keyed db" "get_order db (oe_order_id ev) = Some r"
    and new: "\<And>e. e \<in> set (db_order_events db) \<Longrightarrow> oer_order_id e = oe_order_id ev \<Longrightarrow> oe_command_id ev \<noteq> Some (oer_command_id e)"
    and j: "j \<notin> oer_event_id ` set (db_order_events db)"
  shows "get_order (handle_order_event (is_uuid x) (order_msg_of j now ev) db) =
     (get_order db)(oe_order_id ev \<mapsto> r\<lparr> or_status := if oe_type ev = ORDER_PLACED then PLACED else CANCELLED \<rparr>)"
proof -
  let ?ty = "order_event_name (oe_type ev)" and ?m = "order_msg_of j now ev"
  let ?r = "r\<lparr> or_status := if oe_type ev = ORDER_PLACED then PLACED else CANCELLED \<rparr>"
  obtain c where c: "oe_command_id ev = Some c" using ev(1) by (auto simp: valid_order_event_def split: option.splits)
  have "\<not> order_event_seen ?ty ?m db" using new c by (force simp: order_event_seen_def list_ex_iff order_msg_of_def)
  moreover have "apply_order_event ?ty ?m r = Inr ?r" using ev(3)
    by (cases "oe_type ev") (simp_all add: apply_order_event_def)
  ultimately have "handle_order_event (is_uuid x) ?m db = put_order ?r (record_order_event ?ty ?m r db)"
    using sound_event_validates[OF ev(1,2), of now] order_event_name_known[of "oe_type ev"] db(2) j
    by (simp add: handle_order_event_def order_session_def in_session_def order_msg_of_def)
  moreover have "get_order (record_order_event ?ty ?m r db) = get_order db"
    by (rule ext) (simp add: get_order_def record_order_event_def)
  moreover have "or_order_id ?r = oe_order_id ev" using get_order_id[OF db] by simp
  ultimately show ?thesis by (auto simp: get_put_order)
qed

lemma placed_reaches_book:
  fixes s :: publisher
  assumes "valid_order_event x ev" "is_uuid x j" "oe_type ev = ORDER_PLACED" "oe_order ev = Some od"
    and "limit_price od = Some p" "p \<noteq> 0" "executed_quantity od < quantity od"
  defines "q \<equiv> quantity od - executed_quantity od" and "t \<equiv> consume_book_msg (book_msg_of (is_uuid x) j ev) s"
  shows "level_qty (book_side (book_of t sy) sd) v =
           level_qty (book_side (book_of s sy) sd) v + (if sy = oe_symbol ev \<and> sd = o_side od \<and> v = Some p then q else 0)"
    and "map_of (pb_active t) =
           (map_of (pb_active s))(oe_order_id ev \<mapsto> \<lparr> oi_price = Some p, oi_side = o_side od, oi_remaining = q \<rparr>)"
  using assms sound_event_validates[OF assms(1,2), of 0]
  by (simp_all add: book_msg_of_def consume_book_msg_def handle_order_placed_def price_or_def Let_def
        book_on_side level_qty_increment map_of_dict_put fun_upd_def)

lemma cancelled_reaches_book:
  assumes "valid_order_event x ev" "is_uuid x j" "oe_type ev = ORDER_CANCELLED" "oe_order ev = Some od"
    and "map_of (pb_active s) (oe_order_id ev) = Some info"
  defines "t \<equiv> consume_book_msg (book_msg_of (is_uuid x) j ev) s"
  shows "book_side (book_of t sy) sd =
           (if sy = oe_symbol ev \<and> sd = oi_side info
            then decrement_level (oi_price info) (oi_remaining info) (book_side (book_of s sy) sd)
            else book_side (book_of s sy) sd)"
    and "map_of (pb_active t) = (map_of (pb_active s))(oe_order_id ev := None)"
  using assms sound_event_validates[OF assms(1,2), of 0]
  by (auto simp: book_msg_of_def consume_book_msg_def handle_order_cancelled_def book_on_side map_of_dict_pop)

lemma new_row_stored:
  assumes "ids_fresh gen a" "order_tables_ok (api_db a)"
    and "or_order_id row = gen (api_drawn a)" "api_db a' = add_orders [row] (api_db a)"
  shows "get_order (api_db a') = (get_order (api_db a))(or_order_id row \<mapsto> row)" and "orders_keyed (api_db a')"
    and "db_order_events (api_db a') = db_order_events (api_db a)"
    and "e \<in> set (db_order_events (api_db a)) \<Longrightarrow> oer_order_id e \<noteq> or_order_id row"
proof -
  have none: "get_order (api_db a) (or_order_id row) = None"
    using assms(1,3) by (auto simp: ids_fresh_def get_order_def map_of_eq_None_iff)
  then show "get_order (api_db a') = (get_order (api_db a))(or_order_id row \<mapsto> row)"
    unfolding assms(4) by (auto simp: get_order_def add_orders_def map_add_def fun_eq_iff split: option.split)
  show "orders_keyed (api_db a')" "db_order_events (api_db a') = db_order_events (api_db a)"
    using assms(2) unfolding assms(4) by (auto simp: order_tables_ok_def orders_keyed_def add_orders_def)
  show "e \<in> set (db_order_events (api_db a)) \<Longrightarrow> oer_order_id e \<noteq> or_order_id row"
    using assms(2) none by (auto simp: order_tables_ok_def)
qed

text \<open>The one event of a placed order, and where it leads.\<close>

lemma own_event_valid:
  assumes "is_uuid x (order_id od)" "e_cmd s = Some c" "is_uuid x c" "ty \<in> {ORDER_PLACED, ORDER_CANCELLED}"
  shows "valid_order_event x (order_event_of s ty (order_id od) dt (Some od))"
  using assms by (auto simp: valid_order_event_def order_event_of_def)

lemma order_event_of_simps [simp]:
  "oe_type (order_event_of s ty i dt od) = ty" "oe_order_id (order_event_of s ty i dt od) = i"
  "oe_symbol (order_event_of s ty i dt od) = e_symbol s" "oe_order (order_event_of s ty i dt od) = od"
  "oe_command_id (order_event_of s ty i dt od) = e_cmd s"
  by (simp_all add: order_event_of_def)

end
