(* ===== verification/Price_Time.thy ===== *)
theory Price_Time imports Error_Paths begin

text \<open>
  Price-time priority. The matching loop of \<open>spot_engine.py\<close> walks the nodes of the best level while the
  trades take nodes out of it, and then looks up the next best level. Here it is compared with a reference:
  \<open>book_depth\<close> lists the resting orders of a side, best price first and oldest first within a price, and \<open>sweep\<close>
  takes from the front of that list until the taker is filled. The lemmas show that on books of single orders the
  loop returns, that its trades are those of the sweep, and that what is left in the book is what the sweep leaves.

  \<open>runs m s Q\<close> says that an action returns from the state \<open>s\<close>, with a result and a state that satisfy \<open>Q\<close>.
\<close>

section \<open>Actions that return\<close>

definition runs :: "('s, 'a) act \<Rightarrow> 's \<Rightarrow> ('a \<Rightarrow> 's \<Rightarrow> bool) \<Rightarrow> bool" where
  "runs m s Q \<longleftrightarrow> (\<exists>v t. m s = (Inr v, t) \<and> Q v t)"

lemma runsD: "runs m s Q \<Longrightarrow> \<exists>v t. m s = (Inr v, t) \<and> Q v t"
  by (simp add: runs_def)

lemma runs_mono: "runs m s P \<Longrightarrow> (\<And>v t. P v t \<Longrightarrow> Q v t) \<Longrightarrow> runs m s Q"
  by (auto simp: runs_def)

lemma runs_ret: "Q v s \<Longrightarrow> runs (ret v) s Q"
  by (simp add: runs_def act_simps)

lemma runs_ask: "runs (f s) s Q \<Longrightarrow> runs (ask f) s Q"
  by (simp add: runs_def act_simps)

lemma runs_upd: "Q () (f s) \<Longrightarrow> runs (upd f) s Q"
  by (simp add: runs_def act_simps)

lemma runs_and_then: "runs m s (\<lambda>v t. runs (k v) t Q) \<Longrightarrow> runs (and_then m k) s Q"
  by (auto simp: runs_def act_simps)

lemma runs_only_if: "(b \<Longrightarrow> runs m s Q) \<Longrightarrow> (\<not> b \<Longrightarrow> Q () s) \<Longrightarrow> runs (only_if b m) s Q"
  by (simp add: runs_def act_simps)

lemma runs_all_Nil: "Q () s \<Longrightarrow> runs (run_all []) s Q"
  by (simp add: runs_def)

lemma runs_all_Cons: "runs m s (\<lambda>_ t. runs (run_all ms) t Q) \<Longrightarrow> runs (run_all (m # ms)) s Q"
  by (auto simp: runs_def)

text \<open>Triples compose along a list of actions.\<close>

definition triple :: "('s \<Rightarrow> bool) \<Rightarrow> ('s, 'a) act \<Rightarrow> ('s \<Rightarrow> bool) \<Rightarrow> bool" where
  "triple P m Q \<longleftrightarrow> (\<forall>s. P s \<longrightarrow> runs m s (\<lambda>_. Q))"

lemma tripleI: "(\<And>s. P s \<Longrightarrow> runs m s (\<lambda>_. Q)) \<Longrightarrow> triple P m Q"
  by (simp add: triple_def)

lemma tripleD: "triple P m Q \<Longrightarrow> P s \<Longrightarrow> runs m s (\<lambda>_. Q)"
  by (simp add: triple_def)

lemma triple_Nil: "triple P (run_all []) P"
  by (simp add: triple_def runs_def)

lemma triple_Cons: "triple P m R \<Longrightarrow> triple R (run_all ms) Q \<Longrightarrow> triple P (run_all (m # ms)) Q"
proof (rule tripleI, rule runs_all_Cons)
  fix s
  assume m: "triple P m R" and ms: "triple R (run_all ms) Q" and "P s"
  show "runs m s (\<lambda>_ t. runs (run_all ms) t (\<lambda>_. Q))"
    by (rule runs_mono[OF tripleD[OF m \<open>P s\<close>]]) (rule tripleD[OF ms])
qed

text \<open>Actions that return from every state.\<close>

definition returns :: "('s, 'a) act \<Rightarrow> bool" where
  "returns m \<longleftrightarrow> (\<forall>s. \<exists>v t. m s = (Inr v, t))"

lemma returns_runs: "returns m \<Longrightarrow> stays R m \<Longrightarrow> runs m s (\<lambda>_. R s)"
proof -
  assume "returns m" "stays R m"
  moreover from this obtain v t where "m s = (Inr v, t)" unfolding returns_def by blast
  ultimately show ?thesis using staysD[of R m s "Inr v" t] by (simp add: runs_def)
qed

lemma returns_ret: "returns (ret v)" and returns_upd: "returns (upd f)" and returns_of_res: "returns (of_res (Inr v))"
  by (simp_all add: returns_def act_simps)

lemma returns_and_then: "returns m \<Longrightarrow> (\<And>v. returns (k v)) \<Longrightarrow> returns (and_then m k)"
proof -
  assume m: "returns m" and k: "\<And>v. returns (k v)"
  have "\<exists>v t. and_then m k s = (Inr v, t)" for s
  proof -
    obtain v t where "m s = (Inr v, t)" using m unfolding returns_def by blast
    then show ?thesis using k[of v] by (simp add: returns_def and_then_def)
  qed
  then show ?thesis by (simp add: returns_def)
qed

lemma returns_ask: "(\<And>s. returns (f s)) \<Longrightarrow> returns (ask f)"
  by (simp add: returns_def ask_def)

lemma returns_only_if: "returns m \<Longrightarrow> returns (only_if b m)"
  by (simp add: only_if_def returns_ret)

lemma returns_Nil: "returns (run_all [])"
  by (simp add: returns_def)

lemma returns_Cons: "returns m \<Longrightarrow> returns (run_all ms) \<Longrightarrow> returns (run_all (m # ms))"
  by (simp add: run_all_Cons returns_and_then)

lemma returns_discard: "returns m \<Longrightarrow> returns (discard m)"
  unfolding discard_def by (intro returns_and_then returns_ret)

lemma returns_if: "(b \<Longrightarrow> returns m) \<Longrightarrow> (\<not> b \<Longrightarrow> returns n) \<Longrightarrow> returns (if b then m else n)"
  by simp

lemma returns_side: "returns m \<Longrightarrow> returns n \<Longrightarrow> returns (case sd of BID \<Rightarrow> m | ASK \<Rightarrow> n)"
  by (cases sd) simp_all

lemma returns_given: "returns (f c) \<Longrightarrow> returns (case Some c of None \<Rightarrow> m | Some v \<Rightarrow> f v)"
  by simp

lemmas returns_combine = returns_given returns_ret returns_upd returns_of_res returns_and_then returns_ask returns_only_if
  returns_Nil returns_Cons returns_discard returns_if returns_side

lemma returns_fresh: "returns fresh_id"
  by (simp add: returns_def fresh_id_def)

lemma returns_log_balance: "returns (log_balance_event x u ev)"
  unfolding log_balance_event_def log_event_def by (intro returns_combine) simp_all

lemma returns_update: "returns (update_balance x u (Some c) mk v l a)"
proof -
  have "returns (\<lambda>s. case lua_update_balance (redis_of x) (e_redis s) v l n a of
                (w, r) \<Rightarrow> (Inr (Some w), s\<lparr> e_redis := r \<rparr>))" for n
    by (simp add: returns_def split: prod.splits)
  then show ?thesis
    unfolding update_balance_def by (intro returns_combine returns_fresh returns_log_balance)
qed

lemma returns_moves:
  "returns (increase_cash_escrow x u a (Some c))" "returns (decrease_cash_escrow x u a (Some c))"
  "returns (increase_asset_escrow x u a (Some c))" "returns (decrease_asset_escrow x u a (Some c))"
  "returns (settle_ask x u q p (Some c) n)" "returns (settle_bid x u q p (Some c) n)"
  unfolding increase_cash_escrow_def decrease_cash_escrow_def increase_asset_escrow_def
    decrease_asset_escrow_def settle_ask_def settle_bid_def
  by (intro returns_combine returns_update returns_fresh returns_log_balance)+

lemma returns_reads: "returns (get_available_cash_balance x u)" "returns (get_available_asset_balance x u)"
proof -
  have "returns (get_or_set x k v)" for k v
    by (simp add: returns_def get_or_set_def split: option.split)
  then show "returns (get_available_cash_balance x u)"
    unfolding get_available_cash_balance_def get_cash_balance_def get_cash_escrow_def
    by (intro returns_combine)
  show "returns (get_available_asset_balance x u)"
    unfolding get_available_asset_balance_def Let_def by (intro returns_combine)
qed

lemma returns_settle: "returns (settle x t m q p (Some c) i j)"
  unfolding settle_def by (intro returns_combine returns_moves)

section \<open>Orders that can trade\<close>

text \<open>
  What the handlers of single orders need to return: the engine is attached and has a valid command, the order is a
  single one with a price, and its events can be written.
\<close>

definition going :: "('m, 'r) env \<Rightarrow> ('m, 'r) engine \<Rightarrow> bool" where
  "going x s \<longleftrightarrow> attached s \<and> (\<exists>c. e_cmd s = Some c \<and> is_uuid x c)"

definition ready :: "('m, 'r) env \<Rightarrow> ('m, 'r) engine \<Rightarrow> nat \<Rightarrow> bool" where
  "ready x s r \<longleftrightarrow>
     single s r \<and> (\<exists>p. order_price (obj s r) = Inr (Some p))
     \<and> (user_id (obj s r) = system_user x \<or> is_uuid x (order_id (obj s r)) \<and> json_ok (obj s r))"

lemma going_outside: "outside s t \<Longrightarrow> going x t = going x s"
  by (simp add: outside_def going_def)

lemma ready_objs: "e_objs t = e_objs s \<Longrightarrow> ready x t r = ready x s r"
  by (simp add: ready_def single_def obj_def)

lemma ready_outside: "outside s t \<Longrightarrow> ready x t r = ready x s r"
  by (rule ready_objs) (simp add: outside_def)

lemma ready_can_log: "going x s \<Longrightarrow> ready x s r \<Longrightarrow> can_log x s r"
  by (auto simp: going_def ready_def can_log_def)

lemma own_runs:
  "going x s \<Longrightarrow> ready x s r \<Longrightarrow> ty \<notin> {ORDER_MODIFIED, ORDER_MODIFY_REJECTED} \<Longrightarrow>
   runs (log_own x ty r dt) s (\<lambda>_. outside s)"
  using log_own_done[OF ready_can_log, of x s r ty dt] by (auto simp: runs_def)

lemma fill_event_runs: "going x s \<Longrightarrow> ready x s r \<Longrightarrow> runs (log_fill_event x r) s (\<lambda>_. outside s)"
  unfolding log_fill_event_def by (rule runs_ask) (simp add: own_runs)

lemma trade_event_runs:
  assumes "going x s" "ready x s r"
  shows "runs (log_trade_event x (user_id (obj s r)) (trade_event_of s n r q p role)) s (\<lambda>_. outside s)"
proof -
  have "returns (log_trade_event x (user_id (obj s r)) (trade_event_of s n r q p role))"
    using assms by (auto simp: log_trade_event_def trade_event_of_def going_def ready_def log_event_def
        intro!: returns_combine)
  then show ?thesis by (rule returns_runs[OF _ out_logs(2)])
qed

lemma log_trades_runs:
  assumes "going x s" "ready x s t" "ready x s m"
  shows "runs (log_trades x t m q p i j) s (\<lambda>_. outside s)"
  unfolding log_trades_def
proof (intro runs_all_Cons runs_ask runs_mono[OF trade_event_runs] runs_all_Nil)
  fix u v assume u: "outside s u"
  then show "going x u" "ready x u m" using assms by (simp_all add: going_outside ready_outside)
  show "outside s v" if "outside u v" using out.frame_trans u that by blast
qed (use assms in auto)

lemma filled_runs: "ready x s r \<Longrightarrow> Q () s \<Longrightarrow> runs (handle_filled x r) s Q"
  by (simp add: ready_def single_def runs_def handle_filled_def single_handle_filled_def obj_def act_simps)

lemma escrow_runs: "ready x s r \<Longrightarrow> runs (take_escrow x r (Some c)) s (\<lambda>_. outside s)"
proof -
  assume "ready x s r"
  then obtain p where p: "order_price (obj s r) = Inr (Some p)" by (auto simp: ready_def)
  have "runs (take_escrow x r (Some c)) s (\<lambda>_ _. True)"
    unfolding take_escrow_def Let_def
    by (cases "o_side (obj s r)")
      (auto simp: times_price_def p intro!: runs_ask runs_and_then runs_mono[OF returns_runs[OF returns_discard out.stays_discard]]
        returns_moves out_escrow simp: runs_def[of "of_res w" for w] of_res_def)
  then show ?thesis using staysD[OF out_money(1)] by (fastforce simp: runs_def)
qed

lemma release_runs:
  assumes "going x s" "ready x s r"
  shows "runs (ctx_release_escrow x r) s (\<lambda>_. outside s)"
proof -
  obtain p where p: "order_price (obj s r) = Inr (Some p)" using assms by (auto simp: ready_def)
  obtain c where c: "e_cmd s = Some c" "attached s" using assms by (auto simp: going_def)
  have "runs (ctx_release_escrow x r) s (\<lambda>_ _. True)"
    unfolding ctx_release_escrow_def release_escrow_def Let_def
    by (cases "o_side (obj s r)")
      (auto simp: times_price_def p c intro!: runs_ask runs_only_if runs_and_then
        runs_mono[OF returns_runs[OF returns_discard out.stays_discard]]
        returns_moves out_escrow simp: runs_def[of "of_res w" for w] of_res_def)
  then show ?thesis using staysD[OF out_release(2)] by (fastforce simp: runs_def)
qed

lemma check_runs:
  assumes "ready x s r"
  shows "runs (check_sufficient_balance x r q (Some p)) s
           (\<lambda>b t. outside s t \<and> (e_shadow s = None \<and> user_id (obj s r) = system_user x \<longrightarrow> b))"
proof -
  obtain v where v: "order_price (obj s r) = Inr (Some v)" using assms by (auto simp: ready_def)
  then have "o_type (obj s r) \<noteq> MARKET" by (auto simp: order_price_def)
  then have "runs (check_sufficient_balance x r q (Some p)) s
      (\<lambda>b _. e_shadow s = None \<and> user_id (obj s r) = system_user x \<longrightarrow> b)"
    unfolding check_sufficient_balance_def Let_def
    by (cases "o_side (obj s r)")
      (auto intro!: runs_ask runs_and_then runs_ret runs_mono[OF returns_runs[OF returns_reads(1) out_reads(1)]]
        runs_mono[OF returns_runs[OF returns_reads(2) out_reads(2)]] split: option.split)
  then show ?thesis using staysD[OF out_check] by (fastforce simp: runs_def)
qed

section \<open>The book under the cursor\<close>

text \<open>
  The loop stands on the oldest order of the level. Taking an order out leaves its own \<open>next\<close> alone, so the
  cursor moves on to the order that is the oldest now.
\<close>

context order_book
begin

lemma remove_any:
  assumes R: "book_repr d ok ob ab" and q: "(i, a) \<in> set (ab sd p)"
  shows "\<exists>ob'. ob_remove d ob i sd (Some p) = (Inr (), ob') \<and> book_repr d ok ob' (ab_remove ab sd p i)
    \<and> map n_order (ob_nodes ob') = map n_order (ob_nodes ob) \<and> orders_next ob' a = orders_next ob a"
proof -
  have "i \<in> fst ` set (ab sd p)" using q by force
  from remove_refines[OF R this] obtain ob' where ob': "ob_remove d ob i sd (Some p) = (Inr (), ob')"
      "book_repr d ok ob' (ab_remove ab sd p i)" "node_frame (ob_nodes ob) (ob_nodes ob') (snd ` set (ab sd p))"
      "length (ob_nodes ob') = length (ob_nodes ob)" by blast
  have "map n_order (ob_nodes ob') = map n_order (ob_nodes ob)"
    using ob'(3,4) by (intro nth_equalityI) (auto simp: node_frame_def)
  obtain lv where lv: "sd_lookup d (side_levels ob sd) p = Some lv" using repr_None[OF R, of sd p] q by fastforce
  obtain xs ys where xs: "ab sd p = xs @ (i, a) # ys" using split_list[OF q] by blast
  have L: "level_repr (ob_nodes ob) lv (xs @ (i, a) # ys)" using repr_Some[OF R lv] xs by simp
  have a: "a < length (ob_nodes ob)" using level_repr_bound[OF L, of a] by simp
  have "distinct (map snd xs @ a # map snd ys)" using L by (simp add: level_repr_def)
  then have ne: "last_opt (map snd xs) \<noteq> Some a" "hd_opt (map snd ys) \<noteq> Some a" by (auto dest: last_opt_in hd_opt_in)
  obtain k where "level_remove (ob_nodes ob) lv i = Inr (unlink (ob_nodes ob) (last_opt (map snd xs)) (hd_opt (map snd ys)), k)"
    using level_remove_unlink[OF L] by auto
  then have "ob_nodes ob' = unlink (ob_nodes ob) (last_opt (map snd xs)) (hd_opt (map snd ys))"
    using ob'(1) lv by (auto simp: ob_remove_def Let_def split: if_splits sum.splits)
  then have "orders_next ob' a = orders_next ob a" using a ne by (simp add: orders_next_def unlink_other)
  with ob' \<open>map n_order _ = _\<close> show ?thesis by blast
qed

lemma head_next:
  assumes R: "book_repr d ok ob ab" and q: "ab sd p = (i, a) # xs"
  shows "orders_start d ob p sd = Some a" "orders_next ob a = hd_opt (map snd xs)" "a < length (ob_nodes ob)"
proof -
  obtain lv where lv: "sd_lookup d (side_levels ob sd) p = Some lv" using repr_None[OF R, of sd p] q by auto
  have L: "level_repr (ob_nodes ob) lv ((i, a) # xs)" using repr_Some[OF R lv] q by simp
  then show "orders_start d ob p sd = Some a" "orders_next ob a = hd_opt (map snd xs)" "a < length (ob_nodes ob)"
    using lv by (simp_all add: orders_start_def orders_next_def level_repr_def)
qed

lemma queue_distinct: "book_repr d ok ob ab \<Longrightarrow> distinct (map fst (ab sd p))"
  using repr_None[of ob ab sd p] repr_Some[of ob ab sd p]
  by (cases "sd_lookup d (side_levels ob sd) p") (auto simp: level_repr_def)

end

text \<open>Where one round of the loop leads: to a book that is the queues \<open>ab\<close> and the store \<open>st\<close>, with the cursor's \<open>next\<close> as it was.\<close>

definition step_to :: "('m, 'r) env \<Rightarrow> ('m \<Rightarrow> bool) \<Rightarrow> abs_book \<Rightarrow> (string \<times> nat) list \<Rightarrow> nat \<Rightarrow> ('m, 'r) engine \<Rightarrow> ('m, 'r) engine \<Rightarrow> bool" where
  "step_to x ok ab st a s t \<longleftrightarrow>
     book_repr (levels_api x) ok (e_book t) ab \<and> map n_order (ob_nodes (e_book t)) = map n_order (ob_nodes (e_book s))
     \<and> orders_next (e_book t) a = orders_next (e_book s) a \<and> e_cmd t = e_cmd s \<and> attached t = attached s
     \<and> (e_shadow t = None) = (e_shadow s = None) \<and> e_store t = st"

lemma step_out: "step_to x ok ab st a s t \<Longrightarrow> outside t u \<Longrightarrow> step_to x ok ab st a s u"
  by (simp add: step_to_def outside_def)

lemma out_step: "outside s t \<Longrightarrow> step_to x ok ab st a t u \<Longrightarrow> step_to x ok ab st a s u"
  by (simp add: step_to_def outside_def)

lemma step_here: "book_repr (levels_api x) ok (e_book s) ab \<Longrightarrow> outside s t \<Longrightarrow> step_to x ok ab (e_store s) a s t"
  by (simp add: step_to_def outside_def)

lemma step_going: "step_to x ok ab st a s t \<Longrightarrow> going x t = going x s"
  by (simp add: step_to_def going_def)

text \<open>The order \<open>m\<close> rests at \<open>p\<close>, in the node \<open>a\<close>.\<close>

definition lies :: "('m, 'r) engine \<Rightarrow> abs_book \<Rightarrow> side \<Rightarrow> rat \<Rightarrow> nat \<Rightarrow> nat \<Rightarrow> bool" where
  "lies s ab sd p a m \<longleftrightarrow>
     (order_id (obj s m), a) \<in> set (ab sd p) \<and> o_side (obj s m) = sd \<and> order_price (obj s m) = Inr (Some p)"

context book_env
begin

lemma take_out_runs:
  assumes R: "book_repr (levels_api x) ok (e_book s) ab" and h: "lies s ab sd p a m"
  shows "runs (book_remove x m (Some p)) s
    (\<lambda>_ t. e_objs t = e_objs s \<and> step_to x ok (ab_remove ab sd p (order_id (obj s m))) (e_store s) a s t)"
proof -
  obtain ob where "ob_remove (levels_api x) (e_book s) (order_id (obj s m)) sd (Some p) = (Inr (), ob)"
      "book_repr (levels_api x) ok ob (ab_remove ab sd p (order_id (obj s m)))"
      "map n_order (ob_nodes ob) = map n_order (ob_nodes (e_book s))" "orders_next ob a = orders_next (e_book s) a"
    using remove_any[OF R] h unfolding lies_def by metis
  then show ?thesis using h by (simp add: runs_def book_remove_def act_simps step_to_def lies_def)
qed

end

section \<open>One resting order\<close>

text \<open>The removal of an order from book and store, after steps outside and before steps outside.\<close>

definition moved_to :: "('m, 'r) env \<Rightarrow> ('m \<Rightarrow> bool) \<Rightarrow> abs_book \<Rightarrow> (string \<times> nat) list \<Rightarrow> nat \<Rightarrow> ('m, 'r) engine \<Rightarrow> ('m, 'r) engine \<Rightarrow> bool" where
  "moved_to x ok ab st a s t \<longleftrightarrow> e_objs t = e_objs s \<and> step_to x ok ab st a s t"

lemma moved_out: "moved_to x ok ab st a s t \<Longrightarrow> outside t u \<Longrightarrow> moved_to x ok ab st a s u"
  by (simp add: moved_to_def step_to_def outside_def)

lemma out_moved: "outside s t \<Longrightarrow> moved_to x ok ab st a t u \<Longrightarrow> moved_to x ok ab st a s u"
  by (simp add: moved_to_def step_to_def outside_def)

lemma moved_store: "moved_to x ok ab st a s t \<Longrightarrow> moved_to x ok ab (dict_pop st i) a s (t\<lparr> e_store := dict_pop (e_store t) i \<rparr>)"
  by (simp add: moved_to_def step_to_def)

lemma moved_here: "book_repr (levels_api x) ok (e_book s) ab \<Longrightarrow> moved_to x ok ab (e_store s) a s s"
  by (simp add: moved_to_def step_to_def)

lemma moved_ready: "moved_to x ok ab st a s t \<Longrightarrow> ready x t r = ready x s r"
  unfolding moved_to_def using ready_objs by blast

lemma moved_going: "moved_to x ok ab st a s t \<Longrightarrow> going x t = going x s"
  unfolding moved_to_def using step_going by blast

lemma outside_lies: "outside s t \<Longrightarrow> lies t ab sd p a m = lies s ab sd p a m"
  by (simp add: lies_def outside_def obj_def)

lemma store_remove_runs: "Q () (s\<lparr> e_store := dict_pop (e_store s) (order_id (obj s r)) \<rparr>) \<Longrightarrow> runs (store_remove r) s Q"
  by (simp add: runs_def store_remove_def upd_def)

lemma moved_remove:
  "triple (moved_to x ok ab st a s) (store_remove m) (moved_to x ok ab (dict_pop st (order_id (obj s m))) a s)"
proof (rule tripleI, rule store_remove_runs)
  fix u assume u: "moved_to x ok ab st a s u"
  then have "obj u m = obj s m" by (simp add: moved_to_def obj_def)
  then show "moved_to x ok ab (dict_pop st (order_id (obj s m))) a s (u\<lparr> e_store := dict_pop (e_store u) (order_id (obj u m)) \<rparr>)"
    using moved_store[OF u] by simp
qed

lemma store_outside: "outside s t \<Longrightarrow> e_store t = e_store s"
  by (simp add: outside_def)

context book_env
begin

lemma take_out_moves:
  assumes "book_repr (levels_api x) ok (e_book s) ab" "lies s ab sd p a m"
  shows "runs (book_remove x m (Some p)) s (\<lambda>_. moved_to x ok (ab_remove ab sd p (order_id (obj s m))) (e_store s) a s)"
  unfolding moved_to_def by (rule take_out_runs[OF assms])

lemma cancel_runs:
  assumes R: "book_repr (levels_api x) ok (e_book s) ab" and h: "lies s ab sd p a m"
    and go: "going x s" "ready x s m"
  shows "runs (handle_cancel x m) s (\<lambda>_. moved_to x ok (ab_remove ab sd p (order_id (obj s m)))
    (dict_pop (e_store s) (order_id (obj s m))) a s)"
proof -
  let ?N = "moved_to x ok (ab_remove ab sd p (order_id (obj s m))) (e_store s) a s"
  let ?M = "moved_to x ok (ab_remove ab sd p (order_id (obj s m))) (dict_pop (e_store s) (order_id (obj s m))) a s"
  have rel: "triple ?M (ctx_release_escrow x m) ?M"
  proof (rule tripleI)
    fix u assume u: "?M u"
    show "runs (ctx_release_escrow x m) u (\<lambda>_. ?M)"
      using moved_going[OF u] moved_ready[OF u] go by (intro runs_mono[OF release_runs] moved_out[OF u]) simp_all
  qed
  have rem: "triple (outside s) (remove_at_price x m) ?N"
  proof (rule tripleI)
    fix u assume u: "outside s u"
    have f: "book_repr (levels_api x) ok (e_book u) ab" "lies u ab sd p a m" "obj u m = obj s m"
      using R h u outside_lies[OF u] outside_obj[OF u] by (simp_all add: outside_def)
    then have "remove_at_price x m u = book_remove x m (Some p) u" by (simp add: lies_def remove_at_price_def act_simps)
    moreover have "runs (book_remove x m (Some p)) u (\<lambda>_. ?N)"
      using out_moved[OF u] f(3) store_outside[OF u] by (intro runs_mono[OF take_out_moves[OF f(1,2)]]) simp
    ultimately show "runs (remove_at_price x m) u (\<lambda>_. ?N)" by (simp add: runs_def)
  qed
  have log: "triple (\<lambda>u. u = s) (log_own x ORDER_CANCELLED m dt) (outside s)" for dt
    by (rule tripleI) (simp add: own_runs[OF go])
  have st: "triple ?N (store_remove m) ?M" by (rule moved_remove)
  have "runs (single_handle_cancel x m) s (\<lambda>_. ?M)"
    unfolding single_handle_cancel_def
    by (rule tripleD[OF triple_Cons[OF log triple_Cons[OF rem triple_Cons[OF st triple_Cons[OF rel triple_Nil]]]]]) simp
  then show ?thesis using go(2) by (simp add: ready_def single_def runs_def handle_cancel_def act_simps obj_def)
qed

lemma after_fill_runs:
  assumes R: "book_repr (levels_api x) ok (e_book s) ab" and h: "lies s ab sd p a m"
    and go: "going x s" "ready x s t" "ready x s m"
  defines "ab' \<equiv> (if executed_quantity (obj s m) = quantity (obj s m) then ab_remove ab sd p (order_id (obj s m)) else ab)"
    and "st' \<equiv> (if executed_quantity (obj s m) = quantity (obj s m) then dict_pop (e_store s) (order_id (obj s m)) else e_store s)"
  shows "runs (after_fill x t m q p (Some c) i j pt pm) s (\<lambda>_. moved_to x ok ab' st' a s)"
proof -
  let ?M = "moved_to x ok ab' st' a s"
  have keep: "going x u" "ready x u t" "ready x u m" if "outside s u" for u
    using that go by (simp_all add: going_outside ready_outside)
  have log: "triple (outside s) (log_fill_event x r) (outside s)" if "r \<in> {t, m}" for r
  proof (rule tripleI)
    fix u assume u: "outside s u"
    then have "runs (log_fill_event x r) u (\<lambda>_. outside u)" using that keep by (intro fill_event_runs) auto
    then show "runs (log_fill_event x r) u (\<lambda>_. outside s)" by (rule runs_mono) (rule out.frame_trans[OF u])
  qed
  have filled: "triple (outside s) (handle_filled x r) (outside s)" if "r \<in> {t, m}" for r
    using that keep by (intro tripleI filled_runs) auto
  have out: "triple (outside s) (ask (\<lambda>v. only_if (executed_quantity (obj v m) = quantity (obj v m))
      (run_all [book_remove x m (Some p), store_remove m]))) ?M"
  proof (intro tripleI runs_ask runs_only_if)
    fix u assume u: "outside s u"
    have f: "book_repr (levels_api x) ok (e_book u) ab" "lies u ab sd p a m" "obj u m = obj s m"
      using R h u outside_lies[OF u] outside_obj[OF u] by (simp_all add: outside_def)
    show "?M u" if "executed_quantity (obj u m) \<noteq> quantity (obj u m)"
      using that out_moved[OF u moved_here] f store_outside[OF u] by (simp add: ab'_def st'_def)
    assume full: "executed_quantity (obj u m) = quantity (obj u m)"
    then have st': "st' = dict_pop (e_store s) (order_id (obj s m))" using f(3) by (simp add: st'_def)
    have "triple (\<lambda>v. v = u) (book_remove x m (Some p)) (moved_to x ok ab' (e_store s) a s)"
      using out_moved[OF u] f(3) full store_outside[OF u] unfolding ab'_def
      by (intro tripleI) (simp, intro runs_mono[OF take_out_moves[OF f(1,2)]], simp)
    moreover have "triple (moved_to x ok ab' (e_store s) a s) (store_remove m) ?M" unfolding st' by (rule moved_remove)
    ultimately show "runs (run_all [book_remove x m (Some p), store_remove m]) u (\<lambda>_. ?M)"
      by (rule tripleD[OF triple_Cons[OF _ triple_Cons[OF _ triple_Nil]]]) (rule refl)
  qed
  have money: "triple ?M (only_if b (take_escrow x r (Some c))) ?M" if "r \<in> {t, m}" for b r
  proof (intro tripleI runs_only_if)
    fix u assume u: "?M u"
    then have "ready x u r" using moved_ready[OF u] that go by auto
    then show "runs (take_escrow x r (Some c)) u (\<lambda>_. ?M)"
      by (rule runs_mono[OF escrow_runs]) (rule moved_out[OF u])
  qed
  have settled: "triple ?M (settle x t m q p (Some c) i j) ?M"
    by (rule tripleI, rule runs_mono[OF returns_runs[OF returns_settle out_money(2)]]) (rule moved_out)
  have "t \<in> {t, m}" "m \<in> {t, m}" by simp_all
  note w = this
  show ?thesis
    unfolding after_fill_def
    by (rule tripleD[OF triple_Cons[OF log[OF w(1)] triple_Cons[OF log[OF w(2)]
          triple_Cons[OF filled[OF w(1)] triple_Cons[OF filled[OF w(2)] triple_Cons[OF out
          triple_Cons[OF money[OF w(2)] triple_Cons[OF money[OF w(1)] triple_Cons[OF settled triple_Nil]]]]]]]]]) 
      (rule out.frame_refl)
qed

end

lemma filled_objs:
  assumes "t \<noteq> m" "t < length os" "m < length os"
  shows "both_filled t m q p os = os[t := add_fill q p (os ! t), m := add_fill q p (os ! m)]"
    and "both_filled t m q p os ! m = add_fill q p (os ! m)" "both_filled t m q p os ! t = add_fill q p (os ! t)"
    and "r \<noteq> t \<Longrightarrow> r \<noteq> m \<Longrightarrow> both_filled t m q p os ! r = os ! r"
  using assms by (simp_all add: both_filled_def Let_def)

lemma filled_nth:
  "t \<noteq> m \<Longrightarrow> t < length os \<Longrightarrow> m < length os \<Longrightarrow>
   both_filled t m q p os ! r = (if r = t \<or> r = m then add_fill q p (os ! r) else os ! r)"
  by (simp add: both_filled_def Let_def nth_list_update)

lemma ready_filled:
  assumes "e_objs u = both_filled t m q p (e_objs s)" "t \<noteq> m" "single s t" "single s m"
  shows "ready x u r = ready x s r"
proof (cases "r = t \<or> r = m")
  case True
  then have "obj u r = add_fill q p (obj s r)"
    using assms by (auto simp: obj_def filled_objs single_def)
  then show ?thesis using assms by (simp add: ready_def single_def obj_def json_ok_def)
next
  case False
  then have "obj u r = obj s r" using assms by (auto simp: obj_def filled_objs single_def)
  then show ?thesis using assms by (simp add: ready_def single_def obj_def)
qed

context book_env
begin

lemma process_trade_runs:
  fixes q :: rat
  assumes R: "book_repr (levels_api x) ok (e_book s) ab" and h: "lies s ab sd p a m"
    and go: "going x s" "ready x s t" "ready x s m" "t \<noteq> m"
  defines "ab' \<equiv> (if executed_quantity (obj s m) + q = quantity (obj s m) then ab_remove ab sd p (order_id (obj s m)) else ab)"
    and "st' \<equiv> (if executed_quantity (obj s m) + q = quantity (obj s m) then dict_pop (e_store s) (order_id (obj s m)) else e_store s)"
  shows "runs (process_trade x t m q p) s
    (\<lambda>_ u. e_objs u = both_filled t m q p (e_objs s) \<and> step_to x ok ab' st' a s u)"
proof -
  obtain c where c: "e_cmd s = Some c" using go(1) by (auto simp: going_def)
  define s2 where "s2 = s\<lparr> e_uuid := Suc (Suc (e_uuid s)) \<rparr>"
  have o2: "outside s s2" by (simp add: s2_def outside_def)
  obtain s3 where l: "log_trades x t m q p (e_uuid s) (Suc (e_uuid s)) s2 = (Inr (), s3)" "outside s2 s3"
    using log_trades_runs[of x s2 t m q p "e_uuid s" "Suc (e_uuid s)"] go going_outside[OF o2] ready_outside[OF o2]
    by (auto simp: runs_def)
  have o3: "outside s s3" by (rule out.frame_trans[OF o2 l(2)])
  then have s3: "e_objs s3 = e_objs s" "e_book s3 = e_book s" by (simp_all add: outside_def)
  define s4 where "s4 = s3\<lparr> e_objs := both_filled t m q p (e_objs s) \<rparr>"
  have len: "t < length (e_objs s)" "m < length (e_objs s)" "single s t" "single s m" 
    using go by (simp_all add: ready_def single_def)
  have m4: "obj s4 m = add_fill q p (obj s m)" using go(4) len by (simp add: s4_def obj_def filled_objs)
  have e4: "(if executed_quantity (obj s4 m) = quantity (obj s4 m) then ab_remove ab sd p (order_id (obj s4 m)) else ab) = ab'"
    and e5: "(if executed_quantity (obj s4 m) = quantity (obj s4 m) then dict_pop (e_store s4) (order_id (obj s4 m)) else e_store s4) = st'"
    using store_outside[OF o3] unfolding ab'_def st'_def m4 by (simp_all add: s4_def)
  have "going x s4" using going_outside[OF o3, of x] go(1) by (simp add: s4_def going_def)
  moreover have "ready x s4 r = ready x s r" for r using ready_filled[of s4 t m q p s] go(4) len by (simp add: s4_def)
  moreover have "lies s4 ab sd p a m" using h m4 by (simp add: lies_def)
  moreover have "book_repr (levels_api x) ok (e_book s4) ab" using R s3 by (simp add: s4_def)
  ultimately have "runs (after_fill x t m q p (Some c) (e_uuid s) (Suc (e_uuid s)) i j) s4 (\<lambda>_. moved_to x ok ab' st' a s4)" for i j
    using after_fill_runs[of s4 ab sd p a m t q c "e_uuid s" "Suc (e_uuid s)" i j] go unfolding e4 e5 by simp
  then obtain u where u: "after_fill x t m q p (Some c) (e_uuid s) (Suc (e_uuid s)) (executed_quantity (obj s3 t))
      (executed_quantity (obj s3 m)) s4 = (Inr (), u)" "moved_to x ok ab' st' a s4 u"
    unfolding runs_def by (metis unit.exhaust)
  have "process_trade x t m q p s = (Inr (), u)"
    using u(1) l(1) s3 c
    by (simp add: process_trade_def ask_def and_then_def fresh_id_def s2_def set_obj_def upd_def s4_def both_filled_def Let_def)
  moreover have "e_objs u = both_filled t m q p (e_objs s)" using u(2) by (simp add: moved_to_def s4_def)
  moreover have "step_to x ok ab' st' a s3 u" using u(2) by (simp add: moved_to_def step_to_def s4_def)
  ultimately show ?thesis using out_step[OF o3] by (simp add: runs_def)
qed

text \<open>One round of the loop: the maker has the funds and trades, or is cancelled.\<close>

lemma match_one_runs:
  assumes R: "book_repr (levels_api x) ok (e_book s) ab" and h: "lies s ab sd p a m"
    and go: "going x s" "ready x s t" "ready x s m" "t \<noteq> m"
  defines "left \<equiv> quantity (obj s m) - executed_quantity (obj s m)"
    and "want \<equiv> quantity (obj s t) - executed_quantity (obj s t)"
  shows "\<exists>b u. match_one x t p m s = (Inr (), u)
    \<and> (e_shadow s = None \<and> user_id (obj s m) = system_user x \<longrightarrow> b)
    \<and> e_objs u = (if b then both_filled t m (min left want) p (e_objs s) else e_objs s)
    \<and> step_to x ok (if b \<and> want < left then ab else ab_remove ab sd p (order_id (obj s m)))
        (if b \<and> want < left then e_store s else dict_pop (e_store s) (order_id (obj s m))) a s u"
proof -
  obtain b s1 where b: "check_sufficient_balance x m (min left want) (Some p) s = (Inr b, s1)" "outside s s1"
      "e_shadow s = None \<and> user_id (obj s m) = system_user x \<longrightarrow> b"
    using check_runs[OF go(3), of "min left want" p] by (auto simp: runs_def)
  have one: "match_one x t p m s = (if b then process_trade x t m (min left want) p else handle_cancel x m) s1"
    using b(1) by (simp add: match_one_def ask_def and_then_def Let_def left_def want_def)
  have s1: "book_repr (levels_api x) ok (e_book s1) ab" "lies s1 ab sd p a m" "going x s1" "ready x s1 t" "ready x s1 m"
      "obj s1 m = obj s m" "e_objs s1 = e_objs s"
    using R h go b(2) outside_lies[OF b(2)] going_outside[OF b(2)] ready_outside[OF b(2)] outside_obj[OF b(2)]
    by (simp_all add: outside_def)
  show ?thesis
  proof (cases b)
    case True
    have "executed_quantity (obj s m) + min left want = quantity (obj s m) \<longleftrightarrow> \<not> want < left"
      by (auto simp: left_def want_def min_def)
    then show ?thesis
      using process_trade_runs[OF s1(1-5) go(4), of "min left want"] one True s1(6,7) out_step[OF b(2)] store_outside[OF b(2)]
      by (intro exI[of _ True]) (auto simp: runs_def)
  next
    case False
    then show ?thesis
      using cancel_runs[OF s1(1-3,5)] one s1(6,7) out_step[OF b(2)] b(3) store_outside[OF b(2)]
      by (intro exI[of _ False]) (auto simp: runs_def moved_to_def)
  qed
qed

end

section \<open>The reference\<close>

text \<open>A resting order with its price and what is left of it; a trade with its maker, price and quantity.\<close>

type_synonym resting = "nat \<times> rat \<times> rat"

fun sweep :: "(nat \<Rightarrow> bool) \<Rightarrow> rat \<Rightarrow> resting list \<Rightarrow> resting list \<times> resting list" where
  "sweep f v [] = ([], [])"
| "sweep f v ((m, p, q) # ds) =
     (if v \<le> 0 then ([], (m, p, q) # ds)
      else if \<not> f m then sweep f v ds
      else if v < q then ([(m, p, v)], (m, p, q - v) # ds)
      else case sweep f (v - q) ds of (ts, rest) \<Rightarrow> ((m, p, q) # ts, rest))"

text \<open>The same as a relation, which does not fix in advance who has the funds; an order in \<open>S\<close> has them for sure.\<close>

inductive swept :: "nat set \<Rightarrow> rat \<Rightarrow> resting list \<Rightarrow> resting list \<Rightarrow> resting list \<Rightarrow> bool" for S where
  swept_done: "v \<le> 0 \<Longrightarrow> swept S v ds [] ds"
| swept_empty: "swept S v [] [] []"
| swept_cancel: "0 < v \<Longrightarrow> m \<notin> S \<Longrightarrow> swept S v ds ts rest \<Longrightarrow> swept S v ((m, p, q) # ds) ts rest"
| swept_part: "0 < v \<Longrightarrow> v < q \<Longrightarrow> swept S v ((m, p, q) # ds) [(m, p, v)] ((m, p, q - v) # ds)"
| swept_whole: "0 < v \<Longrightarrow> q \<le> v \<Longrightarrow> swept S (v - q) ds ts rest \<Longrightarrow>
    swept S v ((m, p, q) # ds) ((m, p, q) # ts) rest"

definition volume :: "resting list \<Rightarrow> rat" where
  "volume ts = sum_list (map (\<lambda>(m, p, q). q) ts)"

lemma volume_simps [simp]: "volume [] = 0" "volume ((m, p, q) # ts) = q + volume ts" "volume (ts @ us) = volume ts + volume us"
  by (simp_all add: volume_def)

lemma swept_then: "swept S v xs ts [] \<Longrightarrow> swept S (v - volume ts) ys us rest \<Longrightarrow> swept S v (xs @ ys) (ts @ us) rest"
proof (induction v xs ts "[] :: resting list" rule: swept.induct)
  case (swept_whole v q ds ts m p)
  then show ?case using swept.swept_whole[of v q S "ds @ ys" "ts @ us" rest m p] by (simp add: algebra_simps)
qed (auto intro: swept.swept_cancel)

lemma swept_stop: "swept S v xs ts rest \<Longrightarrow> v \<le> volume ts \<Longrightarrow> swept S v (xs @ ys) ts (rest @ ys)"
proof (induction rule: swept.induct)
  case (swept_whole v q ds ts rest m p)
  then show ?case using swept.swept_whole[of v q S "ds @ ys" ts "rest @ ys" m p] by (simp add: algebra_simps)
qed (auto intro: swept.swept_cancel swept.swept_part swept.swept_done)

lemma swept_bound: "swept S v ds ts rest \<Longrightarrow> 0 \<le> v \<Longrightarrow> volume ts \<le> v"
  by (induction rule: swept.induct) auto

lemma swept_rest: "swept S v ds ts rest \<Longrightarrow> volume ts < v \<Longrightarrow> rest = []"
  by (induction rule: swept.induct) auto

lemma sweep_cong: "(\<And>m. m \<in> fst ` set ds \<Longrightarrow> f m = g m) \<Longrightarrow> sweep f v ds = sweep g v ds"
proof (induction ds arbitrary: v)
  case (Cons d ds)
  obtain m p q where d: "d = (m, p, q)" by (cases d)
  have "sweep f w ds = sweep g w ds" for w using Cons by simp
  moreover have "f m = g m" using Cons(2)[of m] d by simp
  ultimately show ?case by (simp add: d)
qed simp

lemma swept_sweep:
  "swept S v ds ts rest \<Longrightarrow> distinct (map fst ds) \<Longrightarrow> \<exists>f. (\<forall>m \<in> S. f m) \<and> sweep f v ds = (ts, rest)"
proof (induction rule: swept.induct)
  case (swept_done v ds)
  then have "sweep (\<lambda>_. True) v ds = ([], ds)" by (cases ds) auto
  then show ?case by (intro exI[of _ "\<lambda>_. True"]) simp
next
  case (swept_cancel v m ds ts rest p q)
  then obtain f where f: "\<forall>m \<in> S. f m" "sweep f v ds = (ts, rest)" by auto
  define g where "g = f(m := False)"
  have "sweep g v ds = sweep f v ds" using swept_cancel by (intro sweep_cong) (auto simp: g_def)
  moreover have "g m = False" "\<forall>r \<in> S. g r" using f(1) swept_cancel by (auto simp: g_def)
  ultimately show ?case using f(2) swept_cancel by (intro exI[of _ g]) simp
next
  case (swept_part v q m p ds)
  then show ?case by (intro exI[of _ "\<lambda>_. True"]) simp
next
  case (swept_whole v q ds ts rest m p)
  then obtain f where f: "\<forall>m \<in> S. f m" "sweep f (v - q) ds = (ts, rest)" by auto
  define g where "g = f(m := True)"
  have "sweep g (v - q) ds = sweep f (v - q) ds" using swept_whole by (intro sweep_cong) (auto simp: g_def)
  moreover have "g m = True" "\<forall>r \<in> S. g r" using f(1) swept_whole by (auto simp: g_def)
  ultimately show ?case using f(2) swept_whole by (intro exI[of _ g]) simp
qed (auto intro: exI[of _ "\<lambda>_. True"])

text \<open>What the trades do to the order objects.\<close>

definition trades_on :: "nat \<Rightarrow> resting list \<Rightarrow> order list \<Rightarrow> order list" where
  "trades_on t ts os = fold (\<lambda>(m, p, q). both_filled t m q p) ts os"

lemma trades_on_simps [simp]:
  "trades_on t [] os = os" "trades_on t ((m, p, q) # ts) os = trades_on t ts (both_filled t m q p os)"
  "trades_on t (ts @ us) os = trades_on t us (trades_on t ts os)"
  by (simp_all add: trades_on_def)

section \<open>The resting orders of a side\<close>

definition unfilled :: "('m, 'r) engine \<Rightarrow> nat \<Rightarrow> rat" where
  "unfilled s r = quantity (obj s r) - executed_quantity (obj s r)"

definition prices :: "abs_book \<Rightarrow> side \<Rightarrow> rat list" where
  "prices ab sd = (let l = sorted_list_of_set {p. ab sd p \<noteq> []} in case sd of BID \<Rightarrow> rev l | ASK \<Rightarrow> l)"

definition order_at :: "('m, 'r) engine \<Rightarrow> nat \<Rightarrow> nat" where
  "order_at s a = n_order (ob_nodes (e_book s) ! a)"

definition waiting :: "('m, 'r) engine \<Rightarrow> rat \<Rightarrow> (string \<times> nat) list \<Rightarrow> resting list" where
  "waiting s p xs = map (\<lambda>(i, a). (order_at s a, p, unfilled s (order_at s a))) xs"

definition book_depth :: "('m, 'r) engine \<Rightarrow> abs_book \<Rightarrow> side \<Rightarrow> resting list" where
  "book_depth s ab sd = concat (map (\<lambda>p. waiting s p (ab sd p)) (prices ab sd))"

lemma waiting_simps [simp]:
  "waiting s p [] = []" "waiting s p ((i, a) # xs) = (order_at s a, p, unfilled s (order_at s a)) # waiting s p xs"
  "length (waiting s p xs) = length xs"
  by (simp_all add: waiting_def)

section \<open>The levels, best first\<close>

context book_env
begin

lemma prices_finite: "book_repr (levels_api x) ok ob ab \<Longrightarrow> finite {p. ab sd p \<noteq> []}"
proof -
  assume R: "book_repr (levels_api x) ok ob ab"
  have "{p. ab sd p \<noteq> []} = set (sd_keys (levels_api x) (side_levels ob sd))"
    using keys_lookup[OF repr_ok[OF R]] repr_None[OF R] by auto
  then show ?thesis by simp
qed

lemma set_prices: "book_repr (levels_api x) ok ob ab \<Longrightarrow> set (prices ab sd) = {p. ab sd p \<noteq> []}"
  using prices_finite[of ob ab sd] by (cases sd) (simp_all add: prices_def)

lemma distinct_prices: "distinct (prices ab sd)"
  by (cases sd) (simp_all add: prices_def)

lemma best_is_first:
  assumes R: "book_repr (levels_api x) ok ob ab"
  shows "best_price ob sd = hd_opt (prices ab sd)"
proof -
  let ?l = "sorted_list_of_set {p. ab sd p \<noteq> []}"
  have fin: "set ?l = {p. ab sd p \<noteq> []}" using prices_finite[OF R] by simp
  have "is_best sd (\<lambda>p. ab sd p \<noteq> []) (hd_opt (prices ab sd))"
  proof (cases sd)
    case ASK
    show ?thesis
    proof (cases ?l)
      case Nil
      then show ?thesis using fin ASK by (simp add: prices_def is_best_def)
    next
      case (Cons b l)
      have "sorted (b # l)" using sorted_sorted_list_of_set[of "{p. ab sd p \<noteq> []}"] Cons by simp
      then have "b \<le> q" if "ab sd q \<noteq> []" for q using that fin Cons by auto
      moreover have "ab sd b \<noteq> []" using fin Cons by auto
      ultimately show ?thesis using Cons ASK by (simp add: prices_def is_best_def better_def leD)
    qed
  next
    case BID
    show ?thesis
    proof (cases ?l rule: rev_cases)
      case Nil
      then show ?thesis using fin BID by (simp add: prices_def is_best_def)
    next
      case (snoc l b)
      have "sorted (l @ [b])" using sorted_sorted_list_of_set[of "{p. ab sd p \<noteq> []}"] snoc by simp
      then have "q \<le> b" if "ab sd q \<noteq> []" for q using that fin snoc by (auto simp: sorted_append)
      moreover have "ab sd b \<noteq> []" using fin snoc by auto
      ultimately show ?thesis using snoc BID by (simp add: prices_def is_best_def better_def leD)
    qed
  qed
  then show ?thesis using is_best_unique[OF repr_best[OF R]] by blast
qed

lemma prices_emptied:
  assumes R: "book_repr (levels_api x) ok ob ab" and p: "prices ab sd = p # ps"
    and e: "ab' sd p = []" "\<And>q. q \<noteq> p \<Longrightarrow> ab' sd q = ab sd q"
  shows "prices ab' sd = ps"
proof -
  have "{q. ab' sd q \<noteq> []} = {q. ab sd q \<noteq> []} - {p}"
  proof -
    have "ab' sd q \<noteq> [] \<longleftrightarrow> ab sd q \<noteq> [] \<and> q \<noteq> p" for q using e by (cases "q = p") simp_all
    then show ?thesis by auto
  qed
  moreover have "p \<in> {q. ab sd q \<noteq> []}" using set_prices[OF R, of sd] p by auto
  ultimately have l: "sorted_list_of_set {q. ab' sd q \<noteq> []} = remove1 p (sorted_list_of_set {q. ab sd q \<noteq> []})"
    using sorted_list_of_set.sorted_key_list_of_set_remove[OF prices_finite[OF R, of sd], of p] by simp
  show ?thesis
  proof (cases sd)
    case ASK
    then show ?thesis using l p by (simp add: prices_def)
  next
    case BID
    then have s: "sorted_list_of_set {q. ab sd q \<noteq> []} = rev ps @ [p]" using p by (simp add: prices_def rev_swap)
    have "p \<notin> set ps" using distinct_prices[of ab sd] p by simp
    then show ?thesis using l s BID by (simp add: prices_def remove1_append)
  qed
qed

lemma prices_same: "(\<And>q. (ab' sd q = []) = (ab sd q = [])) \<Longrightarrow> prices ab' sd = prices ab sd"
  by (simp add: prices_def)

end

section \<open>The loop\<close>

text \<open>
  The orders that rest on a side: each is in the queue of its price under its id, is ready and has something left.
  With a taker of the other side this is what the loop keeps; \<open>S\<close> are orders of the system user, whose funds a live
  engine does not check.
\<close>

definition rests :: "('m, 'r) env \<Rightarrow> ('m, 'r) engine \<Rightarrow> abs_book \<Rightarrow> side \<Rightarrow> bool" where
  "rests x s ab sd \<longleftrightarrow>
     (\<forall>p. \<forall>(i, a) \<in> set (ab sd p). let m = order_at s a in
        order_id (obj s m) = i \<and> o_side (obj s m) = sd \<and> order_price (obj s m) = Inr (Some p) \<and> ready x s m
        \<and> 0 < unfilled s m)"

text \<open>The store knows exactly the resting orders, each by its id.\<close>

definition stored :: "('m, 'r) engine \<Rightarrow> abs_book \<Rightarrow> bool" where
  "stored s ab \<longleftrightarrow>
     (\<forall>i r. store_get s i = Some r \<longleftrightarrow> (\<exists>sd p a. (i, a) \<in> set (ab sd p) \<and> order_at s a = r))"

definition accounted :: "('m, 'r) env \<Rightarrow> ('m, 'r) engine \<Rightarrow> abs_book \<Rightarrow> bool" where
  "accounted x s ab \<longleftrightarrow> (\<forall>sd. rests x s ab sd) \<and> stored s ab"

definition walking ::
    "('m, 'r) env \<Rightarrow> ('m \<Rightarrow> bool) \<Rightarrow> side \<Rightarrow> nat \<Rightarrow> nat set \<Rightarrow> ('m, 'r) engine \<Rightarrow> abs_book \<Rightarrow> bool" where
  "walking x ok sd t S s ab \<longleftrightarrow>
     book_repr (levels_api x) ok (e_book s) ab \<and> accounted x s ab \<and> going x s \<and> ready x s t \<and> o_side (obj s t) \<noteq> sd
     \<and> (\<forall>sd p i a. (i, a) \<in> set (ab sd p) \<longrightarrow> order_at s a \<noteq> t)
     \<and> (\<forall>r \<in> S. e_shadow s = None \<and> user_id (obj s r) = system_user x)"

lemma restsD:
  assumes "rests x s ab sd" "(i, a) \<in> set (ab sd p)"
  shows "order_id (obj s (order_at s a)) = i" "o_side (obj s (order_at s a)) = sd"
    "order_price (obj s (order_at s a)) = Inr (Some p)" "ready x s (order_at s a)" "0 < unfilled s (order_at s a)"
  using assms by (fastforce simp: rests_def Let_def)+

lemma accountedD: "accounted x s ab \<Longrightarrow> rests x s ab sd" "accounted x s ab \<Longrightarrow> stored s ab"
  by (simp_all add: accounted_def)

lemma storedD: "stored s ab \<Longrightarrow> (i, a) \<in> set (ab sd p) \<Longrightarrow> store_get s i = Some (order_at s a)"
  by (auto simp: stored_def)

lemma rests_distinct:
  assumes "rests x s ab sd" "(i, a) \<in> set (ab sd p)" "(j, b) \<in> set (ab sd q)" "order_at s a = order_at s b"
  shows "i = j" "p = q"
  using restsD[OF assms(1,2)] restsD[OF assms(1,3)] assms(4) by simp_all

lemma order_at_step:
  "step_to x ok ab st a s u \<Longrightarrow> b < length (ob_nodes (e_book s)) \<Longrightarrow> order_at u b = order_at s b"
  unfolding step_to_def order_at_def by (metis length_map nth_map)

text \<open>One round, seen from the queues: the head leaves its queue, or the taker is filled and the head keeps the rest.\<close>

definition round_to ::
    "('m, 'r) env \<Rightarrow> ('m \<Rightarrow> bool) \<Rightarrow> side \<Rightarrow> nat \<Rightarrow> nat set \<Rightarrow> rat \<Rightarrow> nat \<Rightarrow> bool \<Rightarrow> ('m, 'r) engine \<Rightarrow> abs_book
     \<Rightarrow> ('m, 'r) engine \<Rightarrow> abs_book \<Rightarrow> bool" where
  "round_to x ok sd t S p m b s ab u ab' \<longleftrightarrow>
     walking x ok sd t S u ab'
     \<and> (\<forall>sd' p'. (sd', p') \<noteq> (sd, p) \<longrightarrow> ab' sd' p' = ab sd' p')
     \<and> e_objs u = (if b then both_filled t m (min (unfilled s m) (unfilled s t)) p (e_objs s) else e_objs s)
     \<and> (\<forall>sd' p' i a. (i, a) \<in> set (ab sd' p') \<longrightarrow> order_at u a = order_at s a)
     \<and> (\<forall>sd' p'. set (ab' sd' p') \<subseteq> set (ab sd' p'))"

context book_env
begin

lemma one_round:
  assumes W: "walking x ok sd t S s ab" and q: "ab sd p = (i, a) # xs" and want: "0 < unfilled s t"
  defines "m \<equiv> order_at s a"
  shows "\<exists>b u ab'. match_one x t p m s = (Inr (), u) \<and> (m \<in> S \<longrightarrow> b) \<and> round_to x ok sd t S p m b s ab u ab'
    \<and> ab' sd p = (if b \<and> unfilled s t < unfilled s m then ab sd p else xs)
    \<and> orders_next (e_book u) a = hd_opt (map snd xs)"
proof -
  have R: "book_repr (levels_api x) ok (e_book s) ab" and acc: "accounted x s ab" and go: "going x s" "ready x s t"
    and side: "o_side (obj s t) \<noteq> sd" and S: "\<forall>r \<in> S. e_shadow s = None \<and> user_id (obj s r) = system_user x"
    and out: "\<And>sd' p' j c. (j, c) \<in> set (ab sd' p') \<Longrightarrow> order_at s c \<noteq> t"
    using W unfolding walking_def by blast+
  note rs = accountedD(1)[OF acc, of sd]
  have mem: "(i, a) \<in> set (ab sd p)" using q by simp
  note m = restsD[OF rs mem, folded m_def]
  have tm: "t \<noteq> m" using m(2) side by auto
  have h: "lies s ab sd p a m" using mem m by (simp add: lies_def)
  obtain b u where one: "match_one x t p m s = (Inr (), u)" "e_shadow s = None \<and> user_id (obj s m) = system_user x \<longrightarrow> b"
      "e_objs u = (if b then both_filled t m (min (unfilled s m) (unfilled s t)) p (e_objs s) else e_objs s)"
      "step_to x ok (if b \<and> unfilled s t < unfilled s m then ab else ab_remove ab sd p (order_id (obj s m)))
         (if b \<and> unfilled s t < unfilled s m then e_store s else dict_pop (e_store s) (order_id (obj s m))) a s u"
    using match_one_runs[OF R h go m(4) tm] unfolding unfilled_def by blast
  define ab' where "ab' = (if b \<and> unfilled s t < unfilled s m then ab else ab_remove ab sd p (order_id (obj s m)))"
  define st where "st = (if b \<and> unfilled s t < unfilled s m then e_store s else dict_pop (e_store s) (order_id (obj s m)))"
  have step: "step_to x ok ab' st a s u" using one(4) by (simp add: ab'_def st_def)
  have "i \<notin> fst ` set xs" using queue_distinct[OF R, of sd p] q by simp
  then have "dict_pop (ab sd p) i = xs" using q by (force simp: dict_pop_def filter_id_conv)
  then have ab'p: "ab' sd p = (if b \<and> unfilled s t < unfilled s m then ab sd p else xs)"
    using m(1) by (simp add: ab'_def ab_remove_def)
  have ab'o: "ab' sd' p' = ab sd' p'" if "(sd', p') \<noteq> (sd, p)" for sd' p'
    using that by (auto simp: ab'_def ab_remove_def)
  have sub: "set (ab' sd' p') \<subseteq> set (ab sd' p')" for sd' p'
    using ab'p ab'o[of sd' p'] q by (cases "(sd', p') = (sd, p)") auto
  have nodes: "order_at u c = order_at s c" if "(j, c) \<in> set (ab sd' p')" for j c sd' p'
    using order_at_step[OF step] repr_bound[OF R, of c sd' p'] that by force
  have len: "t < length (e_objs s)" "m < length (e_objs s)" using go(2) m(4) by (simp_all add: ready_def single_def)
  have rdy: "ready x u r = ready x s r" for r
    using one(3) ready_filled[of u t m _ p s x r] ready_objs[of u s x r] tm go(2) m(4)
    by (cases b) (simp_all add: ready_def)
  have other: "obj u r = obj s r" if "r \<noteq> t" "r \<noteq> m" for r
    using one(3) that tm len by (simp add: obj_def filled_nth)
  have kept: "order_id (obj u r) = order_id (obj s r) \<and> o_side (obj u r) = o_side (obj s r)
      \<and> order_price (obj u r) = order_price (obj s r) \<and> user_id (obj u r) = user_id (obj s r)" for r
    using one(3) tm len by (auto simp: obj_def filled_nth)
  have gone: "(sd', p') = (sd, p) \<and> b \<and> unfilled s t < unfilled s m" if "(j, c) \<in> set (ab' sd' p')" "order_at s c = m" for j c sd' p'
  proof -
    have c': "(j, c) \<in> set (ab sd' p')" using that sub by blast
    have "sd' = sd" using restsD(2)[OF accountedD(1)[OF acc] c'] that(2) m(2) by simp
    then have "j = i" "p' = p" using rests_distinct[OF rs _ mem] c' that(2) by (simp_all add: m_def)
    then show ?thesis using that \<open>sd' = sd\<close> ab'p \<open>i \<notin> fst ` set xs\<close> by (force split: if_splits)
  qed
  have "rests x u ab' sd'" for sd'
    unfolding rests_def Let_def
  proof (intro allI ballI, clarify)
    fix p' j c assume c: "(j, c) \<in> set (ab' sd' p')"
    then have c': "(j, c) \<in> set (ab sd' p')" using sub by blast
    note r = restsD[OF accountedD(1)[OF acc] c']
    have "0 < unfilled u (order_at s c)"
    proof (cases "order_at s c = m")
      case False
      then have "obj u (order_at s c) = obj s (order_at s c)" using other out[OF c'] by blast
      then show ?thesis using r(5) by (simp add: unfilled_def)
    next
      case True
      then have "b \<and> unfilled s t < unfilled s m" using gone[OF c] by blast
      then show ?thesis using True one(3) tm len by (simp add: unfilled_def obj_def filled_nth min_def split: if_splits)
    qed
    then show "order_id (obj u (order_at u c)) = j \<and> o_side (obj u (order_at u c)) = sd'
        \<and> order_price (obj u (order_at u c)) = Inr (Some p') \<and> ready x u (order_at u c) \<and> 0 < unfilled u (order_at u c)"
      using nodes[OF c'] r kept rdy by simp
  qed
  moreover have "stored u ab'"
    unfolding stored_def
  proof (intro allI)
    fix j r
    have st: "store_get u j = (if j = i \<and> \<not> (b \<and> unfilled s t < unfilled s m) then None else store_get s j)"
      using step m(1) by (auto simp: step_to_def st_def store_get_def map_of_dict_pop)
    have head: "store_get s i = Some m" using storedD[OF accountedD(2)[OF acc] mem] by (simp add: m_def)
    show "store_get u j = Some r \<longleftrightarrow> (\<exists>sd' p' c. (j, c) \<in> set (ab' sd' p') \<and> order_at u c = r)" (is "?l \<longleftrightarrow> ?r")
    proof
      assume ?l
      then obtain sd' p' c where c: "(j, c) \<in> set (ab sd' p')" "order_at s c = r" "\<not> (j = i \<and> \<not> (b \<and> unfilled s t < unfilled s m))"
        using st accountedD(2)[OF acc] by (auto simp: stored_def split: if_splits)
      then have "(j, c) \<in> set (ab' sd' p')" using ab'p ab'o[of sd' p'] q by (cases "(sd', p') = (sd, p)") auto
      then show ?r using c nodes by blast
    next
      assume ?r
      then obtain sd' p' c where c: "(j, c) \<in> set (ab' sd' p')" "order_at u c = r" by blast
      have c1: "(j, c) \<in> set (ab sd' p')" using c(1) sub by blast
      then have c': "(j, c) \<in> set (ab sd' p')" "order_at s c = r" using nodes[OF c1] c(2) by simp_all
      have sj: "store_get s j = Some r" using storedD[OF accountedD(2)[OF acc] c'(1)] c'(2) by simp
      moreover have "b \<and> unfilled s t < unfilled s m" if "j = i"
        using gone[OF c(1)] sj head c'(2) that by simp
      ultimately show ?l using st by auto
    qed
  qed
  ultimately have "accounted x u ab'" by (simp add: accounted_def)
  moreover have "order_at u c \<noteq> t" if "(j, c) \<in> set (ab' sd' p')" for j c sd' p'
    using out nodes sub that by (metis subsetD)
  ultimately have "walking x ok sd t S u ab'"
    using step step_going[OF step] go side S kept rdy unfolding walking_def by (simp add: step_to_def)
  then have "round_to x ok sd t S p m b s ab u ab'" using ab'o one(3) nodes sub unfolding round_to_def by blast
  moreover have "orders_next (e_book u) a = hd_opt (map snd xs)" using step head_next(2)[OF R q] by (simp add: step_to_def)
  ultimately show ?thesis using one(1,2) S ab'p by blast
qed

end

lemma level_stops: "unfilled s t \<le> 0 \<Longrightarrow> (k = 0 \<Longrightarrow> c = None) \<Longrightarrow> match_level x k t p c s = (Inr (), s)"
  by (cases c; cases k) (auto simp: act_simps unfilled_def)

lemma level_goes:
  "0 < unfilled s t \<Longrightarrow> match_one x t p (order_at s a) s = (Inr (), u) \<Longrightarrow>
   match_level x (Suc k) t p (Some a) s = match_level x k t p (orders_next (e_book u) a) u"
  by (simp add: act_simps unfilled_def order_at_def)

text \<open>A round changes what is left of the taker and of the head, and of no other order that waits.\<close>

lemma round_waiting:
  assumes W: "walking x ok sd t S s ab" and mem: "(i, a) \<in> set (ab sd p)"
    and r: "round_to x ok sd t S p (order_at s a) b s ab u ab'"
  shows "set ys \<subseteq> set (ab sd p') \<Longrightarrow> p' \<noteq> p \<or> i \<notin> fst ` set ys \<Longrightarrow> waiting u p' ys = waiting s p' ys"
    and "unfilled u t = unfilled s t - (if b then min (unfilled s (order_at s a)) (unfilled s t) else 0)"
    and "unfilled u (order_at s a) = unfilled s (order_at s a) - (if b then min (unfilled s (order_at s a)) (unfilled s t) else 0)"
proof -
  let ?m = "order_at s a"
  have rs: "rests x s ab sd" and side: "o_side (obj s t) \<noteq> sd" and t: "ready x s t"
    using W accountedD(1)[of x s ab sd] by (simp_all add: walking_def)
  note m = restsD[OF rs mem]
  have tm: "t \<noteq> ?m" using m(2) side by auto
  have len: "t < length (e_objs s)" "?m < length (e_objs s)" using t m(4) by (simp_all add: ready_def single_def)
  have objs: "e_objs u = (if b then both_filled t ?m (min (unfilled s ?m) (unfilled s t)) p (e_objs s) else e_objs s)"
    and nodes: "\<And>p' i a. (i, a) \<in> set (ab sd p') \<Longrightarrow> order_at u a = order_at s a"
    using r unfolding round_to_def by blast+
  show "unfilled u t = unfilled s t - (if b then min (unfilled s ?m) (unfilled s t) else 0)"
    and "unfilled u ?m = unfilled s ?m - (if b then min (unfilled s ?m) (unfilled s t) else 0)"
    using objs tm len by (simp_all add: unfilled_def obj_def filled_nth)
  assume ys: "set ys \<subseteq> set (ab sd p')" "p' \<noteq> p \<or> i \<notin> fst ` set ys"
  have "order_at u c = order_at s c \<and> unfilled u (order_at s c) = unfilled s (order_at s c)" if c: "(j, c) \<in> set ys" for j c
  proof -
    have mem': "(j, c) \<in> set (ab sd p')" using c ys(1) by blast
    have "order_at s c \<noteq> ?m"
      using rests_distinct[OF rs mem' mem] ys(2) c by (metis fst_conv imageI)
    moreover have "order_at s c \<noteq> t" using restsD(2)[OF rs mem'] side by auto
    ultimately have "obj u (order_at s c) = obj s (order_at s c)" using objs tm len by (simp add: obj_def filled_nth)
    then show ?thesis using nodes[OF mem'] by (simp add: unfilled_def)
  qed
  then show "waiting u p' ys = waiting s p' ys" unfolding waiting_def by (intro map_cong) auto
qed

text \<open>The loop over the orders of one price.\<close>

definition level_to ::
    "('m, 'r) env \<Rightarrow> ('m \<Rightarrow> bool) \<Rightarrow> side \<Rightarrow> nat \<Rightarrow> nat set \<Rightarrow> rat \<Rightarrow> ('m, 'r) engine \<Rightarrow> abs_book
     \<Rightarrow> resting list \<Rightarrow> ('m, 'r) engine \<Rightarrow> abs_book \<Rightarrow> bool" where
  "level_to x ok sd t S p s ab ts u ab' \<longleftrightarrow>
     walking x ok sd t S u ab' \<and> e_objs u = trades_on t ts (e_objs s) \<and> unfilled u t = unfilled s t - volume ts
     \<and> (ab' sd p = [] \<or> unfilled u t \<le> 0)
     \<and> (\<forall>sd' p'. (sd', p') \<noteq> (sd, p) \<longrightarrow> ab' sd' p' = ab sd' p')
     \<and> (\<forall>p'. p' \<noteq> p \<longrightarrow> waiting u p' (ab sd p') = waiting s p' (ab sd p'))
     \<and> (\<forall>sd' p'. set (ab' sd' p') \<subseteq> set (ab sd' p'))"

lemma level_to_here: "walking x ok sd t S s ab \<Longrightarrow> ab sd p = [] \<or> unfilled s t \<le> 0 \<Longrightarrow> level_to x ok sd t S p s ab [] s ab"
  by (simp add: level_to_def)

lemma level_to_round:
  assumes W: "walking x ok sd t S s ab" and mem: "(i, a) \<in> set (ab sd p)"
    and r: "round_to x ok sd t S p (order_at s a) b s ab u ab'" and l: "level_to x ok sd t S p u ab' ts v ab''"
  shows "level_to x ok sd t S p s ab
    (if b then (order_at s a, p, min (unfilled s (order_at s a)) (unfilled s t)) # ts else ts) v ab''"
proof -
  note r = r[unfolded round_to_def] and l = l[unfolded level_to_def]
  let ?ts = "if b then (order_at s a, p, min (unfilled s (order_at s a)) (unfilled s t)) # ts else ts"
  have W': "walking x ok sd t S v ab''" and z: "ab'' sd p = [] \<or> unfilled v t \<le> 0"
    and u: "unfilled v t = unfilled u t - volume ts" and objs: "e_objs v = trades_on t ts (e_objs u)"
      "e_objs u = (if b then both_filled t (order_at s a) (min (unfilled s (order_at s a)) (unfilled s t)) p (e_objs s) else e_objs s)"
    and same: "\<And>sd' p'. (sd', p') \<noteq> (sd, p) \<Longrightarrow> ab'' sd' p' = ab' sd' p'" "\<And>sd' p'. (sd', p') \<noteq> (sd, p) \<Longrightarrow> ab' sd' p' = ab sd' p'"
    and w: "\<And>p'. p' \<noteq> p \<Longrightarrow> waiting v p' (ab' sd p') = waiting u p' (ab' sd p')"
    and sub: "\<And>sd' p'. set (ab'' sd' p') \<subseteq> set (ab' sd' p')" "\<And>sd' p'. set (ab' sd' p') \<subseteq> set (ab sd' p')"
    using r l by blast+
  have "waiting v p' (ab sd p') = waiting s p' (ab sd p')" if "p' \<noteq> p" for p'
    using w[OF that] same(2)[of sd p'] that round_waiting(1)[OF W mem assms(3), of "ab sd p'" p'] by simp
  moreover have "ab'' sd' p' = ab sd' p'" if "(sd', p') \<noteq> (sd, p)" for sd' p' using same[OF that] by simp
  moreover have "e_objs v = trades_on t ?ts (e_objs s)" using objs by simp
  moreover have "unfilled v t = unfilled s t - volume ?ts" using u round_waiting(2)[OF W mem assms(3)] by simp
  moreover have "set (ab'' sd' p') \<subseteq> set (ab sd' p')" for sd' p' by (rule subset_trans[OF sub])
  ultimately show ?thesis using W' z unfolding level_to_def by blast
qed

context book_env
begin

lemma level_runs:
  assumes "walking x ok sd t S s ab" "ab sd p = xs" "length xs \<le> k"
  shows "\<exists>u ab' ts. match_level x k t p (hd_opt (map snd xs)) s = (Inr (), u) \<and> level_to x ok sd t S p s ab ts u ab'
    \<and> swept S (unfilled s t) (waiting s p xs) ts (waiting u p (ab' sd p))"
  using assms
proof (induction xs arbitrary: s ab k)
  case Nil
  then show ?case by (intro exI[of _ s] exI[of _ ab] exI[of _ "[]"]) (auto simp: level_to_here act_simps intro: swept_empty)
next
  case (Cons ia xs)
  obtain i a where ia: "ia = (i, a)" by (cases ia)
  obtain k' where k: "k = Suc k'" "length xs \<le> k'" using Cons(4) by (cases k) auto
  have q: "ab sd p = (i, a) # xs" "(i, a) \<in> set (ab sd p)" using Cons(3) ia by simp_all
  let ?m = "order_at s a"
  show ?case
  proof (cases "0 < unfilled s t")
    case False
    then show ?thesis
      using level_to_here[OF Cons(2), of p] Cons(3) k level_stops[of s t k "hd_opt (map snd (ia # xs))" x p]
      by (intro exI[of _ s] exI[of _ ab] exI[of _ "[]"]) (simp del: match_level.simps hd_opt_simps list.map add: swept_done)
  next
    case True
    obtain b u ab1 where one: "match_one x t p ?m s = (Inr (), u)" "?m \<in> S \<longrightarrow> b"
        "round_to x ok sd t S p ?m b s ab u ab1"
        "ab1 sd p = (if b \<and> unfilled s t < unfilled s ?m then ab sd p else xs)" "orders_next (e_book u) a = hd_opt (map snd xs)"
      using one_round[OF Cons(2) q(1) True] by blast
    have go: "match_level x k t p (hd_opt (map snd (ia # xs))) s = match_level x k' t p (hd_opt (map snd xs)) u"
      using level_goes[OF True one(1), of k'] ia k one(5) by simp
    have W1: "walking x ok sd t S u ab1" using one(3) by (simp add: round_to_def)
    have "i \<notin> fst ` set xs" using queue_distinct[of "e_book s" ab sd p] Cons(2) q(1) by (simp add: walking_def)
    then have w: "waiting u p xs = waiting s p xs" using round_waiting(1)[OF Cons(2) q(2) one(3), of xs p] q(1) by auto
    note left = round_waiting(2,3)[OF Cons(2) q(2) one(3)]
    show ?thesis
    proof (cases "b \<and> unfilled s t < unfilled s ?m")
      case part: True
      then have u0: "unfilled u t = 0" "unfilled u ?m = unfilled s ?m - unfilled s t" using left by simp_all
      have "match_level x k' t p (hd_opt (map snd xs)) u = (Inr (), u)"
        using k(2) u0(1) by (intro level_stops) auto
      moreover have "level_to x ok sd t S p s ab [(?m, p, unfilled s t)] u ab1"
        using level_to_round[OF Cons(2) q(2) one(3) level_to_here[OF W1]] part u0(1) by simp
      moreover have "waiting u p (ab1 sd p) = (?m, p, unfilled s ?m - unfilled s t) # waiting s p xs"
      proof -
        have "order_at u a = ?m" using one(3) q(2) unfolding round_to_def by blast
        then show ?thesis using one(4) part q(1) u0(2) w by simp
      qed
      ultimately show ?thesis using go ia True part swept_part[OF True, of "unfilled s ?m" S ?m p "waiting s p xs"]
        by (metis waiting_simps(2))
    next
      case whole: False
      then obtain v ab2 ts where v: "match_level x k' t p (hd_opt (map snd xs)) u = (Inr (), v)"
          "level_to x ok sd t S p u ab1 ts v ab2"
          "swept S (unfilled u t) (waiting s p xs) ts (waiting v p (ab2 sd p))"
        using Cons.IH[OF W1 _ k(2)] one(4) w by auto
      let ?ts = "if b then (?m, p, unfilled s ?m) # ts else ts"
      have "level_to x ok sd t S p s ab ?ts v ab2"
        using level_to_round[OF Cons(2) q(2) one(3) v(2)] whole by (simp add: min_def split: if_splits)
      moreover have "swept S (unfilled s t) ((?m, p, unfilled s ?m) # waiting s p xs) ?ts (waiting v p (ab2 sd p))"
      proof (cases b)
        case True
        then show ?thesis using swept_whole[OF \<open>0 < unfilled s t\<close>, of "unfilled s ?m"] v(3) left(1) whole by simp
      next
        case False
        then show ?thesis using swept_cancel[OF \<open>0 < unfilled s t\<close>] one(2) v(3) left(1) by auto
      qed
      ultimately show ?thesis using go ia v(1) by (intro exI[of _ v] exI[of _ ab2] exI[of _ ?ts]) simp
    qed
  qed
qed

end

lemma loop_ends:
  "unfilled s t \<le> 0 \<or> best_opposite s t = None \<or> best_opposite s t = prev \<Longrightarrow> match_loop x k t prev s = (Inr prev, s)"
  by (cases k) (auto simp: act_simps unfilled_def split: option.splits)

definition loop_to ::
    "('m, 'r) env \<Rightarrow> ('m \<Rightarrow> bool) \<Rightarrow> side \<Rightarrow> nat \<Rightarrow> nat set \<Rightarrow> ('m, 'r) engine \<Rightarrow> abs_book
     \<Rightarrow> resting list \<Rightarrow> ('m, 'r) engine \<Rightarrow> abs_book \<Rightarrow> bool" where
  "loop_to x ok sd t S s ab ts u ab' \<longleftrightarrow>
     walking x ok sd t S u ab' \<and> e_objs u = trades_on t ts (e_objs s) \<and> unfilled u t = unfilled s t - volume ts
     \<and> (\<forall>sd' p'. sd' \<noteq> sd \<longrightarrow> ab' sd' p' = ab sd' p')
     \<and> swept S (unfilled s t) (book_depth s ab sd) ts (book_depth u ab' sd)
     \<and> (\<forall>sd' p'. set (ab' sd' p') \<subseteq> set (ab sd' p'))"

lemma walking_side: "walking x ok sd t S s ab \<Longrightarrow> opposite (o_side (obj s t)) = sd"
  by (cases sd; cases "o_side (obj s t)") (auto simp: walking_def)

context book_env
begin

lemma best_walking: "walking x ok sd t S s ab \<Longrightarrow> best_opposite s t = hd_opt (prices ab sd)"
  using best_is_first[of "e_book s" ab sd] walking_side[of x ok sd t S s ab]
  by (simp add: best_opposite_def walking_def)

lemma depth_Cons:
  "prices ab sd = p # ps \<Longrightarrow> book_depth s ab sd = waiting s p (ab sd p) @ concat (map (\<lambda>q. waiting s q (ab sd q)) ps)"
  by (simp add: book_depth_def)

text \<open>What one level leaves of the side: the other levels if it is used up, else also its own rest.\<close>

lemma level_depth:
  assumes W: "walking x ok sd t S s ab" and ps: "prices ab sd = p # ps" and l: "level_to x ok sd t S p s ab ts u ab'"
  shows "concat (map (\<lambda>q. waiting u q (ab' sd q)) ps) = concat (map (\<lambda>q. waiting s q (ab sd q)) ps)"
    and "ab' sd p = [] \<Longrightarrow> prices ab' sd = ps" and "ab' sd p \<noteq> [] \<Longrightarrow> prices ab' sd = p # ps"
proof -
  have R: "book_repr (levels_api x) ok (e_book s) ab" using W by (simp add: walking_def)
  have "p \<notin> set ps" using distinct_prices[of ab sd] ps by simp
  then have "waiting u q (ab' sd q) = waiting s q (ab sd q)" if "q \<in> set ps" for q
  proof -
    have "q \<noteq> p" using that \<open>p \<notin> set ps\<close> by blast
    then show ?thesis using l by (simp add: level_to_def)
  qed
  then show "concat (map (\<lambda>q. waiting u q (ab' sd q)) ps) = concat (map (\<lambda>q. waiting s q (ab sd q)) ps)"
    by (simp cong: map_cong)
  have same: "ab' sd q = ab sd q" if "q \<noteq> p" for q using l that by (simp add: level_to_def)
  show "ab' sd p = [] \<Longrightarrow> prices ab' sd = ps" by (rule prices_emptied[where ab = ab, OF R ps]) (simp_all add: same)
  have "ab sd p \<noteq> []" using set_prices[OF R, of sd] ps by auto
  then have "(ab' sd q = []) = (ab sd q = [])" if "ab' sd p \<noteq> []" for q using same that by (cases "q = p") simp_all
  then show "ab' sd p \<noteq> [] \<Longrightarrow> prices ab' sd = p # ps" using prices_same[of ab' sd ab] ps by simp
qed

lemma loop_runs:
  assumes "walking x ok sd t S s ab" "length (book_depth s ab sd) + length (prices ab sd) \<le> k"
    and "\<And>p. prev = Some p \<Longrightarrow> ab sd p = []"
  shows "\<exists>prev' u ab' ts. match_loop x k t prev s = (Inr prev', u) \<and> loop_to x ok sd t S s ab ts u ab'"
  using assms
proof (induction "prices ab sd" arbitrary: s ab k prev)
  case Nil
  then have "match_loop x k t prev s = (Inr prev, s)" using best_walking[OF Nil(2)] by (intro loop_ends) simp
  moreover have "loop_to x ok sd t S s ab [] s ab" using Nil by (simp add: loop_to_def book_depth_def swept_empty)
  ultimately show ?case by blast
next
  case (Cons p ps)
  have ps: "prices ab sd = p # ps" using Cons(2) by simp
  have R: "book_repr (levels_api x) ok (e_book s) ab" using Cons(3) by (simp add: walking_def)
  obtain i a xs where q: "ab sd p = (i, a) # xs" using set_prices[OF R, of sd] ps by (cases "ab sd p") auto
  have best: "best_opposite s t = Some p" using best_walking[OF Cons(3)] ps by simp
  have dep: "book_depth s ab sd = waiting s p (ab sd p) @ concat (map (\<lambda>q. waiting s q (ab sd q)) ps)" by (rule depth_Cons[OF ps])
  show ?case
  proof (cases "0 < unfilled s t")
    case False
    then have "match_loop x k t prev s = (Inr prev, s)" by (intro loop_ends) simp
    moreover have "loop_to x ok sd t S s ab [] s ab" using Cons(3) False by (simp add: loop_to_def swept_done)
    ultimately show ?thesis by blast
  next
    case True
    obtain k' where k: "k = Suc k'" "length (ab sd p) \<le> k'" using Cons(4) ps dep by (cases k) simp_all
    obtain u ab1 ts where l: "match_level x k' t p (hd_opt (map snd (ab sd p))) s = (Inr (), u)"
        "level_to x ok sd t S p s ab ts u ab1" "swept S (unfilled s t) (waiting s p (ab sd p)) ts (waiting u p (ab1 sd p))"
      using level_runs[OF Cons(3) refl k(2)] by blast
    have "prev \<noteq> Some p" using Cons(5) q by auto
    moreover have "orders_start (levels_api x) (e_book s) p (opposite (o_side (obj s t))) = hd_opt (map snd (ab sd p))"
      using head_next(1)[OF R q] walking_side[OF Cons(3)] q by simp
    ultimately have go: "match_loop x k t prev s = match_loop x k' t (Some p) u"
      using True best l(1) k(1) by (simp add: act_simps unfilled_def)
    have W1: "walking x ok sd t S u ab1" and left: "unfilled u t = unfilled s t - volume ts"
      and objs: "e_objs u = trades_on t ts (e_objs s)"
      using l(2) by (simp_all add: level_to_def)
    note rest = level_depth[OF Cons(3) ps l(2)]
    show ?thesis
    proof (cases "ab1 sd p = []")
      case gone: True
      have d1: "book_depth u ab1 sd = concat (map (\<lambda>q. waiting s q (ab sd q)) ps)" using rest(1,2) gone by (simp add: book_depth_def)
      then have "length (book_depth u ab1 sd) + length (prices ab1 sd) \<le> k'" using Cons(4) ps dep k rest(2) gone by simp
      from Cons(1)[OF rest(2)[OF gone, symmetric] W1 this, of "Some p"] gone
      obtain prev' v ab2 us where v: "match_loop x k' t (Some p) u = (Inr prev', v)" "loop_to x ok sd t S u ab1 us v ab2"
        by auto
      have "swept S (unfilled s t) (book_depth s ab sd) (ts @ us) (book_depth v ab2 sd)"
        unfolding dep using l(3) v(2) left d1 gone by (intro swept_then) (simp_all add: loop_to_def)
      moreover have "ab2 sd' p' = ab sd' p'" if "sd' \<noteq> sd" for sd' p' using v(2) l(2) that by (simp add: loop_to_def level_to_def)
      moreover have "set (ab2 sd' p') \<subseteq> set (ab sd' p')" for sd' p' using v(2) l(2) unfolding loop_to_def level_to_def by blast
      ultimately have "loop_to x ok sd t S s ab (ts @ us) v ab2" using v(2) objs left by (simp add: loop_to_def)
      then show ?thesis using go v(1) by auto
    next
      case kept: False
      then have full: "unfilled u t \<le> 0" using l(2) by (simp add: level_to_def)
      then have "match_loop x k' t (Some p) u = (Inr (Some p), u)" using full by (intro loop_ends) simp
      moreover have "book_depth u ab1 sd = waiting u p (ab1 sd p) @ concat (map (\<lambda>q. waiting s q (ab sd q)) ps)"
        using depth_Cons[OF rest(3)[OF kept], of u] rest(1) by simp
      then have "swept S (unfilled s t) (book_depth s ab sd) ts (book_depth u ab1 sd)"
        unfolding dep using swept_stop[OF l(3)] full left by simp
      then have "loop_to x ok sd t S s ab ts u ab1" using l(2) by (simp add: loop_to_def level_to_def)
      ultimately show ?thesis using go by auto
    qed
  qed
qed

end

end
