(* ===== verification/Limit_Orders.thy ===== *)
theory Limit_Orders imports Price_Time begin

text \<open>
  Engines that are given new limit orders and cancellations. A crossing order, from the command to the book, is the
  sweep of \<open>Price_Time\<close>; one that does not cross rests; one without funds is cancelled twice over. In each case the
  engine stays \<open>orderly\<close>: no bid reaches an ask, and the store knows exactly the orders that rest. Only because of that
  do such commands never raise, and so a sequence of them is handled to its end.
\<close>

section \<open>A crossing order, from the command to the book\<close>

text \<open>The new orders the section is about, and the funds check the code makes for them before it matches.\<close>

definition fresh_limit :: "order_dict \<Rightarrow> rat \<Rightarrow> bool" where
  "fresh_limit d p \<longleftrightarrow>
     od_order_type d = LIMIT \<and> od_limit_price d = Some p \<and> od_strategy_type d = SINGLE \<and> 0 < od_quantity d
     \<and> od_executed_quantity d \<in> {None, Some 0}"

definition funded :: "('m, 'r) env \<Rightarrow> ('m, 'r) engine \<Rightarrow> order_dict \<Rightarrow> bool" where
  "funded x s d \<longleftrightarrow>
     fst (check_sufficient_balance x (length (e_objs s)) (od_quantity d) (od_limit_price d)
            (s\<lparr> e_objs := e_objs s @ [new_order_obj Plain d] \<rparr>)) = Inr True"

lemma fresh_limit_obj:
  assumes "fresh_limit d p"
  shows "order_id (new_order_obj Plain d) = od_order_id d" "user_id (new_order_obj Plain d) = od_user_id d"
    "o_side (new_order_obj Plain d) = od_side d" "o_strategy (new_order_obj Plain d) = SINGLE"
    "order_price (new_order_obj Plain d) = Inr (Some p)" "quantity (new_order_obj Plain d) = od_quantity d"
    "executed_quantity (new_order_obj Plain d) = 0" "json_ok (new_order_obj Plain d)"
  using assms by (auto simp: fresh_limit_def new_order_obj_def order_price_def json_ok_def)

definition limit_order :: "('m, 'r) env \<Rightarrow> ('m, 'r) engine \<Rightarrow> order_dict \<Rightarrow> rat \<Rightarrow> bool" where
  "limit_order x s d p \<longleftrightarrow>
     fresh_limit d p \<and> store_get s (od_order_id d) = None \<and> (od_user_id d = system_user x \<or> is_uuid x (od_order_id d))"

lemma accounted_same:
  assumes "e_objs u = e_objs s" "e_book u = e_book s" "e_store u = e_store s"
  shows "accounted x u ab = accounted x s ab"
  using ready_objs[OF assms(1), of x] assms
  by (simp add: accounted_def rests_def stored_def Let_def order_at_def obj_def unfilled_def store_get_def)

lemma walking_outside: "walking x ok sd t S s ab \<Longrightarrow> outside s u \<Longrightarrow> walking x ok sd t S u ab"
  using ready_outside[of s u x] going_outside[of s u x] accounted_same[of u s x ab]
  by (simp add: walking_def) (simp add: outside_def obj_def order_at_def)

lemma book_depth_outside: "outside s u \<Longrightarrow> book_depth u ab sd = book_depth s ab sd"
  by (simp add: book_depth_def waiting_def order_at_def unfilled_def outside_def obj_def)

text \<open>No bid reaches an ask.\<close>

definition uncrossed :: "abs_book \<Rightarrow> bool" where
  "uncrossed ab \<longleftrightarrow> (\<forall>p q. ab BID p \<noteq> [] \<and> ab ASK q \<noteq> [] \<longrightarrow> p < q)"

context book_env
begin

lemma prices_short:
  assumes "book_repr (levels_api x) ok ob ab"
  shows "length (prices ab sd) \<le> length (book_depth s ab sd)"
proof -
  have "\<forall>p \<in> set (prices ab sd). ab sd p \<noteq> []" using set_prices[OF assms, of sd] by auto
  then have "length ps \<le> length (concat (map (\<lambda>p. waiting s p (ab sd p)) ps))" if "set ps \<subseteq> set (prices ab sd)" for ps
    using that
  proof (induction ps)
    case (Cons p ps)
    then have "0 < length (ab sd p)" by simp
    moreover have "length ps \<le> length (concat (map (\<lambda>p. waiting s p (ab sd p)) ps))" using Cons by simp
    ultimately show ?case by (simp del: length_concat length_greater_0_conv)
  qed simp
  then show ?thesis by (simp add: book_depth_def)
qed

text \<open>What the loop reports, and what it reports about.\<close>

lemma inner_runs:
  assumes W: "walking x ok sd t S s ab" and fuel: "2 * length (book_depth s ab sd) \<le> k"
  shows "\<exists>res u ab' ts. match_inner x k t s = (Inr res, u) \<and> loop_to x ok sd t S s ab ts u ab'
    \<and> mr_quantity res = executed_quantity (obj u t)
    \<and> mr_outcome res \<in> (if unfilled u t = 0 then {SUCCESS} else {FAILURE, PARTIAL})"
proof -
  have "length (book_depth s ab sd) + length (prices ab sd) \<le> k"
    using fuel prices_short[of "e_book s" ab sd s] W by (simp add: walking_def)
  from loop_runs[OF W this, of None] obtain prev u ab' ts where "match_loop x k t None s = (Inr prev, u)" "loop_to x ok sd t S s ab ts u ab'"
    by auto
  then show ?thesis
    by (intro exI[of _ "match_result_of (obj u t) prev"] exI[of _ u] exI[of _ ab'] exI[of _ ts])
      (auto simp: match_inner_def act_simps match_result_of_def unfilled_def)
qed

end

text \<open>
  What becomes of the order objects, the store and the own side: all trades fill the new order and their makers;
  what is left of the new order, if anything is, rests at the end of its own queue.
\<close>

definition order_taken ::
    "('m, 'r) engine \<Rightarrow> abs_book \<Rightarrow> order_dict \<Rightarrow> rat \<Rightarrow> resting list \<Rightarrow> ('m, 'r) engine \<Rightarrow> abs_book \<Rightarrow> bool" where
  "order_taken s ab d p ts t ab' \<longleftrightarrow>
     (let r = length (e_objs s); os = trades_on r ts (e_objs s @ [new_order_obj Plain d])
      in if volume ts = od_quantity d
         then e_objs t = os \<and> ab' (od_side d) = ab (od_side d) \<and> store_get t (od_order_id d) = None
         else e_objs t = os[r := (os ! r)\<lparr> o_status := ''placed'' \<rparr>] \<and> store_get t (od_order_id d) = Some r
            \<and> (\<exists>a. order_at t a = r \<and> ab' (od_side d) = (ab (od_side d))(p := ab (od_side d) p @ [(od_order_id d, a)])))"

text \<open>The orders whose funds a live engine does not check.\<close>

definition sure :: "('m, 'r) env \<Rightarrow> ('m, 'r) engine \<Rightarrow> nat set" where
  "sure x s = {m. e_shadow s = None \<and> m < length (e_objs s) \<and> user_id (obj s m) = system_user x}"

text \<open>The object of the new order does not disturb those that rest.\<close>

lemma obj_added [simp]: "m < length (e_objs s) \<Longrightarrow> obj (s\<lparr> e_objs := e_objs s @ [od] \<rparr>) m = obj s m"
  "obj (s\<lparr> e_objs := e_objs s @ [od] \<rparr>) (length (e_objs s)) = od"
  by (simp_all add: obj_def nth_append)

lemma ready_added: "ready x s m \<Longrightarrow> ready x (s\<lparr> e_objs := e_objs s @ [od] \<rparr>) m"
  by (simp add: ready_def single_def obj_def nth_append)

lemma rests_added: "rests x s ab sd \<Longrightarrow> rests x (s\<lparr> e_objs := e_objs s @ [od] \<rparr>) ab sd"
proof -
  assume rs: "rests x s ab sd"
  have "order_at (s\<lparr> e_objs := e_objs s @ [od] \<rparr>) a = order_at s a" for a by (simp add: order_at_def)
  moreover have "order_at s a < length (e_objs s)" if "(i, a) \<in> set (ab sd p)" for i a p
    using restsD(4)[OF rs that] by (simp add: ready_def single_def)
  ultimately show ?thesis
    using rs ready_added[of x s] by (fastforce simp: rests_def Let_def unfilled_def)
qed

lemma accounted_added:
  assumes "accounted x s ab"
  shows "accounted x (s\<lparr> e_objs := e_objs s @ [od] \<rparr>) ab"
  using rests_added[of x s ab _ od] assms by (simp add: accounted_def stored_def order_at_def store_get_def)

lemma depth_added: "rests x s ab sd \<Longrightarrow> book_depth (s\<lparr> e_objs := e_objs s @ [od] \<rparr>) ab sd = book_depth s ab sd"
proof -
  assume rs: "rests x s ab sd"
  have "order_at s a < length (e_objs s)" if "(i, a) \<in> set (ab sd p)" for i a p
    using restsD(4)[OF rs that] by (simp add: ready_def single_def)
  then have "waiting (s\<lparr> e_objs := e_objs s @ [od] \<rparr>) p (ab sd p) = waiting s p (ab sd p)" for p
    unfolding waiting_def by (intro map_cong) (auto simp: order_at_def unfilled_def)
  then show ?thesis by (simp add: book_depth_def)
qed

lemma length_trades_on [simp]: "length (trades_on t ts os) = length os"
  by (induction ts arbitrary: os) auto

lemma same_order_trades: "i < length os \<Longrightarrow> same_order (os ! i) (trades_on t ts os ! i)"
proof (induction ts arbitrary: os)
  case Nil
  then show ?case by (simp add: same_order_def)
next
  case (Cons n ts)
  obtain m p q where n: "n = (m, p, q)" by (cases n)
  have "same_order (both_filled t m q p os ! i) (trades_on t ts (both_filled t m q p os) ! i)" using Cons by simp
  with same_order_both_filled[OF Cons(2)] have "same_order (os ! i) (trades_on t ts (both_filled t m q p os) ! i)"
    by (rule same_order_trans)
  then show ?case using n by simp
qed

lemma finish_same: "o' \<in> {FAILURE, PARTIAL} \<Longrightarrow> single_finish x r (Some o') = single_finish x r None"
  by (auto simp: single_finish_def)

context book_env
begin

text \<open>The matching of a new order: what it returns is also what the order object already says.\<close>

lemma try_match_runs:
  assumes W: "walking x ok sd r S s ab" and fuel: "2 * length (book_depth s ab sd) \<le> k"
    and d: "matchable s d = Inr True" "order_price (obj s r) = Inr v"
    and funds: "fst (check_sufficient_balance x r (quantity (obj s r)) v s) = Inr True"
  shows "\<exists>res u ab' ts. try_match x k r d s = (Inr (Some res), u) \<and> loop_to x ok sd r S s ab ts u ab'
    \<and> res \<in> (if unfilled u r = 0 then {SUCCESS} else {FAILURE, PARTIAL})"
proof -
  obtain s1 where ck: "check_sufficient_balance x r (quantity (obj s r)) v s = (Inr True, s1)"
    using funds by (metis prod.collapse)
  have o1: "outside s s1" by (rule staysD[OF out_check ck])
  have "2 * length (book_depth s1 ab sd) \<le> k" using fuel book_depth_outside[OF o1] by simp
  from inner_runs[OF walking_outside[OF W o1] this] obtain res u ab' ts where
    inner: "match_inner x k r s1 = (Inr res, u)" "loop_to x ok sd r S s1 ab ts u ab'" "mr_quantity res = executed_quantity (obj u r)"
      "mr_outcome res \<in> (if unfilled u r = 0 then {SUCCESS} else {FAILURE, PARTIAL})" by blast
  have "e_objs u = (e_objs u)[r := (e_objs u ! r)\<lparr> executed_quantity := executed_quantity (e_objs u ! r) \<rparr>]" by simp
  then have "set_executed r (mr_quantity res) u = (Inr (), u)"
    using inner(3) by (simp add: set_executed_def set_obj_def upd_def obj_def)
  moreover have "ctx_match x k r s = (Inr res, u)"
    using W d(2) ck inner(1) by (simp add: ctx_match_def match_def act_simps walking_def going_def)
  moreover have "loop_to x ok sd r S s ab ts u ab'"
    using inner(2) o1 book_depth_outside[OF o1, of ab sd] by (simp add: loop_to_def) (simp add: outside_def unfilled_def obj_def)
  ultimately show ?thesis using d(1) inner(4) by (auto simp: try_match_def act_simps)
qed

text \<open>
  An order that finds no more partner is marked as placed, stored, and put at the end of its queue; nothing else that
  rests notices.
\<close>

lemma rest_runs:
  assumes R: "book_repr (levels_api x) ok (e_book u) ab" and acc: "accounted x u ab" and go: "going x u" "ready x u r"
    and price: "order_price (obj u r) = Inr (Some p)" and left: "0 < unfilled u r"
    and new: "store_get u (order_id (obj u r)) = None"
  defines "a \<equiv> length (ob_nodes (e_book u))"
  defines "ab' \<equiv> ab_append ab (o_side (obj u r)) p (order_id (obj u r)) a"
  shows "\<exists>t. single_finish x r None u = (Inr (), t) \<and> book_repr (levels_api x) ok (e_book t) ab' \<and> accounted x t ab'
    \<and> e_objs t = (e_objs u)[r := (obj u r)\<lparr> o_status := ''placed'' \<rparr>] \<and> order_at t a = r
    \<and> store_get t (order_id (obj u r)) = Some r
    \<and> book_depth t ab' (opposite (o_side (obj u r))) = book_depth u ab (opposite (o_side (obj u r)))"
proof -
  let ?i = "order_id (obj u r)" and ?sd = "o_side (obj u r)"
  have no: "?i \<notin> fst ` set (ab sd q)" for sd q
    using storedD[OF accountedD(2)[OF acc]] new by fastforce
  have len: "r < length (e_objs u)" using go(2) by (simp add: ready_def single_def)
  obtain t where t: "single_finish x r None u = (Inr (), t)" "book_repr (levels_api x) ok (e_book t) ab'"
      "order_at t a = r" "\<forall>b < a. order_at t b = order_at u b" "e_objs t = (e_objs u)[r := (obj u r)\<lparr> o_status := ''placed'' \<rparr>]"
      "store_get t ?i = Some r" "e_store t = e_store u @ [(?i, r)]"
    using finish_rests[OF R ready_can_log[OF go] len price no new] unfolding a_def ab'_def order_at_def by blast
  have o: "obj t m = (if m = r then (obj u r)\<lparr> o_status := ''placed'' \<rparr> else obj u m)" for m
    using t(5) len by (simp add: obj_def)
  have single: "single t m = single u m" for m
    using t(5) len by (cases "m = r") (simp_all add: single_def obj_def)
  have kept: "order_id (obj t m) = order_id (obj u m)" "o_side (obj t m) = o_side (obj u m)"
    "order_price (obj t m) = order_price (obj u m)" "unfilled t m = unfilled u m" "ready x t m = ready x u m" for m
    using o[of m] single[of m] by (auto simp: order_price_def unfilled_def ready_def json_ok_def split: order_type.splits)
  have nodes: "order_at t c = order_at u c" if "(j, c) \<in> set (ab sd q)" for j c sd q
    using t(4) repr_bound[OF R, of c sd q] that unfolding a_def by force
  have mem: "(j, c) \<in> set (ab' sd q) \<longleftrightarrow> (j, c) \<in> set (ab sd q) \<or> sd = ?sd \<and> q = p \<and> j = ?i \<and> c = a" for j c sd q
    by (auto simp: ab'_def ab_append_def ab_put_def)
  have "rests x t ab' sd" for sd
    unfolding rests_def Let_def
  proof (intro allI ballI, clarify)
    fix q j c assume "(j, c) \<in> set (ab' sd q)"
    then consider "(j, c) \<in> set (ab sd q)" | "sd = ?sd" "q = p" "j = ?i" "c = a" using mem by blast
    then show "order_id (obj t (order_at t c)) = j \<and> o_side (obj t (order_at t c)) = sd
        \<and> order_price (obj t (order_at t c)) = Inr (Some q) \<and> ready x t (order_at t c) \<and> 0 < unfilled t (order_at t c)"
    proof cases
      case 1
      then show ?thesis using restsD[OF accountedD(1)[OF acc] 1] nodes[OF 1] kept by simp
    next
      case 2
      then show ?thesis using t(3) kept go(2) price left by simp
    qed
  qed
  moreover have "stored t ab'"
    unfolding stored_def
  proof (intro allI)
    fix j m
    have g: "store_get t j = (if j = ?i then Some r else store_get u j)"
      using t(6,7) by (auto simp: store_get_def map_add_def split: option.split)
    show "store_get t j = Some m \<longleftrightarrow> (\<exists>sd q c. (j, c) \<in> set (ab' sd q) \<and> order_at t c = m)" (is "?l \<longleftrightarrow> ?r")
    proof (cases "j = ?i")
      case True
      have "(j, c) \<notin> set (ab sd q)" for sd q c using no[of sd q] True by force
      then have "(j, c) \<in> set (ab' sd q) \<longleftrightarrow> sd = ?sd \<and> q = p \<and> c = a" for sd q c using mem True by simp
      then have "?r \<longleftrightarrow> m = r" using t(3) by auto
      then show ?thesis using g True by auto
    next
      case False
      then have "(j, c) \<in> set (ab' sd q) \<and> order_at t c = m \<longleftrightarrow> (j, c) \<in> set (ab sd q) \<and> order_at u c = m" for sd q c
        using mem nodes[of j c sd q] by auto
      then have "?r \<longleftrightarrow> (\<exists>sd q c. (j, c) \<in> set (ab sd q) \<and> order_at u c = m)" by simp
      then show ?thesis using g False accountedD(2)[OF acc] by (simp add: stored_def)
    qed
  qed
  moreover have "book_depth t ab' (opposite ?sd) = book_depth u ab (opposite ?sd)"
  proof -
    have same: "ab' (opposite ?sd) = ab (opposite ?sd)"
      by (cases ?sd) (simp_all add: ab'_def ab_append_def ab_put_def fun_eq_iff)
    have "waiting t q (ab sd q) = waiting u q (ab sd q)" for sd q
      unfolding waiting_def using nodes kept(4) by (intro map_cong) auto
    then show ?thesis by (simp add: book_depth_def prices_def same)
  qed
  ultimately show ?thesis using t by (intro exI[of _ t]) (simp add: accounted_def)
qed

text \<open>A new order before it is matched: its object is the last one, and it does not rest yet.\<close>

lemma added_facts:
  assumes acc: "accounted x s ab" and go: "going x s" and d: "limit_order x s d p"
  defines "r \<equiv> length (e_objs s)" and "s0 \<equiv> s\<lparr> e_objs := e_objs s @ [new_order_obj Plain d] \<rparr>"
  shows "accounted x s0 ab" "going x s0" "ready x s0 r" "obj s0 r = new_order_obj Plain d"
    "(i, a) \<in> set (ab sd q) \<Longrightarrow> order_at s0 a \<noteq> r" "unfilled s0 r = od_quantity d"
proof -
  note f = fresh_limit_obj[of d p]
  have d': "fresh_limit d p" "od_user_id d = system_user x \<or> is_uuid x (od_order_id d)" using d by (simp_all add: limit_order_def)
  show "accounted x s0 ab" unfolding s0_def by (rule accounted_added[OF acc])
  show "going x s0" using go by (simp add: going_def s0_def)
  show o: "obj s0 r = new_order_obj Plain d" by (simp add: s0_def r_def)
  have "single s0 r" using f(4)[OF d'(1)] by (simp add: single_def s0_def r_def obj_def)
  then show "ready x s0 r" using o f[OF d'(1)] d'(2) by (simp add: ready_def)
  show "unfilled s0 r = od_quantity d" using o f[OF d'(1)] by (simp add: unfilled_def)
  assume "(i, a) \<in> set (ab sd q)"
  from restsD(4)[OF accountedD(1)[OF acc] this] show "order_at s0 a \<noteq> r"
    by (simp add: ready_def single_def r_def s0_def order_at_def)
qed

lemma new_after_alloc:
  assumes "fresh_limit d p"
    and "try_match x k (length (e_objs s)) d (s\<lparr> e_objs := e_objs s @ [new_order_obj Plain d] \<rparr>) = (Inr res, u)"
  shows "single_handle_new x k d s = single_finish x (length (e_objs s)) res u"
  using assms by (simp add: single_handle_new_def effective_price_def fresh_limit_def alloc_def act_simps)

lemma crossing_runs:
  assumes R: "book_repr (levels_api x) ok (e_book s) ab" and acc: "accounted x s ab" and sd: "sd = opposite (od_side d)"
    and go: "going x s" and d: "limit_order x s d p" and cross: "limit_crossable (Some p) (od_side d) (e_book s) = Inr True"
    and funds: "funded x s d" and fuel: "2 * length (book_depth s ab sd) \<le> k"
  defines "r \<equiv> length (e_objs s)" and "os \<equiv> e_objs s @ [new_order_obj Plain d]"
  shows "\<exists>t ab' ts. single_handle_new x k d s = (Inr (), t) \<and> book_repr (levels_api x) ok (e_book t) ab' \<and> accounted x t ab'
    \<and> swept (sure x s) (od_quantity d) (book_depth s ab sd) ts (book_depth t ab' sd)
    \<and> order_taken s ab d p ts t ab' \<and> (\<forall>q. set (ab' sd q) \<subseteq> set (ab sd q))"
proof -
  let ?od = "new_order_obj Plain d"
  define s0 where "s0 = s\<lparr> e_objs := os \<rparr>"
  note g = added_facts[OF acc go d, folded r_def, folded os_def, folded s0_def]
  have lim: "fresh_limit d p" using d by (simp add: limit_order_def)
  note f = fresh_limit_obj[OF lim]
  have W: "walking x ok sd r (sure x s) s0 ab"
    using R sd f g unfolding walking_def by (cases "od_side d") (auto simp: s0_def os_def sure_def)
  have d0: "book_depth s0 ab sd = book_depth s ab sd"
    using depth_added[OF accountedD(1)[OF acc]] by (simp add: s0_def os_def)
  have "matchable s0 d = Inr True" using lim cross by (simp add: matchable_def fresh_limit_def s0_def)
  moreover have "fst (check_sufficient_balance x r (quantity (obj s0 r)) (Some p) s0) = Inr True"
    using funds lim f(6) g(4) by (simp add: funded_def fresh_limit_def s0_def os_def r_def)
  ultimately obtain res u ab1 ts where m: "try_match x k r d s0 = (Inr (Some res), u)" "loop_to x ok sd r (sure x s) s0 ab ts u ab1"
      "res \<in> (if unfilled u r = 0 then {SUCCESS} else {FAILURE, PARTIAL})"
    using try_match_runs[OF W _ _ _, of k d "Some p"] fuel d0 f(5) g(4) by auto
  have l: "walking x ok sd r (sure x s) u ab1" "e_objs u = trades_on r ts os" "unfilled u r = od_quantity d - volume ts"
      "swept (sure x s) (od_quantity d) (book_depth s ab sd) ts (book_depth u ab1 sd)" "\<And>q. set (ab1 sd q) \<subseteq> set (ab sd q)"
      "\<And>sd' p'. set (ab1 sd' p') \<subseteq> set (ab sd' p')"
    using m(2) g(6) d0 by (simp_all add: loop_to_def s0_def)
  have own: "ab1 (od_side d) = ab (od_side d)"
    using m(2) sd by (cases "od_side d") (auto simp: loop_to_def)
  have st: "store_get u (od_order_id d) = None"
  proof -
    have "store_get s (od_order_id d) = None" using d by (simp add: limit_order_def)
    then have "(od_order_id d, a) \<notin> set (ab1 sd' q)" for sd' q a
      using storedD[OF accountedD(2)[OF acc], of "od_order_id d" a sd' q] l(6) by fastforce
    moreover have "stored u ab1" using l(1) by (simp add: walking_def accounted_def)
    ultimately show ?thesis unfolding stored_def by (metis not_None_eq)
  qed
  have handle: "single_handle_new x k d s = single_finish x r (Some res) u"
    using new_after_alloc[OF lim] m(1) by (simp add: s0_def os_def r_def)
  show ?thesis
  proof (cases "volume ts = od_quantity d")
    case True
    then have "single_handle_new x k d s = (Inr (), u)" using handle m(3) l(3) by (simp add: single_finish_def act_simps)
    then show ?thesis using True l own st by (intro exI[of _ u] exI[of _ ab1] exI[of _ ts]) (simp add: walking_def order_taken_def r_def os_def)
  next
    case False
    then have fin: "single_handle_new x k d s = single_finish x r None u" using handle m(3) l(3) by (simp add: finish_same)
    have "same_order ?od (obj u r)"
      using same_order_trades[of r os r ts] l(2) by (simp add: obj_def os_def r_def)
    then have h: "order_id (obj u r) = od_order_id d" "o_side (obj u r) = od_side d" "order_price (obj u r) = Inr (Some p)"
      using f by (simp_all add: same_order_def order_price_def cong: order_type.case_cong)
    have w: "book_repr (levels_api x) ok (e_book u) ab1" "accounted x u ab1" "going x u" "ready x u r"
      using l(1) by (simp_all add: walking_def)
    have "0 < unfilled u r"
      using swept_bound[OF l(4)] lim False l(3) by (simp add: fresh_limit_def)
    from rest_runs[OF w h(3) this] h(1,2) st
    obtain t where t: "single_finish x r None u = (Inr (), t)"
        "book_repr (levels_api x) ok (e_book t) (ab_append ab1 (od_side d) p (od_order_id d) (length (ob_nodes (e_book u))))"
        "accounted x t (ab_append ab1 (od_side d) p (od_order_id d) (length (ob_nodes (e_book u))))"
        "e_objs t = (e_objs u)[r := (obj u r)\<lparr> o_status := ''placed'' \<rparr>]" "order_at t (length (ob_nodes (e_book u))) = r"
        "store_get t (od_order_id d) = Some r"
        "book_depth t (ab_append ab1 (od_side d) p (od_order_id d) (length (ob_nodes (e_book u)))) sd = book_depth u ab1 sd"
      using sd by auto
    let ?ab = "ab_append ab1 (od_side d) p (od_order_id d) (length (ob_nodes (e_book u)))"
    have "?ab sd = ab1 sd" using sd by (cases "od_side d") (simp_all add: ab_append_def fun_eq_iff)
    moreover have "e_objs t = (trades_on r ts os)[r := (trades_on r ts os ! r)\<lparr> o_status := ''placed'' \<rparr>]"
      using t(4) l(2) by (simp add: obj_def)
    moreover have "?ab (od_side d) = (ab (od_side d))(p := ab (od_side d) p @ [(od_order_id d, length (ob_nodes (e_book u)))])"
      using own by (simp add: ab_append_def ab_put_def)
    ultimately have "order_taken s ab d p ts t ?ab" "\<forall>q. set (?ab sd q) \<subseteq> set (ab sd q)"
      using t(5,6) False l(5) by (auto simp: order_taken_def r_def os_def Let_def)
    then show ?thesis
      using t(1,2,3,7) fin l(4) by (intro exI[of _ t] exI[of _ ?ab] exI[of _ ts]) simp
  qed
qed

text \<open>A new order that does not cross rests at once.\<close>

lemma quiet_runs:
  assumes R: "book_repr (levels_api x) ok (e_book s) ab" and acc: "accounted x s ab"
    and go: "going x s" and d: "limit_order x s d p" and cross: "limit_crossable (Some p) (od_side d) (e_book s) = Inr False"
  shows "\<exists>t. single_handle_new x k d s = (Inr (), t)
    \<and> book_repr (levels_api x) ok (e_book t) (ab_append ab (od_side d) p (od_order_id d) (length (ob_nodes (e_book s))))
    \<and> accounted x t (ab_append ab (od_side d) p (od_order_id d) (length (ob_nodes (e_book s))))
    \<and> length (e_objs t) = Suc (length (e_objs s))"
proof -
  let ?s0 = "s\<lparr> e_objs := e_objs s @ [new_order_obj Plain d] \<rparr>" and ?r = "length (e_objs s)"
  note g = added_facts[OF acc go d]
  have lim: "fresh_limit d p" "store_get s (od_order_id d) = None" using d by (simp_all add: limit_order_def)
  note f = fresh_limit_obj[OF lim(1)]
  have "try_match x k ?r d ?s0 = (Inr None, ?s0)"
    using lim(1) cross by (simp add: try_match_def matchable_def act_simps fresh_limit_def)
  then have "single_handle_new x k d s = single_finish x ?r None ?s0" by (rule new_after_alloc[OF lim(1)])
  moreover have "0 < unfilled ?s0 ?r" using g(6) lim(1) by (simp add: fresh_limit_def)
  ultimately show ?thesis
    using rest_runs[of ?s0 ab ?r p] R g(1-4) f lim(2) by (auto simp: store_get_def)
qed

text \<open>
  An order whose owner lacks the funds is cancelled twice over, which is harmless as long as it rests nowhere: on
  a book that is not crossed its own level is empty, so the removal from the book finds nothing and does not raise.
\<close>

lemma outside_triple: "(\<And>u. outside s u \<Longrightarrow> runs m u (\<lambda>_. outside u)) \<Longrightarrow> triple (outside s) m (outside s)"
  by (rule tripleI, rule runs_mono, assumption, rule out.frame_trans)

lemma cancel_absent_runs:
  assumes R: "book_repr (levels_api x) ok (e_book s) ab" and go: "going x s" "ready x s r"
    and price: "order_price (obj s r) = Inr (Some p)" and free: "ab (o_side (obj s r)) p = []"
    and new: "store_get s (order_id (obj s r)) = None"
  shows "runs (handle_cancel x r) s (\<lambda>_. outside s)"
proof -
  have at: "going x u" "ready x u r" "obj u r = obj s r" "e_book u = e_book s" "e_store u = e_store s" if "outside s u" for u
    using going_outside[OF that] ready_outside[OF that] outside_obj[OF that] that go by (simp_all add: outside_def)
  have log: "triple (outside s) (log_own x ORDER_CANCELLED r dt) (outside s)" for dt
    by (intro outside_triple own_runs) (simp_all add: at)
  have rem: "triple (outside s) (remove_at_price x r) (outside s)"
  proof (intro outside_triple)
    fix u assume u: "outside s u"
    have "ob_remove (levels_api x) (e_book u) (order_id (obj u r)) (o_side (obj u r)) (Some p) = (Inr (), e_book u)"
      using at[OF u] remove_no_level[OF R free] by simp
    then show "runs (remove_at_price x r) u (\<lambda>_. outside u)"
      using at(3)[OF u] price by (simp add: runs_def remove_at_price_def book_remove_def act_simps outside_def)
  qed
  have st: "triple (outside s) (store_remove r) (outside s)"
  proof (intro outside_triple store_remove_runs)
    fix u assume u: "outside s u"
    have "dict_pop (e_store u) (order_id (obj u r)) = e_store u"
      using new at(3,5)[OF u] by (intro dict_pop_absent) (simp add: store_get_def map_of_eq_None_iff)
    then show "outside u (u\<lparr> e_store := dict_pop (e_store u) (order_id (obj u r)) \<rparr>)"
      by (simp add: out.frame_refl)
  qed
  have rel: "triple (outside s) (ctx_release_escrow x r) (outside s)"
    by (intro outside_triple release_runs) (simp_all add: at)
  have "runs (single_handle_cancel x r) s (\<lambda>_. outside s)"
    unfolding single_handle_cancel_def
    by (rule tripleD[OF triple_Cons[OF log triple_Cons[OF rem triple_Cons[OF st triple_Cons[OF rel triple_Nil]]]]]) (rule out.frame_refl)
  then show ?thesis using go(2) by (simp add: ready_def single_def runs_def handle_cancel_def act_simps obj_def)
qed

lemma unfunded_runs:
  assumes R: "book_repr (levels_api x) ok (e_book s) ab" and acc: "accounted x s ab"
    and go: "going x s" and d: "limit_order x s d p" and cross: "limit_crossable (Some p) (od_side d) (e_book s) = Inr True"
    and un: "uncrossed ab" and funds: "\<not> funded x s d"
  shows "\<exists>t. single_handle_new x k d s = (Inr (), t) \<and> outside (s\<lparr> e_objs := e_objs s @ [new_order_obj Plain d] \<rparr>) t"
proof -
  define s0 where "s0 = s\<lparr> e_objs := e_objs s @ [new_order_obj Plain d] \<rparr>"
  define r where "r = length (e_objs s)"
  note g = added_facts[OF acc go d, folded s0_def, folded r_def]
  have lim: "fresh_limit d p" "store_get s (od_order_id d) = None" using d by (simp_all add: limit_order_def)
  note f = fresh_limit_obj[OF lim(1)]
  obtain b s1 where ck: "check_sufficient_balance x r (quantity (obj s0 r)) (Some p) s0 = (Inr b, s1)" "outside s0 s1"
    using check_runs[OF g(3), of "quantity (obj s0 r)" p] by (auto simp: runs_def)
  have b: "\<not> b" using funds ck(1) lim(1) g(4) f(6) by (simp add: funded_def fresh_limit_def s0_def r_def)
  have o1: "obj s1 r = obj s0 r" by (rule outside_obj[OF ck(2)])
  have R1: "book_repr (levels_api x) ok (e_book s1) ab" using R ck(2) by (simp add: outside_def s0_def)
  have "\<exists>q. ab (opposite (od_side d)) q \<noteq> [] \<and> (if od_side d = BID then q \<le> p else p \<le> q)"
    using crossable_iff[OF R, of p "od_side d"] cross by simp
  then have free: "ab (od_side d) p = []"
    using un by (cases "od_side d") (auto simp: uncrossed_def dest: leD)
  obtain s2 where s2: "handle_cancel x r s1 = (Inr (), s2)" "outside s1 s2"
    using cancel_absent_runs[OF R1, of r p] g(2-4) going_outside[OF ck(2)] ready_outside[OF ck(2)] o1 f free lim(2) ck(2)
    by (auto simp: runs_def outside_def store_get_def s0_def)
  have o2: "obj s2 r = new_order_obj Plain d" using outside_obj[OF s2(2)] o1 g(4) by simp
  have "set_executed r 0 s2 = (Inr (), s2)"
  proof -
    have "od\<lparr> executed_quantity := 0 \<rparr> = od" if "executed_quantity od = 0" for od :: order using that by (cases od) simp
    then have "(e_objs s2 ! r)\<lparr> executed_quantity := 0 \<rparr> = e_objs s2 ! r" using o2 f(7) unfolding obj_def by metis
    then have "(e_objs s2)[r := (e_objs s2 ! r)\<lparr> executed_quantity := 0 \<rparr>] = e_objs s2" by simp
    then show ?thesis by (simp add: set_executed_def set_obj_def upd_def)
  qed
  moreover have "ctx_match x k r s0 = (Inr \<lparr> mr_outcome = INSUFFICIENT_BALANCE, mr_quantity = 0, mr_price = None \<rparr>, s2)"
    using g(2,4) f(5) ck(1) b s2(1) by (simp add: ctx_match_def match_def act_simps going_def)
  moreover have "matchable s0 d = Inr True" using lim cross by (simp add: matchable_def fresh_limit_def s0_def)
  ultimately have "try_match x k r d s0 = (Inr (Some INSUFFICIENT_BALANCE), s2)" by (simp add: try_match_def act_simps)
  then have run: "single_handle_new x k d s = single_finish x r (Some INSUFFICIENT_BALANCE) s2"
    using new_after_alloc[OF lim(1)] by (simp add: s0_def r_def)
  have o: "outside s0 s2" by (rule out.frame_trans[OF ck(2) s2(2)])
  have at: "going x u" "ready x u r" if "outside s2 u" for u
    using out.frame_trans[OF o that] g(2,3) going_outside ready_outside by blast+
  have "triple (outside s2) (log_own x ORDER_CANCELLED r dt) (outside s2)" "triple (outside s2) (ctx_release_escrow x r) (outside s2)" for dt
    by (rule outside_triple, simp add: at own_runs release_runs)+
  from tripleD[OF triple_Cons[OF this(1) triple_Cons[OF this(2) triple_Nil]] out.frame_refl]
  have "runs (single_finish x r (Some INSUFFICIENT_BALANCE)) s2 (\<lambda>_. outside s2)" by (simp add: single_finish_def)
  then show ?thesis using run out.frame_trans[OF o] by (auto simp: runs_def s0_def)
qed

text \<open>Taking a resting order out of book and store keeps the others accounted for.\<close>

lemma accounted_removed:
  assumes R: "book_repr (levels_api x) ok (e_book s) ab" and acc: "accounted x s ab" and mem: "(i, a) \<in> set (ab sd p)"
    and m: "moved_to x ok (ab_remove ab sd p i) (dict_pop (e_store s) i) c s t"
  shows "accounted x t (ab_remove ab sd p i)"
proof -
  have step: "step_to x ok (ab_remove ab sd p i) (dict_pop (e_store s) i) c s t" and objs: "e_objs t = e_objs s"
    using m by (simp_all add: moved_to_def)
  have sub: "(j, b) \<in> set (ab_remove ab sd p i sd' q) \<longleftrightarrow> (j, b) \<in> set (ab sd' q) \<and> \<not> (sd' = sd \<and> q = p \<and> j = i)" for j b sd' q
    by (auto simp: ab_remove_def dict_pop_def)
  have nodes: "order_at t b = order_at s b" if "(j, b) \<in> set (ab sd' q)" for j b sd' q
    using order_at_step[OF step] repr_bound[OF R, of b sd' q] that by force
  have same: "obj t r = obj s r" "unfilled t r = unfilled s r" "ready x t r = ready x s r" for r
    using objs ready_objs[OF objs] by (simp_all add: obj_def unfilled_def)
  have "rests x t (ab_remove ab sd p i) sd'" for sd'
    unfolding rests_def Let_def
  proof (intro allI ballI, clarify)
    fix q j b assume "(j, b) \<in> set (ab_remove ab sd p i sd' q)"
    then have b: "(j, b) \<in> set (ab sd' q)" using sub by blast
    show "order_id (obj t (order_at t b)) = j \<and> o_side (obj t (order_at t b)) = sd'
        \<and> order_price (obj t (order_at t b)) = Inr (Some q) \<and> ready x t (order_at t b) \<and> 0 < unfilled t (order_at t b)"
      using restsD[OF accountedD(1)[OF acc] b] nodes[OF b] same by simp
  qed
  moreover have "stored t (ab_remove ab sd p i)"
    unfolding stored_def
  proof (intro allI)
    fix j r
    have g: "store_get t j = (if j = i then None else store_get s j)"
      using step by (auto simp: step_to_def store_get_def map_of_dict_pop)
    have one: "sd' = sd \<and> q = p" if "(i, b) \<in> set (ab sd' q)" for b sd' q
    proof -
      have "order_at s b = order_at s a"
        using storedD[OF accountedD(2)[OF acc] that] storedD[OF accountedD(2)[OF acc] mem] by simp
      then show ?thesis
        using restsD(2,3)[OF accountedD(1)[OF acc] that] restsD(2,3)[OF accountedD(1)[OF acc] mem] by simp
    qed
    have "(j, b) \<in> set (ab_remove ab sd p i sd' q) \<and> order_at t b = r \<longleftrightarrow> j \<noteq> i \<and> (j, b) \<in> set (ab sd' q) \<and> order_at s b = r"
      for sd' q b using sub one[of b sd' q] nodes[of j b sd' q] by auto
    then show "store_get t j = Some r \<longleftrightarrow> (\<exists>sd' q b. (j, b) \<in> set (ab_remove ab sd p i sd' q) \<and> order_at t b = r)"
      using g accountedD(2)[OF acc] by (simp add: stored_def)
  qed
  ultimately show ?thesis by (simp add: accounted_def)
qed

lemma stored_lies:
  assumes "accounted x s ab" "store_get s i = Some m"
  obtains sd p a where "lies s ab sd p a m" "order_id (obj s m) = i" "(i, a) \<in> set (ab sd p)" "ready x s m"
proof -
  obtain sd p a where a: "(i, a) \<in> set (ab sd p)" "order_at s a = m"
    using accountedD(2)[OF assms(1)] assms(2) unfolding stored_def by blast
  then show ?thesis using that restsD[OF accountedD(1)[OF assms(1)] a(1)] by (simp add: lies_def)
qed

end

section \<open>Engines with limit orders\<close>

text \<open>
  An orderly engine: the queues represent its book, the store knows exactly the orders that rest, all of them have
  something left, and no bid reaches an ask.
\<close>

definition orderly :: "('m, 'r) env \<Rightarrow> ('m \<Rightarrow> bool) \<Rightarrow> ('m, 'r) engine \<Rightarrow> abs_book \<Rightarrow> bool" where
  "orderly x ok s ab \<longleftrightarrow>
     book_repr (levels_api x) ok (e_book s) ab \<and> accounted x s ab \<and> uncrossed ab \<and> attached s"

lemma orderly_same:
  assumes "e_objs u = e_objs s" "e_book u = e_book s" "e_store u = e_store s" "attached u = attached s"
  shows "orderly x ok u ab = orderly x ok s ab"
  using accounted_same[OF assms(1-3), of x ab] assms by (simp add: orderly_def)

text \<open>
  The commands: a new limit order, or the cancellation of any id. The id of a new order must not be in use when it
  arrives.
\<close>

definition placed_id :: "command \<Rightarrow> string list" where
  "placed_id cmd =
     (case cmd_body cmd of
        NewOrderCommand st nb \<Rightarrow> (case nb of NewSingle d \<Rightarrow> [od_order_id d] | _ \<Rightarrow> [])
      | _ \<Rightarrow> [])"

definition plain_command :: "('m, 'r) env \<Rightarrow> command \<Rightarrow> bool" where
  "plain_command x cmd \<longleftrightarrow>
     is_uuid x (cmd_id cmd)
     \<and> (case cmd_body cmd of
          NewOrderCommand st nb \<Rightarrow>
            (case nb of
               NewSingle d \<Rightarrow>
                 st = SINGLE \<and> (case od_limit_price d of None \<Rightarrow> False | Some p \<Rightarrow> fresh_limit d p)
                 \<and> (od_user_id d = system_user x \<or> is_uuid x (od_order_id d))
             | _ \<Rightarrow> False)
        | CancelOrderCommand i \<Rightarrow> True
        | _ \<Rightarrow> False)"

definition limit_command :: "('m, 'r) env \<Rightarrow> ('m, 'r) engine \<Rightarrow> command \<Rightarrow> bool" where
  "limit_command x s cmd \<longleftrightarrow> plain_command x cmd \<and> (\<forall>i \<in> set (placed_id cmd). store_get s i = None)"

lemma limit_command_cases:
  assumes "limit_command x s cmd"
  obtains (new) d p where "cmd_body cmd = NewOrderCommand SINGLE (NewSingle d)" "limit_order x s d p" "placed_id cmd = [od_order_id d]"
  | (cancel) i where "cmd_body cmd = CancelOrderCommand i"
  using assms
  by (auto simp: limit_command_def plain_command_def placed_id_def limit_order_def
      split: command_body.splits new_order.splits option.splits)

text \<open>An engine no command has reached yet, and the engines limit orders and cancellations lead to. The queue of a shadow may be attached.\<close>

definition untouched :: "('m, 'r) env \<Rightarrow> ('m, 'r) engine \<Rightarrow> bool" where
  "untouched x s \<longleftrightarrow>
     e_objs s = [] \<and> e_store s = [] \<and> attached s
     \<and> e_book s = (new_orderbook (levels_api x) 100)\<lparr> ob_cur_price := ob_cur_price (e_book s) \<rparr>"

inductive limit_reach :: "('m, 'r) env \<Rightarrow> ('m, 'r) engine \<Rightarrow> bool" for x where
  limit_start: "untouched x s \<Longrightarrow> limit_reach x s"
| limit_more: "limit_reach x s \<Longrightarrow> limit_command x s cmd \<Longrightarrow> 2 * length (e_objs s) \<le> k
    \<Longrightarrow> handle_command x k cmd s = (res, t) \<Longrightarrow> limit_reach x t"
| limit_shadow: "limit_reach x s \<Longrightarrow> limit_reach x (s\<lparr> e_queue := q \<rparr>)"

text \<open>At most the given ids are new in the store, and at most one order object is new.\<close>

definition grows_by :: "string set \<Rightarrow> ('m, 'r) engine \<Rightarrow> ('m, 'r) engine \<Rightarrow> bool" where
  "grows_by I s t \<longleftrightarrow>
     (\<forall>i. store_get t i \<noteq> None \<longrightarrow> i \<in> I \<or> store_get s i \<noteq> None) \<and> length (e_objs t) \<le> Suc (length (e_objs s))"

lemma grows_byI:
  assumes "stored t ab'" "stored s ab" "length (e_objs t) \<le> Suc (length (e_objs s))"
    and "\<And>sd p i a. (i, a) \<in> set (ab' sd p) \<Longrightarrow> i \<in> I \<or> i \<in> fst ` set (ab sd p)"
  shows "grows_by I s t"
  unfolding grows_by_def
proof (intro conjI allI impI)
  fix i assume "store_get t i \<noteq> None"
  then obtain sd p a where "(i, a) \<in> set (ab' sd p)" using assms(1) unfolding stored_def by blast
  then have "i \<in> I \<or> i \<in> fst ` set (ab sd p)" by (rule assms(4))
  then show "i \<in> I \<or> store_get s i \<noteq> None" using storedD[OF assms(2), of i _ sd p] by fastforce
qed (rule assms(3))

context book_env
begin

lemma uncrossed_append:
  assumes "uncrossed ab" "limit_crossable (Some p) sd ob = Inr False" "book_repr (levels_api x) ok ob ab"
  shows "uncrossed (ab_append ab sd p i a)"
proof -
  have "\<not> (ab (opposite sd) q \<noteq> [] \<and> (if sd = BID then q \<le> p else p \<le> q))" for q
    using crossable_iff[OF assms(3), of p sd] assms(2) by auto
  then have "ab (opposite sd) q \<noteq> [] \<Longrightarrow> (if sd = BID then p < q else q < p)" for q by (force split: if_splits)
  then show ?thesis using assms(1) by (cases sd) (auto simp: uncrossed_def ab_append_def ab_put_def)
qed

lemma depth_empty:
  assumes "book_repr (levels_api x) ok ob ab" "book_depth s ab sd = []"
  shows "ab sd p = []"
proof (rule ccontr)
  assume "ab sd p \<noteq> []"
  then have "p \<in> set (prices ab sd)" using set_prices[OF assms(1), of sd] by simp
  then have "waiting s p (ab sd p) = []" using assms(2) by (simp add: book_depth_def)
  then show False using \<open>ab sd p \<noteq> []\<close> by (simp add: waiting_def)
qed

lemma crossing_uncrossed:
  assumes un: "uncrossed ab" and R: "book_repr (levels_api x) ok (e_book t) ab'" and d: "fresh_limit d p"
    and sw: "swept S (od_quantity d) ds ts (book_depth t ab' (opposite (od_side d)))" and tk: "order_taken s ab d p ts t ab'"
    and sub: "\<And>q. set (ab' (opposite (od_side d)) q) \<subseteq> set (ab (opposite (od_side d)) q)"
  shows "uncrossed ab'"
proof (cases "volume ts = od_quantity d")
  case True
  have own: "ab' (od_side d) = ab (od_side d)" using tk True by (simp add: order_taken_def Let_def)
  have opp: "ab (opposite (od_side d)) q \<noteq> []" if "ab' (opposite (od_side d)) q \<noteq> []" for q
    using sub[of q] that by auto
  show ?thesis using un own opp by (cases "od_side d") (auto simp: uncrossed_def)
next
  case False
  then have "volume ts < od_quantity d" using swept_bound[OF sw] d by (simp add: fresh_limit_def)
  from swept_rest[OF sw this] have "ab' (opposite (od_side d)) q = []" for q by (rule depth_empty[OF R])
  then show ?thesis by (cases "od_side d") (auto simp: uncrossed_def)
qed

end

lemma book_depth_makers: "rests x s ab sd \<Longrightarrow> m \<in> fst ` set (book_depth s ab sd) \<Longrightarrow> m < length (e_objs s)"
  using restsD(4)[of x s ab sd] by (fastforce simp: book_depth_def waiting_def ready_def single_def)

context book_env
begin

lemma waiting_fst: "map fst (waiting s p xs) = map (\<lambda>(i, a). order_at s a) xs"
  by (simp add: waiting_def case_prod_beta comp_def)

text \<open>No order waits twice.\<close>

lemma depth_distinct:
  assumes R: "book_repr (levels_api x) ok (e_book s) ab" and rs: "rests x s ab sd"
  shows "distinct (map fst (book_depth s ab sd))"
proof -
  have inner: "distinct (map fst (waiting s p (ab sd p)))" for p
  proof -
    have "order_at s a = order_at s b \<Longrightarrow> (i, a) = (j, b)" if "(i, a) \<in> set (ab sd p)" "(j, b) \<in> set (ab sd p)" for i j a b
      using rests_distinct(1)[OF rs that] that queue_distinct[OF R, of sd p]
      by (metis Some_eq_map_of_iff option.inject)
    then have "inj_on (\<lambda>(i, a). order_at s a) (set (ab sd p))" by (auto intro!: inj_onI)
    moreover have "distinct (ab sd p)" using queue_distinct[OF R, of sd p] by (rule distinct_map[THEN iffD1, THEN conjunct1])
    ultimately show ?thesis by (simp add: waiting_fst distinct_map)
  qed
  have "distinct (map fst (concat (map (\<lambda>p. waiting s p (ab sd p)) ps)))" if "distinct ps" for ps
    using that
  proof (induction ps)
    case (Cons p ps)
    have "fst ` set (waiting s p (ab sd p)) \<inter> fst ` set (waiting s q (ab sd q)) = {}" if "q \<in> set ps" for q
      using rests_distinct(2)[OF rs, of _ _ p _ _ q] Cons(2) that by (fastforce simp: waiting_def)
    then show ?case using Cons inner[of p] by (auto simp: image_UN)
  qed simp
  then show ?thesis using distinct_prices[of ab sd] by (simp add: book_depth_def)
qed

end

text \<open>The funds check does not look at the command.\<close>

lemma check_received:
  "fst (check_sufficient_balance x r q v ((received cmd s)\<lparr> e_objs := os \<rparr>)) =
   fst (check_sufficient_balance x r q v (s\<lparr> e_objs := os \<rparr>))"
proof -
  have "fst (get_available_cash_balance x u ((received cmd s)\<lparr> e_objs := os \<rparr>)) =
      fst (get_available_cash_balance x u (s\<lparr> e_objs := os \<rparr>))"
    "fst (get_available_asset_balance x u ((received cmd s)\<lparr> e_objs := os \<rparr>)) =
      fst (get_available_asset_balance x u (s\<lparr> e_objs := os \<rparr>))" for u
    by (simp_all add: get_available_cash_balance_def get_cash_balance_def get_cash_escrow_def get_or_set_def
        get_available_asset_balance_def Let_def act_simps received_def split: option.split)
  moreover have "obj ((received cmd s)\<lparr> e_objs := os \<rparr>) r = obj (s\<lparr> e_objs := os \<rparr>) r" by (simp add: obj_def)
  moreover have "fst (and_then m (\<lambda>w. ret (g w)) u) = (case fst (m u) of Inl e \<Rightarrow> Inl e | Inr w \<Rightarrow> Inr (g w))"
    for m :: "('a, 'b, rat) eact" and g :: "rat \<Rightarrow> bool" and u
    by (auto simp: act_simps split: prod.split sum.split)
  ultimately show ?thesis
    by (cases "o_side (obj (s\<lparr> e_objs := os \<rparr>) r)"; cases v; cases "e_shadow s")
      (simp_all add: check_sufficient_balance_def Let_def ask_def ret_def[of True] raise_def ret_def[of "shadow_check q i" for q i] prod.case_eq_if)
qed

context book_env
begin

lemma command_attached: "handle_command x k cmd s = (res, t) \<Longrightarrow> attached t = attached s"
  using staysD[OF const.stays_handle_command] by (fastforce simp: engine_constant_def)

lemma depth_bound:
  assumes "book_repr (levels_api x) ok (e_book s) ab" "rests x s ab sd"
  shows "length (book_depth s ab sd) \<le> length (e_objs s)"
proof -
  have "set (map fst (book_depth s ab sd)) \<subseteq> {..< length (e_objs s)}"
    using book_depth_makers[OF assms(2)] by auto
  from card_mono[OF finite_lessThan this] show ?thesis using distinct_card[OF depth_distinct[OF assms]] by simp
qed

text \<open>A crossing order, with the reference as a function.\<close>

lemma crossing_command:
  assumes O: "orderly x ok s ab" and cmd: "cmd_body cmd = NewOrderCommand SINGLE (NewSingle d)" "is_uuid x (cmd_id cmd)"
    and d: "limit_order x s d p" and cross: "limit_crossable (Some p) (od_side d) (e_book s) = Inr True" and funds: "funded x s d"
    and fuel: "2 * length (book_depth s ab (opposite (od_side d))) \<le> k"
  shows "\<exists>f t ab' ts rest. handle_command x k cmd s = (Inr (), t) \<and> orderly x ok t ab'
    \<and> (\<forall>m \<in> sure x s. f m) \<and> sweep f (od_quantity d) (book_depth s ab (opposite (od_side d))) = (ts, rest)
    \<and> book_depth t ab' (opposite (od_side d)) = rest \<and> order_taken s ab d p ts t ab'"
proof -
  let ?s = "received cmd s"
  have run: "run_handler x k (cmd_body cmd) = Some (single_handle_new x k d)"
    by (simp add: run_handler_def handle_new_order_def cmd(1))
  have R: "book_repr (levels_api x) ok (e_book s) ab" and acc: "accounted x s ab" and un: "uncrossed ab" and att: "attached s"
    using O by (simp_all add: orderly_def)
  have depth: "book_depth ?s ab sd = book_depth s ab sd" for sd by (simp add: book_depth_def waiting_def order_at_def unfilled_def)
  have same: "going x ?s" "accounted x ?s ab" "limit_order x ?s d p" "sure x ?s = sure x s" "funded x ?s d"
    using att cmd(2) acc accounted_same[of ?s s x ab] d funds
      check_received[where cmd = cmd and s = s and os = "e_objs s @ [new_order_obj Plain d]"]
    by (simp_all add: going_def sure_def limit_order_def funded_def)
  have R': "book_repr (levels_api x) ok (e_book ?s) ab" and cross': "limit_crossable (Some p) (od_side d) (e_book ?s) = Inr True"
    using R cross by simp_all
  obtain t ab' ts where t: "single_handle_new x k d ?s = (Inr (), t)" "book_repr (levels_api x) ok (e_book t) ab'" "accounted x t ab'"
      "swept (sure x s) (od_quantity d) (book_depth s ab (opposite (od_side d))) ts (book_depth t ab' (opposite (od_side d)))"
      "order_taken ?s ab d p ts t ab'" "\<forall>q. set (ab' (opposite (od_side d)) q) \<subseteq> set (ab (opposite (od_side d)) q)"
    using crossing_runs[OF R' same(2) refl same(1,3) cross' same(5), of k, unfolded depth same(4)] fuel by blast
  obtain f where f: "\<forall>m \<in> sure x s. f m"
      "sweep f (od_quantity d) (book_depth s ab (opposite (od_side d))) = (ts, book_depth t ab' (opposite (od_side d)))"
    using swept_sweep[OF t(4) depth_distinct[OF R accountedD(1)[OF acc]]] by blast
  let ?t = "t\<lparr> e_queue := map_option (\<lambda>q. q @ [QProcessed (e_cmd t)]) (e_queue t) \<rparr>"
  have fin: "handle_command x k cmd s = (Inr (), ?t)" by (rule command_returns[OF run t(1)])
  have "book_depth ?t ab' sd = book_depth t ab' sd" "order_at ?t a = order_at t a" "store_get ?t i = store_get t i" for sd a i
    by (simp_all add: book_depth_def waiting_def order_at_def unfilled_def obj_def store_get_def)
  moreover from this have "order_taken s ab d p ts ?t ab'" using t(5) by (auto simp: order_taken_def Let_def)
  moreover have "uncrossed ab'" using crossing_uncrossed[OF un t(2) _ t(4) t(5)] t(6) d by (simp add: limit_order_def order_taken_def)
  then have "orderly x ok ?t ab'"
    using t(2,3) accounted_same[of ?t t x ab'] command_attached[OF fin] att by (simp add: orderly_def)
  ultimately show ?thesis using fin f
    by (intro exI[of _ f] exI[of _ ?t] exI[of _ ab'] exI[of _ ts] exI[of _ "book_depth t ab' (opposite (od_side d))"]) simp
qed

text \<open>Whether or not it crosses, and whether or not it is funded, a new limit order is handled.\<close>

lemma new_limit_runs:
  assumes O: "orderly x ok s ab" and go: "going x s" and d: "limit_order x s d p"
    and fuel: "2 * length (book_depth s ab (opposite (od_side d))) \<le> k"
  shows "\<exists>t ab'. single_handle_new x k d s = (Inr (), t) \<and> book_repr (levels_api x) ok (e_book t) ab' \<and> accounted x t ab' \<and> uncrossed ab'
    \<and> grows_by {od_order_id d} s t"
proof -
  have R: "book_repr (levels_api x) ok (e_book s) ab" and acc: "accounted x s ab" and un: "uncrossed ab"
    using O by (simp_all add: orderly_def)
  obtain b where b: "limit_crossable (Some p) (od_side d) (e_book s) = Inr b" using crossable_iff[OF R] by blast
  consider "\<not> b" | "b" "funded x s d" | "b" "\<not> funded x s d" by blast
  then show ?thesis
  proof cases
    case 1
    then have b: "limit_crossable (Some p) (od_side d) (e_book s) = Inr False" using b by simp
    let ?ab = "ab_append ab (od_side d) p (od_order_id d) (length (ob_nodes (e_book s)))"
    obtain t where t: "single_handle_new x k d s = (Inr (), t)" "book_repr (levels_api x) ok (e_book t) ?ab" "accounted x t ?ab"
        "length (e_objs t) = Suc (length (e_objs s))"
      using quiet_runs[OF R acc go d b] by blast
    have "grows_by {od_order_id d} s t"
      by (rule grows_byI[OF accountedD(2)[OF t(3)] accountedD(2)[OF acc]]) (force simp: t(4) ab_append_def ab_put_def split: if_splits)+
    then show ?thesis using t uncrossed_append[OF un b R] by blast
  next
    case 2
    then obtain t ab' ts where t: "single_handle_new x k d s = (Inr (), t)" "book_repr (levels_api x) ok (e_book t) ab'" "accounted x t ab'"
        "swept (sure x s) (od_quantity d) (book_depth s ab (opposite (od_side d))) ts (book_depth t ab' (opposite (od_side d)))"
        "order_taken s ab d p ts t ab'" "\<forall>q. set (ab' (opposite (od_side d)) q) \<subseteq> set (ab (opposite (od_side d)) q)"
      using crossing_runs[OF R acc refl go d _ _ fuel] b by auto
    moreover have "uncrossed ab'" using crossing_uncrossed[OF un t(2) _ t(4,5)] t(6) d by (simp add: limit_order_def)
    moreover have "grows_by {od_order_id d} s t"
    proof (rule grows_byI[OF accountedD(2)[OF t(3)] accountedD(2)[OF acc]])
      show "length (e_objs t) \<le> Suc (length (e_objs s))" using t(5) by (auto simp: order_taken_def Let_def split: if_splits)
      fix sd q i a assume i: "(i, a) \<in> set (ab' sd q)"
      show "i \<in> {od_order_id d} \<or> i \<in> fst ` set (ab sd q)"
      proof (cases "sd = od_side d")
        case True
        then show ?thesis using i t(5) by (force simp: order_taken_def Let_def split: if_splits)
      next
        case False
        then have "sd = opposite (od_side d)" by (cases sd; cases "od_side d") simp_all
        then show ?thesis using i t(6) by force
      qed
    qed
    ultimately show ?thesis by blast
  next
    case 3
    let ?s0 = "s\<lparr> e_objs := e_objs s @ [new_order_obj Plain d] \<rparr>"
    obtain t where t: "single_handle_new x k d s = (Inr (), t)" "outside ?s0 t"
      using unfunded_runs[OF R acc go d _ un 3(2)] b 3(1) by auto
    then have "accounted x t ab" using added_facts(1)[OF acc go d] accounted_same[of t ?s0 x ab] by (simp add: outside_def)
    moreover have "grows_by {od_order_id d} s t" using t(2) by (simp add: grows_by_def outside_def store_get_def)
    ultimately show ?thesis using t R un by (auto simp: outside_def)
  qed
qed

lemma cancel_limit_runs:
  assumes O: "orderly x ok s ab" and go: "going x s"
  shows "\<exists>t ab'. handle_cancel_order x i s = (Inr (), t) \<and> book_repr (levels_api x) ok (e_book t) ab' \<and> accounted x t ab' \<and> uncrossed ab'
    \<and> grows_by {} s t"
proof (cases "store_get s i")
  case None
  then show ?thesis using O by (auto simp: handle_cancel_order_def act_simps orderly_def grows_by_def)
next
  case (Some m)
  have R: "book_repr (levels_api x) ok (e_book s) ab" and acc: "accounted x s ab" and un: "uncrossed ab"
    using O by (simp_all add: orderly_def)
  obtain sd p a where l: "lies s ab sd p a m" "order_id (obj s m) = i" "(i, a) \<in> set (ab sd p)" "ready x s m"
    by (rule stored_lies[OF acc Some])
  obtain t where t: "handle_cancel x m s = (Inr (), t)" "moved_to x ok (ab_remove ab sd p i) (dict_pop (e_store s) i) a s t"
    using cancel_runs[OF R l(1) go l(4)] l(2) by (auto simp: runs_def)
  have "accounted x t (ab_remove ab sd p i)" by (rule accounted_removed[OF R acc l(3) t(2)])
  moreover have "ab sd' q \<noteq> []" if "ab_remove ab sd p i sd' q \<noteq> []" for sd' q
    using that by (auto simp: ab_remove_def dict_pop_def split: if_splits)
  then have "uncrossed (ab_remove ab sd p i)" using un unfolding uncrossed_def by blast
  moreover have "book_repr (levels_api x) ok (e_book t) (ab_remove ab sd p i)" using t(2) by (simp add: moved_to_def step_to_def)
  moreover have "grows_by {} s t"
    using t(2) by (auto simp: grows_by_def moved_to_def step_to_def store_get_def map_of_dict_pop)
  ultimately show ?thesis using t(1) Some by (auto simp: handle_cancel_order_def act_simps)
qed

text \<open>So every such command returns and leaves an orderly engine.\<close>

lemma limit_command_returns:
  assumes O: "orderly x ok s ab" and cmd: "limit_command x s cmd" and fuel: "2 * length (e_objs s) \<le> k"
  shows "\<exists>t ab'. handle_command x k cmd s = (Inr (), t) \<and> orderly x ok t ab' \<and> grows_by (set (placed_id cmd)) s t"
proof -
  let ?s = "received cmd s"
  have O': "orderly x ok ?s ab" using O orderly_same[of ?s s x ok ab] by simp
  have go: "going x ?s" using O cmd by (simp add: orderly_def going_def limit_command_def plain_command_def)
  have f: "2 * length (book_depth ?s ab sd) \<le> k" for sd
    using depth_bound[of ?s ab sd] O' accountedD(1)[of x ?s ab sd] fuel by (simp add: orderly_def)
  have "\<exists>h t ab'. run_handler x k (cmd_body cmd) = Some h \<and> h ?s = (Inr (), t) \<and> book_repr (levels_api x) ok (e_book t) ab'
      \<and> accounted x t ab' \<and> uncrossed ab' \<and> grows_by (set (placed_id cmd)) ?s t"
    using cmd
  proof (cases rule: limit_command_cases)
    case (new d p)
    then have "limit_order x ?s d p" by (simp add: limit_order_def)
    from new_limit_runs[OF O' go this f] new show ?thesis by (simp add: run_handler_def handle_new_order_def)
  next
    case (cancel i)
    then show ?thesis
      using cancel_limit_runs[OF O' go, of i] by (fastforce simp: run_handler_def grows_by_def)
  qed
  then obtain h t ab' where h: "run_handler x k (cmd_body cmd) = Some h" "h ?s = (Inr (), t)"
    "book_repr (levels_api x) ok (e_book t) ab'" "accounted x t ab'" "uncrossed ab'" "grows_by (set (placed_id cmd)) ?s t" by blast
  let ?t = "t\<lparr> e_queue := map_option (\<lambda>q. q @ [QProcessed (e_cmd t)]) (e_queue t) \<rparr>"
  have fin: "handle_command x k cmd s = (Inr (), ?t)" by (rule command_returns[OF h(1,2)])
  have "orderly x ok ?t ab'"
    using h(3-5) accounted_same[of ?t t x ab'] command_attached[OF fin] O by (simp add: orderly_def)
  moreover have "grows_by (set (placed_id cmd)) s ?t" using h(6) by (simp add: grows_by_def store_get_def)
  ultimately show ?thesis using fin by blast
qed

lemma limit_reach_orderly: "limit_reach x s \<Longrightarrow> \<exists>ab. orderly x ok s ab"
proof (induction rule: limit_reach.induct)
  case (limit_start s)
  have "book_repr (levels_api x) ok ((new_orderbook (levels_api x) 100)\<lparr> ob_cur_price := c \<rparr>) (\<lambda>_ _. [])" for c
    using repr_new[of 100] repr_cur_price by blast
  then have "book_repr (levels_api x) ok (e_book s) (\<lambda>_ _. [])" using limit_start unfolding untouched_def by metis
  then have "orderly x ok s (\<lambda>_ _. [])"
    using limit_start by (simp add: orderly_def untouched_def accounted_def rests_def stored_def store_get_def uncrossed_def)
  then show ?case by blast
next
  case (limit_more s cmd k res t)
  then show ?case using limit_command_returns[of s _ cmd k] by fastforce
next
  case (limit_shadow s q)
  then show ?case using orderly_same[of "s\<lparr> e_queue := q \<rparr>" s x ok] by auto
qed

text \<open>On an orderly book the cached best bid is below the cached best ask.\<close>

lemma orderly_best:
  assumes "orderly x ok s ab" "best_price (e_book s) BID = Some p" "best_price (e_book s) ASK = Some q"
  shows "p < q"
proof -
  have "is_best sd (\<lambda>v. ab sd v \<noteq> []) (best_price (e_book s) sd)" for sd
    using assms(1) by (auto simp: orderly_def intro: repr_best)
  from this[of BID] this[of ASK] have "ab BID p \<noteq> []" "ab ASK q \<noteq> []" using assms(2,3) by (simp_all add: is_best_def)
  then show ?thesis using assms(1) by (simp add: orderly_def uncrossed_def)
qed

end

section \<open>Sequences of commands\<close>

definition placed_ids :: "command list \<Rightarrow> string list" where
  "placed_ids cmds = concat (map placed_id cmds)"

context book_env
begin

text \<open>New orders under different unused ids and cancellations, in any order: all of them return.\<close>

lemma limit_serves:
  assumes "limit_reach x s" "list_all (plain_command x) cmds" "distinct (placed_ids cmds)"
    and "\<And>i. i \<in> set (placed_ids cmds) \<Longrightarrow> store_get s i = None" "2 * (length (e_objs s) + length cmds) \<le> k"
  shows "limit_reach x (serve x k cmds s) \<and> run_all (map (handle_command x k) cmds) s = (Inr (), serve x k cmds s)
    \<and> length (e_objs (serve x k cmds s)) \<le> length (e_objs s) + length cmds
    \<and> (\<forall>i. store_get (serve x k cmds s) i \<noteq> None \<longrightarrow> i \<in> set (placed_ids cmds) \<or> store_get s i \<noteq> None)"
  using assms
proof (induction cmds arbitrary: s)
  case Nil
  then show ?case by (simp add: act_simps)
next
  case (Cons cmd cmds)
  have c: "limit_command x s cmd" using Cons(3,5) by (simp add: limit_command_def placed_ids_def)
  obtain ab where "orderly x ok s ab" using limit_reach_orderly[OF Cons(2)] by blast
  moreover have k: "2 * length (e_objs s) \<le> k" using Cons(6) by simp
  ultimately obtain t where t: "handle_command x k cmd s = (Inr (), t)" "grows_by (set (placed_id cmd)) s t"
    using limit_command_returns[OF _ c] by blast
  have "store_get t i = None" if "i \<in> set (placed_ids cmds)" for i
  proof -
    have "i \<notin> set (placed_id cmd)" "store_get s i = None" using Cons(4,5) that by (auto simp: placed_ids_def)
    then show ?thesis using t(2) unfolding grows_by_def by blast
  qed
  moreover have "limit_reach x t" by (rule limit_more[OF Cons(2) c k t(1)])
  moreover have "2 * (length (e_objs t) + length cmds) \<le> k" using t(2) Cons(6) by (simp add: grows_by_def)
  ultimately have "limit_reach x (serve x k cmds t) \<and> run_all (map (handle_command x k) cmds) t = (Inr (), serve x k cmds t)
    \<and> length (e_objs (serve x k cmds t)) \<le> length (e_objs t) + length cmds
    \<and> (\<forall>i. store_get (serve x k cmds t) i \<noteq> None \<longrightarrow> i \<in> set (placed_ids cmds) \<or> store_get t i \<noteq> None)"
    using Cons.IH[of t] Cons(3,4) by (simp add: placed_ids_def)
  moreover have "placed_ids (cmd # cmds) = placed_id cmd @ placed_ids cmds" by (simp add: placed_ids_def)
  ultimately show ?case using t by (simp add: grows_by_def) (blast intro: le_SucI)
qed

end

section \<open>What a sweep adds up to\<close>

lemma sweep_makers: "sweep f v ds = (ts, rest) \<Longrightarrow> fst ` set ts \<subseteq> fst ` set ds"
proof (induction f v ds arbitrary: ts rest rule: sweep.induct)
  case (2 f v m p q ds)
  obtain us rs where us: "sweep f (v - q) ds = (us, rs)" by fastforce
  consider "v \<le> 0" | "0 < v" "\<not> f m" | "0 < v" "f m" "v < q" | "0 < v" "f m" "q \<le> v" by fastforce
  then show ?case
  proof cases
    case 2
    then have "fst ` set ts \<subseteq> fst ` set ds" using "2.IH"(1) "2.prems" by simp
    then show ?thesis by auto
  next
    case 4
    then have "fst ` set us \<subseteq> fst ` set ds" "ts = (m, p, q) # us" using "2.IH"(2) "2.prems" us by simp_all
    then show ?thesis by auto
  qed (use "2.prems" in auto)
qed simp

text \<open>If every maker has the funds and there is enough on the other side, the order is filled, at whatever prices.\<close>

lemma sweep_fills:
  assumes "sweep f v ds = (ts, rest)" "fst ` set ds \<subseteq> {m. f m}" "0 \<le> v" "v \<le> volume ds"
  shows "volume ts = v"
  using assms
proof (induction f v ds arbitrary: ts rest rule: sweep.induct)
  case (2 f v m p q ds)
  obtain us rs where us: "sweep f (v - q) ds = (us, rs)" by fastforce
  have fm: "f m" using 2(4) by simp
  show ?case
  proof (cases "v \<le> 0 \<or> v < q")
    case True
    then show ?thesis using 2(3,5) fm by (auto split: if_splits)
  next
    case False
    then have "volume us = v - q" using 2(2)[OF _ _ _ us] 2(4-6) fm by simp
    then show ?thesis using False 2(3) fm us by auto
  qed
qed simp

lemma trades_taker:
  assumes "t < length os" "\<And>m. m \<in> fst ` set ts \<Longrightarrow> m < length os \<and> m \<noteq> t"
  shows "executed_quantity (trades_on t ts os ! t) = executed_quantity (os ! t) + volume ts"
  using assms
proof (induction ts arbitrary: os)
  case (Cons n ts)
  obtain m p q where n: "n = (m, p, q)" by (cases n)
  then have m: "m < length os" "t \<noteq> m" using Cons(3)[of m] by auto
  have "executed_quantity (trades_on t ts (both_filled t m q p os) ! t) =
      executed_quantity (both_filled t m q p os ! t) + volume ts"
    using Cons(2,3) by (intro Cons(1)) auto
  then show ?case using n m Cons(2) by (simp add: filled_objs)
qed simp

lemma order_taken_executed:
  assumes "order_taken s ab d p ts t ab'" "fresh_limit d p" "rests x s ab sd" "fst ` set ts \<subseteq> fst ` set (book_depth s ab sd)"
  shows "executed_quantity (obj t (length (e_objs s))) = volume ts"
proof -
  let ?os = "e_objs s @ [new_order_obj Plain d]" and ?r = "length (e_objs s)"
  have "executed_quantity (trades_on ?r ts ?os ! ?r) = executed_quantity (?os ! ?r) + volume ts"
    using book_depth_makers[OF assms(3)] assms(4) by (intro trades_taker) fastforce+
  then have "executed_quantity (trades_on ?r ts ?os ! ?r) = volume ts" using fresh_limit_obj(7)[OF assms(2)] by simp
  then show ?thesis using assms(1) by (auto simp: order_taken_def Let_def obj_def split: if_splits)
qed

end
