(* ===== verification/Limit_Market.thy ===== *)
theory Limit_Market imports Orchestrator Limit_Orders begin

text \<open>
  A market of limit orders: the engine of a new instrument is one that limit orders lead to, and the loop of the
  orchestrator runs through every stream of limit orders and cancellations.
\<close>

section \<open>The loop of the orchestrator\<close>

text \<open>
  Messages that do not stop the loop by themselves: each one for the instrument carries a command, and the shadow lives
  when it arrives.
\<close>

definition readable :: "string \<Rightarrow> (consumer_record \<times> bool) list \<Rightarrow> bool" where
  "readable sy ms \<longleftrightarrow> list_all (\<lambda>(msg, alive). for_symbol sy msg \<longrightarrow> alive \<and> cr_value msg \<noteq> None) ms"

lemma orchestrate_runs:
  assumes "readable sy ms" "run_all (map (handle_command x k) (own_commands sy ms)) s = (Inr (), t)"
  shows "orchestrate x k sy ms s = (Inr (), t)"
proof -
  have "command_loop x k sy ms s = (Inr (), t)" using assms
  proof (induction ms arbitrary: s)
    case Nil
    then show ?case by (simp add: own_commands_Cons act_simps)
  next
    case (Cons am ms)
    obtain m alive where am: "am = (m, alive)" by (cases am)
    have r: "readable sy ms" "for_symbol sy m \<Longrightarrow> alive \<and> cr_value m \<noteq> None"
      using Cons(2) am by (simp_all add: readable_def)
    show ?case
    proof (cases "for_symbol sy m")
      case False
      then show ?thesis using Cons.IH[OF r(1)] Cons(3) am by (simp add: own_commands_Cons parse_message_eq)
    next
      case True
      then obtain cmd where cmd: "cr_value m = Some cmd" using r(2) by blast
      then have "run_all (handle_command x k cmd # map (handle_command x k) (own_commands sy ms)) s = (Inr (), t)"
        using Cons(3) am True by (simp add: own_commands_Cons)
      then obtain u where u: "handle_command x k cmd s = (Inr (), u)"
          "run_all (map (handle_command x k) (own_commands sy ms)) u = (Inr (), t)"
        by (auto simp: act_simps split: prod.splits sum.splits)
      then show ?thesis using Cons.IH[OF r(1) u(2)] am cmd True r(2) by (simp add: parse_message_eq)
    qed
  qed
  then show ?thesis by (simp add: orchestrate_def)
qed

section \<open>A new instrument\<close>

lemma seed_plain:
  assumes "\<And>n. is_uuid x (gen n)"
  shows "plain_command x (seed_command x gen sy p n)" "placed_id (seed_command x gen sy p n) = [gen (2 * n)]"
  using assms by (simp_all add: plain_command_def placed_id_def seed_command_def fresh_limit_def)

context book_env
begin

text \<open>Seeding is ten limit orders of the system user, so a new instrument starts in a reachable state.\<close>

lemma new_market_reach:
  assumes "inj gen" "\<And>n. is_uuid x (gen n)" "20 \<le> k"
  shows "\<exists>s. load_engine x depth k gen w (i, None) = Inr \<lparr> lc_engine = s, lc_position = None \<rparr>
    \<and> limit_reach x s \<and> length (e_objs s) \<le> 10 \<and> (\<forall>j. store_get s j \<noteq> None \<longrightarrow> j \<in> range gen)"
proof -
  let ?s0 = "(new_engine x (ir_symbol i) (e_redis w) (e_uuid w))\<lparr> e_kafka := e_kafka w \<rparr>"
  let ?s = "?s0\<lparr> e_book := (e_book ?s0)\<lparr> ob_cur_price := ir_starting_price i \<rparr> \<rparr>"
  let ?cmds = "map (seed_command x gen (ir_symbol i) (ir_starting_price i)) [0 ..< 10]"
  have ids: "placed_ids ?cmds = map (\<lambda>n. gen (2 * n)) [0 ..< 10]"
    by (simp add: placed_ids_def comp_def seed_plain(2)[OF assms(2)] del: upt.simps)
  have "limit_reach x ?s" by (rule limit_start) (simp add: untouched_def new_engine_def)
  moreover have "list_all (plain_command x) ?cmds" by (simp add: list_all_iff seed_plain(1)[OF assms(2)] del: upt.simps)
  moreover have "inj_on (\<lambda>n. gen (2 * n)) {0 ..< 10 :: nat}" using injD[OF assms(1)] by (fastforce intro!: inj_onI)
  then have "distinct (placed_ids ?cmds)" by (simp add: ids distinct_map del: upt.simps)
  moreover have none: "store_get ?s j = None" for j by (simp add: store_get_def new_engine_def)
  moreover have "2 * (length (e_objs ?s) + length ?cmds) \<le> k" using assms(3) by (simp add: new_engine_def del: upt.simps)
  ultimately have run: "limit_reach x (serve x k ?cmds ?s) \<and> run_all (map (handle_command x k) ?cmds) ?s = (Inr (), serve x k ?cmds ?s)
      \<and> length (e_objs (serve x k ?cmds ?s)) \<le> length (e_objs ?s) + length ?cmds
      \<and> (\<forall>j. store_get (serve x k ?cmds ?s) j \<noteq> None \<longrightarrow> j \<in> set (placed_ids ?cmds) \<or> store_get ?s j \<noteq> None)"
    by (rule limit_serves)
  then have "seed_liquidity x k gen (ir_symbol i) (ir_starting_price i) ?s = (Inr (), serve x k ?cmds ?s)"
    by (simp add: seed_liquidity_def comp_def del: upt.simps serve.simps)
  then have "load_engine x depth k gen w (i, None) = Inr \<lparr> lc_engine = serve x k ?cmds ?s, lc_position = None \<rparr>"
    by (simp add: load_engine_def Let_def del: upt.simps serve.simps)
  moreover have "length (e_objs ?s) + length ?cmds = 10" by (simp add: new_engine_def)
  moreover have "set (placed_ids ?cmds) \<subseteq> range gen" unfolding ids by auto
  ultimately show ?thesis using run none by (intro exI[of _ "serve x k ?cmds ?s"]) (simp del: upt.simps serve.simps, blast)
qed

text \<open>From there every stream of limit orders under new ids and of cancellations is handled to its end.\<close>

lemma limit_stream_runs:
  assumes "limit_reach x s" "readable sy ms" "list_all (plain_command x) (own_commands sy ms)"
    and "distinct (placed_ids (own_commands sy ms))" "\<And>i. i \<in> set (placed_ids (own_commands sy ms)) \<Longrightarrow> store_get s i = None"
    and "2 * (length (e_objs s) + length (own_commands sy ms)) \<le> k"
  shows "orchestrate x k sy ms s = (Inr (), serve x k (own_commands sy ms) s) \<and> limit_reach x (serve x k (own_commands sy ms) s)"
  using limit_serves[OF assms(1,3-6)] orchestrate_runs[OF assms(2)] by blast

end

end
