(* ===== verification/Accounts.thy ===== *)
theory Accounts imports Database Balance_Manager begin

text \<open>
  \<open>services/jwt/service.py\<close>, \<open>api/dependencies.py\<close> and \<open>api/routers/auth/router.py\<close>: tokens, sessions
  and the routes of the account pages.

  Signing and reading tokens (PyJWT) and hashing passwords (argon2) are parameters of the model, as are
  the random codes, the ids the database gives to new users, and the configured key prefixes. Redis
  keeps values that expire; a value is what \<open>json.dumps\<close> was given, and \<open>Quoted\<close> is the text that was
  dumped a second time. Time is in seconds of UTC. A handler returns a response or a failure, and the state
  it leaves: a failure rolls the database back, while Redis keeps what was written to it.
\<close>

section \<open>The state\<close>

record 'tok user_row =
  ur_id :: string
  ur_username :: string
  ur_email :: string
  ur_password :: string
  ur_jwt :: "'tok option"
  ur_authenticated_at :: "int option"

record jwt_payload =
  jp_sub :: string
  jp_em :: string
  jp_exp :: int
  jp_authenticated :: bool

datatype 'tok blob =
    CodeBlob (bl_code: "string option") (bl_attempts: nat)
  | ActionBlob (bl_user: string) (bl_action: string) (bl_value: string)
  | Quoted "'tok blob"
  | TokenBlob 'tok

record 'tok auth_env =
  ax_encode :: "jwt_payload \<Rightarrow> 'tok"
  ax_decode :: "int \<Rightarrow> 'tok \<Rightarrow> jwt_payload option"
  ax_hash :: "string \<Rightarrow> string"
  ax_verify :: "string \<Rightarrow> string \<Rightarrow> bool"
  ax_expiry_secs :: int
  ax_utc_offset :: int
  ax_code :: "nat \<Rightarrow> string"
  ax_user_id :: "nat \<Rightarrow> string"
  ax_verification_prefix :: string
  ax_username_prefix :: string
  ax_email_prefix :: string
  ax_password_prefix :: string
  ax_ws_prefix :: string
  ax_ws_ttl :: int
  ax_new_user_command :: string

record ('tok, 'r) account_state =
  ac_users :: "'tok user_row list"
  ac_keys :: "(string \<times> 'tok blob \<times> int) list"
  ac_now :: int
  ac_codes :: nat
  ac_ids :: nat
  ac_mail :: "(string \<times> string) list"
  ac_wallet :: "'r"
  ac_uuid :: nat
  ac_events :: "balance_event list"

type_synonym ('tok, 'r, 'a) handler = "('tok, 'r) account_state \<Rightarrow> (api_error + 'a) \<times> ('tok, 'r) account_state"

definition verification_expiry_secs :: int where
  "verification_expiry_secs = 60"

definition max_email_verification_attempts :: nat where
  "max_email_verification_attempts = 5"

section \<open>The tables and Redis\<close>

definition find_user :: "string \<Rightarrow> ('tok, 'r) account_state \<Rightarrow> 'tok user_row option" where
  "find_user i s = find (\<lambda>u. ur_id u = i) (ac_users s)"

definition update_user :: "string \<Rightarrow> ('tok user_row \<Rightarrow> 'tok user_row) \<Rightarrow> ('tok, 'r) account_state \<Rightarrow> ('tok, 'r) account_state" where
  "update_user i f s = s\<lparr> ac_users := map (\<lambda>u. if ur_id u = i then f u else u) (ac_users s) \<rparr>"

definition redis_get :: "string \<Rightarrow> ('tok, 'r) account_state \<Rightarrow> 'tok blob option" where
  "redis_get k s =
     (case map_of (ac_keys s) k of None \<Rightarrow> None | Some (b, t) \<Rightarrow> if ac_now s < t then Some b else None)"

definition redis_set :: "string \<Rightarrow> 'tok blob \<Rightarrow> int \<Rightarrow> ('tok, 'r) account_state \<Rightarrow> ('tok, 'r) account_state" where
  "redis_set k b secs s = s\<lparr> ac_keys := dict_put (ac_keys s) k (b, ac_now s + secs) \<rparr>"

definition redis_delete :: "string \<Rightarrow> ('tok, 'r) account_state \<Rightarrow> ('tok, 'r) account_state" where
  "redis_delete k s = s\<lparr> ac_keys := dict_pop (ac_keys s) k \<rparr>"

text \<open>\<open>scan_iter\<close> with a prefix pattern and a \<open>delete\<close> for each key it finds.\<close>

definition delete_prefix :: "string \<Rightarrow> ('tok, 'r) account_state \<Rightarrow> ('tok, 'r) account_state" where
  "delete_prefix p s = s\<lparr> ac_keys := filter (\<lambda>kb. take (length p) (fst kb) \<noteq> p) (ac_keys s) \<rparr>"

definition send_email :: "string \<Rightarrow> string \<Rightarrow> ('tok, 'r) account_state \<Rightarrow> ('tok, 'r) account_state" where
  "send_email to code s = s\<lparr> ac_mail := ac_mail s @ [(to, code)] \<rparr>"

text \<open>\<open>gen_random_string\<close> gives the next of the random strings.\<close>

definition next_code :: "'tok auth_env \<Rightarrow> ('tok, 'r) account_state \<Rightarrow> string" where
  "next_code a s = ax_code a (ac_codes s)"

definition drew_code :: "('tok, 'r) account_state \<Rightarrow> ('tok, 'r) account_state" where
  "drew_code s = s\<lparr> ac_codes := Suc (ac_codes s) \<rparr>"

section \<open>Tokens\<close>

text \<open>
  The expiry is taken from \<open>datetime.now()\<close>, the local time without a zone, and PyJWT encodes such a time as if it were
  UTC: on a server \<open>ax_utc_offset\<close> seconds ahead of UTC a token lives that much longer, and behind UTC that much shorter.
\<close>

definition generate_jwt :: "'tok auth_env \<Rightarrow> int \<Rightarrow> 'tok user_row \<Rightarrow> 'tok" where
  "generate_jwt a now u =
     ax_encode a \<lparr> jp_sub = ur_id u, jp_em = ur_email u, jp_exp = now + ax_utc_offset a + ax_expiry_secs a,
                   jp_authenticated = (ur_authenticated_at u \<noteq> None) \<rparr>"

definition set_persistant_jwt_cookie :: "'tok auth_env \<Rightarrow> 'tok user_row \<Rightarrow> ('tok, 'r) account_state \<Rightarrow> 'tok \<times> ('tok, 'r) account_state" where
  "set_persistant_jwt_cookie a u s =
     (let token = generate_jwt a (ac_now s) u
      in (token, update_user (ur_id u) (\<lambda>r. r\<lparr> ur_jwt := Some token \<rparr>) s))"

definition validate_jwt :: "'tok auth_env \<Rightarrow> 'tok \<Rightarrow> bool \<Rightarrow> ('tok, 'r) account_state \<Rightarrow> api_error + jwt_payload" where
  "validate_jwt a token is_authenticated s =
     (case ax_decode a (ac_now s) token of
        None \<Rightarrow> Inl (HTTPException 401)
      | Some p \<Rightarrow>
          if is_authenticated \<and> \<not> jp_authenticated p then Inl (HTTPException 401)
          else if jp_exp p < ac_now s then Inl (HTTPException 401)
          else (case find_user (jp_sub p) s of
                  None \<Rightarrow> Inl (HTTPException 401)
                | Some u \<Rightarrow>
                    if ur_jwt u \<noteq> None \<and> ur_jwt u \<noteq> Some token then Inl (HTTPException 401) else Inr p))"

text \<open>The dependency of the routes: the cookie has to be there and valid.\<close>

definition depends_jwt ::
    "'tok auth_env \<Rightarrow> bool \<Rightarrow> 'tok option \<Rightarrow> (jwt_payload \<Rightarrow> ('tok, 'r, 'a) handler) \<Rightarrow> ('tok, 'r, 'a) handler" where
  "depends_jwt a is_authenticated cookie body s =
     (case cookie of
        None \<Rightarrow> (Inl (HTTPException 401), s)
      | Some token \<Rightarrow>
          (case validate_jwt a token is_authenticated s of Inl e \<Rightarrow> (Inl e, s) | Inr p \<Rightarrow> body p s))"

section \<open>Login and registration\<close>

definition login :: "'tok auth_env \<Rightarrow> string option \<Rightarrow> string option \<Rightarrow> string \<Rightarrow> ('tok, 'r, 'tok) handler" where
  "login a username email password s =
     (if username = None \<and> email = None then (Inl (HTTPException 422), s)
      else case find (\<lambda>u. (username = None \<or> username = Some (ur_username u)) \<and> (email = None \<or> email = Some (ur_email u)))
                  (ac_users s) of
             None \<Rightarrow> (Inl (HTTPException 400), s)
           | Some u \<Rightarrow>
               if \<not> ax_verify a (ur_password u) password then (Inl (HTTPException 400), s)
               else (case set_persistant_jwt_cookie a u s of (token, t) \<Rightarrow> (Inr token, t)))"

definition password_ok :: "string \<Rightarrow> bool" where
  "password_ok p \<longleftrightarrow> 2 \<le> length p"

definition verification_key :: "'tok auth_env \<Rightarrow> string \<Rightarrow> string" where
  "verification_key a sub = ax_verification_prefix a @ sub"

definition register :: "'tok auth_env \<Rightarrow> string \<Rightarrow> string \<Rightarrow> string \<Rightarrow> ('tok, 'r, 'tok) handler" where
  "register a username email password s =
     (if \<not> password_ok password then (Inl (HTTPException 422), s)
      else if list_ex (\<lambda>u. ur_username u = username \<or> ur_email u = email) (ac_users s)
      then (Inl (HTTPException 400), s)
      else let u = \<lparr> ur_id = ax_user_id a (ac_ids s), ur_username = username, ur_email = email,
                     ur_password = ax_hash a password, ur_jwt = None, ur_authenticated_at = None \<rparr>;
               s1 = s\<lparr> ac_users := ac_users s @ [u], ac_ids := Suc (ac_ids s) \<rparr>;
               code = next_code a s1;
               s2 = redis_set (verification_key a (ur_id u)) (CodeBlob (Some code) 0) verification_expiry_secs
                      (redis_delete (verification_key a (ur_id u)) (drew_code s1));
               s3 = send_email email code s2
           in case set_persistant_jwt_cookie a u s3 of (token, t) \<Rightarrow> (Inr token, t))"

section \<open>Email verification\<close>

definition request_email_verification :: "'tok auth_env \<Rightarrow> 'tok option \<Rightarrow> ('tok, 'r, unit) handler" where
  "request_email_verification a cookie = depends_jwt a False cookie (\<lambda>jwt s.
     let code = next_code a s; s1 = drew_code s; key = verification_key a (jp_sub jwt)
     in case redis_get key s1 of
          Some (ActionBlob u ac v) \<Rightarrow> (Inl (Uncaught KeyError), s1)
        | Some (Quoted b) \<Rightarrow> (Inl (Uncaught TypeError), s1)
        | Some (TokenBlob tok) \<Rightarrow> (Inl (Uncaught ValueError), s1)
        | stored \<Rightarrow>
            let attempts = (case stored of Some (CodeBlob c n) \<Rightarrow> n | _ \<Rightarrow> 0)
            in if max_email_verification_attempts < attempts + 1 then (Inl (HTTPException 400), s1)
               else (Inr (), send_email (jp_em jwt) code
                              (redis_set key (CodeBlob (Some code) (attempts + 1)) verification_expiry_secs
                                (redis_delete key s1))))"

text \<open>
  \<open>increase_cash_balance_async\<close>: the event under a fresh id, then the update script. The balances are
  those of the engines, in the Redis database the wallet stands for.
\<close>

definition increase_cash_balance_async ::
    "('m, 'r) env \<Rightarrow> string \<Rightarrow> rat \<Rightarrow> string \<Rightarrow> ('tok, 'r) account_state \<Rightarrow> ('tok, 'r) account_state" where
  "increase_cash_balance_async x u amount cmd s =
     s\<lparr> ac_uuid := Suc (ac_uuid s),
        ac_events := (if u = system_user x then ac_events s
                      else ac_events s @ [CashBalanceIncreased (ac_uuid s) u amount cmd]),
        ac_wallet := snd (lua_update_balance (redis_of x) (ac_wallet s) (get_cash_balance_key x u)
                            (get_cash_balance_hkey x u) (ac_uuid s) amount) \<rparr>"

definition verify_email :: "('m, 'r) env \<Rightarrow> 'tok auth_env \<Rightarrow> 'tok option \<Rightarrow> string \<Rightarrow> ('tok, 'r, 'tok) handler" where
  "verify_email x a cookie code = depends_jwt a False cookie (\<lambda>jwt s.
     let key = verification_key a (jp_sub jwt)
     in case redis_get key s of
          None \<Rightarrow> (Inl (HTTPException 400), s)
        | Some (ActionBlob u ac v) \<Rightarrow> (Inl (Uncaught KeyError), s)
        | Some (Quoted b) \<Rightarrow> (Inl (Uncaught TypeError), s)
        | Some (TokenBlob tok) \<Rightarrow> (Inl (Uncaught ValueError), s)
        | Some (CodeBlob c n) \<Rightarrow>
            if c \<noteq> Some code then (Inl (HTTPException 400), s)
            else let s1 = redis_delete key s
                 in case find_user (jp_sub jwt) s1 of
                      None \<Rightarrow> (Inl (Uncaught AttributeError), s1)
                    | Some u \<Rightarrow>
                        let u' = u\<lparr> ur_authenticated_at := Some (ac_now s1) \<rparr>;
                            s2 = update_user (ur_id u) (\<lambda>r. r\<lparr> ur_authenticated_at := Some (ac_now s1) \<rparr>) s1
                        in case set_persistant_jwt_cookie a u' s2 of
                             (token, s3) \<Rightarrow>
                               (Inr token, increase_cash_balance_async x (ur_id u) get_default_cash_balance
                                             (ax_new_user_command a) s3))"

section \<open>Sessions\<close>

definition logout :: "'tok auth_env \<Rightarrow> 'tok option \<Rightarrow> ('tok, 'r, unit) handler" where
  "logout a cookie = depends_jwt a True cookie (\<lambda>jwt s.
     (Inr (), update_user (jp_sub jwt) (\<lambda>u. u\<lparr> ur_jwt := None \<rparr>) s))"

definition get_me :: "'tok auth_env \<Rightarrow> 'tok option \<Rightarrow> ('tok, 'r, string) handler" where
  "get_me a cookie = depends_jwt a True cookie (\<lambda>jwt s.
     case find_user (jp_sub jwt) s of
       None \<Rightarrow> (Inl (HTTPException 404), s) | Some u \<Rightarrow> (Inr (ur_username u), s))"

definition get_ws_token :: "'tok auth_env \<Rightarrow> 'tok option \<Rightarrow> ('tok, 'r, string) handler" where
  "get_ws_token a cookie = depends_jwt a True cookie (\<lambda>jwt s.
     case find_user (jp_sub jwt) s of
       None \<Rightarrow> (Inl (HTTPException 404), s)
     | Some u \<Rightarrow>
         (case ur_jwt u of
            None \<Rightarrow> (Inl (HTTPException 404), s)
          | Some t \<Rightarrow>
              let token = next_code a s
              in (Inr token, redis_set (ax_ws_prefix a @ token) (TokenBlob t) (ax_ws_ttl a) (drew_code s))))"

section \<open>Changing an account\<close>

text \<open>The pending change under its key, after the keys with the prefix were removed, and the mail with the code.\<close>

definition store_change ::
    "'tok auth_env \<Rightarrow> string \<Rightarrow> string \<Rightarrow> 'tok blob \<Rightarrow> ('tok, 'r) account_state \<Rightarrow> ('tok, 'r) account_state" where
  "store_change a prefix email payload s =
     (let s1 = delete_prefix prefix s; code = next_code a s1
      in send_email email code (redis_set (prefix @ code) payload verification_expiry_secs (drew_code s1)))"

definition change_username :: "'tok auth_env \<Rightarrow> 'tok option \<Rightarrow> string \<Rightarrow> ('tok, 'r, unit) handler" where
  "change_username a cookie new = depends_jwt a True cookie (\<lambda>jwt s.
     case find_user (jp_sub jwt) s of
       None \<Rightarrow> (Inl (HTTPException 404), s)
     | Some u \<Rightarrow>
         if list_ex (\<lambda>r. ur_username r = new) (ac_users s) then (Inl (HTTPException 400), s)
         else (Inr (), store_change a (ax_username_prefix a @ jp_sub jwt @ '':'') (ur_email u)
                         (Quoted (ActionBlob (ur_id u) ''change_username'' new)) s))"

definition change_email :: "'tok auth_env \<Rightarrow> 'tok option \<Rightarrow> string \<Rightarrow> ('tok, 'r, unit) handler" where
  "change_email a cookie new = depends_jwt a True cookie (\<lambda>jwt s.
     case find_user (jp_sub jwt) s of
       None \<Rightarrow> (Inl (HTTPException 404), s)
     | Some u \<Rightarrow>
         if list_ex (\<lambda>r. ur_email r = new) (ac_users s) then (Inl (HTTPException 400), s)
         else (Inr (), store_change a (ax_email_prefix a @ jp_sub jwt @ '':'') (ur_email u)
                         (Quoted (ActionBlob (ur_id u) ''change_email'' new)) s))"

definition change_password :: "'tok auth_env \<Rightarrow> 'tok option \<Rightarrow> string \<Rightarrow> ('tok, 'r, unit) handler" where
  "change_password a cookie new =
     (if \<not> password_ok new then (\<lambda>s. (Inl (HTTPException 422), s))
      else depends_jwt a True cookie (\<lambda>jwt s.
        case find_user (jp_sub jwt) s of
          None \<Rightarrow> (Inl (HTTPException 404), s)
        | Some u \<Rightarrow>
            (Inr (), store_change a (ax_password_prefix a @ jp_sub jwt) (ur_email u)
                       (ActionBlob (ur_id u) ''change_password'' new) s)))"

text \<open>
  Confirming a change. The text is read with \<open>json.loads\<close>: what was dumped twice comes back as a string,
  and indexing it with a key is a \<open>TypeError\<close>. The update of the email names a column that does not exist.
\<close>

definition apply_change ::
    "'tok auth_env \<Rightarrow> jwt_payload \<Rightarrow> string \<Rightarrow> string \<Rightarrow> string \<Rightarrow> ('tok, 'r, unit) handler" where
  "apply_change a jwt owner action v s =
     (if owner \<noteq> jp_sub jwt then (Inl (HTTPException 401), s)
      else if action = ''change_username''
      then (if list_ex (\<lambda>r. ur_username r = v) (ac_users s) then (Inl (HTTPException 400), s)
            else (Inr (), update_user owner (\<lambda>r. r\<lparr> ur_username := v \<rparr>) s))
      else if action = ''change_email'' then (Inl (Uncaught CompileError), s)
      else if action = ''change_password''
      then (Inr (), update_user owner (\<lambda>r. r\<lparr> ur_password := ax_hash a v, ur_jwt := None \<rparr>) s)
      else (Inl (HTTPException 400), s))"

definition verify_action :: "'tok auth_env \<Rightarrow> 'tok option \<Rightarrow> string \<Rightarrow> string \<Rightarrow> ('tok, 'r, unit) handler" where
  "verify_action a cookie action code =
     (if action \<notin> {''change_username'', ''change_password'', ''change_email''} then (\<lambda>s. (Inl (HTTPException 422), s))
      else depends_jwt a True cookie (\<lambda>jwt s.
        let key = action @ '':'' @ jp_sub jwt @ '':'' @ code; s1 = redis_delete key s
        in case redis_get key s of
             None \<Rightarrow> (Inl (HTTPException 400), s)
           | Some (CodeBlob c n) \<Rightarrow> (Inl (Uncaught KeyError), s1)
           | Some (Quoted b) \<Rightarrow> (Inl (Uncaught TypeError), s1)
           | Some (TokenBlob tok) \<Rightarrow> (Inl (Uncaught ValueError), s1)
           | Some (ActionBlob u ac v) \<Rightarrow> apply_change a jwt u ac v s1))"

section \<open>Requests\<close>

datatype 'tok request =
    Login "string option" "string option" string
  | Register string string string
  | RequestEmailVerification "'tok option"
  | VerifyEmail "'tok option" string
  | Logout "'tok option"
  | GetMe "'tok option"
  | GetWsToken "'tok option"
  | ChangeUsername "'tok option" string
  | ChangeEmail "'tok option" string
  | ChangePassword "'tok option" string
  | VerifyAction "'tok option" string string

datatype 'tok reply = Cookie 'tok | Done | Told string

definition answer :: "('a \<Rightarrow> 'b) \<Rightarrow> (api_error + 'a) \<times> 's \<Rightarrow> (api_error + 'b) \<times> 's" where
  "answer f r = (map_sum id f (fst r), snd r)"

fun account_request ::
    "('m, 'r) env \<Rightarrow> 'tok auth_env \<Rightarrow> 'tok request \<Rightarrow> ('tok, 'r, 'tok reply) handler" where
  "account_request x a (Login u e p) s = answer Cookie (login a u e p s)"
| "account_request x a (Register u e p) s = answer Cookie (register a u e p s)"
| "account_request x a (RequestEmailVerification c) s = answer (\<lambda>_. Done) (request_email_verification a c s)"
| "account_request x a (VerifyEmail c code) s = answer Cookie (verify_email x a c code s)"
| "account_request x a (Logout c) s = answer (\<lambda>_. Done) (logout a c s)"
| "account_request x a (GetMe c) s = answer Told (get_me a c s)"
| "account_request x a (GetWsToken c) s = answer Told (get_ws_token a c s)"
| "account_request x a (ChangeUsername c n) s = answer (\<lambda>_. Done) (change_username a c n s)"
| "account_request x a (ChangeEmail c n) s = answer (\<lambda>_. Done) (change_email a c n s)"
| "account_request x a (ChangePassword c n) s = answer (\<lambda>_. Done) (change_password a c n s)"
| "account_request x a (VerifyAction c ac code) s = answer (\<lambda>_. Done) (verify_action a c ac code s)"

text \<open>
  The states the routes can reach from an application without users and keys. Time passes between
  requests; other programs may change the balances.
\<close>

definition no_accounts :: "int \<Rightarrow> 'r \<Rightarrow> ('tok, 'r) account_state" where
  "no_accounts now w = \<lparr> ac_users = [], ac_keys = [], ac_now = now, ac_codes = 0, ac_ids = 0, ac_mail = [],
                         ac_wallet = w, ac_uuid = 0, ac_events = [] \<rparr>"

inductive accounts_reach :: "('m, 'r) env \<Rightarrow> 'tok auth_env \<Rightarrow> ('tok, 'r) account_state \<Rightarrow> bool" for x a where
  reach_start: "accounts_reach x a (no_accounts now w)"
| reach_request: "accounts_reach x a s \<Longrightarrow> accounts_reach x a (snd (account_request x a req s))"
| reach_later: "accounts_reach x a s \<Longrightarrow> 0 \<le> d \<Longrightarrow> accounts_reach x a (s\<lparr> ac_now := ac_now s + d, ac_wallet := w \<rparr>)"

section \<open>The invariant\<close>

definition credentials :: "'tok user_row \<Rightarrow> string \<times> string \<times> string \<times> string" where
  "credentials u = (ur_id u, ur_username u, ur_email u, ur_password u)"

definition colons :: "string \<Rightarrow> nat" where
  "colons k = count_list k CHR '':''"

definition plain_config :: "'tok auth_env \<Rightarrow> bool" where
  "plain_config a \<longleftrightarrow> inj (ax_user_id a) \<and> (\<forall>n. colons (ax_user_id a n) = 0) \<and> (\<forall>n. colons (ax_code a n) = 0)
                    \<and> colons (ax_password_prefix a) \<le> 1"

definition accounts_ok :: "'tok auth_env \<Rightarrow> ('tok, 'r) account_state \<Rightarrow> bool" where
  "accounts_ok a s \<longleftrightarrow>
     set (map ur_id (ac_users s)) \<subseteq> ax_user_id a ` {..<ac_ids s}
     \<and> distinct (map ur_id (ac_users s)) \<and> distinct (map ur_username (ac_users s)) \<and> distinct (map ur_email (ac_users s))
     \<and> (\<forall>(k, b, t) \<in> set (ac_keys s). (\<exists>u ac v. b = ActionBlob u ac v) \<longrightarrow> colons k \<le> 1)"

definition keeps_accounts :: "'tok auth_env \<Rightarrow> ('tok, 'r) account_state \<Rightarrow> ('tok, 'r) account_state \<Rightarrow> bool" where
  "keeps_accounts a s t \<longleftrightarrow>
     (accounts_ok a s \<longrightarrow>
        accounts_ok a t \<and> (\<exists>new. map credentials (ac_users t) = map credentials (ac_users s) @ new))"

interpretation ka: frame "keeps_accounts a"
  by unfold_locales (auto simp: keeps_accounts_def)

lemma colons_append [simp]: "colons (xs @ ys) = colons xs + colons ys"
  by (simp add: colons_def)

named_theorems account_intros \<open>operations that keep the accounts\<close>

lemma keeps_same [account_intros]: "keeps_accounts a s s"
  by (rule ka.frame_refl)

lemma keeps_unchanged:
  assumes "keeps_accounts a s t" "ac_users t' = ac_users t" "ac_ids t' = ac_ids t"
    "\<And>k b e. (k, b, e) \<in> set (ac_keys t') \<Longrightarrow> \<exists>u ac v. b = ActionBlob u ac v
        \<Longrightarrow> (k, b, e) \<in> set (ac_keys t) \<or> colons k \<le> 1"
  shows "keeps_accounts a s t'"
  using assms(1) unfolding keeps_accounts_def
proof (intro impI conjI)
  assume st: "accounts_ok a s \<longrightarrow> accounts_ok a t \<and> (\<exists>new. map credentials (ac_users t) = map credentials (ac_users s) @ new)"
    and s: "accounts_ok a s"
  then have t: "accounts_ok a t" by blast
  show "accounts_ok a t'"
    using t assms(4) unfolding accounts_ok_def assms(2,3) by blast
  show "\<exists>new. map credentials (ac_users t') = map credentials (ac_users s) @ new"
    using st s by (simp add: assms(2))
qed

lemma keeps_redis_set [account_intros]:
  assumes "keeps_accounts a s t" "(\<exists>u ac v. b = ActionBlob u ac v) \<longrightarrow> colons k \<le> 1"
  shows "keeps_accounts a s (redis_set k b secs t)"
  using assms(2) by (intro keeps_unchanged[OF assms(1)]) (auto simp: redis_set_def dest!: set_dict_put)

lemma keeps_redis_delete [account_intros]: "keeps_accounts a s t \<Longrightarrow> keeps_accounts a s (redis_delete k t)"
  by (erule keeps_unchanged) (auto simp: redis_delete_def dict_pop_def)

lemma keeps_delete_prefix [account_intros]: "keeps_accounts a s t \<Longrightarrow> keeps_accounts a s (delete_prefix p t)"
  by (erule keeps_unchanged) (auto simp: delete_prefix_def)

lemma keeps_send_email [account_intros]: "keeps_accounts a s t \<Longrightarrow> keeps_accounts a s (send_email e c t)"
  by (erule keeps_unchanged) (auto simp: send_email_def)

lemma keeps_drew_code [account_intros]: "keeps_accounts a s t \<Longrightarrow> keeps_accounts a s (drew_code t)"
  by (erule keeps_unchanged) (auto simp: drew_code_def)

lemma keeps_increase [account_intros]:
  "keeps_accounts a s t \<Longrightarrow> keeps_accounts a s (increase_cash_balance_async x u v c t)"
  by (erule keeps_unchanged) (auto simp: increase_cash_balance_async_def)

lemma map_update_user:
  "(\<And>u. g (f u) = g u) \<Longrightarrow> map g (ac_users (update_user i f s)) = map g (ac_users s)"
  by (simp add: update_user_def)

lemma keeps_update_user [account_intros]:
  assumes st: "keeps_accounts a s t" and f: "\<And>u. credentials (f u) = credentials u"
  shows "keeps_accounts a s (update_user i f t)"
proof -
  have g: "map g (ac_users (update_user i f t)) = map g (ac_users t)"
    if "\<And>u. g (f u) = g u" for g :: "'a user_row \<Rightarrow> 'c" by (rule map_update_user) (rule that)
  have c: "ur_id (f u) = ur_id u" "ur_username (f u) = ur_username u" "ur_email (f u) = ur_email u" for u
    using f[of u] by (auto simp: credentials_def)
  have "accounts_ok a (update_user i f t) \<longleftrightarrow> accounts_ok a t"
    unfolding accounts_ok_def by (simp only: map_update_user c) (simp add: update_user_def)
  then show ?thesis using st map_update_user[of credentials f i t] f
    by (simp add: keeps_accounts_def)
qed

section \<open>Every request keeps it\<close>

lemma validate_jwt_user: "validate_jwt a token b s = Inr p \<Longrightarrow> \<exists>u. find_user (jp_sub p) s = Some u"
  by (auto simp: validate_jwt_def split: option.splits if_splits)

lemma find_userD: "find_user i s = Some u \<Longrightarrow> u \<in> set (ac_users s) \<and> ur_id u = i"
  by (auto simp: find_user_def find_Some_iff)

lemma depends_jwt_keeps:
  assumes "\<And>p u. find_user (jp_sub p) s = Some u \<Longrightarrow> keeps_accounts a s (snd (body p s))"
  shows "keeps_accounts a s (snd (depends_jwt a b c body s))"
  using assms by (auto simp: depends_jwt_def keeps_same dest: validate_jwt_user split: option.splits sum.splits)

lemma cookie_keeps [account_intros]:
  "keeps_accounts a s t \<Longrightarrow> keeps_accounts a s (snd (set_persistant_jwt_cookie a u t))"
  by (auto simp: set_persistant_jwt_cookie_def Let_def credentials_def intro!: keeps_update_user)

lemma login_keeps: "keeps_accounts a s (snd (login a u e p s))"
  by (auto simp: login_def case_prod_unfold split: option.splits intro!: account_intros)

lemma request_email_verification_keeps: "keeps_accounts a s (snd (request_email_verification a c s))"
  unfolding request_email_verification_def
  by (rule depends_jwt_keeps) (auto simp: Let_def split: option.splits blob.splits intro!: account_intros)

lemma verify_email_keeps: "keeps_accounts a s (snd (verify_email x a c code s))"
  unfolding verify_email_def
  apply (rule depends_jwt_keeps)
  apply (auto simp: Let_def case_prod_unfold credentials_def split: option.splits blob.splits intro!: account_intros)
  done

lemma logout_keeps: "keeps_accounts a s (snd (logout a c s))"
  unfolding logout_def by (rule depends_jwt_keeps) (auto simp: credentials_def intro!: account_intros)

lemma get_me_keeps: "keeps_accounts a s (snd (get_me a c s))"
  unfolding get_me_def by (rule depends_jwt_keeps) (auto split: option.splits intro!: account_intros)

lemma get_ws_token_keeps: "keeps_accounts a s (snd (get_ws_token a c s))"
  unfolding get_ws_token_def by (rule depends_jwt_keeps) (auto simp: Let_def split: option.splits intro!: account_intros)

lemma change_username_keeps: "keeps_accounts a s (snd (change_username a c n s))"
  unfolding change_username_def
  by (rule depends_jwt_keeps) (auto simp: store_change_def Let_def split: option.splits intro!: account_intros)

lemma change_email_keeps: "keeps_accounts a s (snd (change_email a c n s))"
  unfolding change_email_def
  by (rule depends_jwt_keeps) (auto simp: store_change_def Let_def split: option.splits intro!: account_intros)

lemma fresh_user_id:
  assumes "plain_config a" "accounts_ok a s"
  shows "ax_user_id a (ac_ids s) \<notin> set (map ur_id (ac_users s))"
proof -
  have "inj (ax_user_id a)" using assms(1) by (simp add: plain_config_def)
  then have "ax_user_id a (ac_ids s) \<notin> ax_user_id a ` {..<ac_ids s}" by (auto dest: injD)
  then show ?thesis using assms(2) unfolding accounts_ok_def by blast
qed

lemma register_keeps:
  assumes a: "plain_config a"
  shows "keeps_accounts a s (snd (register a u e p s))"
proof (cases "password_ok p \<and> \<not> list_ex (\<lambda>r. ur_username r = u \<or> ur_email r = e) (ac_users s)")
  case False
  then show ?thesis by (auto simp: register_def keeps_same)
next
  case True
  define new where "new = \<lparr> ur_id = ax_user_id a (ac_ids s), ur_username = u, ur_email = e,
                     ur_password = ax_hash a p, ur_jwt = None :: 'a option, ur_authenticated_at = None \<rparr>"
  define s1 where "s1 = s\<lparr> ac_users := ac_users s @ [new], ac_ids := Suc (ac_ids s) \<rparr>"
  have "keeps_accounts a s s1"
    unfolding keeps_accounts_def
  proof (intro impI conjI)
    assume s: "accounts_ok a s"
    have "ur_id new \<notin> set (map ur_id (ac_users s))"
      using fresh_user_id[OF a s] by (simp add: new_def)
    moreover have "u \<notin> set (map ur_username (ac_users s))" "e \<notin> set (map ur_email (ac_users s))"
      using True by (auto simp: list_ex_iff)
    ultimately show "accounts_ok a s1"
      using s unfolding accounts_ok_def s1_def by (auto simp: new_def)
    show "\<exists>new. map credentials (ac_users s1) = map credentials (ac_users s) @ new"
      by (simp add: s1_def)
  qed
  moreover have "keeps_accounts a s1 (snd (register a u e p s))"
    using True by (auto simp: register_def Let_def s1_def new_def case_prod_unfold intro!: account_intros)
  ultimately show ?thesis by (rule ka.frame_trans)
qed

lemma change_password_keeps:
  assumes a: "plain_config a" and ok: "accounts_ok a s"
  shows "keeps_accounts a s (snd (change_password a c n s))"
proof -
  have "colons (ax_password_prefix a @ i @ next_code a t) \<le> 1" if "find_user i s = Some u" for i u and t :: "('a, 'b) account_state"
  proof -
    have "ur_id u \<in> ax_user_id a ` {..<ac_ids s}" "ur_id u = i"
      using ok find_userD[OF that] unfolding accounts_ok_def by auto
    then show ?thesis using a by (auto simp: plain_config_def next_code_def)
  qed
  then show ?thesis unfolding change_password_def
    by (auto simp: keeps_same intro!: depends_jwt_keeps)
      (auto simp: store_change_def Let_def split: option.splits intro!: account_intros)
qed

lemma redis_get_mem: "redis_get k s = Some b \<Longrightarrow> \<exists>t. (k, b, t) \<in> set (ac_keys s)"
  by (auto simp: redis_get_def split: option.splits if_splits dest!: map_of_SomeD)

lemma verify_action_keeps:
  assumes ok: "accounts_ok a s"
  shows "keeps_accounts a s (snd (verify_action a c ac code s))"
proof -
  have no: "redis_get (ac @ '':'' @ i @ '':'' @ code) s \<noteq> Some (ActionBlob u ac' v)" for i u ac' v
  proof
    assume "redis_get (ac @ '':'' @ i @ '':'' @ code) s = Some (ActionBlob u ac' v)"
    then have "colons (ac @ '':'' @ i @ '':'' @ code) \<le> 1"
      using ok redis_get_mem unfolding accounts_ok_def by blast
    then show False by (simp add: colons_def)
  qed
  show ?thesis
  proof (cases "ac \<notin> {''change_username'', ''change_password'', ''change_email''}")
    case True
    show ?thesis unfolding verify_action_def if_P[OF True] by (simp only: snd_conv keeps_same)
  next
    case False
    show ?thesis unfolding verify_action_def if_not_P[OF False]
      by (rule depends_jwt_keeps)
        (auto simp: Let_def no[simplified] split: option.split blob.split intro!: account_intros)
  qed
qed

lemma account_request_keeps:
  assumes "plain_config a" "accounts_ok a s"
  shows "keeps_accounts a s (snd (account_request x a req s))"
  using assms
  by (cases req)
    (simp_all add: answer_def login_keeps register_keeps request_email_verification_keeps verify_email_keeps
      logout_keeps get_me_keeps get_ws_token_keeps change_username_keeps change_email_keeps
      change_password_keeps verify_action_keeps)

lemma reachable_accounts_ok:
  assumes "accounts_reach x a s" and a: "plain_config a"
  shows "accounts_ok a s"
  using assms(1)
proof induction
  case (reach_start now w)
  then show ?case by (simp add: no_accounts_def accounts_ok_def)
next
  case (reach_request s req)
  then show ?case using account_request_keeps[OF a] unfolding keeps_accounts_def by blast
next
  case (reach_later s d w)
  then show ?case by (simp add: accounts_ok_def)
qed

end
