(* ===== verification/Account_Sessions.thy ===== *)
theory Account_Sessions imports Accounts begin

text \<open>
  What the account routes guarantee over every sequence of requests, and what they do not: the accounts
  and their credentials, the sessions that tokens open, the verification of an address and what it
  pays, and the confirmation of a change. The facts about tokens rest on \<open>jwt_library\<close>, what PyJWT
  promises of a payload it signed; those about keys on \<open>plain_config\<close>, the shape of ids, codes and prefixes.
\<close>

section \<open>Tokens and sessions\<close>

text \<open>What the code relies on of PyJWT: a signed payload reads back until it expires.\<close>

definition jwt_library :: "'tok auth_env \<Rightarrow> bool" where
  "jwt_library a \<longleftrightarrow> (\<forall>now p. ax_decode a now (ax_encode a p) = (if now < jp_exp p then Some p else None))"

lemma token_read_back:
  assumes "jwt_library a"
  shows "ax_decode a later (generate_jwt a now u) \<noteq> None \<longleftrightarrow> later < now + ax_utc_offset a + ax_expiry_secs a"
  using assms by (simp add: jwt_library_def generate_jwt_def)

text \<open>Behind UTC by at least the lifetime, every token has expired when it is made.\<close>

theorem token_born_expired:
  assumes "jwt_library a" and "ax_utc_offset a + ax_expiry_secs a \<le> 0"
  shows "validate_jwt a (generate_jwt a (ac_now s) u) b s = Inl (HTTPException 401)"
proof -
  have "\<not> ac_now s < ac_now s + ax_utc_offset a + ax_expiry_secs a" using assms(2) by linarith
  then have "ax_decode a (ac_now s) (generate_jwt a (ac_now s) u) = None"
    using token_read_back[OF assms(1), of "ac_now s" "ac_now s" u] by blast
  then show ?thesis by (simp add: validate_jwt_def)
qed

lemma find_update_user:
  "(\<And>u. ur_id (f u) = ur_id u) \<Longrightarrow>
     find_user j (update_user i f s) = map_option (\<lambda>u. if ur_id u = i then f u else u) (find_user j s)"
proof -
  assume f: "\<And>u. ur_id (f u) = ur_id u"
  have "find (\<lambda>u. ur_id u = j) (map (\<lambda>u. if ur_id u = i then f u else u) us) =
          map_option (\<lambda>u. if ur_id u = i then f u else u) (find (\<lambda>u. ur_id u = j) us)" for us
    by (induction us) (auto simp: f)
  then show ?thesis by (simp add: find_user_def update_user_def)
qed

lemma now_update_user [simp]: "ac_now (update_user i f s) = ac_now s"
  by (simp add: update_user_def)

lemma find_of_mem: "distinct (map ur_id (ac_users s)) \<Longrightarrow> u \<in> set (ac_users s) \<Longrightarrow> find_user (ur_id u) s = Some u"
proof -
  assume d: "distinct (map ur_id (ac_users s))" and m: "u \<in> set (ac_users s)"
  have "distinct (map ur_id us) \<Longrightarrow> u \<in> set us \<Longrightarrow> find (\<lambda>r. ur_id r = ur_id u) us = Some u" for us
    by (induction us) (auto simp: image_iff)
  then show ?thesis using d m by (simp add: find_user_def)
qed

text \<open>
  C33. No request ever changes the username, the email or the password of an account: whatever is asked of the routes,
  the pages for changing them included, the accounts that exist keep their id, name, address and password hash. (A
  change is stored where the confirmation cannot read it: the names and addresses are dumped twice, and the key of a
  password has a separator less than the key the confirmation looks up.)
\<close>

theorem credentials_never_change:
  assumes "plain_config a" "accounts_reach x a s"
  shows "\<exists>new. map credentials (ac_users (snd (account_request x a req s))) = map credentials (ac_users s) @ new"
  using account_request_keeps[OF assms(1) reachable_accounts_ok[OF assms(2,1)], of x req]
    reachable_accounts_ok[OF assms(2,1)]
  unfolding keeps_accounts_def by blast

text \<open>
  In every state the routes reach, ids, usernames and addresses are unique.
\<close>

theorem accounts_stay_unique:
  assumes "plain_config a" "accounts_reach x a s"
  shows "distinct (map ur_id (ac_users s)) \<and> distinct (map ur_username (ac_users s)) \<and> distinct (map ur_email (ac_users s))"
  using reachable_accounts_ok[OF assms(2,1)] unfolding accounts_ok_def by blast

text \<open>
  C34. A login that succeeds was asked for with the password of an account that matches the name and address given. In the
  state it leaves its token opens a session of that account, and no other token of the account is accepted there. This needs
  a lifetime that is positive after the shift by the server's offset from UTC, and it says nothing about later states: a logout lets
  the replaced tokens in again.
\<close>

theorem login_opens_one_session:
  assumes a: "plain_config a" "jwt_library a" "0 < ax_utc_offset a + ax_expiry_secs a" and r: "accounts_reach x a s"
    and l: "login a username email password s = (Inr token, t)"
  shows "\<exists>p u. validate_jwt a token False t = Inr p \<and> u \<in> set (ac_users s) \<and> ur_id u = jp_sub p
           \<and> (username = None \<or> username = Some (ur_username u)) \<and> (email = None \<or> email = Some (ur_email u))
           \<and> ax_verify a (ur_password u) password
           \<and> (\<forall>other q. validate_jwt a other False t = Inr q \<and> jp_sub q = jp_sub p \<longrightarrow> other = token)"
proof -
  obtain u where u: "find (\<lambda>u. (username = None \<or> username = Some (ur_username u))
          \<and> (email = None \<or> email = Some (ur_email u))) (ac_users s) = Some u"
      and v: "ax_verify a (ur_password u) password" and c: "set_persistant_jwt_cookie a u s = (token, t)"
    using l by (auto simp: login_def split: if_splits option.splits prod.splits)
  have m: "u \<in> set (ac_users s)" "(username = None \<or> username = Some (ur_username u))
          \<and> (email = None \<or> email = Some (ur_email u))"
    using u by (auto simp: find_Some_iff)
  have tok: "token = generate_jwt a (ac_now s) u" and t: "t = update_user (ur_id u) (\<lambda>r. r\<lparr> ur_jwt := Some token \<rparr>) s"
    using c by (auto simp: set_persistant_jwt_cookie_def Let_def)
  have "distinct (map ur_id (ac_users s))" using reachable_accounts_ok[OF r a(1)] unfolding accounts_ok_def by blast
  then have "find_user (ur_id u) s = Some u" using m(1) by (rule find_of_mem)
  then have f: "find_user (ur_id u) t = Some (u\<lparr> ur_jwt := Some token \<rparr>)"
    by (simp add: t find_update_user)
  define p where "p = \<lparr> jp_sub = ur_id u, jp_em = ur_email u, jp_exp = ac_now s + ax_utc_offset a + ax_expiry_secs a,
                   jp_authenticated = (ur_authenticated_at u \<noteq> None) \<rparr>"
  have "ax_decode a (ac_now t) token = Some p"
    using a(2,3) unfolding jwt_library_def tok generate_jwt_def p_def[symmetric] by (simp add: t) (simp add: p_def)
  then have "validate_jwt a token False t = Inr p"
    using f a(3) by (simp add: validate_jwt_def p_def t)
  moreover have "other = token" if "validate_jwt a other False t = Inr q" "jp_sub q = jp_sub p" for other q
    using that f by (auto simp: validate_jwt_def p_def split: option.splits if_splits)
  moreover have "jp_sub p = ur_id u" by (simp add: p_def)
  ultimately show ?thesis using m v by metis
qed

text \<open>
  Logging out ends no session: it succeeds, and every token of the account that has not expired, the one just used and
  those an earlier login replaced alike, is accepted afterwards.
\<close>

theorem logout_leaves_tokens_valid:
  assumes p: "validate_jwt a token True s = Inr p"
    and q: "ax_decode a (ac_now s) other = Some q" "jp_sub q = jp_sub p" "jp_authenticated q" "ac_now s \<le> jp_exp q"
  shows "\<exists>t. logout a (Some token) s = (Inr (), t) \<and> validate_jwt a other True t = Inr q"
proof -
  obtain u where u: "find_user (jp_sub p) s = Some u" using validate_jwt_user[OF p] by blast
  define t where "t = update_user (jp_sub p) (\<lambda>u. u\<lparr> ur_jwt := None \<rparr>) s"
  have "logout a (Some token) s = (Inr (), t)"
    by (simp add: logout_def depends_jwt_def p t_def)
  moreover have "find_user (jp_sub q) t = Some (u\<lparr> ur_jwt := None \<rparr>)"
    using u find_userD[OF u] q(2) by (simp add: t_def find_update_user)
  then have "validate_jwt a other True t = Inr q"
    using q by (simp add: validate_jwt_def t_def)
  ultimately show ?thesis by blast
qed

section \<open>Verifying an address\<close>

definition verify_again ::
    "('m, 'r) env \<Rightarrow> 'tok auth_env \<Rightarrow> 'tok \<Rightarrow> ('tok, 'r, 'tok) handler" where
  "verify_again x a token s =
     verify_email x a (Some token) (next_code a s) (snd (request_email_verification a (Some token) s))"

fun verify_times ::
    "('m, 'r) env \<Rightarrow> 'tok auth_env \<Rightarrow> nat \<Rightarrow> 'tok \<Rightarrow> ('tok, 'r) account_state \<Rightarrow> ('tok \<times> ('tok, 'r) account_state) option" where
  "verify_times x a 0 token s = Some (token, s)"
| "verify_times x a (Suc n) token s =
     (case verify_again x a token s of (Inr token', t) \<Rightarrow> verify_times x a n token' t | _ \<Rightarrow> None)"

text \<open>The session a user can start the verification from: the token is valid and no code is pending.\<close>

definition may_verify :: "('m, 'r) env \<Rightarrow> 'tok auth_env \<Rightarrow> string \<Rightarrow> 'tok \<Rightarrow> ('tok, 'r) account_state \<Rightarrow> bool" where
  "may_verify x a i token s \<longleftrightarrow>
     (\<exists>p. validate_jwt a token False s = Inr p \<and> jp_sub p = i)
     \<and> redis_get (verification_key a i) s = None
     \<and> (\<forall>n \<ge> ac_uuid s. \<not> r_hexists (redis_of x) (ac_wallet s) (get_cash_balance_hkey x i) n)"

lemma redis_get_set [simp]:
  "redis_get k (redis_set k b secs s) = (if 0 < secs then Some b else None)"
  by (simp add: redis_get_def redis_set_def map_of_dict_put)

lemma redis_get_delete [simp]: "redis_get k (redis_delete k s) = None"
  by (simp add: redis_get_def redis_delete_def map_of_dict_pop)

lemma redis_get_drew_code [simp]: "redis_get k (drew_code s) = redis_get k s"
  by (simp add: redis_get_def drew_code_def cong: option.case_cong prod.case_cong)

lemma redis_get_send_email [simp]: "redis_get k (send_email e c s) = redis_get k s"
  by (simp add: redis_get_def send_email_def cong: option.case_cong prod.case_cong)

lemma find_user_other_ops [simp]:
  "find_user i (drew_code s) = find_user i s" "find_user i (send_email e c s) = find_user i s"
  "find_user i (redis_set k b secs s) = find_user i s" "find_user i (redis_delete k s) = find_user i s"
  "find_user i (increase_cash_balance_async x u v c s) = find_user i s"
  by (simp_all add: find_user_def drew_code_def send_email_def redis_set_def redis_delete_def
      increase_cash_balance_async_def)

lemma now_other_ops [simp]:
  "ac_now (drew_code s) = ac_now s" "ac_now (send_email e c s) = ac_now s"
  "ac_now (redis_set k b secs s) = ac_now s" "ac_now (redis_delete k s) = ac_now s"
  "ac_now (increase_cash_balance_async x u v c s) = ac_now s"
  by (simp_all add: drew_code_def send_email_def redis_set_def redis_delete_def increase_cash_balance_async_def)

lemma wallet_other_ops [simp]:
  "ac_wallet (drew_code s) = ac_wallet s" "ac_wallet (send_email e c s) = ac_wallet s"
  "ac_wallet (redis_set k b secs s) = ac_wallet s" "ac_wallet (redis_delete k s) = ac_wallet s"
  "ac_wallet (update_user i f s) = ac_wallet s"
  "ac_uuid (drew_code s) = ac_uuid s" "ac_uuid (send_email e c s) = ac_uuid s"
  "ac_uuid (redis_set k b secs s) = ac_uuid s" "ac_uuid (redis_delete k s) = ac_uuid s"
  "ac_uuid (update_user i f s) = ac_uuid s"
  by (simp_all add: drew_code_def send_email_def redis_set_def redis_delete_def update_user_def)

lemma redis_get_update_user [simp]: "redis_get k (update_user i f s) = redis_get k s"
  by (simp add: redis_get_def update_user_def cong: option.case_cong prod.case_cong)

lemma redis_get_increase [simp]: "redis_get k (increase_cash_balance_async x u v c s) = redis_get k s"
  by (simp add: redis_get_def increase_cash_balance_async_def cong: option.case_cong prod.case_cong)

lemma validate_other_ops [simp]:
  "validate_jwt a token b (drew_code s) = validate_jwt a token b s"
  "validate_jwt a token b (send_email e c s) = validate_jwt a token b s"
  "validate_jwt a token b (redis_set k v secs s) = validate_jwt a token b s"
  "validate_jwt a token b (redis_delete k s) = validate_jwt a token b s"
  by (simp_all add: validate_jwt_def cong: option.case_cong if_cong)

lemma request_then_stored:
  assumes "validate_jwt a token False s = Inr p" "redis_get (verification_key a (jp_sub p)) s = None"
  shows "request_email_verification a (Some token) s =
           (Inr (), send_email (jp_em p) (next_code a s)
              (redis_set (verification_key a (jp_sub p)) (CodeBlob (Some (next_code a s)) 1) verification_expiry_secs
                (redis_delete (verification_key a (jp_sub p)) (drew_code s))))"
  using assms by (simp add: request_email_verification_def depends_jwt_def Let_def max_email_verification_attempts_def)

lemma increase_wallet:
  fixes v :: rat and cmd :: string
  assumes rd: "redis (redis_of x)" and k: "get_cash_balance_key x i \<noteq> get_cash_balance_hkey x i"
    and new: "\<forall>n \<ge> ac_uuid s. \<not> r_hexists (redis_of x) (ac_wallet s) (get_cash_balance_hkey x i) n"
  defines "t \<equiv> increase_cash_balance_async x i v cmd s"
  shows "num_at (redis_of x) (ac_wallet t) (get_cash_balance_key x i)
           = num_at (redis_of x) (ac_wallet s) (get_cash_balance_key x i) + v"
    and "\<forall>n \<ge> ac_uuid t. \<not> r_hexists (redis_of x) (ac_wallet t) (get_cash_balance_hkey x i) n"
  using new k
  by (auto simp: t_def increase_cash_balance_async_def redis.update_is_step[OF rd] redis.num_step[OF rd]
      redis.hexists_step[OF rd])

lemma increase_same:
  assumes "ac_wallet s' = ac_wallet s" "ac_uuid s' = ac_uuid s"
  shows "ac_wallet (increase_cash_balance_async x i v cmd s') = ac_wallet (increase_cash_balance_async x i v cmd s)"
    "ac_uuid (increase_cash_balance_async x i v cmd s') = ac_uuid (increase_cash_balance_async x i v cmd s)"
  using assms by (simp_all add: increase_cash_balance_async_def)

text \<open>What a verification with the right code leaves behind.\<close>

lemma verify_email_effect:
  assumes a: "jwt_library a" "0 < ax_utc_offset a + ax_expiry_secs a" and p: "validate_jwt a token False s = Inr p"
    and code: "redis_get (verification_key a (jp_sub p)) s = Some (CodeBlob (Some code) n)"
    and u: "find_user (jp_sub p) s = Some u"
  shows "\<exists>q t. verify_email x a (Some token) code s = (Inr (ax_encode a q), t)
     \<and> jp_sub q = jp_sub p \<and> jp_authenticated q \<and> validate_jwt a (ax_encode a q) True t = Inr q
     \<and> redis_get (verification_key a (jp_sub p)) t = None \<and> ac_now t = ac_now s
     \<and> find_user (jp_sub p) t = Some (u\<lparr> ur_authenticated_at := Some (ac_now s), ur_jwt := Some (ax_encode a q) \<rparr>)
     \<and> ac_wallet t = ac_wallet (increase_cash_balance_async x (jp_sub p) get_default_cash_balance (ax_new_user_command a) s)
     \<and> ac_uuid t = ac_uuid (increase_cash_balance_async x (jp_sub p) get_default_cash_balance (ax_new_user_command a) s)"
proof -
  define i where "i = jp_sub p"
  define s1 where "s1 = redis_delete (verification_key a i) s"
  define u' where "u' = u\<lparr> ur_authenticated_at := Some (ac_now s) \<rparr>"
  define s2 where "s2 = update_user i (\<lambda>r. r\<lparr> ur_authenticated_at := Some (ac_now s) \<rparr>) s1"
  define q where "q = \<lparr> jp_sub = i, jp_em = ur_email u, jp_exp = ac_now s + ax_utc_offset a + ax_expiry_secs a, jp_authenticated = True \<rparr>"
  define s3 where "s3 = update_user i (\<lambda>r. r\<lparr> ur_jwt := Some (ax_encode a q) \<rparr>) s2"
  define t where "t = increase_cash_balance_async x i get_default_cash_balance (ax_new_user_command a) s3"
  have ui: "ur_id u = i" using find_userD[OF u] by (simp add: i_def)
  have "set_persistant_jwt_cookie a u' s2 = (ax_encode a q, s3)"
    by (simp add: set_persistant_jwt_cookie_def Let_def generate_jwt_def u'_def ui q_def s3_def s2_def s1_def)
  then have run: "verify_email x a (Some token) code s = (Inr (ax_encode a q), t)"
    using p code u ui
    by (simp add: verify_email_def depends_jwt_def Let_def i_def[symmetric] s1_def[symmetric])
      (simp add: s1_def s2_def u'_def t_def)
  have f: "find_user i t = Some (u'\<lparr> ur_jwt := Some (ax_encode a q) \<rparr>)"
    using u ui by (simp add: t_def s3_def s2_def s1_def find_update_user u'_def i_def[symmetric])
  have now: "ac_now t = ac_now s" by (simp add: t_def s3_def s2_def s1_def)
  have "ax_decode a (ac_now s) (ax_encode a q) = Some q"
    using a unfolding jwt_library_def by (simp add: q_def)
  then have "validate_jwt a (ax_encode a q) True t = Inr q"
    using f a(2) by (simp add: validate_jwt_def now) (simp add: q_def)
  moreover have "redis_get (verification_key a i) t = None" by (simp add: t_def s3_def s2_def s1_def)
  moreover have "ac_wallet s3 = ac_wallet s" "ac_uuid s3 = ac_uuid s" by (simp_all add: s3_def s2_def s1_def)
  note increase_same[OF this]
  moreover have "jp_sub q = i" "jp_authenticated q" by (simp_all add: q_def)
  ultimately show ?thesis using run f now unfolding t_def u'_def i_def[symmetric]
    by (intro exI[of _ q] exI[of _ "increase_cash_balance_async x i get_default_cash_balance (ax_new_user_command a) s3"] conjI) simp_all
qed

lemma validate_relax: "validate_jwt a token True s = Inr p \<Longrightarrow> validate_jwt a token False s = Inr p"
  by (auto simp: validate_jwt_def split: option.splits if_splits)

lemma verify_again_pays:
  assumes rd: "redis (redis_of x)" and k: "get_cash_balance_key x i \<noteq> get_cash_balance_hkey x i"
    and a: "jwt_library a" "0 < ax_utc_offset a + ax_expiry_secs a" and m: "may_verify x a i token s"
  shows "\<exists>token' t. verify_again x a token s = (Inr token', t) \<and> may_verify x a i token' t
           \<and> num_at (redis_of x) (ac_wallet t) (get_cash_balance_key x i)
               = num_at (redis_of x) (ac_wallet s) (get_cash_balance_key x i) + get_default_cash_balance"
proof -
  obtain p where p: "validate_jwt a token False s = Inr p" and i: "jp_sub p = i"
    and none: "redis_get (verification_key a (jp_sub p)) s = None"
    and new: "\<forall>n \<ge> ac_uuid s. \<not> r_hexists (redis_of x) (ac_wallet s) (get_cash_balance_hkey x i) n"
    using m by (auto simp: may_verify_def)
  define s1 where "s1 = snd (request_email_verification a (Some token) s)"
  note s1 = s1_def[unfolded request_then_stored[OF p none] snd_conv]
  have same: "ac_wallet s1 = ac_wallet s" "ac_uuid s1 = ac_uuid s" by (simp_all add: s1)
  have "validate_jwt a token False s1 = Inr p" using p by (simp add: s1)
  moreover have "redis_get (verification_key a (jp_sub p)) s1 = Some (CodeBlob (Some (next_code a s)) 1)"
    by (simp add: s1 verification_expiry_secs_def)
  moreover obtain u where "find_user (jp_sub p) s1 = Some u" using validate_jwt_user[OF p] by (auto simp: s1)
  ultimately obtain q t where q: "verify_email x a (Some token) (next_code a s) s1 = (Inr (ax_encode a q), t)" "jp_sub q = jp_sub p"
      "validate_jwt a (ax_encode a q) True t = Inr q" "redis_get (verification_key a (jp_sub p)) t = None"
      and w: "ac_wallet t = ac_wallet (increase_cash_balance_async x (jp_sub p) get_default_cash_balance (ax_new_user_command a) s1)"
        "ac_uuid t = ac_uuid (increase_cash_balance_async x (jp_sub p) get_default_cash_balance (ax_new_user_command a) s1)"
    using verify_email_effect[OF a] by metis
  have "verify_again x a token s = (Inr (ax_encode a q), t)" using q(1) by (simp add: verify_again_def s1_def)
  moreover have "num_at (redis_of x) (ac_wallet t) (get_cash_balance_key x i)
               = num_at (redis_of x) (ac_wallet s) (get_cash_balance_key x i) + get_default_cash_balance"
      "\<forall>n \<ge> ac_uuid t. \<not> r_hexists (redis_of x) (ac_wallet t) (get_cash_balance_hkey x i) n"
    using increase_wallet[OF rd k, of s1 get_default_cash_balance "ax_new_user_command a"] new unfolding w i same by simp_all
  moreover have "validate_jwt a (ax_encode a q) False t = Inr q" using q(3) by (rule validate_relax)
  ultimately show ?thesis using q(2,4) i unfolding may_verify_def by blast
qed

text \<open>
  Verifying an address pays out the initial cash each time: an account that verifies its address n times, asking for a
  new code each time, is paid n times, and nothing refuses it.
\<close>

theorem verification_mints_cash:
  assumes "redis (redis_of x)" "get_cash_balance_key x i \<noteq> get_cash_balance_hkey x i"
    and "jwt_library a" "0 < ax_utc_offset a + ax_expiry_secs a" and "may_verify x a i token s"
  shows "\<exists>token' t. verify_times x a n token s = Some (token', t)
           \<and> num_at (redis_of x) (ac_wallet t) (get_cash_balance_key x i)
               = num_at (redis_of x) (ac_wallet s) (get_cash_balance_key x i) + of_nat n * get_default_cash_balance"
  using assms(5)
proof (induction n arbitrary: token s)
  case 0
  then show ?case by simp
next
  case (Suc n)
  obtain token' t where t: "verify_again x a token s = (Inr token', t)" "may_verify x a i token' t"
    "num_at (redis_of x) (ac_wallet t) (get_cash_balance_key x i)
       = num_at (redis_of x) (ac_wallet s) (get_cash_balance_key x i) + get_default_cash_balance"
    using verify_again_pays[OF assms(1-4) Suc.prems] by blast
  show ?case using Suc.IH[OF t(2)] t(1,3) by (auto simp: algebra_simps)
qed

section \<open>Changing a name\<close>

text \<open>
  Confirming a change of the username with the very code that was mailed raises a TypeError and leaves the table as it was.
\<close>

theorem username_change_raises:
  assumes cfg: "ax_username_prefix a = ''change_username:''"
    and v: "validate_jwt a token True s = Inr p" and c: "change_username a (Some token) new s = (Inr (), t)"
  shows "\<exists>code. last (ac_mail t) = (ur_email (the (find_user (jp_sub p) s)), code)
           \<and> fst (verify_action a (Some token) ''change_username'' code t) = Inl (Uncaught TypeError)
           \<and> ac_users (snd (verify_action a (Some token) ''change_username'' code t)) = ac_users s"
proof -
  obtain u where u: "find_user (jp_sub p) s = Some u" using validate_jwt_user[OF v] by blast
  define prefix where "prefix = ''change_username:'' @ jp_sub p @ '':''"
  define s1 where "s1 = delete_prefix prefix s"
  define code where "code = next_code a s1"
  have t: "t = send_email (ur_email u) code
             (redis_set (prefix @ code) (Quoted (ActionBlob (ur_id u) ''change_username'' new)) verification_expiry_secs
               (drew_code s1))"
    using c v u by (auto simp: change_username_def depends_jwt_def store_change_def Let_def cfg prefix_def s1_def
        code_def split: if_splits)
  have s1: "validate_jwt a token True s1 = validate_jwt a token True s" "ac_users s1 = ac_users s"
    by (simp_all add: s1_def delete_prefix_def validate_jwt_def find_user_def cong: option.case_cong if_cong)
  have key: "prefix @ code = ''change_username'' @ '':'' @ jp_sub p @ '':'' @ code" by (simp add: prefix_def)
  have "redis_get (prefix @ code) t = Some (Quoted (ActionBlob (ur_id u) ''change_username'' new))"
    by (simp add: t verification_expiry_secs_def)
  moreover have "validate_jwt a token True t = Inr p" using v by (simp add: t s1)
  ultimately have "verify_action a (Some token) ''change_username'' code t
                     = (Inl (Uncaught TypeError), redis_delete (prefix @ code) t)"
    by (simp add: verify_action_def depends_jwt_def Let_def key)
  then show ?thesis using u
    by (simp add: t send_email_def redis_delete_def redis_set_def drew_code_def s1(2))
qed

section \<open>From registration to the first authenticated request\<close>

lemma register_effect:
  fixes a :: "'tok auth_env"
  assumes a: "plain_config a" "accounts_ok a s" and reg: "register a username email password s = (Inr token, t)"
  shows "\<exists>p code u. token = ax_encode a p \<and> jp_sub p = ur_id u \<and> \<not> jp_authenticated p \<and> jp_exp p = ac_now s + ax_utc_offset a + ax_expiry_secs a
     \<and> ac_now t = ac_now s \<and> ur_username u = username \<and> ur_jwt u = Some token \<and> find_user (ur_id u) t = Some u
     \<and> redis_get (verification_key a (ur_id u)) t = Some (CodeBlob (Some code) 0)
     \<and> ac_mail t = ac_mail s @ [(email, code)]"
proof -
  define i where "i = ax_user_id a (ac_ids s)"
  define key where "key = verification_key a i"
  define u where "u = \<lparr> ur_id = i, ur_username = username, ur_email = email,
                     ur_password = ax_hash a password, ur_jwt = None :: 'tok option, ur_authenticated_at = None \<rparr>"
  define s1 where "s1 = s\<lparr> ac_users := ac_users s @ [u], ac_ids := Suc (ac_ids s) \<rparr>"
  define code where "code = next_code a s1"
  define s2 where "s2 = send_email email code
     (redis_set key (CodeBlob (Some code) 0) verification_expiry_secs (redis_delete key (drew_code s1)))"
  have step: "(token, t) = set_persistant_jwt_cookie a u s2"
    using reg by (auto simp: register_def Let_def i_def key_def u_def s1_def code_def s2_def
        split: if_splits prod.splits)
  have now: "ac_now s2 = ac_now s" by (simp add: s2_def s1_def)
  define p where "p = \<lparr> jp_sub = i, jp_em = email, jp_exp = ac_now s + ax_utc_offset a + ax_expiry_secs a, jp_authenticated = False \<rparr>"
  have tok: "token = ax_encode a p" and t: "t = update_user i (\<lambda>r. r\<lparr> ur_jwt := Some token \<rparr>) s2"
    using step by (auto simp: set_persistant_jwt_cookie_def Let_def generate_jwt_def u_def p_def now)
  have "find (\<lambda>r. ur_id r = i) (ac_users s) = None" using fresh_user_id[OF a] by (force simp: find_None_iff i_def)
  moreover have "find P (xs @ ys) = (case find P xs of None \<Rightarrow> find P ys | r \<Rightarrow> r)" for P and xs ys :: "'tok user_row list"
    by (induction xs) auto
  ultimately have "find_user i s2 = Some u"
    by (simp add: s2_def) (simp add: find_user_def s1_def u_def)
  then have "find_user i t = Some (u\<lparr> ur_jwt := Some token \<rparr>)" by (simp add: t find_update_user u_def)
  moreover have "redis_get key t = Some (CodeBlob (Some code) 0)" by (simp add: t s2_def verification_expiry_secs_def)
  moreover have "ac_mail t = ac_mail s @ [(email, code)]"
    by (simp add: t update_user_def s2_def send_email_def redis_set_def redis_delete_def drew_code_def s1_def)
  ultimately show ?thesis using tok now t
    by (intro exI[of _ p] exI[of _ code] exI[of _ "u\<lparr> ur_jwt := Some token \<rparr>"]) (simp add: p_def u_def key_def)
qed

text \<open>
  C35. From registration to the first authenticated request: the token of the registration is refused where a verified
  account is asked for; the code mailed to the address is accepted and gives a token with which the account is reached
  under the name that was registered, and which replaces the first token.
\<close>

theorem registration_roundtrip:
  fixes a :: "'tok auth_env"
  assumes a: "plain_config a" "jwt_library a" "0 < ax_utc_offset a + ax_expiry_secs a" and r: "accounts_reach x a s"
    and reg: "register a username email password s = (Inr token, t)"
  shows "\<exists>code token' t' p. ac_mail t = ac_mail s @ [(email, code)]
           \<and> validate_jwt a token True t = Inl (HTTPException 401)
           \<and> verify_email x a (Some token) code t = (Inr token', t')
           \<and> validate_jwt a token' True t' = Inr p \<and> get_me a (Some token') t' = (Inr username, t')
           \<and> validate_jwt a token False t' = Inl (HTTPException 401)"
proof -
  have ok: "accounts_ok a s" using r a(1) by (rule reachable_accounts_ok)
  obtain p code u where p: "token = ax_encode a p" "jp_sub p = ur_id u" "\<not> jp_authenticated p"
      "jp_exp p = ac_now s + ax_utc_offset a + ax_expiry_secs a" and now: "ac_now t = ac_now s"
      and u: "ur_username u = username" "ur_jwt u = Some token" "find_user (ur_id u) t = Some u"
      and mail: "redis_get (verification_key a (ur_id u)) t = Some (CodeBlob (Some code) 0)" "ac_mail t = ac_mail s @ [(email, code)]"
    using register_effect[OF a(1) ok reg] by blast
  have dec: "ax_decode a (ac_now s) token = Some p" using a(2,3) p(4) unfolding jwt_library_def p(1) by simp
  have vt: "validate_jwt a token True t = Inl (HTTPException 401)" "validate_jwt a token False t = Inr p"
    using u dec p a(3) by (simp_all add: validate_jwt_def now)
  obtain q t' where ver: "verify_email x a (Some token) code t = (Inr (ax_encode a q), t')"
      and q: "jp_sub q = ur_id u" "jp_authenticated q" "validate_jwt a (ax_encode a q) True t' = Inr q" and now': "ac_now t' = ac_now s"
      and u': "find_user (ur_id u) t' = Some (u\<lparr> ur_authenticated_at := Some (ac_now t), ur_jwt := Some (ax_encode a q) \<rparr>)"
    using verify_email_effect[OF a(2,3) vt(2), of code 0 u x] mail(1) u(3) now unfolding p(2) by metis
  have "ax_encode a q \<noteq> token"
  proof
    assume "ax_encode a q = token"
    moreover have "ax_decode a (ac_now s) (ax_encode a q) = Some q"
      using q(3) a(2) unfolding jwt_library_def validate_jwt_def now' by (auto split: option.splits if_splits)
    ultimately show False using dec q(2) p(3) by simp
  qed
  then have "validate_jwt a token False t' = Inl (HTTPException 401)"
    using u' dec p(2) by (simp add: validate_jwt_def now')
  moreover have "get_me a (Some (ax_encode a q)) t' = (Inr username, t')"
    using q(1,3) u' u(1) by (simp add: get_me_def depends_jwt_def)
  ultimately show ?thesis using mail(2) vt(1) ver q(3) by blast
qed

section \<open>An example\<close>

text \<open>Tokens are the payloads themselves; ids and codes are strings of one letter.\<close>

definition demo_auth :: "jwt_payload auth_env" where
  "demo_auth = \<lparr> ax_encode = (\<lambda>p. p), ax_decode = (\<lambda>now p. if now < jp_exp p then Some p else None),
     ax_hash = (\<lambda>p. CHR ''#'' # p), ax_verify = (\<lambda>h p. h = CHR ''#'' # p), ax_expiry_secs = 3600, ax_utc_offset = 0,
     ax_code = (\<lambda>n. replicate n CHR ''C''), ax_user_id = (\<lambda>n. replicate (Suc n) CHR ''U''),
     ax_verification_prefix = ''email_verification:'', ax_username_prefix = ''change_username:'',
     ax_email_prefix = ''change_email:'', ax_password_prefix = ''change_password:'', ax_ws_prefix = ''ws_token:'',
     ax_ws_ttl = 10, ax_new_user_command = ''new-user'' \<rparr>"

lemma demo_auth_facts:
  "plain_config demo_auth" "jwt_library demo_auth" "0 < ax_utc_offset demo_auth + ax_expiry_secs demo_auth"
  "ax_username_prefix demo_auth = ''change_username:''"
proof -
  have "count_list (replicate n CHR ''U'') CHR '':'' = 0" "count_list (replicate n CHR ''C'') CHR '':'' = 0" for n
    by (induction n) auto
  moreover have "inj (\<lambda>n. replicate (Suc n) CHR ''U'')" by (rule injI) (metis length_replicate nat.inject)
  ultimately show "plain_config demo_auth" by (simp add: plain_config_def demo_auth_def colons_def del: replicate_Suc)
qed (simp_all add: jwt_library_def demo_auth_def)

definition demo_start :: "(jwt_payload, redis_maps) account_state" where
  "demo_start = no_accounts 0 empty_maps"

definition demo_registered :: "(jwt_payload, redis_maps) account_state" where
  "demo_registered = snd (account_request demo_env demo_auth (Register ''ann'' ''ann@x'' ''pw'') demo_start)"

definition demo_token :: "bool \<Rightarrow> jwt_payload" where
  "demo_token b = \<lparr> jp_sub = ''U'', jp_em = ''ann@x'', jp_exp = 3600, jp_authenticated = b \<rparr>"

definition demo_verified :: "(jwt_payload, redis_maps) account_state" where
  "demo_verified = snd (account_request demo_env demo_auth (VerifyEmail (Some (demo_token False)) []) demo_registered)"

lemma demo_reach:
  "accounts_reach demo_env demo_auth demo_start" "accounts_reach demo_env demo_auth demo_registered"
  "accounts_reach demo_env demo_auth demo_verified"
  unfolding demo_registered_def demo_verified_def demo_start_def by (intro accounts_reach.intros)+

theorem credentials_never_change_witness:
  "let t = snd (account_request demo_env demo_auth (ChangePassword (Some (demo_token True)) ''new'') demo_verified);
       u = snd (account_request demo_env demo_auth (VerifyAction (Some (demo_token True)) ''change_password'' ''C'') t)
   in map credentials (ac_users u) = [(''U'', ''ann'', ''ann@x'', ''#pw'')] \<and> ac_mail t = [(''ann@x'', []), (''ann@x'', ''C'')]"
proof -
  let ?t = "snd (account_request demo_env demo_auth (ChangePassword (Some (demo_token True)) ''new'') demo_verified)"
  let ?u = "snd (account_request demo_env demo_auth (VerifyAction (Some (demo_token True)) ''change_password'' ''C'') ?t)"
  have r: "accounts_reach demo_env demo_auth ?t" by (rule reach_request[OF demo_reach(3)])
  have t: "map credentials (ac_users ?t) = [(''U'', ''ann'', ''ann@x'', ''#pw'')]"
    and n: "length (ac_users ?u) = 1" and m: "ac_mail ?t = [(''ann@x'', []), (''ann@x'', ''C'')]" by code_simp+
  obtain new where u: "map credentials (ac_users ?u) = map credentials (ac_users ?t) @ new"
    using credentials_never_change[OF demo_auth_facts(1) r] by blast
  then have "length (map credentials (ac_users ?u)) = Suc (length new)" by (simp only: t length_append list.size add_0 add_Suc add_Suc_right)
  then have "new = []" using n by (simp only: length_map) simp
  then show ?thesis using u m by (simp only: Let_def t append_Nil2 simp_thms)
qed

theorem accounts_stay_unique_witness: "distinct (map ur_id (ac_users demo_verified)) \<and> length (ac_users demo_verified) = 1"
proof
  show "distinct (map ur_id (ac_users demo_verified))"
    using accounts_stay_unique[OF demo_auth_facts(1) demo_reach(3)] by blast
  show "length (ac_users demo_verified) = 1" by code_simp
qed

theorem login_opens_one_session_witness:
  "\<exists>p. validate_jwt demo_auth (demo_token True) False
          (snd (login demo_auth (Some ''ann'') None ''pw'' demo_verified)) = Inr p \<and> jp_sub p = ''U''"
proof -
  have "login demo_auth (Some ''ann'') None ''pw'' demo_verified
          = (Inr (demo_token True), snd (login demo_auth (Some ''ann'') None ''pw'' demo_verified))" by code_simp
  from login_opens_one_session[OF demo_auth_facts(1-3) demo_reach(3) this]
  obtain p u where p: "validate_jwt demo_auth (demo_token True) False
          (snd (login demo_auth (Some ''ann'') None ''pw'' demo_verified)) = Inr p"
      "u \<in> set (ac_users demo_verified)" "ur_id u = jp_sub p" by blast
  moreover have "map ur_id (ac_users demo_verified) = [''U'']" by code_simp
  ultimately show ?thesis by (cases "ac_users demo_verified") auto
qed

theorem token_born_expired_witness:
  "let a = demo_auth\<lparr> ax_utc_offset := - 18000 \<rparr>; u = hd (ac_users demo_verified)
   in validate_jwt a (generate_jwt a (ac_now demo_verified) u) False demo_verified = Inl (HTTPException 401)"
proof -
  have "jwt_library (demo_auth\<lparr> ax_utc_offset := - 18000 \<rparr>)" by (simp add: jwt_library_def demo_auth_def)
  then show ?thesis
    using token_born_expired[of "demo_auth\<lparr> ax_utc_offset := - 18000 \<rparr>" demo_verified "hd (ac_users demo_verified)" False]
    by (simp add: demo_auth_def Let_def)
qed

theorem logout_leaves_tokens_valid_witness:
  "\<exists>t. logout demo_auth (Some (demo_token True)) demo_verified = (Inr (), t)
         \<and> validate_jwt demo_auth (demo_token True) True t = Inr (demo_token True)"
proof -
  have "validate_jwt demo_auth (demo_token True) True demo_verified = Inr (demo_token True)" by code_simp
  moreover have "ac_now demo_verified = 0" by code_simp
  ultimately show ?thesis
    using logout_leaves_tokens_valid[of demo_auth "demo_token True" demo_verified "demo_token True" "demo_token True" "demo_token True"]
    by (simp add: demo_auth_def demo_token_def)
qed

theorem verification_mints_cash_witness:
  "\<exists>token t. verify_times demo_env demo_auth 3 (demo_token True) demo_verified = Some (token, t)
     \<and> num_at maps_redis (ac_wallet demo_verified) ''CB/U'' = 10000 \<and> num_at maps_redis (ac_wallet t) ''CB/U'' = 40000"
proof -
  have "validate_jwt demo_auth (demo_token True) False demo_verified = Inr (demo_token True)"
    "redis_get (verification_key demo_auth ''U'') demo_verified = None" by code_simp+
  moreover have "ac_uuid demo_verified = 1" "logs (ac_wallet demo_verified) = [((''CBL/U'', 0), 10000)]" by code_simp+
  moreover have key: "get_cash_balance_key demo_env ''U'' = ''CB/U''" "get_cash_balance_hkey demo_env ''U'' = ''CBL/U''"
    by (simp_all add: get_cash_balance_key_def get_cash_balance_hkey_def)
  ultimately have "may_verify demo_env demo_auth ''U'' (demo_token True) demo_verified"
    by (auto simp: may_verify_def maps_redis_def demo_token_def)
  moreover have "redis (redis_of demo_env)" by (simp add: mr.redis_axioms)
  ultimately obtain token t where t: "verify_times demo_env demo_auth 3 (demo_token True) demo_verified = Some (token, t)"
    "num_at maps_redis (ac_wallet t) ''CB/U'' = num_at maps_redis (ac_wallet demo_verified) ''CB/U'' + 3 * get_default_cash_balance"
    using verification_mints_cash[OF _ _ demo_auth_facts(2,3), of demo_env "''U''" "demo_token True" demo_verified 3] key
    by auto
  moreover have "num_at maps_redis (ac_wallet demo_verified) ''CB/U'' = 10000" by code_simp
  ultimately show ?thesis by (auto simp: get_default_cash_balance_def)
qed

theorem username_change_raises_witness:
  "\<exists>t code. change_username demo_auth (Some (demo_token True)) ''bob'' demo_verified = (Inr (), t)
     \<and> fst (verify_action demo_auth (Some (demo_token True)) ''change_username'' code t) = Inl (Uncaught TypeError)"
proof -
  have "validate_jwt demo_auth (demo_token True) True demo_verified = Inr (demo_token True)"
    and c: "fst (change_username demo_auth (Some (demo_token True)) ''bob'' demo_verified) = Inr ()" by code_simp+
  moreover obtain t where "change_username demo_auth (Some (demo_token True)) ''bob'' demo_verified = (Inr (), t)"
    using c by (metis prod.collapse)
  ultimately show ?thesis using username_change_raises[OF demo_auth_facts(4)] by metis
qed

theorem registration_roundtrip_witness:
  "\<exists>code token t p. ac_mail demo_registered = [(''ann@x'', code)]
     \<and> verify_email demo_env demo_auth (Some (demo_token False)) code demo_registered = (Inr token, t)
     \<and> validate_jwt demo_auth token True t = Inr p"
proof -
  have "register demo_auth ''ann'' ''ann@x'' ''pw'' demo_start = (Inr (demo_token False), demo_registered)" by code_simp
  from registration_roundtrip[OF demo_auth_facts(1-3) demo_reach(1) this]
  show ?thesis by (auto simp: demo_start_def no_accounts_def)
qed

end
