(* ===== verification/Cleanup_Queue.thy ===== *)
theory Cleanup_Queue imports Complex_Main begin

text \<open>
  The contract of the clean-up workers of the two connection managers: closing a connection puts its
  key into a queue, and each round of the worker takes the first key and removes it. Whoever keeps the contract gets rid of
  everything that was queued after as many rounds as the queue is long.
\<close>

locale cleanup_queue =
  fixes queue :: "'s \<Rightarrow> 'k list" and present :: "'s \<Rightarrow> 'k set" and work :: "'s \<Rightarrow> 's"
  assumes work_idle: "queue s = [] \<Longrightarrow> work s = s"
    and work_queue: "queue s = k # ks \<Longrightarrow> queue (work s) = ks"
    and work_present: "queue s = k # ks \<Longrightarrow> present (work s) = present s - {k}"
begin

lemma rounds_idle: "queue s = [] \<Longrightarrow> (work ^^ n) s = s"
  by (induction n) (simp_all add: work_idle)

lemma rounds:
  "length (queue s) \<le> n \<Longrightarrow> queue ((work ^^ n) s) = [] \<and> present ((work ^^ n) s) = present s - set (queue s)"
proof (induction "queue s" arbitrary: s n)
  case Nil
  then show ?case by (simp add: rounds_idle)
next
  case (Cons k ks)
  obtain m where n: "n = Suc m" using Cons.prems Cons.hyps(2)[symmetric] by (cases n) auto
  note w = work_queue[OF Cons.hyps(2)[symmetric]] work_present[OF Cons.hyps(2)[symmetric]]
  have "(work ^^ n) s = (work ^^ m) (work s)" by (simp add: n funpow_swap1)
  moreover have "length (queue (work s)) \<le> m" using Cons.prems Cons.hyps(2)[symmetric] w n by simp
  ultimately show ?case using Cons.hyps(1)[OF w(1)[symmetric]] w Cons.hyps(2)[symmetric] by auto
qed

lemma queued_goes: "k \<in> set (queue s) \<Longrightarrow> k \<notin> present ((work ^^ length (queue s)) s)"
  using rounds[of s "length (queue s)"] by blast

end

end
