(* ===== verification/Order_Feed.thy ===== *)
theory Order_Feed imports Account_Sessions Cleanup_Queue begin

text \<open>
  \<open>api/ws/orders\<close>: the WebSocket route that sends a user the events of its own orders and balances,
  its connection manager and its controller.

  A socket is a number. The state holds the manager's connections by user, the queue of users whose
  connection is to be removed, the local variables of every route that was entered (\<open>feed_session\<close>; a route
  that has returned is kept with \<open>ss_open\<close> false), what was sent to the sockets, the sockets the server closed with
  their codes, and the accounts and Redis keys of \<open>Accounts\<close>. The sets of event types are lists without
  repetition. One step is what a coroutine does between two places where it waits for a message:
  sends of the route are taken to succeed, while the outcome of a broadcast is part of its step. The
  items of a JSON list are strings, or values a Python set refuses.
\<close>

section \<open>The state\<close>

datatype json_item = Item string | Unhashable

datatype ws_request = AUTHENTICATE | SUBSCRIBE | UNSUBSCRIBE

datatype ws_out =
    Ack ws_request "(string list \<times> string list) option"
  | Err string
  | Pong
  | Event string

record order_conn =
  oc_socket :: nat
  oc_orders :: "string list"
  oc_balances :: "string list"

record feed_session =
  ss_user :: string
  ss_orders :: "string list"
  ss_balances :: "string list"
  ss_open :: bool

record ('tok, 'r) order_feed =
  of_accounts :: "('tok, 'r) account_state"
  of_conns :: "(string \<times> order_conn) list"
  of_closing :: "string list"
  of_sessions :: "(nat \<times> feed_session) list"
  of_sent :: "(nat \<times> ws_out) list"
  of_closed :: "(nat \<times> nat) list"

definition send_text :: "nat \<Rightarrow> ws_out \<Rightarrow> ('tok, 'r) order_feed \<Rightarrow> ('tok, 'r) order_feed" where
  "send_text w m s = s\<lparr> of_sent := of_sent s @ [(w, m)] \<rparr>"

definition close_socket :: "nat \<Rightarrow> nat \<Rightarrow> ('tok, 'r) order_feed \<Rightarrow> ('tok, 'r) order_feed" where
  "close_socket w code s = s\<lparr> of_closed := of_closed s @ [(w, code)] \<rparr>"

section \<open>The connection manager\<close>

text \<open>The first message of a client, which has to carry a token; nothing when it does not come in time.\<close>

datatype auth_msg = NoJson | NoObject | NoToken | TokenMsg string

datatype auth_failure = Timeout | BadRequest | NotAnObject | TokenRequired | BadToken | BadJwt

definition feed_connect ::
    "'tok auth_env \<Rightarrow> nat \<Rightarrow> auth_msg option \<Rightarrow> ('tok, 'r) order_feed \<Rightarrow> (auth_failure + string) \<times> ('tok, 'r) order_feed" where
  "feed_connect a w first s =
     (case first of
        None \<Rightarrow> (Inl Timeout, s)
      | Some NoJson \<Rightarrow> (Inl BadRequest, s)
      | Some NoObject \<Rightarrow> (Inl NotAnObject, s)
      | Some NoToken \<Rightarrow> (Inl TokenRequired, s)
      | Some (TokenMsg token) \<Rightarrow>
          let key = ax_ws_prefix a @ token;
              s1 = s\<lparr> of_accounts := redis_delete key (of_accounts s) \<rparr>
          in case redis_get key (of_accounts s) of
               None \<Rightarrow> (Inl BadToken, s)
             | Some (TokenBlob jwt) \<Rightarrow>
                 (case validate_jwt a jwt True (of_accounts s1) of
                    Inl e \<Rightarrow> (Inl BadJwt, s1)
                  | Inr p \<Rightarrow>
                      let u = jp_sub p;
                          s2 = (case map_of (of_conns s1) u of
                                  None \<Rightarrow> s1 | Some old \<Rightarrow> close_socket (oc_socket old) 1000 s1)
                      in (Inr u, s2\<lparr> of_conns := dict_put (of_conns s2) u
                                       \<lparr> oc_socket = w, oc_orders = [], oc_balances = [] \<rparr> \<rparr>))
             | Some b \<Rightarrow> (Inl BadJwt, s1))"

definition feed_disconnect :: "string \<Rightarrow> ('tok, 'r) order_feed \<Rightarrow> ('tok, 'r) order_feed" where
  "feed_disconnect u s = s\<lparr> of_closing := of_closing s @ [u] \<rparr>"

text \<open>Adding item after item; what came before a value that cannot be hashed stays added.\<close>

fun add_items :: "json_item list \<Rightarrow> string list \<Rightarrow> (exn + unit) \<times> string list" where
  "add_items [] xs = (Inr (), xs)"
| "add_items (Item i # is) xs = add_items is (List.insert i xs)"
| "add_items (Unhashable # is) xs = (Inl TypeError, xs)"

fun discard_items :: "json_item list \<Rightarrow> string list \<Rightarrow> (exn + unit) \<times> string list" where
  "discard_items [] xs = (Inr (), xs)"
| "discard_items (Item i # is) xs = discard_items is (removeAll i xs)"
| "discard_items (Unhashable # is) xs = (Inl TypeError, xs)"

definition on_conn ::
    "string \<Rightarrow> (order_conn \<Rightarrow> (exn + unit) \<times> order_conn) \<Rightarrow> ('tok, 'r) order_feed \<Rightarrow> (exn + unit) \<times> ('tok, 'r) order_feed" where
  "on_conn u f s =
     (case map_of (of_conns s) u of
        None \<Rightarrow> (Inl ValueError, s)
      | Some c \<Rightarrow> (case f c of (r, c') \<Rightarrow> (r, s\<lparr> of_conns := dict_put (of_conns s) u c' \<rparr>)))"

definition subscribe_order_events ::
    "string \<Rightarrow> json_item list \<Rightarrow> ('tok, 'r) order_feed \<Rightarrow> (exn + unit) \<times> ('tok, 'r) order_feed" where
  "subscribe_order_events u types =
     on_conn u (\<lambda>c. case add_items types (oc_orders c) of (r, xs) \<Rightarrow> (r, c\<lparr> oc_orders := xs \<rparr>))"

definition subscribe_balance_events ::
    "string \<Rightarrow> json_item list \<Rightarrow> ('tok, 'r) order_feed \<Rightarrow> (exn + unit) \<times> ('tok, 'r) order_feed" where
  "subscribe_balance_events u types =
     on_conn u (\<lambda>c. case add_items types (oc_balances c) of (r, xs) \<Rightarrow> (r, c\<lparr> oc_balances := xs \<rparr>))"

definition unsubscribe_order_events ::
    "string \<Rightarrow> json_item list \<Rightarrow> ('tok, 'r) order_feed \<Rightarrow> (exn + unit) \<times> ('tok, 'r) order_feed" where
  "unsubscribe_order_events u types =
     on_conn u (\<lambda>c. case discard_items types (oc_orders c) of (r, xs) \<Rightarrow> (r, c\<lparr> oc_orders := xs \<rparr>))"

definition unsubscribe_balance_events ::
    "string \<Rightarrow> json_item list \<Rightarrow> ('tok, 'r) order_feed \<Rightarrow> (exn + unit) \<times> ('tok, 'r) order_feed" where
  "unsubscribe_balance_events u types =
     on_conn u (\<lambda>c. case discard_items types (oc_balances c) of (r, xs) \<Rightarrow> (r, c\<lparr> oc_balances := xs \<rparr>))"

text \<open>
  One message of the Kafka topics: its text with the event type, when it decodes to an object, and
  the user of its headers. An empty type or user counts as none. The message goes to the connection of that user, and a socket that is gone
  or does not take it is queued for removal.
\<close>

datatype outcome = Sent | SendTimeout | SendError | NotConnected

record feed_msg =
  fm_user :: "string option"
  fm_type :: "string option"
  fm_text :: string

definition send_to_client :: "outcome \<Rightarrow> string \<Rightarrow> order_conn \<Rightarrow> string \<Rightarrow> ('tok, 'r) order_feed \<Rightarrow> ('tok, 'r) order_feed" where
  "send_to_client out u c text s =
     (case out of Sent \<Rightarrow> send_text (oc_socket c) (Event text) s | _ \<Rightarrow> feed_disconnect u s)"

definition feed_listen :: "outcome \<Rightarrow> feed_msg option \<Rightarrow> ('tok, 'r) order_feed \<Rightarrow> ('tok, 'r) order_feed" where
  "feed_listen out msg s =
     (case msg of
        None \<Rightarrow> s
      | Some m \<Rightarrow>
          (case (fm_user m, fm_type m) of
             (Some u, Some ty) \<Rightarrow>
               if u = [] \<or> ty = [] then s
               else (case map_of (of_conns s) u of
                       None \<Rightarrow> s
                     | Some c \<Rightarrow>
                         if ty \<in> set (oc_orders c) \<or> ty \<in> set (oc_balances c)
                         then send_to_client out u c (fm_text m) s else s)
           | _ \<Rightarrow> s))"

definition cleanup_closed :: "('tok, 'r) order_feed \<Rightarrow> ('tok, 'r) order_feed" where
  "cleanup_closed s =
     (case of_closing s of [] \<Rightarrow> s
      | u # us \<Rightarrow> s\<lparr> of_closing := us, of_conns := dict_pop (of_conns s) u \<rparr>)"

section \<open>The controller\<close>

definition item_names :: "json_item list \<Rightarrow> string list" where
  "item_names is = concat (map (\<lambda>i. case i of Item n \<Rightarrow> [n] | Unhashable \<Rightarrow> []) is)"

definition with_session ::
    "nat \<Rightarrow> (feed_session \<Rightarrow> feed_session) \<Rightarrow> ('tok, 'r) order_feed \<Rightarrow> ('tok, 'r) order_feed" where
  "with_session w f s =
     (case map_of (of_sessions s) w of None \<Rightarrow> s | Some e \<Rightarrow> s\<lparr> of_sessions := dict_put (of_sessions s) w (f e) \<rparr>)"

text \<open>
  One of the two halves of a request: nothing unless a non-empty list was given; the manager is asked
  and the route's own record follows; a \<open>ValueError\<close> is answered, any other exception is left to the route.
\<close>

definition half_request ::
    "nat \<Rightarrow> json_item list option \<Rightarrow> (json_item list \<Rightarrow> ('tok, 'r) order_feed \<Rightarrow> (exn + unit) \<times> ('tok, 'r) order_feed) \<Rightarrow>
     (string list \<Rightarrow> feed_session \<Rightarrow> feed_session) \<Rightarrow> ('tok, 'r) order_feed \<Rightarrow> (exn + unit) \<times> ('tok, 'r) order_feed" where
  "half_request w types ask_manager note s =
     (case types of
        None \<Rightarrow> (Inr (), s)
      | Some ts \<Rightarrow>
          if ts = [] then (Inr (), s)
          else (case ask_manager ts s of
                  (Inr _, t) \<Rightarrow> (Inr (), with_session w (note (item_names ts)) t)
                | (Inl ValueError, t) \<Rightarrow> (Inr (), send_text w (Err ''Connection not found'') t)
                | (Inl e, t) \<Rightarrow> (Inl e, t)))"

definition send_ack :: "nat \<Rightarrow> ws_request \<Rightarrow> ('tok, 'r) order_feed \<Rightarrow> ('tok, 'r) order_feed" where
  "send_ack w req s =
     (case map_of (of_sessions s) w of
        None \<Rightarrow> s | Some e \<Rightarrow> send_text w (Ack req (Some (ss_orders e, ss_balances e))) s)"

definition handle_subscribe ::
    "nat \<Rightarrow> string \<Rightarrow> json_item list option \<Rightarrow> json_item list option \<Rightarrow> ('tok, 'r) order_feed \<Rightarrow>
     (exn + unit) \<times> ('tok, 'r) order_feed" where
  "handle_subscribe w u orders balances =
     and_then (half_request w orders (subscribe_order_events u) (\<lambda>ns e. e\<lparr> ss_orders := List.union ns (ss_orders e) \<rparr>)) (\<lambda>_.
     and_then (half_request w balances (subscribe_balance_events u) (\<lambda>ns e. e\<lparr> ss_balances := List.union ns (ss_balances e) \<rparr>)) (\<lambda>_.
     upd (send_ack w SUBSCRIBE)))"

definition handle_unsubscribe ::
    "nat \<Rightarrow> string \<Rightarrow> json_item list option \<Rightarrow> json_item list option \<Rightarrow> ('tok, 'r) order_feed \<Rightarrow>
     (exn + unit) \<times> ('tok, 'r) order_feed" where
  "handle_unsubscribe w u orders balances =
     and_then (half_request w orders (unsubscribe_order_events u)
       (\<lambda>ns e. e\<lparr> ss_orders := filter (\<lambda>n. n \<notin> set ns) (ss_orders e) \<rparr>)) (\<lambda>_.
     and_then (half_request w balances (unsubscribe_balance_events u)
       (\<lambda>ns e. e\<lparr> ss_balances := filter (\<lambda>n. n \<notin> set ns) (ss_balances e) \<rparr>)) (\<lambda>_.
     upd (send_ack w UNSUBSCRIBE)))"

definition cleanup_subscriptions :: "feed_session \<Rightarrow> ('tok, 'r) order_feed \<Rightarrow> (exn + unit) \<times> ('tok, 'r) order_feed" where
  "cleanup_subscriptions e =
     run_all
       [only_if (ss_orders e \<noteq> []) (unsubscribe_order_events (ss_user e) (map Item (ss_orders e))),
        only_if (ss_balances e \<noteq> []) (unsubscribe_balance_events (ss_user e) (map Item (ss_balances e)))]"

section \<open>The route\<close>

datatype ws_frame =
    Ping
  | BadJson
  | NotObject
  | Request "ws_request option" "json_item list option" "json_item list option"

definition feed_open :: "'tok auth_env \<Rightarrow> nat \<Rightarrow> auth_msg option \<Rightarrow> ('tok, 'r) order_feed \<Rightarrow> ('tok, 'r) order_feed" where
  "feed_open a w first s =
     (case feed_connect a w first s of
        (Inl e, t) \<Rightarrow> close_socket w 1008 (send_text w (Err ''Authentication failed'') t)
      | (Inr u, t) \<Rightarrow>
          send_text w (Ack AUTHENTICATE None)
            (t\<lparr> of_sessions := dict_put (of_sessions t) w \<lparr> ss_user = u, ss_orders = [], ss_balances = [], ss_open = True \<rparr> \<rparr>))"

text \<open>The end of a route: an exception in the clean-up leaves the connection with the manager and the socket open.\<close>

definition feed_end :: "nat \<Rightarrow> nat \<Rightarrow> bool \<Rightarrow> ('tok, 'r) order_feed \<Rightarrow> ('tok, 'r) order_feed" where
  "feed_end w code still_open s =
     (case map_of (of_sessions s) w of
        None \<Rightarrow> s
      | Some e \<Rightarrow>
          if \<not> ss_open e then s
          else (case cleanup_subscriptions e (with_session w (\<lambda>e. e\<lparr> ss_open := False \<rparr>) s) of
                  (Inl err, t) \<Rightarrow> t
                | (Inr _, t) \<Rightarrow>
                    let t1 = feed_disconnect (ss_user e) t in if still_open then close_socket w code t1 else t1))"

definition feed_receive :: "nat \<Rightarrow> ws_frame \<Rightarrow> ('tok, 'r) order_feed \<Rightarrow> ('tok, 'r) order_feed" where
  "feed_receive w fr s =
     (case map_of (of_sessions s) w of
        None \<Rightarrow> s
      | Some e \<Rightarrow>
          if \<not> ss_open e then s
          else (case (case fr of
                        Ping \<Rightarrow> (Inr (), send_text w Pong s)
                      | BadJson \<Rightarrow> (Inr (), send_text w (Err ''Invalid JSON format'') s)
                      | NotObject \<Rightarrow> (Inl AttributeError, s)
                      | Request (Some SUBSCRIBE) orders balances \<Rightarrow> handle_subscribe w (ss_user e) orders balances s
                      | Request (Some UNSUBSCRIBE) orders balances \<Rightarrow> handle_unsubscribe w (ss_user e) orders balances s
                      | Request (Some AUTHENTICATE) orders balances \<Rightarrow>
                          (Inr (), send_text w (Err ''Already authenticated'') s)
                      | Request None orders balances \<Rightarrow> (Inr (), s)) of
                  (Inr _, t) \<Rightarrow> t
                | (Inl err, t) \<Rightarrow> feed_end w 1011 True t))"

section \<open>Executions\<close>

datatype 'tok feed_event =
    Opened nat "auth_msg option"
  | Received nat ws_frame
  | Disconnected nat
  | KafkaEvent outcome "feed_msg option"
  | CleanUp

fun feed_step :: "'tok auth_env \<Rightarrow> 'tok feed_event \<Rightarrow> ('tok, 'r) order_feed \<Rightarrow> ('tok, 'r) order_feed" where
  "feed_step a (Opened w first) s = (if map_of (of_sessions s) w = None then feed_open a w first s else s)"
| "feed_step a (Received w fr) s = feed_receive w fr s"
| "feed_step a (Disconnected w) s = feed_end w 1000 False s"
| "feed_step a (KafkaEvent out msg) s = feed_listen out msg s"
| "feed_step a CleanUp s = cleanup_closed s"

text \<open>Between the steps of the feed the rest of the application may change accounts and keys.\<close>

definition new_feed :: "('tok, 'r) account_state \<Rightarrow> ('tok, 'r) order_feed" where
  "new_feed ac = \<lparr> of_accounts = ac, of_conns = [], of_closing = [], of_sessions = [], of_sent = [], of_closed = [] \<rparr>"

inductive feed_reach :: "'tok auth_env \<Rightarrow> ('tok, 'r) order_feed \<Rightarrow> bool" for a where
  feed_start: "feed_reach a (new_feed ac)"
| feed_event: "feed_reach a s \<Longrightarrow> feed_reach a (feed_step a ev s)"
| feed_accounts: "feed_reach a s \<Longrightarrow> feed_reach a (s\<lparr> of_accounts := ac \<rparr>)"

section \<open>Connections belong to sessions\<close>

definition conns_owned :: "('tok, 'r) order_feed \<Rightarrow> bool" where
  "conns_owned s \<longleftrightarrow>
     (\<forall>u c. map_of (of_conns s) u = Some c \<longrightarrow>
        (\<exists>e. map_of (of_sessions s) (oc_socket c) = Some e \<and> ss_user e = u))"

text \<open>What the operations of an open route do to connections, sessions and sent messages.\<close>

definition feed_frame :: "('tok, 'r) order_feed \<Rightarrow> ('tok, 'r) order_feed \<Rightarrow> bool" where
  "feed_frame s t \<longleftrightarrow>
     (\<forall>w. map_option ss_user (map_of (of_sessions t) w) = map_option ss_user (map_of (of_sessions s) w))
     \<and> (\<forall>u. map_option oc_socket (map_of (of_conns t) u) = map_option oc_socket (map_of (of_conns s) u))
     \<and> (\<exists>new. of_sent t = of_sent s @ new \<and> (\<forall>(w, m) \<in> set new. \<forall>x. m \<noteq> Event x))"

interpretation ff: frame feed_frame
proof
  show "feed_frame s s" for s :: "('tok, 'r) order_feed" by (simp add: feed_frame_def)
  show "feed_frame s u" if "feed_frame s t" "feed_frame t u" for s t u :: "('tok, 'r) order_feed"
  proof -
    obtain new new' where "of_sent t = of_sent s @ new" "\<forall>(w, m) \<in> set new. \<forall>x. m \<noteq> Event x"
        "of_sent u = of_sent t @ new'" "\<forall>(w, m) \<in> set new'. \<forall>x. m \<noteq> Event x"
      using \<open>feed_frame s t\<close> \<open>feed_frame t u\<close> by (auto simp: feed_frame_def)
    then have "\<exists>new. of_sent u = of_sent s @ new \<and> (\<forall>(w, m) \<in> set new. \<forall>x. m \<noteq> Event x)"
      by (intro exI[of _ "new @ new'"]) auto
    then show ?thesis using \<open>feed_frame s t\<close> \<open>feed_frame t u\<close> by (simp add: feed_frame_def)
  qed
qed

lemma feed_frame_owned:
  assumes "feed_frame s t" "conns_owned s"
  shows "conns_owned t"
  unfolding conns_owned_def
proof (intro allI impI)
  fix u c assume c: "map_of (of_conns t) u = Some c"
  then obtain c' where c': "map_of (of_conns s) u = Some c'" "oc_socket c' = oc_socket c"
    using assms(1) unfolding feed_frame_def by (metis (no_types, lifting) map_option_eq_Some)
  then obtain e where "map_of (of_sessions s) (oc_socket c) = Some e" "ss_user e = u"
    using assms(2) unfolding conns_owned_def by metis
  then show "\<exists>e. map_of (of_sessions t) (oc_socket c) = Some e \<and> ss_user e = u"
    using assms(1) unfolding feed_frame_def by (metis (no_types, lifting) map_option_eq_Some option.map(2))
qed

lemma frame_send: "(\<And>x. m \<noteq> Event x) \<Longrightarrow> feed_frame s (send_text w m s)"
  by (auto simp: feed_frame_def send_text_def)

lemma frame_close: "feed_frame s (close_socket w code s)"
  by (auto simp: feed_frame_def close_socket_def)

lemma frame_disconnect: "feed_frame s (feed_disconnect u s)"
  by (auto simp: feed_frame_def feed_disconnect_def)

lemma frame_with_session: "(\<And>e. ss_user (f e) = ss_user e) \<Longrightarrow> feed_frame s (with_session w f s)"
  by (auto simp: feed_frame_def with_session_def map_of_dict_put split: option.splits)

lemma frame_send_ack: "feed_frame s (send_ack w req s)"
  by (auto simp: send_ack_def ff.frame_refl intro: frame_send split: option.splits)

lemma stays_on_conn: "(\<And>c. oc_socket (snd (f c)) = oc_socket c) \<Longrightarrow> stays feed_frame (on_conn u f)"
  by (rule staysI)
    (auto simp: feed_frame_def on_conn_def map_of_dict_put split: option.splits prod.splits, metis snd_conv)

lemma stays_manager:
  "stays feed_frame (subscribe_order_events u ts)" "stays feed_frame (subscribe_balance_events u ts)"
  "stays feed_frame (unsubscribe_order_events u ts)" "stays feed_frame (unsubscribe_balance_events u ts)"
  unfolding subscribe_order_events_def subscribe_balance_events_def unsubscribe_order_events_def
    unsubscribe_balance_events_def
  by (rule stays_on_conn, simp split: prod.split)+

lemma stays_half:
  assumes m: "\<And>ts. stays feed_frame (ask_manager ts)" and n: "\<And>ns e. ss_user (note ns e) = ss_user e"
  shows "stays feed_frame (half_request w types ask_manager note)"
proof (rule staysI)
  fix s
  show "feed_frame s (snd (half_request w types ask_manager note s))"
  proof (cases "types = None \<or> types = Some []")
    case True
    then show ?thesis by (auto simp: half_request_def ff.frame_refl)
  next
    case False
    then obtain ts where ts: "types = Some ts" "ts \<noteq> []" by auto
    obtain r t where rt: "ask_manager ts s = (r, t)" by fastforce
    then have st: "feed_frame s t" using m staysD by metis
    show ?thesis
      using st ff.frame_trans[OF st frame_with_session[of "note (item_names ts)"]]
        ff.frame_trans[OF st frame_send] n ts rt
      by (auto simp: half_request_def split: sum.splits exn.splits)
  qed
qed

lemma stays_send_ack: "stays feed_frame (upd (send_ack w req))"
  by (rule staysI) (simp add: upd_def frame_send_ack)

lemma stays_handlers:
  "stays feed_frame (handle_subscribe w u os bs)" "stays feed_frame (handle_unsubscribe w u os bs)"
  "stays feed_frame (cleanup_subscriptions e)"
proof -
  show "stays feed_frame (handle_subscribe w u os bs)"
    unfolding handle_subscribe_def
    by (intro ff.stays_and_then stays_half stays_manager stays_send_ack) simp_all
  show "stays feed_frame (handle_unsubscribe w u os bs)"
    unfolding handle_unsubscribe_def
    by (intro ff.stays_and_then stays_half stays_manager stays_send_ack) simp_all
  show "stays feed_frame (cleanup_subscriptions e)"
    unfolding cleanup_subscriptions_def
    by (intro ff.stays_Cons ff.stays_Nil ff.stays_only_if stays_manager)
qed

lemma frame_feed_end: "feed_frame s (feed_end w code b s)"
proof (cases "map_of (of_sessions s) w")
  case None
  then show ?thesis by (simp add: feed_end_def ff.frame_refl)
next
  case (Some e)
  define s1 where "s1 = with_session w (\<lambda>e. e\<lparr> ss_open := False \<rparr>) s"
  obtain r t where rt: "cleanup_subscriptions e s1 = (r, t)" by fastforce
  have "feed_frame s s1" unfolding s1_def by (rule frame_with_session) simp
  moreover have "feed_frame s1 t" using stays_handlers(3) rt by (rule staysD)
  ultimately have st: "feed_frame s t" by (rule ff.frame_trans)
  have "feed_frame s (close_socket w code (feed_disconnect u t))" for u
    by (rule ff.frame_trans[OF ff.frame_trans[OF st frame_disconnect] frame_close])
  then show ?thesis using Some st ff.frame_trans[OF st frame_disconnect]
    by (auto simp: feed_end_def s1_def[symmetric] rt ff.frame_refl Let_def split: sum.splits)
qed

lemma frame_feed_receive: "feed_frame s (feed_receive w fr s)"
proof -
  have on_end: "feed_frame s (case x of (Inr _, t) \<Rightarrow> t | (Inl err, t) \<Rightarrow> feed_end w 1011 True t)"
    if "feed_frame s (snd x)" for x :: "(exn + unit) \<times> ('a, 'b) order_feed"
    using that ff.frame_trans[OF that frame_feed_end] by (cases x) (auto split: sum.splits)
  have "feed_frame s (snd (handle_subscribe w u os bs s))" "feed_frame s (snd (handle_unsubscribe w u os bs s))" for u os bs
    using stays_handlers unfolding stays_def by blast+
  then show ?thesis
    unfolding feed_receive_def
    by (auto split: option.split ws_frame.split ws_request.split intro!: on_end frame_send frame_feed_end simp: ff.frame_refl)
qed

lemma feed_connect_owned:
  assumes "feed_connect a w first s = (r, t)"
  shows "of_sessions t = of_sessions s" "of_sent t = of_sent s"
    "r = Inl e \<Longrightarrow> of_conns t = of_conns s"
    "r = Inr u \<Longrightarrow> of_conns t = dict_put (of_conns s) u \<lparr> oc_socket = w, oc_orders = [], oc_balances = [] \<rparr>"
  using assms
  by (auto simp: feed_connect_def Let_def close_socket_def split: option.splits auth_msg.splits blob.splits sum.splits)

lemma feed_open_owned:
  assumes "conns_owned s" and new: "map_of (of_sessions s) w = None"
  shows "conns_owned (feed_open a w first s)"
    and "\<exists>m. of_sent (feed_open a w first s) = of_sent s @ [(w, m)] \<and> (\<forall>x. m \<noteq> Event x)"
proof -
  obtain r t where rt: "feed_connect a w first s = (r, t)" by fastforce
  have owned: "conns_owned (feed_open a w first s) \<and>
      (\<exists>m. of_sent (feed_open a w first s) = of_sent s @ [(w, m)] \<and> (\<forall>x. m \<noteq> Event x))"
  proof (cases r)
    case (Inl e)
    then show ?thesis using assms(1) feed_connect_owned[OF rt]
      by (simp add: feed_open_def rt conns_owned_def close_socket_def send_text_def)
  next
    case (Inr u)
    note conns = feed_connect_owned(4)[OF rt Inr]
    have "oc_socket c \<noteq> w" if "map_of (of_conns s) v = Some c" for v c
      using assms(1) that new unfolding conns_owned_def by force
    then show ?thesis using assms(1) feed_connect_owned(1,2)[OF rt] Inr conns
      by (auto simp: feed_open_def rt conns_owned_def send_text_def map_of_dict_put)
  qed
  then show "conns_owned (feed_open a w first s)"
    "\<exists>m. of_sent (feed_open a w first s) = of_sent s @ [(w, m)] \<and> (\<forall>x. m \<noteq> Event x)" by blast+
qed

lemma feed_listen_same:
  "of_conns (feed_listen out msg s) = of_conns s" "of_sessions (feed_listen out msg s) = of_sessions s"
  by (auto simp: feed_listen_def send_to_client_def send_text_def feed_disconnect_def split: option.splits outcome.splits)

lemma feed_step_owned: "conns_owned s \<Longrightarrow> conns_owned (feed_step a ev s)"
proof (cases ev)
  case (KafkaEvent out msg)
  then show "conns_owned s \<Longrightarrow> ?thesis" by (simp add: conns_owned_def feed_listen_same)
next
  case CleanUp
  then show "conns_owned s \<Longrightarrow> ?thesis"
    by (auto simp: conns_owned_def cleanup_closed_def map_of_dict_pop split: list.splits)
qed (auto intro: feed_open_owned feed_frame_owned[OF frame_feed_end] feed_frame_owned[OF frame_feed_receive])

lemma feed_reach_owned: "feed_reach a s \<Longrightarrow> conns_owned s"
proof (induction rule: feed_reach.induct)
  case (feed_start ac)
  then show ?case by (simp add: conns_owned_def new_feed_def)
next
  case (feed_event s ev)
  then show ?case by (simp add: feed_step_owned)
next
  case (feed_accounts s ac)
  then show ?case by (simp add: conns_owned_def)
qed

section \<open>What the feed guarantees\<close>

text \<open>
  C36. Events reach their owner only: whatever step is taken, an order or balance event is sent only when the step is a Kafka
  message of that text, only to a socket whose session was authenticated as the user the message names, and
  only if that user's connection is subscribed to the type of the event.
\<close>

theorem feed_delivers_to_owner:
  assumes "feed_reach a s" and "of_sent (feed_step a ev s) = of_sent s @ new" and "(w, Event x) \<in> set new"
  shows "\<exists>out m e c ty. ev = KafkaEvent out (Some m) \<and> fm_text m = x \<and> fm_user m = Some (ss_user e) \<and> fm_type m = Some ty
           \<and> map_of (of_sessions s) w = Some e \<and> map_of (of_conns s) (ss_user e) = Some c
           \<and> (ty \<in> set (oc_orders c) \<or> ty \<in> set (oc_balances c))"
proof -
  have owned: "conns_owned s" using assms(1) by (rule feed_reach_owned)
  have quiet: False if "feed_frame s (feed_step a ev s)"
    using that assms(2,3) by (auto simp: feed_frame_def)
  show ?thesis
  proof (cases ev)
    case (Opened v first)
    then have "of_sent (feed_step a ev s) = of_sent s \<or>
        (\<exists>m. of_sent (feed_step a ev s) = of_sent s @ [(v, m)] \<and> (\<forall>x. m \<noteq> Event x))"
      using feed_open_owned(2)[OF owned] by (cases "map_of (of_sessions s) v") auto
    then show ?thesis using assms(2,3) by auto
  next
    case (Received v fr)
    then show ?thesis using quiet frame_feed_receive by force
  next
    case (Disconnected v)
    then show ?thesis using quiet frame_feed_end by force
  next
    case (KafkaEvent out msg)
    then obtain m u ty c where "msg = Some m" "fm_user m = Some u" "fm_type m = Some ty"
        "map_of (of_conns s) u = Some c" "ty \<in> set (oc_orders c) \<or> ty \<in> set (oc_balances c)"
        "x = fm_text m" "w = oc_socket c"
      using assms(2,3)
      by (auto simp: feed_listen_def send_to_client_def send_text_def feed_disconnect_def
          split: option.splits if_splits outcome.splits)
    then show ?thesis using owned KafkaEvent unfolding conns_owned_def by blast
  next
    case CleanUp
    then show ?thesis using assms(2,3) by (auto simp: cleanup_closed_def split: list.splits)
  qed
qed

interpretation oq: cleanup_queue of_closing "\<lambda>s. dom (map_of (of_conns s))" cleanup_closed
  by unfold_locales (auto simp: cleanup_closed_def map_of_dict_pop)

lemma cleanup_is_step: "feed_step a CleanUp = cleanup_closed"
  by (rule ext) simp

lemma cleanup_sessions: "of_sessions ((cleanup_closed ^^ n) s) = of_sessions s"
  by (induction n) (auto simp: cleanup_closed_def split: list.splits)

lemma discard_all: "discard_items (map Item ns) xs = (Inr (), filter (\<lambda>x. x \<notin> set ns) xs)"
  by (induction ns arbitrary: xs) (auto simp: removeAll_filter_not_eq intro!: filter_cong)

lemma unsubscribe_ok:
  assumes "map_of (of_conns s) u \<noteq> None"
  shows "\<exists>t. unsubscribe_order_events u (map Item ns) s = (Inr (), t) \<and> map_of (of_conns t) u \<noteq> None \<and> of_closing t = of_closing s"
    and "\<exists>t. unsubscribe_balance_events u (map Item ns) s = (Inr (), t) \<and> map_of (of_conns t) u \<noteq> None \<and> of_closing t = of_closing s"
  using assms
  by (auto simp: unsubscribe_order_events_def unsubscribe_balance_events_def on_conn_def discard_all map_of_dict_put)

lemma feed_end_queues:
  assumes e: "map_of (of_sessions s) w = Some e" "ss_open e" and c: "map_of (of_conns s) (ss_user e) \<noteq> None"
  shows "of_closing (feed_end w code b s) = of_closing s @ [ss_user e]"
proof -
  define s1 where "s1 = with_session w (\<lambda>e. e\<lparr> ss_open := False \<rparr>) s"
  have s1: "map_of (of_conns s1) (ss_user e) \<noteq> None" "of_closing s1 = of_closing s"
    using c by (simp_all add: s1_def with_session_def e)
  obtain t1 where t1: "only_if (ss_orders e \<noteq> []) (unsubscribe_order_events (ss_user e) (map Item (ss_orders e))) s1 = (Inr (), t1)"
      "map_of (of_conns t1) (ss_user e) \<noteq> None" "of_closing t1 = of_closing s"
    using unsubscribe_ok(1)[OF s1(1), of "ss_orders e"] s1 by (cases "ss_orders e = []") (auto simp: only_if_def ret_def)
  obtain t2 where t2: "only_if (ss_balances e \<noteq> []) (unsubscribe_balance_events (ss_user e) (map Item (ss_balances e))) t1 = (Inr (), t2)"
      "of_closing t2 = of_closing s"
    using unsubscribe_ok(2)[OF t1(2), of "ss_balances e"] t1 by (cases "ss_balances e = []") (auto simp: only_if_def ret_def)
  have "\<exists>t. cleanup_subscriptions e s1 = (Inr (), t) \<and> of_closing t = of_closing s"
    using t2(2) unfolding cleanup_subscriptions_def by (simp add: t1(1) t2(1))
  then show ?thesis
    using e by (auto simp: feed_end_def s1_def[symmetric] feed_disconnect_def close_socket_def Let_def)
qed

text \<open>
  A connection that ends is removed: when a client that is registered with the manager disconnects, the user
  is gone from the connections after as many rounds of the clean-up worker as the queue is long, and the queue is then empty.
\<close>

theorem closed_connection_is_removed:
  fixes a :: "'tok auth_env"
  assumes "map_of (of_sessions s) w = Some e" "ss_open e" "map_of (of_conns s) (ss_user e) \<noteq> None"
  defines "t \<equiv> feed_step a (Disconnected w) s"
  shows "map_of (of_conns (((feed_step a CleanUp) ^^ length (of_closing t)) t)) (ss_user e) = None
         \<and> of_closing (((feed_step a CleanUp) ^^ length (of_closing t)) t) = []"
proof -
  have "of_closing t = of_closing s @ [ss_user e]" unfolding t_def by (simp add: feed_end_queues[OF assms(1-3)])
  then have "ss_user e \<in> set (of_closing t)" by simp
  from oq.queued_goes[OF this]
  have "map_of (of_conns ((cleanup_closed ^^ length (of_closing t)) t)) (ss_user e) = None" by (simp add: domIff)
  then show ?thesis using oq.rounds[of t "length (of_closing t)"] unfolding cleanup_is_step by blast
qed

lemma sessions_after_open:
  assumes "feed_connect a v first s = (Inr u, t)"
  shows "of_sessions (feed_open a v first s) = dict_put (of_sessions s) v
           \<lparr> ss_user = u, ss_orders = [], ss_balances = [], ss_open = True \<rparr>"
    and "map_of (of_conns (feed_open a v first s)) u = Some \<lparr> oc_socket = v, oc_orders = [], oc_balances = [] \<rparr>"
  using feed_connect_owned[OF assms] by (simp_all add: feed_open_def assms send_text_def map_of_dict_put)

interpretation sess: frame "\<lambda>s t. of_sessions t = of_sessions s"
  by unfold_locales simp_all

lemma sessions_cleanup: "stays (\<lambda>s t. of_sessions t = of_sessions s) (cleanup_subscriptions e)"
proof -
  have "stays (\<lambda>s t. of_sessions t = of_sessions s) (on_conn u f)" for u f
    by (rule staysI) (auto simp: on_conn_def split: option.splits prod.splits)
  then show ?thesis
    unfolding cleanup_subscriptions_def unsubscribe_order_events_def unsubscribe_balance_events_def
    by (intro sess.stays_Cons sess.stays_Nil sess.stays_only_if)
qed

lemma sessions_feed_end:
  assumes "v \<noteq> w"
  shows "map_of (of_sessions (feed_end w code b s)) v = map_of (of_sessions s) v"
proof (cases "map_of (of_sessions s) w")
  case None
  then show ?thesis by (simp add: feed_end_def)
next
  case (Some e)
  obtain r t where rt: "cleanup_subscriptions e (with_session w (\<lambda>e. e\<lparr> ss_open := False \<rparr>) s) = (r, t)" by fastforce
  then have "of_sessions t = of_sessions (with_session w (\<lambda>e. e\<lparr> ss_open := False \<rparr>) s)"
    by (rule staysD[OF sessions_cleanup])
  then have "map_of (of_sessions t) v = map_of (of_sessions s) v"
    using Some assms by (simp add: with_session_def map_of_dict_put)
  then show ?thesis
    using Some rt by (auto simp: feed_end_def feed_disconnect_def close_socket_def Let_def split: sum.splits)
qed

text \<open>
  Reconnecting loses the feed: when a user opens a second socket while the first is still there, the server closes the
  first; the end of that first route removes the connection of the second. After the clean-up the second socket is still open and
  authenticated, the manager does not know the user any more, no event is sent to it, and its subscriptions are refused.
\<close>

theorem reconnect_loses_feed:
  fixes a :: "'tok auth_env"
  assumes e: "map_of (of_sessions s) w = Some e" "ss_open e" and v: "map_of (of_sessions s) v = None"
    and c: "feed_connect a v first s = (Inr (ss_user e), s')"
  defines "t \<equiv> feed_step a (Disconnected w) (feed_step a (Opened v first) s)"
  defines "z \<equiv> ((feed_step a CleanUp) ^^ length (of_closing t)) t"
  shows "\<exists>e'. map_of (of_sessions z) v = Some e' \<and> ss_open e' \<and> ss_user e' = ss_user e
           \<and> map_of (of_conns z) (ss_user e) = None
           \<and> (\<forall>out m. fm_user m = Some (ss_user e) \<longrightarrow> feed_step a (KafkaEvent out (Some m)) z = z)
           \<and> (\<forall>i. of_sent (feed_step a (Received v (Request (Some SUBSCRIBE) (Some [i]) None)) z)
                 = of_sent z @ [(v, Err ''Connection not found''), (v, Ack SUBSCRIBE (Some ([], [])))])"
proof -
  define s1 where "s1 = feed_step a (Opened v first) s"
  have wv: "w \<noteq> v" using e v by auto
  define f where "f = \<lparr> ss_user = ss_user e, ss_orders = [], ss_balances = [], ss_open = True \<rparr>"
  have s1: "map_of (of_sessions s1) v = Some f" "map_of (of_sessions s1) w = Some e"
      "map_of (of_conns s1) (ss_user e) \<noteq> None"
    using sessions_after_open[OF c] e wv v by (simp_all add: s1_def map_of_dict_put f_def)
  have t: "t = feed_end w 1000 False s1" by (simp add: t_def s1_def)
  have "of_closing t = of_closing s1 @ [ss_user e]" unfolding t by (rule feed_end_queues[OF s1(2) e(2) s1(3)])
  then have none: "map_of (of_conns z) (ss_user e) = None" 
    using oq.queued_goes[of "ss_user e" t] by (simp add: z_def cleanup_is_step domIff)
  have sess: "map_of (of_sessions z) v = Some f"
    using sessions_feed_end[of v w 1000 False s1] wv s1(1) by (simp add: z_def cleanup_is_step cleanup_sessions t)
  have "feed_step a (KafkaEvent out (Some m)) z = z" if "fm_user m = Some (ss_user e)" for out m
    using none that by (auto simp: feed_listen_def split: option.splits)
  moreover have "of_sent (feed_step a (Received v (Request (Some SUBSCRIBE) (Some [i]) None)) z)
                 = of_sent z @ [(v, Err ''Connection not found''), (v, Ack SUBSCRIBE (Some ([], [])))]" for i
    using sess none
    by (simp add: feed_receive_def f_def handle_subscribe_def half_request_def subscribe_order_events_def on_conn_def
        act_simps send_text_def send_ack_def)
  ultimately show ?thesis using sess none by (auto simp: f_def)
qed

text \<open>
  A token for the feed works once: the token a user gets from the account page connects a socket as that user while it lasts,
  and a second connection with it is refused.
\<close>

theorem ws_token_roundtrip:
  assumes "get_ws_token a (Some cookie) ac = (Inr token, ac')" and "0 < ax_ws_ttl a" and "of_accounts s = ac'"
  shows "\<exists>p t. validate_jwt a cookie True ac = Inr p \<and> feed_connect a w (Some (TokenMsg token)) s = (Inr (jp_sub p), t)
           \<and> (\<forall>v. feed_connect a v (Some (TokenMsg token)) t = (Inl BadToken, t))"
proof -
  obtain p u where p: "validate_jwt a cookie True ac = Inr p" and u: "find_user (jp_sub p) ac = Some u" "ur_jwt u \<noteq> None"
      and ac': "token = next_code a ac"
        "ac' = redis_set (ax_ws_prefix a @ token) (TokenBlob (the (ur_jwt u))) (ax_ws_ttl a) (drew_code ac)"
    using assms(1)
    by (auto simp: get_ws_token_def depends_jwt_def Let_def split: option.splits sum.splits)
  have jwt: "ur_jwt u = Some cookie"
    using p u by (auto simp: validate_jwt_def split: option.splits if_splits)
  define key where "key = ax_ws_prefix a @ token"
  define s1 where "s1 = s\<lparr> of_accounts := redis_delete key ac' \<rparr>"
  have get: "redis_get key ac' = Some (TokenBlob cookie)" using assms(2) jwt by (simp add: ac'(2) key_def)
  have val: "validate_jwt a cookie True (redis_delete key ac') = Inr p" using p by (simp add: ac'(2))
  obtain t where t: "feed_connect a w (Some (TokenMsg token)) s = (Inr (jp_sub p), t)" "of_accounts t = redis_delete key ac'"
    using get val
    by (auto simp: feed_connect_def Let_def assms(3) key_def[symmetric] close_socket_def split: option.splits)
  have "feed_connect a v (Some (TokenMsg token)) t = (Inl BadToken, t)" for v
    by (simp add: feed_connect_def Let_def t(2) key_def[symmetric])
  then show ?thesis using p t(1) by blast
qed

section \<open>An example\<close>

definition demo_feed :: "(jwt_payload, redis_maps) order_feed" where
  "demo_feed = new_feed (snd (get_ws_token demo_auth (Some (demo_token True)) demo_verified))"

definition demo_open :: "(jwt_payload, redis_maps) order_feed" where
  "demo_open = feed_step demo_auth (Opened 1 (Some (TokenMsg ''C''))) demo_feed"

definition demo_subscribed :: "(jwt_payload, redis_maps) order_feed" where
  "demo_subscribed = feed_step demo_auth (Received 1 (Request (Some SUBSCRIBE) (Some [Item ''order_filled'']) None)) demo_open"

definition demo_fill :: feed_msg where
  "demo_fill = \<lparr> fm_user = Some ''U'', fm_type = Some ''order_filled'', fm_text = ''filled'' \<rparr>"

lemma demo_feed_reach: "feed_reach demo_auth demo_subscribed"
  unfolding demo_subscribed_def demo_open_def demo_feed_def by (intro feed_reach.intros)

theorem feed_delivers_to_owner_witness:
  "of_sent (feed_step demo_auth (KafkaEvent Sent (Some demo_fill)) demo_subscribed) = of_sent demo_subscribed @ [(1, Event ''filled'')]
   \<and> (\<exists>e. map_of (of_sessions demo_subscribed) 1 = Some e \<and> ss_user e = ''U'')"
proof
  show sent: "of_sent (feed_step demo_auth (KafkaEvent Sent (Some demo_fill)) demo_subscribed)
                = of_sent demo_subscribed @ [(1, Event ''filled'')]" by code_simp
  from feed_delivers_to_owner[OF demo_feed_reach sent]
  show "\<exists>e. map_of (of_sessions demo_subscribed) 1 = Some e \<and> ss_user e = ''U''"
    by (auto simp: demo_fill_def)
qed

lemma demo_session:
  "map_of (of_sessions demo_subscribed) 1 =
     Some \<lparr> ss_user = ''U'', ss_orders = [''order_filled''], ss_balances = [], ss_open = True \<rparr>"
  by code_simp

theorem closed_connection_is_removed_witness:
  "map_of (of_conns demo_subscribed) ''U'' \<noteq> None
   \<and> map_of (of_conns (feed_step demo_auth CleanUp (feed_step demo_auth (Disconnected 1) demo_subscribed))) ''U'' = None"
proof -
  have "map_of (of_conns demo_subscribed) ''U'' \<noteq> None"
    "length (of_closing (feed_step demo_auth (Disconnected 1) demo_subscribed)) = 1" by code_simp+
  then show ?thesis using closed_connection_is_removed[OF demo_session, of demo_auth] by simp
qed

text \<open>A second token, drawn for the same user while the first socket is open.\<close>

definition demo_again :: "(jwt_payload, redis_maps) order_feed" where
  "demo_again = demo_subscribed\<lparr> of_accounts := snd (get_ws_token demo_auth (Some (demo_token True)) (of_accounts demo_subscribed)) \<rparr>"

theorem reconnect_loses_feed_witness:
  "let z = feed_step demo_auth CleanUp (feed_step demo_auth (Disconnected 1) (feed_step demo_auth (Opened 2 (Some (TokenMsg ''CC''))) demo_again))
   in feed_step demo_auth (KafkaEvent Sent (Some demo_fill)) z = z \<and> map_of (of_conns z) ''U'' = None"
proof -
  let ?t = "feed_step demo_auth (Disconnected 1) (feed_step demo_auth (Opened 2 (Some (TokenMsg ''CC''))) demo_again)"
  have e: "map_of (of_sessions demo_again) 1 =
     Some \<lparr> ss_user = ''U'', ss_orders = [''order_filled''], ss_balances = [], ss_open = True \<rparr>" by code_simp
  have v: "map_of (of_sessions demo_again) 2 = None" by code_simp
  have "fst (feed_connect demo_auth 2 (Some (TokenMsg ''CC'')) demo_again) = Inr ''U''" by code_simp
  then have c: "feed_connect demo_auth 2 (Some (TokenMsg ''CC'')) demo_again
      = (Inr (ss_user \<lparr> ss_user = ''U'', ss_orders = [''order_filled''], ss_balances = [], ss_open = True \<rparr>),
         snd (feed_connect demo_auth 2 (Some (TokenMsg ''CC'')) demo_again))"
    by (metis feed_session.select_convs(1) prod.collapse)
  have n: "length (of_closing ?t) = 1" by code_simp
  show ?thesis
    using reconnect_loses_feed[OF e _ v c] unfolding n by (auto simp: demo_fill_def Let_def)
qed

theorem ws_token_roundtrip_witness:
  "\<exists>t. feed_connect demo_auth 1 (Some (TokenMsg ''C'')) demo_feed = (Inr ''U'', t)
       \<and> feed_connect demo_auth 2 (Some (TokenMsg ''C'')) t = (Inl BadToken, t)"
proof -
  have "fst (get_ws_token demo_auth (Some (demo_token True)) demo_verified) = Inr ''C''" by code_simp
  then have g: "get_ws_token demo_auth (Some (demo_token True)) demo_verified = (Inr ''C'', of_accounts demo_feed)"
    by (simp add: demo_feed_def new_feed_def prod_eq_iff)
  have "validate_jwt demo_auth (demo_token True) True demo_verified = Inr (demo_token True)" by code_simp
  then show ?thesis
    using ws_token_roundtrip[OF g _ refl, of 1] by (auto simp: demo_auth_def demo_token_def)
qed

end
