(* ===== verification/Market_Feed.thy ===== *)
theory Market_Feed imports Order_Feed Ohlc_Builder begin

text \<open>
  \<open>api/routers/markets/connection_manager.py\<close> and the WebSocket route of \<open>api/routers/markets/router.py\<close>:
  who is subscribed to the trades, books and bars of an instrument and who receives what, and how
  \<open>api/app.py\<close> wires the manager to Kafka.

  The dictionaries of sets are association lists from a key to the sockets, without repetition; the
  two levels of the bar subscriptions are one dictionary with pairs as keys. A symbol is the JSON value the client sent, and
  a key that cannot be hashed raises. Steps and outcomes of sends are as in \<open>Order_Feed\<close>.
\<close>

section \<open>The state\<close>

datatype bar_sub = BarSub (bs_symbol: "string option") (bs_frames: "string list") | NotABarSub

record market_subs =
  sb_books :: "json_item list"
  sb_trades :: "json_item list"
  sb_bars :: "bar_sub list"

text \<open>The fields of a request; \<open>None\<close> is a value that cannot be iterated over.\<close>

record market_request =
  rq_books :: "json_item list option"
  rq_trades :: "json_item list option"
  rq_bars :: "bar_sub list option"

datatype market_out = MAck market_subs | MErr string | Update string

record market_feed =
  mf_bars :: "((string option \<times> time_frame) \<times> nat list) list"
  mf_trades :: "(string \<times> nat list) list"
  mf_books :: "(string \<times> nat list) list"
  mf_subs :: "(nat \<times> market_subs) list"
  mf_closing :: "nat list"
  mf_sent :: "(nat \<times> market_out) list"

definition new_market_feed :: market_feed where
  "new_market_feed = \<lparr> mf_bars = [], mf_trades = [], mf_books = [], mf_subs = [], mf_closing = [], mf_sent = [] \<rparr>"

definition sockets :: "('k \<times> nat list) list \<Rightarrow> 'k \<Rightarrow> nat list" where
  "sockets d k = (case map_of d k of None \<Rightarrow> [] | Some ws \<Rightarrow> ws)"

definition add_socket :: "nat \<Rightarrow> 'k \<Rightarrow> ('k \<times> nat list) list \<Rightarrow> ('k \<times> nat list) list" where
  "add_socket w k d = dict_put d k (List.insert w (sockets d k))"

definition discard_socket :: "nat \<Rightarrow> ('k \<times> nat list) list \<Rightarrow> ('k \<times> nat list) list" where
  "discard_socket w d = map (\<lambda>(k, ws). (k, removeAll w ws)) d"

section \<open>The manager\<close>

definition no_subs :: market_subs where
  "no_subs = \<lparr> sb_books = [], sb_trades = [], sb_bars = [] \<rparr>"

definition market_connect :: "nat \<Rightarrow> market_feed \<Rightarrow> market_feed" where
  "market_connect w s = s\<lparr> mf_subs := dict_put (mf_subs s) w no_subs \<rparr>"

definition market_disconnect :: "nat \<Rightarrow> market_feed \<Rightarrow> market_feed" where
  "market_disconnect w s = s\<lparr> mf_closing := mf_closing s @ [w] \<rparr>"

definition unsubscribe_all :: "nat \<Rightarrow> market_feed \<Rightarrow> market_feed" where
  "unsubscribe_all w s =
     s\<lparr> mf_bars := discard_socket w (mf_bars s), mf_trades := discard_socket w (mf_trades s),
        mf_books := discard_socket w (mf_books s) \<rparr>"

definition parse_frame :: "string \<Rightarrow> time_frame option" where
  "parse_frame v = find (\<lambda>tf. time_frame_value tf = v) all_frames"

definition add_book :: "nat \<Rightarrow> json_item \<Rightarrow> (market_feed, unit) act" where
  "add_book w i =
     (case i of Unhashable \<Rightarrow> raise TypeError
      | Item sy \<Rightarrow> upd (\<lambda>s. s\<lparr> mf_books := add_socket w sy (mf_books s) \<rparr>))"

definition add_trade :: "nat \<Rightarrow> json_item \<Rightarrow> (market_feed, unit) act" where
  "add_trade w i =
     (case i of Unhashable \<Rightarrow> raise TypeError
      | Item sy \<Rightarrow> upd (\<lambda>s. s\<lparr> mf_trades := add_socket w sy (mf_trades s) \<rparr>))"

definition add_frame :: "nat \<Rightarrow> string option \<Rightarrow> string \<Rightarrow> (market_feed, unit) act" where
  "add_frame w sy v =
     (case parse_frame v of
        None \<Rightarrow> ret ()
      | Some tf \<Rightarrow> upd (\<lambda>s. s\<lparr> mf_bars := add_socket w (sy, tf) (mf_bars s) \<rparr>))"

definition add_bars :: "nat \<Rightarrow> bar_sub \<Rightarrow> (market_feed, unit) act" where
  "add_bars w b =
     (case b of NotABarSub \<Rightarrow> raise AttributeError | BarSub sy frs \<Rightarrow> run_all (map (add_frame w sy) frs))"

definition for_items :: "('a \<Rightarrow> ('s, unit) act) \<Rightarrow> 'a list option \<Rightarrow> ('s, unit) act" where
  "for_items f xs = (case xs of None \<Rightarrow> raise TypeError | Some ys \<Rightarrow> run_all (map f ys))"

definition given :: "'a list option \<Rightarrow> 'a list" where
  "given xs = (case xs of None \<Rightarrow> [] | Some ys \<Rightarrow> ys)"

definition market_subscribe :: "nat \<Rightarrow> market_request \<Rightarrow> (market_feed, unit) act" where
  "market_subscribe w rq =
     run_all
       [upd (unsubscribe_all w),
        for_items (add_book w) (rq_books rq),
        for_items (add_trade w) (rq_trades rq),
        for_items (add_bars w) (rq_bars rq),
        upd (\<lambda>s. s\<lparr> mf_subs := dict_put (mf_subs s) w
                      \<lparr> sb_books = given (rq_books rq), sb_trades = given (rq_trades rq), sb_bars = given (rq_bars rq) \<rparr> \<rparr>)]"

section \<open>Broadcasts\<close>

datatype market_event_type = BAR_UPDATE | NEW_TRADE | ORDERBOOK_SNAPSHOT

record market_msg =
  mm_type :: "market_event_type option"
  mm_symbol :: "string option"
  mm_frame :: "string option"
  mm_text :: string

definition market_send :: "(nat \<Rightarrow> outcome) \<Rightarrow> string \<Rightarrow> nat \<Rightarrow> market_feed \<Rightarrow> market_feed" where
  "market_send out text w s =
     (if out w = Sent then s\<lparr> mf_sent := mf_sent s @ [(w, Update text)] \<rparr> else market_disconnect w s)"

definition broadcast :: "(nat \<Rightarrow> outcome) \<Rightarrow> nat list \<Rightarrow> string \<Rightarrow> market_feed \<Rightarrow> market_feed" where
  "broadcast out ws text s = fold (market_send out text) ws s"

text \<open>The clients a message goes to: an empty symbol or time frame counts as none.\<close>

definition market_clients :: "market_msg \<Rightarrow> market_feed \<Rightarrow> nat list" where
  "market_clients m s =
     (case mm_symbol m of
        None \<Rightarrow> []
      | Some sy \<Rightarrow>
          if sy = [] then []
          else (case mm_type m of
                  None \<Rightarrow> []
                | Some BAR_UPDATE \<Rightarrow>
                    (case mm_frame m of
                       None \<Rightarrow> []
                     | Some v \<Rightarrow> if v = [] then []
                                  else (case parse_frame v of None \<Rightarrow> [] | Some tf \<Rightarrow> sockets (mf_bars s) (Some sy, tf)))
                | Some NEW_TRADE \<Rightarrow> sockets (mf_trades s) sy
                | Some ORDERBOOK_SNAPSHOT \<Rightarrow> sockets (mf_books s) sy))"

definition market_listen :: "(nat \<Rightarrow> outcome) \<Rightarrow> market_msg option \<Rightarrow> market_feed \<Rightarrow> market_feed" where
  "market_listen out msg s =
     (case msg of None \<Rightarrow> s | Some m \<Rightarrow> broadcast out (market_clients m s) (mm_text m) s)"

definition market_cleanup :: "market_feed \<Rightarrow> market_feed" where
  "market_cleanup s =
     (case mf_closing s of
        [] \<Rightarrow> s
      | w # ws \<Rightarrow> (let s1 = unsubscribe_all w (s\<lparr> mf_closing := ws \<rparr>) in s1\<lparr> mf_subs := dict_pop (mf_subs s1) w \<rparr>))"

section \<open>The route\<close>

datatype market_frame = MBadJson | MNotObject | MUnknown | MSubscribe market_request

definition market_receive :: "nat \<Rightarrow> market_frame \<Rightarrow> market_feed \<Rightarrow> market_feed" where
  "market_receive w fr s =
     (let say = (\<lambda>m t. t\<lparr> mf_sent := mf_sent t @ [(w, m)] \<rparr>)
      in case fr of
           MBadJson \<Rightarrow> say (MErr ''Invalid JSON'') s
         | MNotObject \<Rightarrow> say (MErr ''AttributeError'') s
         | MUnknown \<Rightarrow> say (MErr ''Unknown request type'') s
         | MSubscribe rq \<Rightarrow>
             (case market_subscribe w rq s of
                (Inl e, t) \<Rightarrow> say (MErr ''Invalid request'') t
              | (Inr _, t) \<Rightarrow> say (MAck (case map_of (mf_subs t) w of None \<Rightarrow> no_subs | Some b \<Rightarrow> b)) t))"

datatype market_event =
    MOpened nat
  | MReceived nat market_frame
  | MDisconnected nat
  | MKafka "nat \<Rightarrow> outcome" "market_msg option"
  | MCleanUp

fun market_step :: "market_event \<Rightarrow> market_feed \<Rightarrow> market_feed" where
  "market_step (MOpened w) s = market_connect w s"
| "market_step (MReceived w fr) s = market_receive w fr s"
| "market_step (MDisconnected w) s = market_disconnect w s"
| "market_step (MKafka out msg) s = market_listen out msg s"
| "market_step MCleanUp s = market_cleanup s"

text \<open>
  The application: its start-up creates and starts a manager of its own, whose tasks read Kafka and clean up, while the routes
  use the manager of the module, which nothing starts.
\<close>

record market_app =
  ma_routes :: market_feed
  ma_started :: market_feed

fun app_step :: "market_event \<Rightarrow> market_app \<Rightarrow> market_app" where
  "app_step (MKafka out msg) p = p\<lparr> ma_started := market_listen out msg (ma_started p) \<rparr>"
| "app_step MCleanUp p = p\<lparr> ma_started := market_cleanup (ma_started p) \<rparr>"
| "app_step ev p = p\<lparr> ma_routes := market_step ev (ma_routes p) \<rparr>"

definition new_app :: market_app where
  "new_app = \<lparr> ma_routes = new_market_feed, ma_started = new_market_feed \<rparr>"

inductive app_reach :: "market_app \<Rightarrow> bool" where
  app_start: "app_reach new_app"
| app_event: "app_reach p \<Longrightarrow> app_reach (app_step ev p)"

section \<open>Subscriptions decide who receives what\<close>

text \<open>The specification: what the last accepted request of a client asks for.\<close>

definition bar_keys :: "bar_sub list \<Rightarrow> (string option \<times> time_frame) list" where
  "bar_keys bs = concat (map (\<lambda>b. case b of NotABarSub \<Rightarrow> []
     | BarSub sy frs \<Rightarrow> concat (map (\<lambda>v. case parse_frame v of None \<Rightarrow> [] | Some tf \<Rightarrow> [(sy, tf)]) frs)) bs)"

definition subscribed :: "market_msg \<Rightarrow> market_subs \<Rightarrow> bool" where
  "subscribed m b =
     (case (mm_symbol m, mm_type m) of
        (Some sy, Some ty) \<Rightarrow>
          sy \<noteq> [] \<and>
          (case ty of
             NEW_TRADE \<Rightarrow> sy \<in> set (item_names (sb_trades b))
           | ORDERBOOK_SNAPSHOT \<Rightarrow> sy \<in> set (item_names (sb_books b))
           | BAR_UPDATE \<Rightarrow>
               (case mm_frame m of
                  None \<Rightarrow> False
                | Some v \<Rightarrow> v \<noteq> [] \<and> (case parse_frame v of None \<Rightarrow> False | Some tf \<Rightarrow> (Some sy, tf) \<in> set (bar_keys (sb_bars b)))))
      | _ \<Rightarrow> False)"

definition wf_request :: "market_request \<Rightarrow> bool" where
  "wf_request rq \<longleftrightarrow>
     rq_books rq \<noteq> None \<and> rq_trades rq \<noteq> None \<and> rq_bars rq \<noteq> None
     \<and> Unhashable \<notin> set (given (rq_books rq)) \<and> Unhashable \<notin> set (given (rq_trades rq))
     \<and> NotABarSub \<notin> set (given (rq_bars rq))"

text \<open>Executions in which requests have the fields of \<open>SubscribeRequest\<close> and a socket is opened once.\<close>

inductive market_reach :: "market_feed \<Rightarrow> bool" where
  market_start: "market_reach new_market_feed"
| market_event: "market_reach s \<Longrightarrow> (\<And>w rq. ev = MReceived w (MSubscribe rq) \<Longrightarrow> wf_request rq) \<Longrightarrow>
    (\<And>w. ev = MOpened w \<Longrightarrow> map_of (mf_subs s) w = None) \<Longrightarrow> market_reach (market_step ev s)"

text \<open>One of the three dictionaries agrees with the table of subscriptions.\<close>

definition agrees :: "('k \<times> nat list) list \<Rightarrow> (market_subs \<Rightarrow> 'k list) \<Rightarrow> (nat \<times> market_subs) list \<Rightarrow> bool" where
  "agrees d f subs \<longleftrightarrow>
     (\<forall>k. distinct (sockets d k)
        \<and> set (sockets d k) = {w. \<exists>b. map_of subs w = Some b \<and> k \<in> set (f b)})"

definition routing_ok :: "market_feed \<Rightarrow> bool" where
  "routing_ok s \<longleftrightarrow>
     agrees (mf_books s) (\<lambda>b. item_names (sb_books b)) (mf_subs s)
     \<and> agrees (mf_trades s) (\<lambda>b. item_names (sb_trades b)) (mf_subs s)
     \<and> agrees (mf_bars s) (\<lambda>b. bar_keys (sb_bars b)) (mf_subs s)"

lemma sockets_add: "sockets (add_socket w k d) k' = (if k' = k then List.insert w (sockets d k) else sockets d k')"
  by (simp add: sockets_def add_socket_def map_of_dict_put)

lemma sockets_discard: "sockets (discard_socket w d) k = removeAll w (sockets d k)"
proof -
  have "map_of (discard_socket w d) k = map_option (removeAll w) (map_of d k)"
    unfolding discard_socket_def by (induction d) auto
  then show ?thesis by (simp add: sockets_def split: option.splits)
qed

lemma sockets_fold_add:
  "set (sockets (fold (add_socket w) ks d) k) = set (sockets d k) \<union> (if k \<in> set ks then {w} else {})"
  "distinct (sockets d k) \<Longrightarrow> distinct (sockets (fold (add_socket w) ks d) k)"
proof -
  show "set (sockets (fold (add_socket w) ks d) k) = set (sockets d k) \<union> (if k \<in> set ks then {w} else {})"
    by (induction ks arbitrary: d) (auto simp: sockets_add)
  have "distinct (sockets (add_socket w k' d) k)" if "distinct (sockets d k)" for k' d
    using that by (auto simp: sockets_add)
  then show "distinct (sockets d k) \<Longrightarrow> distinct (sockets (fold (add_socket w) ks d) k)"
    by (induction ks arbitrary: d) auto
qed

lemma agrees_discard_add:
  assumes "agrees d f subs" "ks = f b"
  shows "agrees (fold (add_socket w) ks (discard_socket w d)) f (dict_put subs w b)"
  unfolding agrees_def
proof (intro allI conjI)
  fix k
  have d: "distinct (sockets d k)" "set (sockets d k) = {w. \<exists>b. map_of subs w = Some b \<and> k \<in> set (f b)}"
    using assms(1) by (simp_all add: agrees_def)
  show "distinct (sockets (fold (add_socket w) ks (discard_socket w d)) k)"
    by (rule sockets_fold_add(2)) (simp add: sockets_discard distinct_removeAll d(1))
  show "set (sockets (fold (add_socket w) ks (discard_socket w d)) k)
          = {v. \<exists>b'. map_of (dict_put subs w b) v = Some b' \<and> k \<in> set (f b')}"
    by (auto simp: sockets_fold_add(1) sockets_discard d(2) map_of_dict_put assms(2) split: if_splits)
qed

lemma agrees_discard_pop:
  assumes "agrees d f subs"
  shows "agrees (discard_socket w d) f (dict_pop subs w)"
  using assms by (auto simp: agrees_def sockets_discard distinct_removeAll map_of_dict_pop split: if_splits)

lemma agrees_new:
  assumes "agrees d f subs" "f b = []" "map_of subs w = None \<or> (\<exists>b'. map_of subs w = Some b' \<and> f b' = [])"
  shows "agrees d f (dict_put subs w b)"
  using assms by (auto simp: agrees_def map_of_dict_put)

lemma add_books_run:
  "Unhashable \<notin> set is \<Longrightarrow>
     run_all (map (add_book w) is) s = (Inr (), s\<lparr> mf_books := fold (add_socket w) (item_names is) (mf_books s) \<rparr>)"
proof (induction "is" arbitrary: s)
  case (Cons i "is")
  then show ?case by (cases i) (simp_all add: item_names_def add_book_def act_simps)
qed (simp add: item_names_def)

lemma add_trades_run:
  "Unhashable \<notin> set is \<Longrightarrow>
     run_all (map (add_trade w) is) s = (Inr (), s\<lparr> mf_trades := fold (add_socket w) (item_names is) (mf_trades s) \<rparr>)"
proof (induction "is" arbitrary: s)
  case (Cons i "is")
  then show ?case by (cases i) (simp_all add: item_names_def add_trade_def act_simps)
qed (simp add: item_names_def)

lemma add_frames_run:
  "run_all (map (add_frame w sy) frs) s =
     (Inr (), s\<lparr> mf_bars := fold (add_socket w)
                  (concat (map (\<lambda>v. case parse_frame v of None \<Rightarrow> [] | Some tf \<Rightarrow> [(sy, tf)]) frs)) (mf_bars s) \<rparr>)"
  by (induction frs arbitrary: s) (auto simp: add_frame_def act_simps split: option.splits)

lemma add_bars_run:
  "NotABarSub \<notin> set bs \<Longrightarrow>
     run_all (map (add_bars w) bs) s = (Inr (), s\<lparr> mf_bars := fold (add_socket w) (bar_keys bs) (mf_bars s) \<rparr>)"
proof (induction bs arbitrary: s)
  case (Cons b bs)
  then show ?case by (cases b) (simp_all add: bar_keys_def add_bars_def add_frames_run)
qed (simp add: bar_keys_def)

lemma subscribe_run:
  assumes "wf_request rq"
  shows "market_subscribe w rq s =
    (Inr (), s\<lparr> mf_bars := fold (add_socket w) (bar_keys (given (rq_bars rq))) (discard_socket w (mf_bars s)),
                mf_trades := fold (add_socket w) (item_names (given (rq_trades rq))) (discard_socket w (mf_trades s)),
                mf_books := fold (add_socket w) (item_names (given (rq_books rq))) (discard_socket w (mf_books s)),
                mf_subs := dict_put (mf_subs s) w
                  \<lparr> sb_books = given (rq_books rq), sb_trades = given (rq_trades rq), sb_bars = given (rq_bars rq) \<rparr> \<rparr>)"
  using assms
  by (auto simp: wf_request_def market_subscribe_def for_items_def given_def add_books_run add_trades_run add_bars_run
      unsubscribe_all_def upd_def)

lemma broadcast_same:
  "mf_bars (broadcast out ws x s) = mf_bars s \<and> mf_trades (broadcast out ws x s) = mf_trades s
   \<and> mf_books (broadcast out ws x s) = mf_books s \<and> mf_subs (broadcast out ws x s) = mf_subs s"
  unfolding broadcast_def by (induction ws arbitrary: s) (auto simp: market_send_def market_disconnect_def)

lemma routing_step:
  assumes ok: "routing_ok s" and wf: "\<And>w rq. ev = MReceived w (MSubscribe rq) \<Longrightarrow> wf_request rq"
    and fresh: "\<And>w. ev = MOpened w \<Longrightarrow> map_of (mf_subs s) w = None"
  shows "routing_ok (market_step ev s)"
proof (cases ev)
  case (MOpened w)
  then show ?thesis using ok fresh
    by (auto simp: routing_ok_def market_connect_def no_subs_def item_names_def bar_keys_def intro!: agrees_new)
next
  case (MReceived w fr)
  show ?thesis
  proof (cases fr)
    case (MSubscribe rq)
    then have "wf_request rq" using wf MReceived by simp
    then show ?thesis using ok MReceived MSubscribe
      by (auto simp: market_receive_def subscribe_run routing_ok_def intro!: agrees_discard_add)
  qed (use ok MReceived in \<open>simp_all add: market_receive_def routing_ok_def\<close>)
next
  case (MDisconnected w)
  then show ?thesis using ok by (simp add: market_disconnect_def routing_ok_def)
next
  case (MKafka out msg)
  then show ?thesis using ok by (cases msg) (simp_all add: market_listen_def routing_ok_def broadcast_same)
next
  case MCleanUp
  then show ?thesis using ok
    by (auto simp: market_cleanup_def routing_ok_def unsubscribe_all_def Let_def split: list.splits intro!: agrees_discard_pop)
qed

lemma market_reach_routing: "market_reach s \<Longrightarrow> routing_ok s"
proof (induction rule: market_reach.induct)
  case market_start
  then show ?case by (simp add: routing_ok_def new_market_feed_def agrees_def sockets_def)
next
  case (market_event s ev)
  then show ?case by (intro routing_step)
qed

lemma broadcast_all_sent:
  "mf_sent (broadcast (\<lambda>_. Sent) ws x s) = mf_sent s @ map (\<lambda>w. (w, Update x)) ws"
  unfolding broadcast_def by (induction ws arbitrary: s) (auto simp: market_send_def)

lemma clients_of_subs:
  assumes "routing_ok s"
  shows "set (market_clients m s) = {w. \<exists>b. map_of (mf_subs s) w = Some b \<and> subscribed m b}"
  using assms[unfolded routing_ok_def agrees_def]
  by (cases "mm_symbol m"; cases "mm_type m"; cases "the (mm_type m)"; cases "mm_frame m";
      cases "parse_frame (the (mm_frame m))"; simp add: market_clients_def subscribed_def)

text \<open>
  C37. A market message reaches exactly the clients that asked for it: in every state the manager reaches, the sockets a
  message goes to are those whose last request names its symbol (and, for bars, its time frame), each
  once, and when they all take it that is what is sent.
\<close>

theorem market_routing_exact:
  assumes "market_reach s"
  shows "distinct (market_clients m s)
         \<and> set (market_clients m s) = {w. \<exists>b. map_of (mf_subs s) w = Some b \<and> subscribed m b}
         \<and> mf_sent (market_step (MKafka (\<lambda>_. Sent) (Some m)) s)
             = mf_sent s @ map (\<lambda>w. (w, Update (mm_text m))) (market_clients m s)"
proof -
  have "routing_ok s" using assms by (rule market_reach_routing)
  then have "distinct (market_clients m s)"
    by (simp add: routing_ok_def agrees_def market_clients_def split: option.split market_event_type.split)
  moreover note clients_of_subs[OF \<open>routing_ok s\<close>]
  ultimately show ?thesis by (simp add: market_listen_def broadcast_all_sent)
qed

interpretation mq: cleanup_queue mf_closing "\<lambda>s. dom (map_of (mf_subs s))" market_cleanup
  by unfold_locales (auto simp: market_cleanup_def unsubscribe_all_def Let_def map_of_dict_pop)

lemma market_cleanup_routing: "routing_ok s \<Longrightarrow> routing_ok ((market_cleanup ^^ n) s)"
  using routing_step[where ev = MCleanUp] by (induction n) auto

text \<open>
  A client that is gone is forgotten: after a disconnection and as many rounds of the worker as the queue is long, no message of
  any kind goes to its socket.
\<close>

theorem closed_socket_is_forgotten:
  fixes m :: market_msg and w :: nat
  assumes "market_reach s"
  defines "t \<equiv> market_step (MDisconnected w) s"
  shows "w \<notin> set (market_clients m ((market_step MCleanUp ^^ length (mf_closing t)) t))"
proof -
  have step: "market_step MCleanUp = market_cleanup" by (rule ext) simp
  have "routing_ok t" using routing_step[OF market_reach_routing[OF assms(1)], of "MDisconnected w"] by (simp add: t_def)
  then have ok: "routing_ok ((market_cleanup ^^ length (mf_closing t)) t)" by (rule market_cleanup_routing)
  have "w \<in> set (mf_closing t)" by (simp add: t_def market_disconnect_def)
  from mq.queued_goes[OF this] have "map_of (mf_subs ((market_cleanup ^^ length (mf_closing t)) t)) w = None"
    by (simp add: domIff)
  then show ?thesis using clients_of_subs[OF ok, of m] by (simp add: step)
qed

lemma no_clients: "mf_bars s = [] \<Longrightarrow> mf_trades s = [] \<Longrightarrow> mf_books s = [] \<Longrightarrow> market_clients m s = []"
  by (auto simp: market_clients_def sockets_def split: option.splits market_event_type.splits)

interpretation quiet: frame "\<lambda>s t. mf_sent t = mf_sent s"
  by unfold_locales simp_all

lemma subscribe_quiet: "stays (\<lambda>s t. mf_sent t = mf_sent s) (market_subscribe w rq)"
proof -
  have upd: "stays (\<lambda>s t. mf_sent t = mf_sent s) (upd f)" if "\<And>s. mf_sent (f s) = mf_sent s" for f
    using that by (simp add: stays_def upd_def)
  have one: "stays (\<lambda>s t. mf_sent t = mf_sent s) (add_book w i)" "stays (\<lambda>s t. mf_sent t = mf_sent s) (add_trade w i)"
    "stays (\<lambda>s t. mf_sent t = mf_sent s) (add_frame w sy v)" for i sy v
    by (cases i; cases "parse_frame v"; simp add: add_book_def add_trade_def add_frame_def quiet.stays_ret quiet.stays_raise upd)+
  have bars: "stays (\<lambda>s t. mf_sent t = mf_sent s) (add_bars w b)" for b
    by (cases b) (auto simp: add_bars_def quiet.stays_raise intro!: quiet.stays_run_all one)
  have items: "stays (\<lambda>s t. mf_sent t = mf_sent s) (for_items f xs)"
    if "\<And>x. stays (\<lambda>s t. mf_sent t = mf_sent s) (f x)" for f :: "'x \<Rightarrow> (market_feed, unit) act" and xs
    by (cases xs) (auto simp: for_items_def quiet.stays_raise intro!: quiet.stays_run_all that)
  show ?thesis
    unfolding market_subscribe_def
    by (intro quiet.stays_Cons quiet.stays_Nil items one bars upd) (simp_all add: unsubscribe_all_def)
qed

lemma market_step_no_update:
  assumes "\<And>out msg. ev \<noteq> MKafka out msg" "(w, Update x) \<in> set (mf_sent (market_step ev s))"
  shows "(w, Update x) \<in> set (mf_sent s)"
proof -
  have sub: "mf_sent t = mf_sent s" if "market_subscribe v rq s = (r, t)" for v rq r t
    using subscribe_quiet that by (rule staysD)
  show ?thesis
  proof (cases ev)
    case (MReceived v fr)
    then show ?thesis using assms(2)
      by (auto simp: market_receive_def split: market_frame.splits prod.splits sum.splits dest!: sub)
  qed (use assms in \<open>auto simp: market_connect_def market_disconnect_def market_cleanup_def unsubscribe_all_def Let_def
        split: list.splits\<close>)
qed

definition idle_manager :: "market_feed \<Rightarrow> bool" where
  "idle_manager s \<longleftrightarrow> mf_bars s = [] \<and> mf_trades s = [] \<and> mf_books s = [] \<and> mf_sent s = []"

text \<open>
  Market data never reaches a client: in every state of the application, whatever the clients subscribed to and
  whatever was published, no trade, bar or book was sent to any socket.
\<close>

theorem market_feed_is_silent:
  assumes "app_reach p"
  shows "(w, Update x) \<notin> set (mf_sent (ma_routes p)) \<and> (w, Update x) \<notin> set (mf_sent (ma_started p))"
proof -
  have "idle_manager (ma_started p) \<and> (w, Update x) \<notin> set (mf_sent (ma_routes p))"
    using assms
  proof (induction rule: app_reach.induct)
    case app_start
    then show ?case by (simp add: new_app_def new_market_feed_def idle_manager_def)
  next
    case (app_event p ev)
    show ?case
    proof (cases ev)
      case (MKafka out msg)
      then show ?thesis using app_event.IH
        by (auto simp: market_listen_def idle_manager_def no_clients broadcast_def split: option.splits)
    next
      case MCleanUp
      then show ?thesis using app_event.IH
        by (auto simp: market_cleanup_def idle_manager_def unsubscribe_all_def discard_socket_def Let_def split: list.splits)
    qed (use app_event.IH market_step_no_update[of ev] in auto)
  qed
  then show ?thesis by (simp add: idle_manager_def)
qed

section \<open>An example\<close>

definition demo_rq :: market_request where
  "demo_rq = \<lparr> rq_books = Some [], rq_trades = Some [Item ''BTC''], rq_bars = Some [BarSub (Some ''BTC'') [''1m'', ''2m'']] \<rparr>"

definition demo_markets :: market_feed where
  "demo_markets = market_step (MReceived 7 (MSubscribe demo_rq)) (market_step (MOpened 7) new_market_feed)"

definition demo_bar_msg :: market_msg where
  "demo_bar_msg = \<lparr> mm_type = Some BAR_UPDATE, mm_symbol = Some ''BTC'', mm_frame = Some ''1m'', mm_text = ''bar'' \<rparr>"

theorem market_routing_exact_witness:
  "market_clients demo_bar_msg demo_markets = [7]
   \<and> mf_sent (market_step (MKafka (\<lambda>_. Sent) (Some demo_bar_msg)) demo_markets) = mf_sent demo_markets @ [(7, Update ''bar'')]"
proof -
  have "market_reach demo_markets"
    unfolding demo_markets_def
    by (intro market_event market_start) (auto simp: demo_rq_def wf_request_def given_def new_market_feed_def)
  from market_routing_exact[OF this, of demo_bar_msg]
  show ?thesis
  proof -
    have c: "market_clients demo_bar_msg demo_markets = [7]" by code_simp
    with \<open>distinct (market_clients demo_bar_msg demo_markets) \<and> _\<close> show ?thesis by (simp add: demo_bar_msg_def)
  qed
qed

theorem market_feed_is_silent_witness:
  "let p = app_step (MKafka (\<lambda>_. Sent) (Some demo_bar_msg)) (app_step (MReceived 7 (MSubscribe demo_rq)) (app_step (MOpened 7) new_app))
   in market_clients demo_bar_msg (ma_routes p) = [7] \<and> (7, Update ''bar'') \<notin> set (mf_sent (ma_routes p))"
proof -
  let ?p = "app_step (MKafka (\<lambda>_. Sent) (Some demo_bar_msg)) (app_step (MReceived 7 (MSubscribe demo_rq)) (app_step (MOpened 7) new_app))"
  have "app_reach ?p" by (intro app_event app_start)
  moreover have "market_clients demo_bar_msg (ma_routes ?p) = [7]" by code_simp
  ultimately show ?thesis using market_feed_is_silent unfolding Let_def by blast
qed

end
