(* ===== verification/Market_Api.thy ===== *)
theory Market_Api imports Ohlc_Builder Event_Handlers Order_Api Accounts begin

text \<open>
  The routes that read: \<open>api/routers/markets/router.py\<close> (the bars of an instrument in pages, the
  symbols, the statistics of the last day) and \<open>api/routers/users/router.py\<close> (the overview of a user, its events, its asset balances).

  The table of bars is a list of rows; a query filters it and sorts by time. The current time is an
  argument. A page token is what decoding gives: nothing readable, or a start date if it has one. The JSON payload
  of a stored event is not a column of the model, so what the routes read of it is a function of the event.
\<close>

section \<open>Bars\<close>

definition timeframe_lookback :: "time_frame \<Rightarrow> int" where
  "timeframe_lookback tf =
     (case tf of M1 \<Rightarrow> 7 | M5 \<Rightarrow> 14 | M15 \<Rightarrow> 30 | H1 \<Rightarrow> 90 | H4 \<Rightarrow> 180 | D1 \<Rightarrow> 365) * (24 * 60 * 60)"

datatype page_token = Unreadable | StartDate "int option"

definition query_bars :: "ohlc_row list \<Rightarrow> string \<Rightarrow> time_frame \<Rightarrow> int \<Rightarrow> int \<Rightarrow> ohlc_row list" where
  "query_bars rows sy tf lo hi =
     sort_key (\<lambda>r. b_timestamp (row_bar r))
       (filter (\<lambda>r. row_symbol r = sy \<and> row_frame r = time_frame_value tf
                   \<and> lo \<le> b_timestamp (row_bar r) \<and> b_timestamp (row_bar r) \<le> hi) rows)"

definition bar_limit :: nat where
  "bar_limit = 500"

definition get_market_bars ::
    "int \<Rightarrow> ohlc_row list \<Rightarrow> string \<Rightarrow> time_frame \<Rightarrow> int option \<Rightarrow> int option \<Rightarrow> page_token option \<Rightarrow>
     api_error + ohlc_row list \<times> page_token option" where
  "get_market_bars now rows sy tf start_date end_date token =
     (let hi = (case end_date of None \<Rightarrow> now | Some e \<Rightarrow> e);
          earliest = now - timeframe_lookback tf;
          lo = (case start_date of None \<Rightarrow> earliest | Some d \<Rightarrow> d)
      in if now < hi then Inl (HTTPException 400)
         else if lo < earliest then Inl (HTTPException 400)
         else if token = Some Unreadable then Inl (HTTPException 400)
         else let from = (case token of Some (StartDate (Some d)) \<Rightarrow> d | _ \<Rightarrow> lo);
                  bars = take (bar_limit + 1) (query_bars rows sy tf from hi);
                  page = take bar_limit bars
              in Inr (page, if bar_limit < length bars \<and> page \<noteq> []
                            then Some (StartDate (Some (b_timestamp (row_bar (last page)) + 1))) else None))"

text \<open>A client that follows the tokens; the time of each request is given.\<close>

fun follow_pages ::
    "nat \<Rightarrow> (nat \<Rightarrow> int) \<Rightarrow> ohlc_row list \<Rightarrow> string \<Rightarrow> time_frame \<Rightarrow> int \<Rightarrow> page_token option \<Rightarrow> ohlc_row list option" where
  "follow_pages 0 nows rows sy tf hi token = None"
| "follow_pages (Suc n) nows rows sy tf hi token =
     (case get_market_bars (nows n) rows sy tf None (Some hi) token of
        Inl e \<Rightarrow> None
      | Inr (page, None) \<Rightarrow> Some page
      | Inr (page, Some next) \<Rightarrow> map_option ((@) page) (follow_pages n nows rows sy tf hi (Some next)))"

section \<open>Statistics of the last day\<close>

record market_stats =
  ms_change :: rat
  ms_high :: rat
  ms_low :: rat
  ms_volume :: rat
  ms_last :: rat

definition day_seconds :: int where
  "day_seconds = 24 * 60 * 60"

definition day_volume :: "int \<Rightarrow> (order_event_row \<Rightarrow> rat) \<Rightarrow> string \<Rightarrow> order_event_row list \<Rightarrow> rat" where
  "day_volume now executed sy events =
     sum_list (map executed
       (filter (\<lambda>e. oer_symbol e = sy \<and> oer_type e \<in> {''order_filled'', ''order_partially_filled''}
                   \<and> of_int (now - day_seconds) \<le> oer_timestamp e) events))"

definition get_market_stats ::
    "int \<Rightarrow> (order_event_row \<Rightarrow> rat) \<Rightarrow> ohlc_row list \<Rightarrow> order_event_row list \<Rightarrow> string \<Rightarrow> api_error + market_stats" where
  "get_market_stats now executed rows events sy =
     (case map row_bar (query_bars rows sy M1 (now - day_seconds) now) of
        [] \<Rightarrow> Inl (HTTPException 404)
      | b # bs \<Rightarrow>
          let opening = b_open b; closing = b_close (last (b # bs));
              change = (if 0 < opening then (closing - opening) / opening * 100 else 0)
          in Inr \<lparr> ms_change = round2 change,
                   ms_high = fold max (map b_high bs) (b_high b),
                   ms_low = fold min (map b_low bs) (b_low b),
                   ms_volume = day_volume now executed sy events, ms_last = closing \<rparr>)"

section \<open>The pages of a user\<close>

definition asset_rows :: "database \<Rightarrow> string \<Rightarrow> (asset_balance_row \<times> string) list" where
  "asset_rows db u =
     concat (map (\<lambda>((i, v), ab). if v = u then map (\<lambda>r. (ab, ir_symbol r)) (filter (\<lambda>r. ir_id r = i) (db_instruments db)) else [])
              (db_assets db))"

text \<open>The newest event of a type in the list; of two with the same time the one stored first.\<close>

definition last_fill :: "database \<Rightarrow> string \<Rightarrow> order_event_row option" where
  "last_fill db sy =
     (case sort_key (\<lambda>e. - oer_timestamp e)
             (filter (\<lambda>e. oer_symbol e = sy \<and> oer_type e \<in> {''partially_filled'', ''filled''}) (db_order_events db)) of
        [] \<Rightarrow> None | e # es \<Rightarrow> Some e)"

definition portfolio_balance :: "(order_event_row \<Rightarrow> rat) \<Rightarrow> database \<Rightarrow> string \<Rightarrow> rat" where
  "portfolio_balance price db u =
     sum_list (map (\<lambda>(ab, sy). if ab_balance ab \<le> 0 then 0
                               else case last_fill db sy of None \<Rightarrow> 0 | Some e \<Rightarrow> ab_balance ab * price e)
                (asset_rows db u))"

record user_overview =
  uo_cash :: rat
  uo_escrow :: rat
  uo_portfolio :: rat

text \<open>Reading a number of the wallet that is not there sets its default.\<close>

definition wallet_get_or_set :: "('m, 'r) env \<Rightarrow> string \<Rightarrow> rat \<Rightarrow> 'r \<Rightarrow> rat \<times> 'r" where
  "wallet_get_or_set x key dflt r =
     (case r_get (redis_of x) r key of None \<Rightarrow> (dflt, r_set (redis_of x) r key dflt) | Some v \<Rightarrow> (v, r))"

definition get_user_overview ::
    "('m, 'r) env \<Rightarrow> (order_event_row \<Rightarrow> rat) \<Rightarrow> database \<Rightarrow> string \<Rightarrow> 'r \<Rightarrow> user_overview \<times> 'r" where
  "get_user_overview x price db u r =
     (case wallet_get_or_set x (get_cash_balance_key x u) get_default_cash_balance r of
        (cash, r1) \<Rightarrow>
          (case wallet_get_or_set x (get_cash_escrow_key x u) 0 r1 of
             (escrow, r2) \<Rightarrow>
               (\<lparr> uo_cash = cash, uo_escrow = escrow, uo_portfolio = portfolio_balance price db u \<rparr>, r2)))"

text \<open>\<open>get_user_events\<close>: newest first, an offset and a limit; an empty symbol counts as none.\<close>

definition event_page :: "nat \<Rightarrow> nat \<Rightarrow> 'e list \<Rightarrow> 'e page" where
  "event_page skip limit rows =
     (let events = take (limit + 1) (drop skip rows); data = take limit events
      in \<lparr> pg_page = skip div limit + 1, pg_size = length data, pg_has_next = limit < length events, pg_data = data \<rparr>)"

definition user_order_events :: "database \<Rightarrow> string \<Rightarrow> string option \<Rightarrow> order_event_row list" where
  "user_order_events db u sy =
     sort_key (\<lambda>e. - oer_timestamp e)
       (filter (\<lambda>e. oer_user_id e = u \<and> (sy = None \<or> sy = Some [] \<or> sy = Some (oer_symbol e))) (db_order_events db))"

definition user_balance_events :: "database \<Rightarrow> string \<Rightarrow> string option \<Rightarrow> balance_event_row list" where
  "user_balance_events db u sy =
     sort_key (\<lambda>e. - ber_timestamp e)
       (filter (\<lambda>e. ber_user_id e = u \<and> (sy = None \<or> sy = Some [] \<or> sy = ber_symbol e)) (db_balance_events db))"

definition get_user_events ::
    "database \<Rightarrow> string \<Rightarrow> bool \<Rightarrow> string option \<Rightarrow> nat \<Rightarrow> nat \<Rightarrow> api_error + (order_event_row page + balance_event_row page)" where
  "get_user_events db u orders sy skip limit =
     (if limit < 1 \<or> 100 < limit then Inl (HTTPException 422)
      else Inr (if orders then Inl (event_page skip limit (user_order_events db u sy))
                else Inr (event_page skip limit (user_balance_events db u sy))))"

definition get_asset_balances :: "database \<Rightarrow> string \<Rightarrow> string list \<Rightarrow> (string \<times> rat \<times> rat) list" where
  "get_asset_balances db u symbols =
     map (\<lambda>(ab, sy). (sy, ab_balance ab, ab_escrow ab))
       (filter (\<lambda>(ab, sy). symbols = [] \<or> sy \<in> set symbols) (asset_rows db u))"

section \<open>Following the pages\<close>

abbreviation row_time :: "ohlc_row \<Rightarrow> int" where
  "row_time r \<equiv> b_timestamp (row_bar r)"

definition bars_distinct :: "ohlc_row list \<Rightarrow> string \<Rightarrow> time_frame \<Rightarrow> bool" where
  "bars_distinct rows sy tf \<longleftrightarrow>
     distinct (map row_time (filter (\<lambda>r. row_symbol r = sy \<and> row_frame r = time_frame_value tf) rows))"

lemma query_bars_strict:
  assumes "bars_distinct rows sy tf"
  shows "sorted_wrt (<) (map row_time (query_bars rows sy tf lo hi))"
proof -
  have "distinct (map row_time (filter P (filter Q rows)))" if "distinct (map row_time (filter Q rows))" for P Q
    using that by (rule distinct_map_filter)
  from this[of "\<lambda>r. row_symbol r = sy \<and> row_frame r = time_frame_value tf" "\<lambda>r. lo \<le> row_time r \<and> row_time r \<le> hi"]
  have "distinct (map row_time (filter (\<lambda>r. row_symbol r = sy \<and> row_frame r = time_frame_value tf
                   \<and> lo \<le> row_time r \<and> row_time r \<le> hi) rows))"
    using assms by (simp add: bars_distinct_def conj_assoc conj_commute)
  then have "distinct (map row_time (query_bars rows sy tf lo hi))"
    by (simp add: query_bars_def distinct_map)
  then show ?thesis by (simp add: strict_sorted_iff query_bars_def)
qed

lemma query_bars_from:
  assumes "lo \<le> lo'"
  shows "query_bars rows sy tf lo' hi = filter (\<lambda>r. lo' \<le> row_time r) (query_bars rows sy tf lo hi)"
  unfolding query_bars_def filter_sort filter_filter using assms by (metis (mono_tags, lifting) order_trans)

lemma strict_drop:
  assumes "sorted_wrt (<) (map row_time l)" "0 < k" "k < length l"
  shows "filter (\<lambda>r. row_time (last (take k l)) + 1 \<le> row_time r) l = drop k l"
proof -
  let ?r = "last (take k l)"
  have last: "?r = l ! (k - 1)"
    using assms(2,3) by (subst last_conv_nth) auto
  have less: "row_time (l ! i) < row_time (l ! j)" if "i < j" "j < length l" for i j
    using sorted_wrt_nth_less[OF assms(1) that(1)] that by simp
  have "\<not> row_time ?r + 1 \<le> row_time r" if r: "r \<in> set (take k l)" for r
  proof -
    obtain i where "i < k" "r = l ! i" using r assms(3) by (auto simp: in_set_conv_nth)
    then show ?thesis using less[of i "k - 1"] assms(2,3) last by (cases "i = k - 1") (auto, linarith)
  qed
  moreover have "row_time ?r + 1 \<le> row_time r" if r: "r \<in> set (drop k l)" for r
  proof -
    obtain i where "i < length l - k" "r = l ! (k + i)" using r by (auto simp: in_set_conv_nth)
    then show ?thesis using less[of "k - 1" "k + i"] assms(2) last by (simp, linarith)
  qed
  ultimately have "filter (\<lambda>r. row_time ?r + 1 \<le> row_time r) (take k l @ drop k l) = drop k l"
    by (simp only: filter_append) (simp add: filter_empty_conv filter_id_conv)
  then show ?thesis by simp
qed

lemma page_of_query:
  assumes d: "bars_distinct rows sy tf" and hi: "hi \<le> now"
    and lo: "lo = (case token of Some (StartDate (Some d)) \<Rightarrow> d | _ \<Rightarrow> now - timeframe_lookback tf)" and t: "token \<noteq> Some Unreadable"
  shows "get_market_bars now rows sy tf None (Some hi) token =
           (if bar_limit < length (query_bars rows sy tf lo hi)
            then Inr (take bar_limit (query_bars rows sy tf lo hi),
                      Some (StartDate (Some (row_time (last (take bar_limit (query_bars rows sy tf lo hi))) + 1))))
            else Inr (query_bars rows sy tf lo hi, None))"
proof -
  have "0 < bar_limit" by (simp add: bar_limit_def)
  then show ?thesis using hi t unfolding lo get_market_bars_def Let_def
    by (auto simp: min_def split: option.splits page_token.splits)
qed

lemma follow_from:
  assumes d: "bars_distinct rows sy tf" and hi: "\<forall>k. hi \<le> nows k"
  shows "length (query_bars rows sy tf lo hi) < n \<Longrightarrow>
     follow_pages n nows rows sy tf hi (Some (StartDate (Some lo))) = Some (query_bars rows sy tf lo hi)"
proof (induction n arbitrary: lo)
  case (Suc n)
  let ?q = "query_bars rows sy tf lo hi"
  have pos: "0 < bar_limit" by (simp add: bar_limit_def)
  show ?case
  proof (cases "bar_limit < length ?q")
    case False
    then show ?thesis using page_of_query[OF d, of hi "nows n" lo] hi by simp
  next
    case True
    let ?lo = "row_time (last (take bar_limit ?q)) + 1"
    have "last (take bar_limit ?q) \<in> set ?q"
      using True pos by (metis in_set_takeD last_in_set length_greater_0_conv order_less_trans take_eq_Nil less_numeral_extra(3))
    then have "lo \<le> ?lo" by (auto simp: query_bars_def)
    then have rest: "query_bars rows sy tf ?lo hi = drop bar_limit ?q"
      using query_bars_from[of lo ?lo] strict_drop[OF query_bars_strict[OF d] pos True] by simp
    moreover have "length (drop bar_limit ?q) < n" using Suc.prems True pos by simp
    ultimately have "follow_pages n nows rows sy tf hi (Some (StartDate (Some ?lo))) = Some (drop bar_limit ?q)"
      using Suc.IH[of ?lo] by simp
    then show ?thesis using True page_of_query[OF d, of hi "nows n" lo "Some (StartDate (Some lo))"] hi by simp
  qed
qed simp

text \<open>
  C38. Following the page tokens yields every bar once: a client that asks for the bars up to a date and follows the tokens
  gets an answer without a token after finitely many requests, and the pages together are all bars of the instrument and time
  frame in the period, in the order of time. (Bars of one instrument and frame have different times.)
\<close>

theorem bar_pages_complete:
  assumes "bars_distinct rows sy tf" and "\<forall>k. hi \<le> nows k" and "length rows < n"
  shows "follow_pages (Suc n) nows rows sy tf hi None
           = Some (query_bars rows sy tf (nows n - timeframe_lookback tf) hi)"
proof -
  let ?lo = "nows n - timeframe_lookback tf"
  let ?q = "query_bars rows sy tf ?lo hi"
  have len: "length ?q < n" using assms(3) unfolding query_bars_def length_sort by (meson le_less_trans length_filter_le)
  have page: "get_market_bars (nows n) rows sy tf None (Some hi) None
                = get_market_bars (nows n) rows sy tf None (Some hi) (Some (StartDate (Some ?lo)))"
    using page_of_query[OF assms(1), of hi "nows n" ?lo] assms(2) by simp
  have "follow_pages (Suc n) nows rows sy tf hi (Some (StartDate (Some ?lo))) = Some ?q"
    using follow_from[OF assms(1,2), of ?lo "Suc n"] len by simp
  then show ?thesis by (simp add: page)
qed

text \<open>The start date of a token is not held against the look-back window.\<close>

lemma page_token_skips_lookback:
  assumes "hi \<le> now" "query_bars rows sy tf d hi = r # rs"
  shows "\<exists>page next. get_market_bars now rows sy tf None (Some hi) (Some (StartDate (Some d))) = Inr (r # page, next)"
  using assms by (auto simp: get_market_bars_def Let_def bar_limit_def take_Cons')

section \<open>Statistics\<close>

definition bar_fits :: "bar \<Rightarrow> bool" where
  "bar_fits b \<longleftrightarrow> b_low b \<le> b_open b \<and> b_low b \<le> b_close b \<and> b_open b \<le> b_high b \<and> b_close b \<le> b_high b"

lemma fold_max_ge: "x \<in> insert m (set xs) \<Longrightarrow> x \<le> fold max xs (m :: rat)"
  by (simp only: Max.set_eq_fold[symmetric] list.set) (rule Max_ge, simp_all)

lemma fold_min_le: "x \<in> insert m (set xs) \<Longrightarrow> fold min xs (m :: rat) \<le> x"
  by (simp only: Min.set_eq_fold[symmetric] list.set) (rule Min_le, simp_all)

text \<open>
  The statistics of the last day bound the market: if the stored bars are consistent, the high and the low
  enclose every bar of the day and the last price, the last price is the close of the newest bar, and
  the change has the sign of the move (to two decimals).
\<close>

theorem market_stats_bounds:
  assumes "\<forall>r \<in> set rows. bar_fits (row_bar r)" and "get_market_stats now executed rows events sy = Inr m"
  shows "ms_low m \<le> ms_last m \<and> ms_last m \<le> ms_high m
         \<and> (\<forall>r \<in> set (query_bars rows sy M1 (now - day_seconds) now). ms_low m \<le> b_low (row_bar r) \<and> b_high (row_bar r) \<le> ms_high m)
         \<and> ms_last m = b_close (row_bar (last (query_bars rows sy M1 (now - day_seconds) now)))
         \<and> (ms_last m = b_open (row_bar (hd (query_bars rows sy M1 (now - day_seconds) now))) \<longrightarrow> ms_change m = 0)"
proof -
  let ?q = "query_bars rows sy M1 (now - day_seconds) now"
  obtain r rs where q: "?q = r # rs" using assms(2) by (cases ?q) (auto simp: get_market_stats_def)
  have m: "ms_high m = fold max (map b_high (map row_bar rs)) (b_high (row_bar r))"
      "ms_low m = fold min (map b_low (map row_bar rs)) (b_low (row_bar r))"
      "ms_last m = b_close (row_bar (last (r # rs)))"
      "ms_change m = round2 (if 0 < b_open (row_bar r) then (ms_last m - b_open (row_bar r)) / b_open (row_bar r) * 100 else 0)"
    using assms(2) by (auto simp: get_market_stats_def q Let_def last_map)
  have "set ?q \<subseteq> set rows" by (auto simp: query_bars_def)
  then have fits: "bar_fits (row_bar v)" if "v \<in> set (r # rs)" for v using assms(1) that unfolding q by blast
  have bounds: "ms_low m \<le> b_low (row_bar v) \<and> b_high (row_bar v) \<le> ms_high m" if "v \<in> set (r # rs)" for v
    using that unfolding m by (auto intro!: fold_max_ge fold_min_le)
  have l: "last (r # rs) \<in> set (r # rs)" by (rule last_in_set) simp
  have "ms_low m \<le> ms_last m \<and> ms_last m \<le> ms_high m"
    using bounds[OF l] fits[OF l] unfolding m(3) bar_fits_def by linarith
  moreover have "ms_last m = b_open (row_bar r) \<longrightarrow> ms_change m = 0" unfolding m(4) by (simp add: round2_def round_half_even_def)
  ultimately show ?thesis using bounds m(3) by (simp add: q)
qed

section \<open>The portfolio\<close>

definition stored_types :: "database \<Rightarrow> bool" where
  "stored_types db \<longleftrightarrow> (\<forall>e \<in> set (db_order_events db). oer_type e \<in> set order_event_types)"

lemma stored_types_handle:
  assumes "stored_types db"
  shows "stored_types (handle_order_event uuid ev db)"
  using handle_order_event_cases[of uuid ev db] assms
  by (auto simp: stored_types_def put_order_def record_order_event_def order_event_applies_def)

lemma no_last_fill:
  assumes "stored_types db"
  shows "last_fill db sy = None"
proof -
  have "filter (\<lambda>e. oer_symbol e = sy \<and> oer_type e \<in> {''partially_filled'', ''filled''}) (db_order_events db) = []"
    using assms by (auto simp: filter_empty_conv stored_types_def order_event_types_def)
  then show ?thesis by (simp add: last_fill_def)
qed

text \<open>
  The portfolio of a user is always worth nothing: whatever order events were stored and whatever assets the user
  holds, the overview reports a portfolio balance of zero, because it looks for event types that are never stored.
\<close>

theorem portfolio_always_zero:
  assumes "stored_types db"
  shows "uo_portfolio (fst (get_user_overview x price (snd (order_handler_run uuid ms db)) u r)) = 0"
proof -
  have "stored_types (snd (order_handler_run uuid ms db))"
    by (rule order_handler_run_inv[where P = stored_types, OF stored_types_handle assms])
  then show ?thesis
    by (simp add: get_user_overview_def portfolio_balance_def no_last_fill case_prod_unfold cong: if_cong)
qed

section \<open>Own events only\<close>

text \<open>
  A user sees only its own events, newest first: every event on a page belongs to the user and, when a symbol is given, to
  that symbol; the pages are sorted by time and never longer than the limit, and the flag tells exactly whether there is more.
\<close>

theorem user_events_own:
  assumes "get_user_events db u True sy skip limit = Inr (Inl pg)"
  shows "(\<forall>e \<in> set (pg_data pg). e \<in> set (db_order_events db) \<and> oer_user_id e = u \<and> (\<forall>v. sy = Some v \<and> v \<noteq> [] \<longrightarrow> oer_symbol e = v))
         \<and> sorted_wrt (\<lambda>e f. oer_timestamp f \<le> oer_timestamp e) (pg_data pg)
         \<and> pg_size pg \<le> 100 \<and> pg_size pg = length (pg_data pg)
         \<and> (pg_has_next pg \<longleftrightarrow> skip + limit < length (user_order_events db u sy))"
proof -
  let ?q = "user_order_events db u sy"
  have lim: "1 \<le> limit" "limit \<le> 100" and pg: "pg = event_page skip limit ?q"
    using assms by (auto simp: get_user_events_def split: if_splits)
  have data: "pg_data pg = take limit (drop skip ?q)" by (simp add: pg event_page_def Let_def)
  have "sorted (map (\<lambda>e. - oer_timestamp e) ?q)" by (simp add: user_order_events_def)
  then have "sorted_wrt (\<lambda>e f. oer_timestamp f \<le> oer_timestamp e) ?q" by (simp add: sorted_map)
  then have "sorted_wrt (\<lambda>e f. oer_timestamp f \<le> oer_timestamp e) (pg_data pg)"
    unfolding data by (intro sorted_wrt_take sorted_wrt_drop)
  moreover have "set (pg_data pg) \<subseteq> set ?q" unfolding data by (meson set_drop_subset set_take_subset subset_trans)
  then have "\<forall>e \<in> set (pg_data pg). e \<in> set (db_order_events db) \<and> oer_user_id e = u
      \<and> (\<forall>v. sy = Some v \<and> v \<noteq> [] \<longrightarrow> oer_symbol e = v)"
    by (auto simp: user_order_events_def)
  moreover have "pg_size pg \<le> 100 \<and> pg_size pg = length (pg_data pg)" "pg_has_next pg \<longleftrightarrow> skip + limit < length ?q"
    using lim by (auto simp: pg event_page_def Let_def)
  ultimately show ?thesis by blast
qed

section \<open>An example\<close>

definition demo_bar_row :: "int \<Rightarrow> rat \<Rightarrow> rat \<Rightarrow> ohlc_row" where
  "demo_bar_row ts a b = \<lparr> row_symbol = ''BTC'', row_frame = ''1m'',
     row_bar = \<lparr> b_open = a, b_high = max a b, b_low = min a b, b_close = b, b_timestamp = ts \<rparr> \<rparr>"

definition demo_rows :: "ohlc_row list" where
  "demo_rows = [demo_bar_row 120 3 4, demo_bar_row 60 2 3]"

theorem bar_pages_complete_witness:
  "follow_pages 4 (\<lambda>k. 200) demo_rows ''BTC'' M1 150 None = Some [demo_bar_row 60 2 3, demo_bar_row 120 3 4]"
proof -
  have "bars_distinct demo_rows ''BTC'' M1" by (simp add: bars_distinct_def demo_rows_def demo_bar_row_def)
  moreover have "query_bars demo_rows ''BTC'' M1 (200 - timeframe_lookback M1) 150 = [demo_bar_row 60 2 3, demo_bar_row 120 3 4]"
    by code_simp
  moreover have "length demo_rows < 3" by (simp add: demo_rows_def)
  ultimately show ?thesis using bar_pages_complete[of demo_rows "''BTC''" M1 150 "\<lambda>k. 200" 3] by (simp add: eval_nat_numeral)
qed

theorem market_stats_bounds_witness:
  "\<exists>m. get_market_stats 200 (\<lambda>e. 0) demo_rows [] ''BTC'' = Inr m \<and> ms_low m = 2 \<and> ms_last m = 4 \<and> ms_last m \<le> ms_high m"
proof -
  have g: "get_market_stats 200 (\<lambda>e. 0) demo_rows [] ''BTC''
             = Inr \<lparr> ms_change = 100, ms_high = 4, ms_low = 2, ms_volume = 0, ms_last = 4 \<rparr>" by code_simp
  have "\<forall>r \<in> set demo_rows. bar_fits (row_bar r)" by (simp add: demo_rows_def demo_bar_row_def bar_fits_def)
  from market_stats_bounds[OF this g] g show ?thesis by auto
qed

definition demo_holder :: database where
  "demo_holder = sample_db\<lparr> db_assets := [((''i'', ''u''), \<lparr> ab_balance = 5, ab_escrow = 0 \<rparr>)] \<rparr>"

theorem portfolio_always_zero_witness:
  "let db = snd (order_handler_run (\<lambda>_. True) [Some (sample_event ''f'' ''order_filled'')] demo_holder)
   in get_asset_balances db ''u'' [] = [(''BTC'', 5, 0)] \<and> map oer_type (db_order_events db) = [''order_filled'']
      \<and> uo_portfolio (fst (get_user_overview demo_env (\<lambda>_. 100) db ''u'' empty_maps)) = 0"
proof -
  let ?db = "snd (order_handler_run (\<lambda>_. True) [Some (sample_event ''f'' ''order_filled'')] demo_holder)"
  have "get_asset_balances ?db ''u'' [] = [(''BTC'', 5, 0)]" "map oer_type (db_order_events ?db) = [''order_filled'']" by code_simp+
  moreover have "stored_types demo_holder" by (simp add: stored_types_def demo_holder_def sample_db_def empty_db_def)
  then have "uo_portfolio (fst (get_user_overview demo_env (\<lambda>_. 100) ?db ''u'' empty_maps)) = 0" by (rule portfolio_always_zero)
  ultimately show ?thesis unfolding Let_def by (intro conjI)
qed

theorem user_events_own_witness:
  "\<exists>pg. get_user_events (snd (order_handler_run (\<lambda>_. True) [Some (sample_event ''f'' ''order_filled'')] sample_db)) ''u'' True None 0 10 = Inr (Inl pg)
        \<and> map oer_event_id (pg_data pg) = [''f''] \<and> pg_size pg \<le> 100"
proof -
  let ?db = "snd (order_handler_run (\<lambda>_. True) [Some (sample_event ''f'' ''order_filled'')] sample_db)"
  have g: "get_user_events ?db ''u'' True None 0 10 = Inr (Inl (event_page 0 10 (user_order_events ?db ''u'' None)))"
    by (simp add: get_user_events_def)
  have "map oer_event_id (pg_data (event_page 0 10 (user_order_events ?db ''u'' None))) = [''f'']" by code_simp
  moreover have "pg_size (event_page 0 10 (user_order_events ?db ''u'' None)) \<le> 100" using user_events_own[OF g] by (elim conjE)
  ultimately show ?thesis using g by (intro exI conjI)
qed

end
