(* ===== verification/App_Start.thy ===== *)
theory App_Start imports Market_Api begin

text \<open>
  What \<open>api/app.py\<close> does to the database before it serves, the list of symbols it then offers
  (\<open>api/routers/markets/router.py\<close>), and the conversion of comma-separated parameters
  (\<open>api/dependencies.py\<close>) that the page of asset balances uses.
  \<open>gen n\<close> is the \<open>n\<close>-th UUID; \<open>rank\<close> is the collation of the database. A character is a code point
  below 256.
\<close>

section \<open>Instruments\<close>

definition app_symbols :: "(string \<times> rat) list" where
  "app_symbols = [(''BTCUSD'', 1), (''EURUSD'', 5), (''GBPUSD'', 6/5), (''FAKEUSD'', 3/4)]"

text \<open>The commit: symbols and ids are unique.\<close>

fun add_instruments :: "(nat \<Rightarrow> string) \<Rightarrow> nat \<Rightarrow> (string \<times> rat) list \<Rightarrow> database \<Rightarrow> exn + unit \<times> database" where
  "add_instruments gen n [] db = Inr ((), db)"
| "add_instruments gen n ((sy, p) # xs) db =
     (if list_ex (\<lambda>r. ir_symbol r = sy \<or> ir_id r = gen n) (db_instruments db) then Inl IntegrityError
      else add_instruments gen (Suc n) xs
             (db\<lparr> db_instruments := db_instruments db @
                    [\<lparr> ir_id = gen n, ir_symbol = sy, ir_starting_price = p, ir_status = DEAD \<rparr>] \<rparr>))"

definition create_instruments :: "(nat \<Rightarrow> string) \<Rightarrow> nat \<Rightarrow> database \<Rightarrow> (exn + unit) \<times> database" where
  "create_instruments gen n db =
     (case in_session (add_instruments gen n app_symbols) db of
        (Inl IntegrityError, db') \<Rightarrow> (Inr (), db')
      | r \<Rightarrow> r)"

definition get_market_symbols :: "(string \<Rightarrow> nat) \<Rightarrow> database \<Rightarrow> string list" where
  "get_market_symbols rank db = sort_key rank (map ir_symbol (db_instruments db))"

section \<open>Comma-separated parameters\<close>

definition py_space :: "char \<Rightarrow> bool" where
  "py_space c = (of_char c \<in> set ([9..<14] @ [28..<33] @ [133, 160]))"

definition strip :: "string \<Rightarrow> string" where
  "strip s = rev (dropWhile py_space (rev (dropWhile py_space s)))"

fun split_on :: "char \<Rightarrow> string \<Rightarrow> string list" where
  "split_on d [] = [[]]"
| "split_on d (c # s) =
     (if c = d then [] # split_on d s
      else case split_on d s of [] \<Rightarrow> [[c]] | w # ws \<Rightarrow> (c # w) # ws)"

fun convert_items :: "(string \<Rightarrow> exn + 'a) \<Rightarrow> string list \<Rightarrow> exn + 'a list" where
  "convert_items ty [] = Inr []"
| "convert_items ty (s # ss) =
     (case ty (strip s) of
        Inl e \<Rightarrow> Inl e
      | Inr v \<Rightarrow> (case convert_items ty ss of Inl e \<Rightarrow> Inl e | Inr vs \<Rightarrow> Inr (v # vs)))"

text \<open>A response is no exception: raising one is a \<open>TypeError\<close>.\<close>

definition depends_convert_csv :: "(string \<Rightarrow> exn + 'a) \<Rightarrow> 'a list \<Rightarrow> string option \<Rightarrow> api_error + 'a list" where
  "depends_convert_csv ty dflt value =
     (case value of
        None \<Rightarrow> Inr dflt
      | Some v \<Rightarrow>
          if v = [] then Inr dflt
          else (case convert_items ty (split_on CHR '','' (strip v)) of
                  Inr vs \<Rightarrow> Inr vs
                | Inl e \<Rightarrow> Inl (Uncaught (if e = ValueError \<or> e = TypeError then TypeError else e))))"

definition asset_balances_route :: "database \<Rightarrow> string \<Rightarrow> string option \<Rightarrow> api_error + (string \<times> rat \<times> rat) list" where
  "asset_balances_route db u symbols =
     (case depends_convert_csv Inr [] symbols of
        Inl e \<Rightarrow> Inl e
      | Inr ss \<Rightarrow> Inr (get_asset_balances db u ss))"

section \<open>What they do\<close>

definition seeded_rows :: "(nat \<Rightarrow> string) \<Rightarrow> nat \<Rightarrow> (string \<times> rat) list \<Rightarrow> instrument_row list" where
  "seeded_rows gen n xs =
     map2 (\<lambda>i (sy, p). \<lparr> ir_id = gen i, ir_symbol = sy, ir_starting_price = p, ir_status = DEAD \<rparr>) [n..<n + length xs] xs"

lemma add_instruments_fails:
  "\<lbrakk>(sy, p) \<in> set xs; r \<in> set (db_instruments db); ir_symbol r = sy\<rbrakk> \<Longrightarrow> add_instruments gen n xs db = Inl IntegrityError"
proof (induction gen n xs db rule: add_instruments.induct)
  case (2 gen n sy' p' xs db)
  then show ?case by (cases "sy' = sy \<and> p' = p") (auto simp: list_ex_iff)
qed simp

lemma add_instruments_adds:
  assumes "distinct (map fst xs)" "inj gen"
    and "\<And>r i. r \<in> set (db_instruments db) \<Longrightarrow> n \<le> i \<Longrightarrow> ir_id r \<noteq> gen i"
    and "\<And>r. r \<in> set (db_instruments db) \<Longrightarrow> ir_symbol r \<notin> fst ` set xs"
  shows "add_instruments gen n xs db = Inr ((), db\<lparr> db_instruments := db_instruments db @ seeded_rows gen n xs \<rparr>)"
  using assms
proof (induction gen n xs db rule: add_instruments.induct)
  case (2 gen n sy p xs db)
  have fresh: "\<not> list_ex (\<lambda>r. ir_symbol r = sy \<or> ir_id r = gen n) (db_instruments db)"
    using "2.prems"(3)[of _ n] "2.prems"(4) by (fastforce simp: list_ex_iff)
  have "gen n \<noteq> gen i" if "Suc n \<le> i" for i using that "2.prems"(2) by (auto dest: injD)
  then have "add_instruments gen (Suc n) xs (db\<lparr> db_instruments := db_instruments db @
        [\<lparr> ir_id = gen n, ir_symbol = sy, ir_starting_price = p, ir_status = DEAD \<rparr>] \<rparr>) =
      Inr ((), db\<lparr> db_instruments := (db_instruments db @
        [\<lparr> ir_id = gen n, ir_symbol = sy, ir_starting_price = p, ir_status = DEAD \<rparr>]) @ seeded_rows gen (Suc n) xs \<rparr>)"
    using "2.IH"[OF fresh] "2.prems" by (force simp: image_iff)
  then show ?case using fresh by (simp add: seeded_rows_def upt_conv_Cons del: upt_Suc)
qed (simp add: seeded_rows_def)

text \<open>
  The start creates all four instruments or none: a database that has one of them already is left as it is,
  so what is missing beside it stays missing. A second start changes nothing.
\<close>

theorem start_creates_all_or_none:
  assumes "inj gen" and "\<And>r i. r \<in> set (db_instruments db) \<Longrightarrow> n \<le> i \<Longrightarrow> ir_id r \<noteq> gen i"
  shows "create_instruments gen n db =
     (Inr (), if \<exists>r \<in> set (db_instruments db). ir_symbol r \<in> fst ` set app_symbols then db
              else db\<lparr> db_instruments := db_instruments db @ seeded_rows gen n app_symbols \<rparr>)"
proof (cases "\<exists>r \<in> set (db_instruments db). ir_symbol r \<in> fst ` set app_symbols")
  case True
  then obtain r sy p where "(sy, p) \<in> set app_symbols" "r \<in> set (db_instruments db)" "ir_symbol r = sy" by auto
  from add_instruments_fails[OF this] show ?thesis using True by (auto simp: create_instruments_def in_session_def)
next
  case False
  have "add_instruments gen n app_symbols db =
      Inr ((), db\<lparr> db_instruments := db_instruments db @ seeded_rows gen n app_symbols \<rparr>)"
    using False assms by (intro add_instruments_adds) (auto simp: app_symbols_def)
  then show ?thesis unfolding if_not_P[OF False] by (simp add: create_instruments_def in_session_def)
qed

lemma start_again:
  assumes "r \<in> set (db_instruments db)" "ir_symbol r \<in> fst ` set app_symbols"
  shows "create_instruments gen n db = (Inr (), db)"
  using add_instruments_fails[OF _ assms(1) refl] assms(2)
  by (auto simp: create_instruments_def in_session_def)

lemma market_symbols_sorted: "sorted (map rank (get_market_symbols rank db))"
  by (simp add: get_market_symbols_def)

text \<open>A list of symbols without commas and outer spaces comes back from the parameter as it was joined.\<close>

definition plain_item :: "string \<Rightarrow> bool" where
  "plain_item s \<longleftrightarrow> s \<noteq> [] \<and> CHR '','' \<notin> set s \<and> \<not> py_space (hd s) \<and> \<not> py_space (last s)"

fun join_csv :: "string list \<Rightarrow> string" where
  "join_csv [] = []"
| "join_csv [s] = s"
| "join_csv (s # ss) = s @ CHR '','' # join_csv ss"

lemma dropWhile_hd: "s \<noteq> [] \<Longrightarrow> \<not> P (hd s) \<Longrightarrow> dropWhile P s = s"
  by (cases s) auto

lemma strip_same: "s \<noteq> [] \<Longrightarrow> \<not> py_space (hd s) \<Longrightarrow> \<not> py_space (last s) \<Longrightarrow> strip s = s"
  by (simp add: strip_def dropWhile_hd hd_rev)

lemma split_on_plain: "d \<notin> set s \<Longrightarrow> split_on d s = [s]"
  by (induction s) auto

lemma split_on_sep: "d \<notin> set s \<Longrightarrow> split_on d (s @ d # t) = s # split_on d t"
  by (induction s) auto

lemma split_join: "list_all plain_item ss \<Longrightarrow> ss \<noteq> [] \<Longrightarrow> split_on CHR '','' (join_csv ss) = ss"
  by (induction ss rule: join_csv.induct) (auto simp: split_on_plain split_on_sep plain_item_def)

lemma join_ends:
  assumes "list_all plain_item ss" "ss \<noteq> []"
  shows "join_csv ss \<noteq> [] \<and> \<not> py_space (hd (join_csv ss)) \<and> \<not> py_space (last (join_csv ss))"
  using assms
proof (induction ss rule: join_csv.induct)
  case (3 s s' ss)
  then show ?case by (cases s) (auto simp: plain_item_def)
qed (auto simp: plain_item_def)

lemma convert_plain: "list_all plain_item ss \<Longrightarrow> convert_items Inr ss = Inr ss"
  by (induction ss) (auto simp: strip_same plain_item_def)

theorem csv_roundtrip:
  assumes "list_all plain_item ss" "ss \<noteq> []"
  shows "depends_convert_csv Inr [] (Some (join_csv ss)) = Inr ss"
  using join_ends[OF assms] split_join[OF assms] convert_plain[OF assms(1)]
  by (simp add: depends_convert_csv_def strip_same)

lemma asset_balances_of_symbols:
  assumes "list_all plain_item ss" "ss \<noteq> []"
  shows "asset_balances_route db u (Some (join_csv ss)) = Inr (get_asset_balances db u ss)"
  using csv_roundtrip[OF assms] by (simp add: asset_balances_route_def)

text \<open>An item the type refuses is no bad request: the conversion ends in an exception nothing catches.\<close>

lemma bad_item_uncaught:
  assumes "v \<noteq> []" "convert_items ty (split_on CHR '','' (strip v)) = Inl ValueError"
  shows "depends_convert_csv ty dflt (Some v) = Inl (Uncaught TypeError)"
  using assms by (simp add: depends_convert_csv_def)

end
