(* ===== verification/Heartbeat.thy ===== *)
theory Heartbeat imports Orchestrator begin

text \<open>
  \<open>engine/heartbeat\<close>: the server that watches the engines of the instruments and the client an engine
  runs.

  A connection is a number. A connection waits for its registration or is in the heartbeat loop; both
  waits have a deadline, and advancing the clock fires those that are due (\<open>hb_advance\<close>). A line is what decoding it gives.
  What a callback raises and nothing catches ends the callback; a \<open>finally\<close> block still runs.
\<close>

section \<open>The server\<close>

datatype hb_line = Garbage | NotDict | Msg (hl_type: "string option") (hl_symbol: "string option")

record hb_conn =
  hc_symbol :: string
  hc_last_message :: rat
  hc_wait_since :: rat

record hb_config =
  hf_register_timeout :: rat
  hf_heartbeat_timeout :: rat

record hb_server =
  hb_now :: rat
  hb_symbols :: "(string \<times> nat) list"
  hb_waiting :: "(nat \<times> rat) list"
  hb_live :: "(nat \<times> hb_conn) list"
  hb_closed :: "nat list"
  hb_errors :: "(nat \<times> string) list"
  hb_db :: database

definition close_writer :: "nat \<Rightarrow> hb_server \<Rightarrow> hb_server" where
  "close_writer c s = s\<lparr> hb_closed := hb_closed s @ [c] \<rparr>"

definition set_status :: "string \<Rightarrow> instrument_status \<Rightarrow> hb_server \<Rightarrow> hb_server" where
  "set_status sy st s = s\<lparr> hb_db := set_instrument_status st sy (hb_db s) \<rparr>"

definition leave_waiting :: "nat \<Rightarrow> hb_server \<Rightarrow> hb_server" where
  "leave_waiting c s = s\<lparr> hb_waiting := dict_pop (hb_waiting s) c \<rparr>"

definition hb_accept :: "nat \<Rightarrow> hb_server \<Rightarrow> hb_server" where
  "hb_accept c s = s\<lparr> hb_waiting := dict_put (hb_waiting s) c (hb_now s) \<rparr>"

text \<open>
  The first line. A line that is no JSON object raises something the method does not catch, and the socket
  is left as it is; an invalid message is answered and the socket closed.
\<close>

definition handle_register :: "nat \<Rightarrow> hb_line \<Rightarrow> hb_server \<Rightarrow> hb_server" where
  "handle_register c line s =
     (let s1 = leave_waiting c s
      in case line of
           Garbage \<Rightarrow> s1
         | NotDict \<Rightarrow> s1
         | Msg ty sym_field \<Rightarrow>
             if ty \<noteq> Some ''register''
             then close_writer c (s1\<lparr> hb_errors := hb_errors s1 @ [(c, ''Received invalid message.'')] \<rparr>)
             else (case sym_field of
                     None \<Rightarrow> close_writer c (s1\<lparr> hb_errors := hb_errors s1 @ [(c, ''symbol field missing in register request'')] \<rparr>)
                   | Some sy \<Rightarrow>
                       set_status sy ALIVE
                         (s1\<lparr> hb_symbols := dict_put (hb_symbols s1) sy c,
                              hb_live := dict_put (hb_live s1) c
                                \<lparr> hc_symbol = sy, hc_last_message = hb_now s1, hc_wait_since = hb_now s1 \<rparr> \<rparr>)))"

text \<open>The \<open>finally\<close> block of a registered connection.\<close>

definition end_connection :: "nat \<Rightarrow> hb_conn \<Rightarrow> hb_server \<Rightarrow> hb_server" where
  "end_connection c k s =
     close_writer c
       (set_status (hc_symbol k) DEAD
         (s\<lparr> hb_live := dict_pop (hb_live s) c, hb_symbols := dict_pop (hb_symbols s) (hc_symbol k) \<rparr>))"

definition handle_line :: "nat \<Rightarrow> hb_conn \<Rightarrow> hb_line \<Rightarrow> hb_server \<Rightarrow> hb_server" where
  "handle_line c k line s =
     (case line of
        Garbage \<Rightarrow> end_connection c k s
      | NotDict \<Rightarrow> end_connection c k s
      | Msg ty sym_field \<Rightarrow>
          s\<lparr> hb_live := dict_put (hb_live s) c
               (if ty = Some ''heartbeat'' then k\<lparr> hc_last_message := hb_now s, hc_wait_since := hb_now s \<rparr>
                else k\<lparr> hc_wait_since := hb_now s \<rparr>) \<rparr>)"

definition client_conn_line :: "nat \<Rightarrow> hb_line \<Rightarrow> hb_server \<Rightarrow> hb_server" where
  "client_conn_line c line s =
     (case map_of (hb_live s) c of
        Some k \<Rightarrow> handle_line c k line s
      | None \<Rightarrow> if map_of (hb_waiting s) c = None then s else handle_register c line s)"

text \<open>The end of the stream: an empty line is no JSON for the registration and ends the loop.\<close>

definition client_conn_eof :: "nat \<Rightarrow> hb_server \<Rightarrow> hb_server" where
  "client_conn_eof c s =
     (case map_of (hb_live s) c of Some k \<Rightarrow> end_connection c k s | None \<Rightarrow> leave_waiting c s)"

definition register_timeout :: "nat \<Rightarrow> hb_server \<Rightarrow> hb_server" where
  "register_timeout c s = close_writer c (leave_waiting c s)"

definition hb_advance :: "hb_config \<Rightarrow> rat \<Rightarrow> hb_server \<Rightarrow> hb_server" where
  "hb_advance cfg d s =
     (let s1 = s\<lparr> hb_now := hb_now s + d \<rparr>;
          late = filter (\<lambda>(c, t). t + hf_register_timeout cfg \<le> hb_now s1) (hb_waiting s1);
          silent = filter (\<lambda>(c, k). hc_wait_since k + hf_heartbeat_timeout cfg \<le> hb_now s1) (hb_live s1)
      in fold (\<lambda>(c, k). end_connection c k) silent (fold (\<lambda>(c, t). register_timeout c) late s1))"

datatype hb_event = Accepted nat | Line nat hb_line | Eof nat | Advance rat

fun hb_step :: "hb_config \<Rightarrow> hb_event \<Rightarrow> hb_server \<Rightarrow> hb_server" where
  "hb_step cfg (Accepted c) s =
     (if map_of (hb_live s) c = None \<and> map_of (hb_waiting s) c = None then hb_accept c s else s)"
| "hb_step cfg (Line c line) s = client_conn_line c line s"
| "hb_step cfg (Eof c) s = client_conn_eof c s"
| "hb_step cfg (Advance d) s = (if 0 \<le> d then hb_advance cfg d s else s)"

definition new_hb_server :: "database \<Rightarrow> hb_server" where
  "new_hb_server db = \<lparr> hb_now = 0, hb_symbols = [], hb_waiting = [], hb_live = [], hb_closed = [], hb_errors = [], hb_db = db \<rparr>"

section \<open>The client\<close>

datatype send_outcome = SendOk | BrokenPipe | OtherError

record hb_client =
  hl_stop :: bool
  hl_sent :: "string list"
  hl_on_close :: nat
  hl_alive :: bool
  hl_socket :: bool

definition client_send :: "send_outcome \<Rightarrow> string \<Rightarrow> (hb_client, unit) act" where
  "client_send out msg s =
     (case out of
        SendOk \<Rightarrow> (Inr (), s\<lparr> hl_sent := hl_sent s @ [msg] \<rparr>)
      | BrokenPipe \<Rightarrow> (Inr (), s\<lparr> hl_stop := True \<rparr>)
      | OtherError \<Rightarrow> (Inl RuntimeError, s))"

definition new_client :: hb_client where
  "new_client = \<lparr> hl_stop = False, hl_sent = [], hl_on_close = 0, hl_alive = False, hl_socket = True \<rparr>"

definition client_register :: "send_outcome \<Rightarrow> (hb_client, unit) act" where
  "client_register out =
     and_then (client_send out ''register'') (\<lambda>_. upd (\<lambda>s. s\<lparr> hl_alive := True \<rparr>))"

text \<open>The thread, given the outcome of each send; it ends when it is stopped, with the callback, or by an exception.\<close>

fun hb_thread :: "send_outcome list \<Rightarrow> hb_client \<Rightarrow> hb_client" where
  "hb_thread outs s =
     (if \<not> hl_alive s then s
      else if hl_stop s then s\<lparr> hl_on_close := Suc (hl_on_close s), hl_alive := False \<rparr>
      else case outs of
             [] \<Rightarrow> s
           | out # rest \<Rightarrow>
               (case client_send out ''heartbeat'' s of
                  (Inl e, t) \<Rightarrow> t\<lparr> hl_alive := False \<rparr>
                | (Inr _, t) \<Rightarrow> hb_thread rest t))"

text \<open>Closing: a thread that is asleep wakes up, sends a last heartbeat and ends; then the socket is closed.\<close>

definition client_close :: "send_outcome \<Rightarrow> hb_client \<Rightarrow> hb_client" where
  "client_close out s =
     (let s1 = s\<lparr> hl_stop := True \<rparr>;
          s2 = (if \<not> hl_alive s then s1
                else if hl_stop s then hb_thread [] s1
                else (case client_send out ''heartbeat'' s1 of
                        (Inl e, t) \<Rightarrow> t\<lparr> hl_alive := False \<rparr> | (Inr _, t) \<Rightarrow> hb_thread [] t))
      in s2\<lparr> hl_socket := False \<rparr>)"

declare hb_thread.simps [simp del]

section \<open>Statuses follow connections\<close>

definition rows_of :: "hb_server \<Rightarrow> instrument_row list" where
  "rows_of s = db_instruments (hb_db s)"

text \<open>
  What holds whatever the clients do: a symbol that is filed belongs to an open connection of it, and the status follows the
  file. The converse, that every open connection is filed, holds for the symbols outside \<open>twice\<close>, the ones that a second
  client has registered while a connection of the first was open.
\<close>

definition server_ok :: "string set \<Rightarrow> hb_server \<Rightarrow> bool" where
  "server_ok twice s \<longleftrightarrow>
     distinct (map fst (hb_live s))
     \<and> (\<forall>sy c. map_of (hb_symbols s) sy = Some c \<longrightarrow> (\<exists>k. map_of (hb_live s) c = Some k \<and> hc_symbol k = sy))
     \<and> (\<forall>c k. map_of (hb_live s) c = Some k \<and> hc_symbol k \<notin> twice \<longrightarrow> map_of (hb_symbols s) (hc_symbol k) = Some c)
     \<and> (\<forall>r \<in> set (rows_of s). ir_status r = ALIVE \<longleftrightarrow> map_of (hb_symbols s) (ir_symbol r) \<noteq> None)"

definition registered_again :: "hb_event \<Rightarrow> hb_server \<Rightarrow> string set" where
  "registered_again ev s =
     {sy. \<exists>c c' k. ev = Line c (Msg (Some ''register'') (Some sy)) \<and> map_of (hb_live s) c = None
        \<and> map_of (hb_live s) c' = Some k \<and> hc_symbol k = sy}"

text \<open>All executions from dead instruments, with the symbols registered again on the way.\<close>

inductive hb_runs :: "hb_config \<Rightarrow> string set \<Rightarrow> hb_server \<Rightarrow> bool" for cfg where
  runs_start: "(\<And>r. r \<in> set (db_instruments db) \<Longrightarrow> ir_status r = DEAD) \<Longrightarrow> hb_runs cfg {} (new_hb_server db)"
| runs_event: "hb_runs cfg twice s \<Longrightarrow> hb_runs cfg (twice \<union> registered_again ev s) (hb_step cfg ev s)"


lemma status_cases: "st = ALIVE \<or> st = DEAD"
  by (cases st) auto

lemma rows_set_status:
  "rows_of (set_status sy st s) = map (\<lambda>r. if ir_symbol r = sy then r\<lparr> ir_status := st \<rparr> else r) (rows_of s)"
  by (simp add: rows_of_def set_status_def set_instrument_status_def)

lemma end_connection_fields:
  "hb_live (end_connection c k s) = dict_pop (hb_live s) c"
  "hb_symbols (end_connection c k s) = dict_pop (hb_symbols s) (hc_symbol k)"
  "hb_closed (end_connection c k s) = hb_closed s @ [c]"
  "hb_now (end_connection c k s) = hb_now s"
  "rows_of (end_connection c k s) = map (\<lambda>r. if ir_symbol r = hc_symbol k then r\<lparr> ir_status := DEAD \<rparr> else r) (rows_of s)"
  by (simp_all add: end_connection_def close_writer_def set_status_def rows_of_def set_instrument_status_def)

lemma server_ok_more: "server_ok twice s \<Longrightarrow> twice \<subseteq> twice' \<Longrightarrow> server_ok twice' s"
  unfolding server_ok_def by blast

lemma server_okD:
  assumes "server_ok twice s"
  shows "distinct (map fst (hb_live s))"
    and "map_of (hb_symbols s) sy = Some c \<Longrightarrow> \<exists>k. map_of (hb_live s) c = Some k \<and> hc_symbol k = sy"
    and "map_of (hb_live s) c = Some k \<Longrightarrow> hc_symbol k \<notin> twice \<Longrightarrow> map_of (hb_symbols s) (hc_symbol k) = Some c"
    and "r \<in> set (rows_of s) \<Longrightarrow> ir_status r = ALIVE \<longleftrightarrow> map_of (hb_symbols s) (ir_symbol r) \<noteq> None"
  using assms unfolding server_ok_def by blast+

lemma end_connection_ok:
  assumes ok: "server_ok twice s" and k: "map_of (hb_live s) c = Some k"
  shows "server_ok twice (end_connection c k s)"
  unfolding server_ok_def end_connection_fields
proof (intro conjI allI impI ballI)
  show "distinct (map fst (dict_pop (hb_live s) c))" using server_okD(1)[OF ok] by (rule distinct_dict_pop)
next
  fix sy c'
  assume "map_of (dict_pop (hb_symbols s) (hc_symbol k)) sy = Some c'"
  then have sy: "sy \<noteq> hc_symbol k" "map_of (hb_symbols s) sy = Some c'" by (auto simp: map_of_dict_pop split: if_splits)
  obtain k' where k': "map_of (hb_live s) c' = Some k'" "hc_symbol k' = sy" using server_okD(2)[OF ok sy(2)] by blast
  then have "c' \<noteq> c" using sy(1) k by auto
  then show "\<exists>k'. map_of (dict_pop (hb_live s) c) c' = Some k' \<and> hc_symbol k' = sy"
    using k' by (intro exI[of _ k']) (simp add: map_of_dict_pop)
next
  fix c' k'
  assume "map_of (dict_pop (hb_live s) c) c' = Some k' \<and> hc_symbol k' \<notin> twice"
  then have c': "c' \<noteq> c" "map_of (hb_live s) c' = Some k'" "hc_symbol k' \<notin> twice" by (auto simp: map_of_dict_pop split: if_splits)
  have filed: "map_of (hb_symbols s) (hc_symbol k') = Some c'" using server_okD(3)[OF ok c'(2,3)] .
  have "hc_symbol k' \<noteq> hc_symbol k"
  proof
    assume same: "hc_symbol k' = hc_symbol k"
    then have "map_of (hb_symbols s) (hc_symbol k) = Some c" using server_okD(3)[OF ok k] c'(3) by simp
    then show False using filed same c'(1) by simp
  qed
  then show "map_of (dict_pop (hb_symbols s) (hc_symbol k)) (hc_symbol k') = Some c'" using filed by (simp add: map_of_dict_pop)
next
  fix r
  assume "r \<in> set (map (\<lambda>r. if ir_symbol r = hc_symbol k then r\<lparr> ir_status := DEAD \<rparr> else r) (rows_of s))"
  then show "ir_status r = ALIVE \<longleftrightarrow> map_of (dict_pop (hb_symbols s) (hc_symbol k)) (ir_symbol r) \<noteq> None"
    using server_okD(4)[OF ok] by (auto simp: map_of_dict_pop split: if_splits)
qed

lemma end_all_ok:
  assumes "server_ok twice s" "distinct (map fst cs)" "\<And>c k. (c, k) \<in> set cs \<Longrightarrow> map_of (hb_live s) c = Some k"
  shows "server_ok twice (fold (\<lambda>(c, k). end_connection c k) cs s)"
  using assms
proof (induction cs arbitrary: s)
  case (Cons p cs)
  obtain c k where p: "p = (c, k)" by force
  have "server_ok twice (end_connection c k s)" using Cons.prems(1) Cons.prems(3)[of c k] p by (simp add: end_connection_ok)
  moreover have "map_of (hb_live (end_connection c k s)) c' = Some k'" if m: "(c', k') \<in> set cs" for c' k'
  proof -
    have "c' \<noteq> c" using Cons.prems(2) m p by (auto dest: key_of_pair)
    then show ?thesis using Cons.prems(3)[of c' k'] m by (simp add: end_connection_fields map_of_dict_pop)
  qed
  ultimately show ?case using Cons.IH Cons.prems(2) p by simp
qed simp

lemma register_timeouts_fields:
  "hb_live (fold (\<lambda>(c, t). register_timeout c) cs s) = hb_live s
   \<and> hb_symbols (fold (\<lambda>(c, t). register_timeout c) cs s) = hb_symbols s
   \<and> hb_db (fold (\<lambda>(c, t). register_timeout c) cs s) = hb_db s
   \<and> hb_now (fold (\<lambda>(c, t). register_timeout c) cs s) = hb_now s"
  by (induction cs arbitrary: s) (auto simp: register_timeout_def close_writer_def leave_waiting_def)

definition silent_conns :: "hb_config \<Rightarrow> rat \<Rightarrow> hb_server \<Rightarrow> (nat \<times> hb_conn) list" where
  "silent_conns cfg now s = filter (\<lambda>(c, k). hc_wait_since k + hf_heartbeat_timeout cfg \<le> now) (hb_live s)"

lemma hb_advance_split:
  "\<exists>s1. hb_advance cfg d s = fold (\<lambda>(c, k). end_connection c k) (silent_conns cfg (hb_now s + d) s) s1
     \<and> hb_live s1 = hb_live s \<and> hb_symbols s1 = hb_symbols s \<and> hb_db s1 = hb_db s \<and> hb_now s1 = hb_now s + d"
proof -
  define s0 where "s0 = s\<lparr> hb_now := hb_now s + d \<rparr>"
  define s1 where "s1 = fold (\<lambda>(c, t). register_timeout c)
      (filter (\<lambda>(c, t). t + hf_register_timeout cfg \<le> hb_now s0) (hb_waiting s0)) s0"
  have "hb_advance cfg d s = fold (\<lambda>(c, k). end_connection c k) (silent_conns cfg (hb_now s + d) s) s1"
    by (simp add: hb_advance_def Let_def silent_conns_def s1_def s0_def)
  moreover have "hb_live s1 = hb_live s0 \<and> hb_symbols s1 = hb_symbols s0 \<and> hb_db s1 = hb_db s0 \<and> hb_now s1 = hb_now s0"
    unfolding s1_def using register_timeouts_fields by blast
  ultimately show ?thesis by (intro exI[of _ s1]) (simp add: s0_def)
qed

lemma server_ok_same:
  "hb_live t = hb_live s \<Longrightarrow> hb_symbols t = hb_symbols s \<Longrightarrow> hb_db t = hb_db s \<Longrightarrow> server_ok twice t = server_ok twice s"
  by (simp add: server_ok_def rows_of_def)

lemma handle_register_ok:
  assumes ok: "server_ok twice s" and c: "map_of (hb_live s) c = None"
    and again: "registered_again (Line c line) s \<subseteq> twice"
  shows "server_ok twice (handle_register c line s)"
proof (cases "\<exists>sy. line = Msg (Some ''register'') (Some sy)")
  case False
  then have "hb_live (handle_register c line s) = hb_live s" "hb_symbols (handle_register c line s) = hb_symbols s"
    "hb_db (handle_register c line s) = hb_db s"
    by (auto simp: handle_register_def leave_waiting_def close_writer_def Let_def split: hb_line.splits option.splits)
  then show ?thesis using ok server_ok_same by blast
next
  case True
  then obtain sy where line: "line = Msg (Some ''register'') (Some sy)" by blast
  have other: "sy \<in> twice" if "map_of (hb_live s) c' = Some k" "hc_symbol k = sy" for c' k
    using again c that unfolding registered_again_def line by blast
  have f: "hb_live (handle_register c line s) = dict_put (hb_live s) c \<lparr> hc_symbol = sy, hc_last_message = hb_now s, hc_wait_since = hb_now s \<rparr>"
      "hb_symbols (handle_register c line s) = dict_put (hb_symbols s) sy c"
      "rows_of (handle_register c line s) = map (\<lambda>r. if ir_symbol r = sy then r\<lparr> ir_status := ALIVE \<rparr> else r) (rows_of s)"
    by (simp_all add: handle_register_def line leave_waiting_def rows_set_status Let_def) (simp_all add: set_status_def rows_of_def)
  show ?thesis unfolding server_ok_def f
  proof (intro conjI allI impI ballI)
    show "distinct (map fst (dict_put (hb_live s) c \<lparr> hc_symbol = sy, hc_last_message = hb_now s, hc_wait_since = hb_now s \<rparr>))"
      using server_okD(1)[OF ok] by (rule distinct_dict_put)
  next
    fix sy' c'
    assume "map_of (dict_put (hb_symbols s) sy c) sy' = Some c'"
    then have "sy' = sy \<and> c' = c \<or> sy' \<noteq> sy \<and> (\<exists>k. map_of (hb_live s) c' = Some k \<and> hc_symbol k = sy')"
      using server_okD(2)[OF ok] by (auto simp: map_of_dict_put split: if_splits)
    then show "\<exists>k. map_of (dict_put (hb_live s) c \<lparr> hc_symbol = sy, hc_last_message = hb_now s, hc_wait_since = hb_now s \<rparr>) c' = Some k
        \<and> hc_symbol k = sy'"
      using c by (auto simp: map_of_dict_put)
  next
    fix c' k
    assume "map_of (dict_put (hb_live s) c \<lparr> hc_symbol = sy, hc_last_message = hb_now s, hc_wait_since = hb_now s \<rparr>) c' = Some k
        \<and> hc_symbol k \<notin> twice"
    then have "c' = c \<and> hc_symbol k = sy \<or> map_of (hb_live s) c' = Some k \<and> hc_symbol k \<notin> twice"
      by (auto simp: map_of_dict_put split: if_splits)
    then show "map_of (dict_put (hb_symbols s) sy c) (hc_symbol k) = Some c'"
      using server_okD(3)[OF ok] other by (auto simp: map_of_dict_put)
  next
    fix r
    assume "r \<in> set (map (\<lambda>r. if ir_symbol r = sy then r\<lparr> ir_status := ALIVE \<rparr> else r) (rows_of s))"
    then show "ir_status r = ALIVE \<longleftrightarrow> map_of (dict_put (hb_symbols s) sy c) (ir_symbol r) \<noteq> None"
      using server_okD(4)[OF ok] by (auto simp: map_of_dict_put split: if_splits)
  qed
qed

lemma hb_step_ok:
  assumes ok: "server_ok twice s" and again: "registered_again ev s \<subseteq> twice"
  shows "server_ok twice (hb_step cfg ev s)"
proof (cases ev)
  case (Accepted c)
  moreover have "server_ok twice (hb_accept c s) = server_ok twice s" by (rule server_ok_same) (simp_all add: hb_accept_def)
  ultimately show ?thesis using ok by simp
next
  case (Line c line)
  show ?thesis
  proof (cases "map_of (hb_live s) c")
    case None
    then show ?thesis using Line ok again by (auto simp: client_conn_line_def intro!: handle_register_ok)
  next
    case (Some k)
    have "server_ok twice (s\<lparr> hb_live := dict_put (hb_live s) c k' \<rparr>)" if "hc_symbol k' = hc_symbol k" for k'
    proof -
      have live: "(\<exists>j. map_of (dict_put (hb_live s) c k') c' = Some j \<and> hc_symbol j = sy) \<longleftrightarrow>
              (\<exists>j. map_of (hb_live s) c' = Some j \<and> hc_symbol j = sy)" for c' sy
        using Some that by (auto simp: map_of_dict_put)
      then have "map_of (hb_symbols s) (hc_symbol j) = Some c'" if "map_of (dict_put (hb_live s) c k') c' = Some j" "hc_symbol j \<notin> twice" for c' j
        using server_okD(3)[OF ok] that by metis
      then show ?thesis using live server_okD[OF ok] by (simp add: server_ok_def rows_of_def distinct_dict_put)
    qed
    then show ?thesis using Line Some ok
      by (cases line) (auto simp: client_conn_line_def handle_line_def end_connection_ok)
  qed
next
  case (Eof c)
  show ?thesis
  proof (cases "map_of (hb_live s) c")
    case None
    have "server_ok twice (leave_waiting c s) = server_ok twice s" by (rule server_ok_same) (simp_all add: leave_waiting_def)
    with None show ?thesis using ok Eof by (simp add: client_conn_eof_def)
  next
    case (Some k)
    then show ?thesis using end_connection_ok[OF ok Some] Eof by (simp add: client_conn_eof_def)
  qed
next
  case (Advance d)
  obtain s1 where s1: "hb_advance cfg d s = fold (\<lambda>(c, k). end_connection c k) (silent_conns cfg (hb_now s + d) s) s1"
      "hb_live s1 = hb_live s" "hb_symbols s1 = hb_symbols s" "hb_db s1 = hb_db s"
    using hb_advance_split by blast
  have dist: "distinct (map fst (hb_live s))" using ok by (simp add: server_ok_def)
  have "server_ok twice s1" using ok server_ok_same s1 by blast
  then have "server_ok twice (hb_advance cfg d s)" unfolding s1(1)
    by (rule end_all_ok) (use dist s1(2) in \<open>auto simp: silent_conns_def distinct_map_filter map_of_eq_Some_iff\<close>)
  then show ?thesis using Advance ok by simp
qed

lemma new_server_ok: "(\<And>r. r \<in> set (db_instruments db) \<Longrightarrow> ir_status r = DEAD) \<Longrightarrow> server_ok {} (new_hb_server db)"
  by (auto simp: server_ok_def new_hb_server_def rows_of_def)

lemma hb_runs_ok: "hb_runs cfg twice s \<Longrightarrow> server_ok twice s"
proof (induction rule: hb_runs.induct)
  case (runs_start db)
  then show ?case by (rule new_server_ok)
next
  case (runs_event twice s ev)
  show ?case using server_ok_more[OF runs_event.IH] by (intro hb_step_ok) simp_all
qed


text \<open>
  C39. What the status of an instrument tells, whatever the clients do. In every state a server reaches that started with dead
  instruments, an instrument that is alive has an open registered connection. The converse
  holds for every instrument that no second client has registered while a connection of it was open: it is alive exactly if
  a registered connection of it is open. (For the others it can fail: second_connection_declared_dead.)
\<close>

theorem status_tells_liveness:
  assumes "hb_runs cfg twice s" and "r \<in> set (db_instruments (hb_db s))"
  shows "(ir_status r = ALIVE \<longrightarrow> (\<exists>c k. map_of (hb_live s) c = Some k \<and> hc_symbol k = ir_symbol r))
     \<and> (ir_symbol r \<notin> twice \<longrightarrow>
          (ir_status r = ALIVE \<longleftrightarrow> (\<exists>c k. map_of (hb_live s) c = Some k \<and> hc_symbol k = ir_symbol r)))"
proof -
  have ok: "server_ok twice s" using assms(1) by (rule hb_runs_ok)
  have st: "ir_status r = ALIVE \<longleftrightarrow> map_of (hb_symbols s) (ir_symbol r) \<noteq> None"
    using ok assms(2) unfolding server_ok_def rows_of_def by blast
  have filed: "\<exists>k. map_of (hb_live s) c = Some k \<and> hc_symbol k = sy" if "map_of (hb_symbols s) sy = Some c" for sy c
    using ok that unfolding server_ok_def by blast
  have once: "map_of (hb_symbols s) (hc_symbol k) = Some c" if "map_of (hb_live s) c = Some k" "hc_symbol k \<notin> twice" for c k
    using ok that unfolding server_ok_def by blast
  show ?thesis unfolding st using filed[of "ir_symbol r"] once by (metis not_None_eq option.distinct(1))
qed

lemma end_all_effect:
  "(c, k) \<in> set cs \<Longrightarrow>
     map_of (hb_live (fold (\<lambda>(c, k). end_connection c k) cs s)) c = None
     \<and> c \<in> set (hb_closed (fold (\<lambda>(c, k). end_connection c k) cs s))
     \<and> (\<forall>r \<in> set (rows_of (fold (\<lambda>(c, k). end_connection c k) cs s)). ir_symbol r = hc_symbol k \<longrightarrow> ir_status r = DEAD)"
proof -
  let ?stop = "fold (\<lambda>(c, k). end_connection c k)"
  have keep: "map_of (hb_live (?stop cs s)) c = None" if "map_of (hb_live s) c = None" for cs s
    using that by (induction cs arbitrary: s) (auto simp: end_connection_fields map_of_dict_pop)
  have closed: "c \<in> set (hb_closed (?stop cs s))" if "c \<in> set (hb_closed s)" for cs s
    using that by (induction cs arbitrary: s) (auto simp: end_connection_fields)
  have dead: "\<forall>r \<in> set (rows_of (?stop cs s)). ir_symbol r = sy \<longrightarrow> ir_status r = DEAD"
    if "\<forall>r \<in> set (rows_of s). ir_symbol r = sy \<longrightarrow> ir_status r = DEAD" for cs s sy
    using that
  proof (induction cs arbitrary: s)
    case (Cons p cs)
    obtain c k where p: "p = (c, k)" by force
    have "\<forall>r \<in> set (rows_of (end_connection c k s)). ir_symbol r = sy \<longrightarrow> ir_status r = DEAD"
      using Cons.prems by (auto simp: end_connection_fields)
    then show ?case using Cons.IH by (simp add: p)
  qed simp
  show "(c, k) \<in> set cs \<Longrightarrow> ?thesis"
  proof (induction cs arbitrary: s)
    case (Cons p cs)
    show ?case
    proof (cases "p = (c, k)")
      case True
      let ?s = "end_connection c k s"
      have one: "map_of (hb_live ?s) c = None" "c \<in> set (hb_closed ?s)"
          "\<forall>r \<in> set (rows_of ?s). ir_symbol r = hc_symbol k \<longrightarrow> ir_status r = DEAD"
        by (auto simp: end_connection_fields map_of_dict_pop)
      have "?stop (p # cs) s = ?stop cs ?s" by (simp add: True)
      then show ?thesis using keep[OF one(1)] closed[OF one(2)] dead[OF one(3)] by metis
    next
      case False
      then show ?thesis using Cons by (cases p) auto
    qed
  qed simp
qed


text \<open>
  Silence is noticed: once the clock passes the deadline of a registered connection, the connection is closed
  and removed, and every instrument of its symbol is dead.
\<close>

theorem silence_is_noticed:
  assumes "map_of (hb_live s) c = Some k" and "0 \<le> d" and "hc_wait_since k + hf_heartbeat_timeout cfg \<le> hb_now s + d"
  shows "map_of (hb_live (hb_step cfg (Advance d) s)) c = None \<and> c \<in> set (hb_closed (hb_step cfg (Advance d) s))
         \<and> (\<forall>r \<in> set (db_instruments (hb_db (hb_step cfg (Advance d) s))). ir_symbol r = hc_symbol k \<longrightarrow> ir_status r = DEAD)"
proof -
  obtain s1 where s1: "hb_advance cfg d s = fold (\<lambda>(c, k). end_connection c k) (silent_conns cfg (hb_now s + d) s) s1"
    using hb_advance_split by blast
  have "(c, k) \<in> set (silent_conns cfg (hb_now s + d) s)"
    using assms map_of_SomeD by (fastforce simp: silent_conns_def)
  from end_all_effect[OF this, of s1] show ?thesis using assms(2) by (simp add: s1 rows_of_def)
qed




text \<open>
  A second registration is not protected: when two connections of one symbol are open and the older one ends, the instrument
  is declared dead and forgotten although the newer connection is still open.
\<close>

theorem second_connection_declared_dead:
  assumes "map_of (hb_live s) c = Some k" "map_of (hb_live s) c' = Some k'" "c \<noteq> c'" "hc_symbol k = hc_symbol k'"
  shows "map_of (hb_live (hb_step cfg (Eof c) s)) c' = Some k' \<and> map_of (hb_symbols (hb_step cfg (Eof c) s)) (hc_symbol k') = None
         \<and> (\<forall>r \<in> set (db_instruments (hb_db (hb_step cfg (Eof c) s))). ir_symbol r = hc_symbol k' \<longrightarrow> ir_status r = DEAD)"
proof -
  have t: "hb_step cfg (Eof c) s = end_connection c k s" by (simp add: client_conn_eof_def assms(1))
  show ?thesis unfolding t rows_of_def[symmetric] end_connection_fields
    using assms by (auto simp: map_of_dict_pop)
qed

section \<open>The client\<close>

text \<open>
  The client notices a lost server: after any number of heartbeats that were sent, the first one that meets a broken
  connection ends the thread, and the callback is called exactly once.
\<close>

theorem client_reports_loss:
  assumes "hl_alive s" "\<not> hl_stop s"
  shows "hb_thread (replicate n SendOk @ BrokenPipe # rest) s =
           s\<lparr> hl_sent := hl_sent s @ replicate n ''heartbeat'', hl_stop := True, hl_on_close := Suc (hl_on_close s), hl_alive := False \<rparr>"
  using assms
proof (induction n arbitrary: s)
  case 0
  then show ?case by (simp add: hb_thread.simps[of "BrokenPipe # rest"] client_send_def hb_thread.simps)
next
  case (Suc n)
  then show ?case
    by (simp add: hb_thread.simps[of "SendOk # _"] client_send_def)
qed

section \<open>An example\<close>

definition demo_config :: hb_config where
  "demo_config = \<lparr> hf_register_timeout = 5, hf_heartbeat_timeout = 5 \<rparr>"

definition demo_instrument :: "instrument_status \<Rightarrow> instrument_row" where
  "demo_instrument st = \<lparr> ir_id = ''i'', ir_symbol = ''BTC'', ir_starting_price = 100, ir_status = st \<rparr>"

definition demo_watch :: hb_server where
  "demo_watch = new_hb_server (empty_db\<lparr> db_instruments := [demo_instrument DEAD] \<rparr>)"

definition join :: "nat \<Rightarrow> hb_server \<Rightarrow> hb_server" where
  "join c s = hb_step demo_config (Line c (Msg (Some ''register'') (Some ''BTC''))) (hb_step demo_config (Accepted c) s)"


lemma demo_hb_conn:
  "map_of (hb_live (join 7 demo_watch)) 7 = Some \<lparr> hc_symbol = ''BTC'', hc_last_message = 0, hc_wait_since = 0 \<rparr>"
  "db_instruments (hb_db (join 7 demo_watch)) = [demo_instrument ALIVE]" "hb_now (join 7 demo_watch) = 0"
  by code_simp+

lemma demo_hb_runs: "hb_runs demo_config {} (join 7 demo_watch)" "\<exists>twice. hb_runs demo_config twice (join 8 (join 7 demo_watch))"
proof -
  have start: "hb_runs demo_config {} demo_watch" unfolding demo_watch_def by (rule runs_start) (simp add: demo_instrument_def)
  have none: "map_of (hb_live (hb_step demo_config (Accepted 7) demo_watch)) c = None" "map_of (hb_live demo_watch) c = None" for c
    by (simp_all add: demo_watch_def new_hb_server_def hb_accept_def)
  show run: "hb_runs demo_config {} (join 7 demo_watch)" unfolding join_def
    using runs_event[OF runs_event[OF start, of "Accepted 7"], of "Line 7 (Msg (Some ''register'') (Some ''BTC''))"] none
    by (simp add: registered_again_def del: hb_step.simps)
  show "\<exists>twice. hb_runs demo_config twice (join 8 (join 7 demo_watch))"
    unfolding join_def[of 8] using runs_event[OF runs_event[OF run]] by blast
qed

theorem status_tells_liveness_witness:
  "(\<exists>c k. map_of (hb_live (join 7 demo_watch)) c = Some k \<and> hc_symbol k = ''BTC'')
   \<and> (\<exists>c k. map_of (hb_live (join 8 (join 7 demo_watch))) c = Some k \<and> hc_symbol k = ''BTC'')"
proof -
  obtain twice where again: "hb_runs demo_config twice (join 8 (join 7 demo_watch))" using demo_hb_runs(2) by blast
  have "db_instruments (hb_db (join 8 (join 7 demo_watch))) = [demo_instrument ALIVE]" by code_simp
  then show ?thesis
    using status_tells_liveness[OF demo_hb_runs(1), of "demo_instrument ALIVE"] status_tells_liveness[OF again, of "demo_instrument ALIVE"]
      demo_hb_conn(2) by (simp add: demo_instrument_def)
qed

theorem silence_is_noticed_witness:
  "map_of (hb_live (hb_step demo_config (Advance 5) (join 7 demo_watch))) 7 = None
   \<and> db_instruments (hb_db (hb_step demo_config (Advance 5) (join 7 demo_watch))) = [demo_instrument DEAD]"
proof
  have "hc_wait_since \<lparr> hc_symbol = ''BTC'', hc_last_message = 0, hc_wait_since = 0 \<rparr> + hf_heartbeat_timeout demo_config
          \<le> hb_now (join 7 demo_watch) + 5" by (simp add: demo_hb_conn(3) demo_config_def)
  from silence_is_noticed[OF demo_hb_conn(1) _ this]
  show "map_of (hb_live (hb_step demo_config (Advance 5) (join 7 demo_watch))) 7 = None" by simp
  show "db_instruments (hb_db (hb_step demo_config (Advance 5) (join 7 demo_watch))) = [demo_instrument DEAD]" by code_simp
qed


theorem second_connection_declared_dead_witness:
  "map_of (hb_live (hb_step demo_config (Eof 7) (join 8 (join 7 demo_watch)))) 8
     = Some \<lparr> hc_symbol = ''BTC'', hc_last_message = 0, hc_wait_since = 0 \<rparr>
   \<and> db_instruments (hb_db (hb_step demo_config (Eof 7) (join 8 (join 7 demo_watch)))) = [demo_instrument DEAD]"
proof -
  have "map_of (hb_live (join 8 (join 7 demo_watch))) 7 = Some \<lparr> hc_symbol = ''BTC'', hc_last_message = 0, hc_wait_since = 0 \<rparr>"
    "map_of (hb_live (join 8 (join 7 demo_watch))) 8 = Some \<lparr> hc_symbol = ''BTC'', hc_last_message = 0, hc_wait_since = 0 \<rparr>"
    "db_instruments (hb_db (hb_step demo_config (Eof 7) (join 8 (join 7 demo_watch)))) = [demo_instrument DEAD]" by code_simp+
  then show ?thesis using second_connection_declared_dead[of "join 8 (join 7 demo_watch)" 7 _ 8 _ demo_config] by simp
qed

theorem client_reports_loss_witness:
  "hl_on_close (hb_thread [SendOk, SendOk, BrokenPipe] (snd (client_register SendOk new_client))) = 1
   \<and> hl_sent (hb_thread [SendOk, SendOk, BrokenPipe] (snd (client_register SendOk new_client))) = [''register'', ''heartbeat'', ''heartbeat'']"
proof -
  have "replicate 2 SendOk @ BrokenPipe # [] = [SendOk, SendOk, BrokenPipe]" by (simp add: eval_nat_numeral)
  moreover have "snd (client_register SendOk new_client)
      = \<lparr> hl_stop = False, hl_sent = [''register''], hl_on_close = 0, hl_alive = True, hl_socket = True \<rparr>"
    by (simp add: client_register_def client_send_def new_client_def act_simps)
  ultimately show ?thesis
    using client_reports_loss[of "snd (client_register SendOk new_client)" 2 "[]"] by (simp add: eval_nat_numeral)
qed

end
