(* ===== verification/Rate_Limiter.thy ===== *)
theory Rate_Limiter imports Complex_Main begin

text \<open>
  \<open>api/middlewares/rate_limit_middleware.py\<close>: a fixed window per client host. The dictionary of records is a function with
  the default of the code, \<open>(0, 0)\<close>; time is a number of seconds. What the application behind the
  middleware does is not part of the model: a request is passed on or answered.
\<close>

section \<open>The middleware\<close>

record limiter =
  lm_limit :: nat
  lm_window :: rat

type_synonym records = "string \<Rightarrow> rat \<times> nat"

datatype verdict = PassedOn | Refused nat

record http_scope =
  sc_http :: bool
  sc_host :: "string option"

definition fresh_records :: records where
  "fresh_records h = (0, 0)"

definition middleware_call :: "limiter \<Rightarrow> rat \<Rightarrow> http_scope \<Rightarrow> records \<Rightarrow> verdict \<times> records" where
  "middleware_call l now sc recs =
     (if \<not> sc_http sc then (PassedOn, recs)
      else case sc_host sc of
             None \<Rightarrow> (Refused 400, recs)
           | Some host \<Rightarrow>
               if host = [] then (Refused 400, recs)
               else let (start, count) = recs host;
                        (start', count') = (if lm_window l \<le> now - start then (now, 0) else (start, count))
                    in if lm_limit l \<le> count' then (Refused 429, recs)
                       else (PassedOn, recs(host := (start', count' + 1))))"

text \<open>A sequence of HTTP requests, each with its host and time: those passed on, and the records after them.\<close>

fun serve_requests :: "limiter \<Rightarrow> (string \<times> rat) list \<Rightarrow> records \<Rightarrow> (string \<times> rat) list \<times> records" where
  "serve_requests l [] recs = ([], recs)"
| "serve_requests l ((h, t) # rs) recs =
     (case middleware_call l t \<lparr> sc_http = True, sc_host = Some h \<rparr> recs of
        (v, recs1) \<Rightarrow>
          (case serve_requests l rs recs1 of
             (passed, recs2) \<Rightarrow> (if v = PassedOn then (h, t) # passed else passed, recs2)))"

section \<open>How many requests pass\<close>

definition passed_in :: "limiter \<Rightarrow> string \<Rightarrow> rat \<Rightarrow> rat \<Rightarrow> (string \<times> rat) list \<Rightarrow> records \<Rightarrow> nat" where
  "passed_in l h lo hi rs recs =
     length (filter (\<lambda>(h', t). h' = h \<and> lo \<le> t \<and> t < hi) (fst (serve_requests l rs recs)))"

text \<open>
  What is left for the interval of one window's length from \<open>a\<close>, given the record of the host: nothing if
  the window of the record starts after it, the rest of that window if it starts inside, the rest and a whole window if it starts
  before; and if it is over, what a window that starts before leaves at most.
\<close>

definition room :: "limiter \<Rightarrow> rat \<Rightarrow> rat \<times> nat \<Rightarrow> nat" where
  "room l a rec =
     (case rec of (start, count) \<Rightarrow>
        if a + lm_window l \<le> start then 0
        else if a \<le> start then lm_limit l - count
        else if a < start + lm_window l then 2 * lm_limit l - count
        else 2 * lm_limit l - 1)"

lemma call_cases:
  assumes "h \<noteq> []" "recs h = (start, count)"
  shows "middleware_call l t \<lparr> sc_http = True, sc_host = Some h \<rparr> recs =
    (if lm_window l \<le> t - start
     then (if lm_limit l = 0 then (Refused 429, recs) else (PassedOn, recs(h := (t, 1))))
     else if lm_limit l \<le> count then (Refused 429, recs) else (PassedOn, recs(h := (start, count + 1))))"
  using assms by (simp add: middleware_call_def)

lemma call_other:
  "h' \<noteq> h \<Longrightarrow> middleware_call l t \<lparr> sc_http = True, sc_host = Some h' \<rparr> recs = (v, recs') \<Longrightarrow> recs' h = recs h"
  by (auto simp: middleware_call_def Let_def split: if_splits prod.splits)

lemma room_step:
  assumes w: "0 < lm_window l" and c: "count \<le> lm_limit l" "start \<le> t"
    and call: "middleware_call l t \<lparr> sc_http = True, sc_host = Some h \<rparr> recs = (v, recs')" and h: "h \<noteq> []" "recs h = (start, count)"
  shows "\<exists>start' count'. recs' h = (start', count') \<and> count' \<le> lm_limit l \<and> start' \<le> t
     \<and> (if v = PassedOn \<and> a \<le> t \<and> t < a + lm_window l then 1 else 0) + room l a (recs' h) \<le> room l a (recs h)"
proof (cases "lm_window l \<le> t - start")
  case True
  then show ?thesis
    using call[unfolded call_cases[of h recs start count, OF h]] c w h(2) by (cases "lm_limit l = 0") (auto simp: room_def)
next
  case False
  then show ?thesis
    using call[unfolded call_cases[of h recs start count, OF h]] c w h(2) by (cases "lm_limit l \<le> count") (auto simp: room_def)
qed

lemma passed_in_room:
  assumes w: "0 < lm_window l" and h: "h \<noteq> []"
  shows "sorted (map snd rs) \<Longrightarrow> (\<And>h' t. (h', t) \<in> set rs \<Longrightarrow> fst (recs h) \<le> t) \<Longrightarrow> snd (recs h) \<le> lm_limit l \<Longrightarrow>
     passed_in l h a (a + lm_window l) rs recs \<le> room l a (recs h)"
proof (induction rs arbitrary: recs)
  case Nil
  then show ?case by (simp add: passed_in_def)
next
  case (Cons r rs)
  obtain h' t where r: "r = (h', t)" by force
  obtain v recs' where call: "middleware_call l t \<lparr> sc_http = True, sc_host = Some h' \<rparr> recs = (v, recs')" by fastforce
  have later: "t \<le> t'" if "(h'', t') \<in> set rs" for h'' t' using Cons.prems(1) that r by force
  have split: "passed_in l h a (a + lm_window l) (r # rs) recs
      = (if v = PassedOn \<and> h' = h \<and> a \<le> t \<and> t < a + lm_window l then 1 else 0) + passed_in l h a (a + lm_window l) rs recs'"
    by (simp add: passed_in_def r call split: prod.splits)
  show ?case
  proof (cases "h' = h")
    case True
    obtain start count where rec: "recs h = (start, count)" by fastforce
    have "start \<le> t" "count \<le> lm_limit l" using Cons.prems(2)[of h' t] Cons.prems(3) r rec by simp_all
    from room_step[OF w this(2,1) call[unfolded True] h rec, of a]
    obtain start' count' where n: "recs' h = (start', count')" "count' \<le> lm_limit l" "start' \<le> t"
        "(if v = PassedOn \<and> a \<le> t \<and> t < a + lm_window l then 1 else 0) + room l a (recs' h) \<le> room l a (recs h)" by blast
    have "passed_in l h a (a + lm_window l) rs recs' \<le> room l a (recs' h)"
      using Cons.IH[of recs'] Cons.prems(1) later n(1-3) r by (force intro: order_trans)
    then show ?thesis using n(4) True by (simp add: split)
  next
    case False
    then have "recs' h = recs h" using call_other[OF _ call] by blast
    then have "passed_in l h a (a + lm_window l) rs recs' \<le> room l a (recs h)"
      using Cons.IH[of recs'] Cons.prems r by auto
    then show ?thesis using False by (simp add: split)
  qed
qed

text \<open>
  The rate limit bounds the traffic of a host: whatever the other hosts send, a host passes at most twice the limit, less
  one, in any period of one window's length, and at most the limit in the period that begins with a request that starts a window.
\<close>

theorem rate_limit_bounds:
  assumes "0 < lm_window l" "h \<noteq> []" "sorted (map snd rs)" "\<And>h' t. (h', t) \<in> set rs \<Longrightarrow> 0 \<le> t" "lm_window l \<le> a"
  shows "passed_in l h a (a + lm_window l) rs fresh_records \<le> 2 * lm_limit l - 1
         \<and> (\<forall>rs' t recs. rs = (h, t) # rs' \<and> fst (recs h) + lm_window l \<le> t \<and> snd (recs h) \<le> lm_limit l \<longrightarrow>
              passed_in l h t (t + lm_window l) rs recs \<le> lm_limit l)"
proof (intro conjI allI impI)
  have "room l a (fresh_records h) \<le> 2 * lm_limit l - 1" using assms(1,5) by (simp add: room_def fresh_records_def)
  then show "passed_in l h a (a + lm_window l) rs fresh_records \<le> 2 * lm_limit l - 1"
    using passed_in_room[OF assms(1,2), of rs fresh_records a] assms(3,4) by (simp add: fresh_records_def)
next
  fix rs' t recs
  assume r: "rs = (h, t) # rs' \<and> fst (recs h) + lm_window l \<le> t \<and> snd (recs h) \<le> lm_limit l"
  have later: "t \<le> t'" if "(h', t') \<in> set rs'" for h' t' using assms(3) r that by force
  obtain start count where rec: "recs h = (start, count)" by fastforce
  have call: "middleware_call l t \<lparr> sc_http = True, sc_host = Some h \<rparr> recs =
      (if lm_limit l = 0 then (Refused 429, recs) else (PassedOn, recs(h := (t, 1))))"
    using call_cases[of h recs start count l t, OF assms(2) rec] r rec by simp
  show "passed_in l h t (t + lm_window l) rs recs \<le> lm_limit l"
  proof (cases "lm_limit l = 0")
    case True
    have "passed_in l h t (t + lm_window l) rs recs \<le> room l t (recs h)"
      using passed_in_room[OF assms(1,2), of rs recs t] assms(1,3) r rec later by force
    then show ?thesis using True rec r by (auto simp: room_def split: if_splits)
  next
    case False
    have "passed_in l h t (t + lm_window l) rs' (recs(h := (t, 1))) \<le> room l t (t, 1)"
      using passed_in_room[OF assms(1,2), of rs' "recs(h := (t, 1))" t] assms(3) r later False by force
    then have "passed_in l h t (t + lm_window l) rs' (recs(h := (t, 1))) \<le> lm_limit l - 1"
      using assms(1) by (simp add: room_def)
    then show ?thesis using False r call assms(1) by (cases "serve_requests l rs' (recs(h := (t, 1)))") (auto simp: passed_in_def)
  qed
qed

theorem rate_limit_bounds_witness:
  "passed_in \<lparr> lm_limit = 2, lm_window = 60 \<rparr> ''h'' 159 219 [(''h'', 100), (''h'', 159), (''h'', 160), (''h'', 160), (''h'', 160)] fresh_records = 3"
proof -
  let ?l = "\<lparr> lm_limit = 2, lm_window = 60 \<rparr>"
  let ?rs = "[(''h'', 100), (''h'', 159), (''h'', 160), (''h'', 160), (''h'', 160)]"
  have "passed_in ?l ''h'' 159 (159 + lm_window ?l) ?rs fresh_records \<le> 2 * lm_limit ?l - 1"
    by (rule rate_limit_bounds[of ?l "''h''" ?rs 159, THEN conjunct1]) auto
  moreover have "3 \<le> passed_in ?l ''h'' 159 219 ?rs fresh_records" by code_simp
  ultimately show ?thesis by simp
qed

end
