(* ===== verification/Spec2Isabelle.thy ===== *)
theory Spec2Isabelle imports Orchestrator Linked_Snapshots Ohlc_Builder Pipeline Limit_Market
  Account_Sessions Order_Feed Market_Feed App_Start Heartbeat Rate_Limiter begin

text \<open>
  A verification of the spectuel trading backend.

  \<^bold>\<open>The program.\<close> Orders enter through an HTTP API, which validates them, stores them and puts a command on
  Kafka. One process per instrument, the orchestrator, feeds the commands of its symbol to a matching
  engine. The engine keeps the order book, the order objects and their strategies (single, one cancels the
  other, one triggers another, one triggers one cancels the other), moves money and assets between the
  accounts in Redis, and publishes order, trade and balance events. A second process, the shadow, replays
  the same commands and stores snapshots, from which an engine is restored. The events are consumed by
  the event handlers, which mirror them into the database, by the builder of bars, by the publisher of
  aggregated books and by the fan-out onto topics; two WebSocket feeds deliver them to clients. A heartbeat server records which engines
  are alive. All paths below are under \<open>src/src\<close>.

  \<^bold>\<open>How the code is translated.\<close> A class is a record, an enumeration a datatype, an object that is shared
  (an order, a list node, a socket) a number that is its address. Code that raises is an action of type
  \<open>('s, 'a) act\<close>: it gives an exception or a result and the state it leaves, so what was written before
  the exception stays. A handler that runs in a database session gives the database back unchanged when it raises.
  Dictionaries whose order matters are association lists. Floating point numbers are rationals: the model is
  exact, rounding is written out where the code rounds, and what binary floating point adds is not part of it.
  Concurrent code is a sequence of steps, each what runs between two places where it may wait.

  \<^bold>\<open>The theories of the engine.\<close>
  \<^item> \<open>Prelude\<close>: exceptions, actions, the contract \<open>frame\<close> of a reflexive and transitive relation between states, dictionaries, rounding.
  \<^item> \<open>Sorted_Dict\<close>: \<open>sortedcontainers.SortedDict\<close> as an interface with laws; \<open>Balance_Store\<close>: Redis likewise, and the three Lua scripts.
  \<^item> \<open>Price_Level\<close>, \<open>Order_Book\<close> (\<open>engine/orderbook\<close>, \<open>engine/utils.py\<close>): the linked lists and the two
    sides, shown to implement queues by price (\<open>level_repr\<close>, \<open>book_repr\<close>); the cached best prices are the
    extreme prices; append, remove and the crossing test are correct on every branch.
  \<^item> \<open>Engine_Types\<close>, \<open>Orders\<close>, \<open>Engine_Events\<close> (\<open>engine/enums.py\<close>, \<open>commands.py\<close>, \<open>orders\<close>, \<open>events\<close>, \<open>loggers\<close>): the data and the state of one engine.
  \<^item> \<open>Balance_Manager\<close> (\<open>engine/services\<close>): every movement publishes its event and adds exactly its amount, once per event id.
  \<^item> \<open>Strategies\<close>, \<open>Spot_Engine\<close> (\<open>engine/strategies\<close>, \<open>engine/matching_engines\<close>): the handlers and the matching loop.
  \<^item> \<open>Engine_Frame\<close>, \<open>Engine_Invariants\<close>: a law for each primitive operation carries a relation through every command;
    used for the invariant of the book, for what no command changes, and for the agreement of Redis with the published events.
  \<^item> \<open>Matching\<close>, \<open>Single_Engine\<close>, \<open>Behaviour\<close>, \<open>Error_Paths\<close>: termination and bounds for single orders, what
    new orders and cancellations do, and the commands that raise whatever the state.
  \<^item> \<open>Price_Time\<close>: rules for total correctness of actions, and with them price-time priority: on a book of single orders the
    loop over levels and linked lists does what the reference \<open>sweep\<close> does to the list of resting orders.
  \<^item> \<open>Limit_Orders\<close>: engines that receive new limit orders and cancellations (\<open>limit_reach\<close>). They stay \<open>orderly\<close>, which is why such
    commands never raise; \<open>Limit_Market\<close>: so a new instrument handles every stream of them.
  \<^item> \<open>Snapshots\<close>, \<open>Linked_Snapshots\<close>: the written form of an engine, of plain orders in their levels and of the linked orders with their cycles.
  \<^item> \<open>Orchestrator\<close> (\<open>engine/restoration\<close>, \<open>engine/engine_orchestrator\<close>): loading, seeding, the command loop, the shadow.
    What a message says (\<open>own_messages\<close>) is defined without the parser, which is shown to read exactly that.

  \<^bold>\<open>The theories of the services.\<close>
  \<^item> \<open>Database\<close> (\<open>infra/db/models\<close>): the tables and sessions.
  \<^item> \<open>Event_Handlers\<close>, \<open>Ohlc_Builder\<close>, \<open>Book_Publisher\<close> (\<open>services\<close>): the consumers; the tables stay consistent, redelivery changes nothing,
    bars are candlesticks, published levels are sums of active orders and a snapshot shows the best of each side.
  \<^item> \<open>Order_Api\<close> (\<open>api/routers/orders\<close>): validation, creation, queries, modification and cancellation. A session of a request is
    the block of \<open>smaker.begin()\<close>, in which SQLAlchemy refuses every statement after a commit: so linked orders, which are
    refreshed after it, are stored and answered with a server error, and only single orders reach an engine.
  \<^item> \<open>Pipeline\<close>: the messages as the consumers read them. Whatever the engine publishes passes their validation, and one order is
    followed from the request to the queue, its row and the published book, and out again.
  \<^item> \<open>Accounts\<close>, \<open>Account_Sessions\<close> (\<open>api/routers/auth\<close>, \<open>services/jwt\<close>): registration, tokens, verification, changes of credentials.
  \<^item> \<open>Cleanup_Queue\<close>, \<open>Order_Feed\<close>, \<open>Market_Feed\<close> (\<open>api/ws/orders\<close>, \<open>api/routers/markets\<close>): who receives what; the contract of the two clean-up workers.
  \<^item> \<open>Market_Api\<close>, \<open>App_Start\<close> (\<open>api/routers/markets\<close>, \<open>api/routers/users\<close>, \<open>api/app.py\<close>): the pages that read, and what the start writes.
  \<^item> \<open>Heartbeat\<close> (\<open>engine/heartbeat\<close>) and \<open>Rate_Limiter\<close> (\<open>api/middlewares\<close>): liveness of engines, windows per host.
  This theory holds the properties that span components: sequences of commands, snapshots and restarts, the way of an order
  through all processes, the orchestrator's loop.

  \<^bold>\<open>Interfaces.\<close> \<open>sorted_dict\<close>, \<open>redis\<close>, \<open>order_book\<close>, \<open>balance_env\<close>, \<open>book_env\<close>, \<open>engine_env\<close>, \<open>frame\<close>, \<open>state_frame\<close>,
  \<open>engine_frame\<close> and \<open>cleanup_queue\<close> are locales. The first two are what the code relies on of a package and of a
  service; they are interpreted on a sorted association list and on a pair of maps. The others are interpreted on the
  definitions of the model.
  What else comes from outside is an argument: the UUIDs drawn, the clock, the parser of UUIDs, the configured
  names, signing and reading tokens (\<open>jwt_library\<close>: a token that was signed reads back as its payload until it expires), the
  server's offset from UTC, by which the expiry of tokens is shifted,
  hashing passwords, the outcome of sends and of inserting bars.

  \<^bold>\<open>Bounds.\<close> The matching loops take fuel, and running out is the outcome \<open>Diverge\<close>, which no run of the code
  has: fuel for the nodes of the book plus its levels is enough for single orders
  (\<open>single_commands_terminate\<close>), because addresses grow along a queue and every further round has emptied a level. A crossing order needs
  at most twice the orders of the other side (\<open>crossing_order_sweeps\<close>), hence at most twice the order objects. For linked orders no
  bound is shown; their theorems hold for any fuel. In the snapshots the number \<open>k\<close> is the depth of nested calls the
  interpreter allows, and using it up is the \<open>RecursionError\<close> the code raises. Following the pages of bars ends with fuel for the rows
  of the table.

  \<^bold>\<open>Faults.\<close> Where the code does not do what it means to, a theorem states what it does: the names of such theorems
  say so (\<open>unsupported_commands_raise\<close>, \<open>taker_limit_ignored\<close>, \<open>escrow_left_over\<close>, \<open>shadow_misses_rejection\<close>,
  \<open>second_connection_declared_dead\<close>, \<open>token_born_expired\<close>, \<open>reconnect_loses_feed\<close>, \<open>market_feed_is_silent\<close>, \<open>verification_mints_cash\<close>, \<open>otoco_to_dict_never_ends\<close> and others).

  \<^bold>\<open>Not modelled.\<close> Starting and stopping consumers, servers, threads and processes; the clients of Redis, Kafka, the
  database and the mail service; the command line; the migrations, which are generated; the columns the database fills in
  (creation times, also in the dictionary of a single order, which the engine does not read) and the raw JSON of the event tables; the copy of the tables in \<open>db_models.py\<close>, which nothing imports;
  \<open>SingleOrderMeta\<close> in \<open>engine/commands.py\<close>, which nothing constructs; the registration of routers and of the handlers that turn exceptions into responses
  (a failure carries the status they give it).
\<close>

section \<open>Commands\<close>

text \<open>
  C1. Whatever command an engine receives and whatever it answers, also when a handler raises, the
  order book keeps its invariant: no level is empty, the cached best prices are the extreme prices of
  the two sides, every level is a well-formed doubly linked list whose tracker knows exactly its
  orders, and no list node belongs to two levels.
\<close>

theorem handle_command_keeps_book:
  assumes "order_book (levels_api x) ok"
    and "book_inv (levels_api x) ok (e_book s)"
    and "handle_command x k cmd s = (res, t)"
  shows "book_inv (levels_api x) ok (e_book t)"
proof -
  have "book_env x ok" using assms(1) by (simp add: book_env_def)
  from stays_inv_relD[OF book_env.command_keeps_book[OF this] assms(3)] show ?thesis
    using assms(2) by (simp add: engine_book_inv_def)
qed

definition demo_order :: "string \<Rightarrow> string \<Rightarrow> side \<Rightarrow> rat \<Rightarrow> rat \<Rightarrow> order_dict" where
  "demo_order i u sd q p =
     \<lparr> od_order_id = i, od_user_id = u, od_symbol = ''BTC'', od_side = sd, od_order_type = LIMIT,
       od_quantity = q, od_limit_price = Some p, od_stop_price = None, od_status = ''pending'',
       od_strategy_type = SINGLE, od_executed_quantity = Some 0, od_avg_fill_price = None \<rparr>"

definition demo_new :: "string \<Rightarrow> string \<Rightarrow> side \<Rightarrow> rat \<Rightarrow> rat \<Rightarrow> command" where
  "demo_new i u sd q p =
     \<lparr> cmd_id = ''c'', cmd_body = NewOrderCommand SINGLE (NewSingle (demo_order i u sd q p)) \<rparr>"

definition demo_engine :: "((rat \<times> price_level) list, redis_maps) engine" where
  "demo_engine = new_engine demo_env ''BTC'' empty_maps 0"

theorem handle_command_keeps_book_witness:
  "let t = snd (handle_command demo_env 5 (demo_new ''a'' ''SYS'' ASK 10 100) demo_engine)
   in book_inv alist_sdict alist_ok (e_book t) \<and> best_price (e_book t) ASK = Some 100"
proof -
  let ?r = "handle_command demo_env 5 (demo_new ''a'' ''SYS'' ASK 10 100) demo_engine"
  have "book_inv (levels_api demo_env) alist_ok (e_book demo_engine)"
    using alb.repr_new[of 100] by (auto simp: book_inv_def demo_engine_def new_engine_def)
  from handle_command_keeps_book[OF _ this, of 5 "demo_new ''a'' ''SYS'' ASK 10 100" "fst ?r" "snd ?r"]
  have "book_inv alist_sdict alist_ok (e_book (snd ?r))" by (simp add: alb.order_book_axioms)
  moreover have "best_price (e_book (snd ?r)) ASK = Some 100" by code_simp
  ultimately show ?thesis by (simp add: Let_def)
qed


section \<open>Event sourcing\<close>

text \<open>
  C2. The balances in Redis are the sum of the published balance events: after any sequence of commands,
  failing ones included, each balance and escrow of the instrument equals what it was before plus the
  movements in the events the engine sent to Kafka meanwhile. (A cash balance that was never set is
  excluded: reading it writes the default amount without an event.)
\<close>

theorem balances_are_event_sourced:
  assumes "redis (redis_of x)" and "keys_apart x (e_symbol s)" and "fresh_logs x s"
  shows "\<exists>kms. e_kafka (serve x k cmds s) = e_kafka s @ kms \<and>
           (\<forall>a \<in> accounts (e_symbol s). \<forall>u. (a = CashBalance \<longrightarrow> acct_set x s a u) \<longrightarrow>
              acct x (serve x k cmds s) a u = acct x s a u + total_moved kms a u)"
proof -
  have env: "balance_env x" using assms(1) by (simp add: balance_env_def)
  have "sourced x s (serve x k cmds s)"
    by (rule stays_serve[OF src.frame_axioms]) (rule balance_env.command_sourced[OF env])
  then show ?thesis using assms(2,3) unfolding sourced_def by blast
qed

definition demo_funds :: redis_maps where
  "demo_funds = \<lparr> numbers = [(''CB/u'', 10000), (''BTC:v:balance'', 50)], logs = [] \<rparr>"

definition demo_market :: "((rat \<times> price_level) list, redis_maps) engine" where
  "demo_market = new_engine demo_env ''BTC'' demo_funds 0"

lemma demo_market_fresh: "fresh_logs demo_env demo_market" "e_symbol demo_market = ''BTC''"
  by (simp_all add: fresh_logs_def demo_market_def new_engine_def demo_funds_def maps_redis_def)

theorem balances_are_event_sourced_witness:
  "let t = serve demo_env 5 [demo_new ''a'' ''v'' ASK 10 100, demo_new ''b'' ''u'' BID 4 100] demo_market in
   acct demo_env t CashBalance ''u'' = 9600 \<and> total_moved (e_kafka t) CashBalance ''u'' = - 400"
proof -
  let ?c = "[demo_new ''a'' ''v'' ASK 10 100, demo_new ''b'' ''u'' BID 4 100]"
  have "acct demo_env (serve demo_env 5 ?c demo_market) CashBalance ''u'' = 9600"
    "acct demo_env demo_market CashBalance ''u'' = 10000" by code_simp+
  moreover have "acct_set demo_env demo_market CashBalance ''u''" "e_kafka demo_market = []"
    by (simp_all add: acct_set_def demo_market_def new_engine_def demo_funds_def maps_redis_def get_cash_balance_key_def)
  moreover have "keys_apart demo_env (e_symbol demo_market)"
    using demo_keys_apart by (simp add: demo_market_fresh)
  ultimately show ?thesis
    using balances_are_event_sourced[of demo_env demo_market 5 ?c] mr.redis_axioms demo_market_fresh
    by (auto simp: accounts_def Let_def)
qed

section \<open>Single orders\<close>

text \<open>
  C4. An engine that has only seen single orders answers every further such command: with fuel for one
  round per list node and price level of the book, matching never runs out of it, so the loops of the
  matching engine terminate.
\<close>

theorem single_commands_terminate:
  assumes "order_book (levels_api x) ok" and "single_reach x s" and "single_body (cmd_body cmd)" and "fuel_for x s \<le> k"
  shows "fst (handle_command x k cmd s) \<noteq> Inl Diverge"
proof -
  have env: "book_env x ok" using assms(1) by (simp add: book_env_def)
  show ?thesis
    by (rule book_env.command_enough_fuel[OF env book_env.reach_inv[OF env assms(2)] assms(3,4)])
qed

lemma demo_market_reach: "single_reach demo_env demo_market"
  unfolding demo_market_def by (rule single_reach.start)

definition demo_asked :: "((rat \<times> price_level) list, redis_maps) engine" where
  "demo_asked = snd (handle_command demo_env 0 (demo_new ''a'' ''v'' ASK 10 100) demo_market)"

lemma demo_asked_reach: "single_reach demo_env demo_asked"
proof -
  let ?c = "demo_new ''a'' ''v'' ASK 10 100"
  have "fuel_for demo_env demo_market = 0" by code_simp
  moreover have "single_body (cmd_body ?c)" by (simp add: demo_new_def demo_order_def start_quantity_def)
  moreover have "handle_command demo_env 0 ?c demo_market = (fst (handle_command demo_env 0 ?c demo_market), demo_asked)"
    by (simp add: demo_asked_def)
  ultimately show ?thesis using single_reach.command[OF demo_market_reach] by metis
qed

theorem single_commands_terminate_witness:
  "fuel_for demo_env demo_asked = 2 \<and>
   fst (handle_command demo_env 2 (demo_new ''b'' ''u'' BID 4 100) demo_asked) \<noteq> Inl Diverge"
proof -
  have "fuel_for demo_env demo_asked = 2" by code_simp
  then show ?thesis
    using single_commands_terminate[OF _ demo_asked_reach, of alist_ok "demo_new ''b'' ''u'' BID 4 100" 2]
      alb.order_book_axioms by (simp add: demo_new_def demo_order_def start_quantity_def)
qed

text \<open>
  C5. No order is ever filled beyond its quantity: in every engine reachable with single orders the
  executed quantity of every order lies between zero and the quantity it asked for.
\<close>

theorem orders_never_overfilled:
  assumes "order_book (levels_api x) ok" and "single_reach x s" and "od \<in> set (e_objs s)"
  shows "0 \<le> executed_quantity od \<and> executed_quantity od \<le> quantity od"
proof -
  have "book_env x ok" using assms(1) by (simp add: book_env_def)
  from book_env.reach_inv[OF this assms(2)] show ?thesis using assms(3) by (simp add: single_inv_def filled_ok_def)
qed

theorem orders_never_overfilled_witness:
  "let od = hd (e_objs demo_asked) in 0 \<le> executed_quantity od \<and> executed_quantity od \<le> 10"
proof -
  have "e_objs demo_asked \<noteq> []" "quantity (hd (e_objs demo_asked)) = 10" by code_simp+
  then show ?thesis
    using orders_never_overfilled[OF _ demo_asked_reach, of alist_ok "hd (e_objs demo_asked)"] alb.order_book_axioms
    by (simp add: Let_def)
qed

section \<open>What no command changes\<close>

text \<open>
  C6. No sequence of commands changes what an order is: its id, user, symbol, side, type, quantity,
  limit price, stop price and strategy stay, and its list of fills only grows. In particular a
  modification never changes the price an order trades at. The price of the book never changes either,
  since nothing calls set_price.
\<close>

theorem commands_keep_identities:
  "ob_cur_price (e_book (serve x k cmds s)) = ob_cur_price (e_book s) \<and>
   (\<forall>r. r < length (e_objs s) \<longrightarrow>
      r < length (e_objs (serve x k cmds s)) \<and> same_order (obj s r) (obj (serve x k cmds s) r)
      \<and> order_price (obj (serve x k cmds s) r) = order_price (obj s r))"
proof -
  have "engine_constant s (serve x k cmds s)"
    by (rule stays_serve[OF const.frame_axioms]) (rule const.stays_handle_command)
  moreover have "same_order a b \<Longrightarrow> order_price b = order_price a" for a b
    by (simp add: same_order_def order_price_def cong: order_type.case_cong)
  ultimately show ?thesis by (auto simp: engine_constant_def obj_def)
qed

theorem commands_keep_identities_witness:
  "let t = serve demo_env 5 [\<lparr> cmd_id = ''m'', cmd_body = ModifyOrderCommand ''a'' (Some 120) None \<rparr>] demo_asked
   in order_price (obj t 0) = Inr (Some 100) \<and> ob_cur_price (e_book t) = 100"
proof -
  let ?c = "[\<lparr> cmd_id = ''m'', cmd_body = ModifyOrderCommand ''a'' (Some 120) None \<rparr>]"
  have "order_price (obj demo_asked 0) = Inr (Some 100)" "ob_cur_price (e_book demo_asked) = 100"
    "length (e_objs demo_asked) = 1" by code_simp+
  then show ?thesis using commands_keep_identities[of demo_env 5 ?c demo_asked] by (auto simp: Let_def)
qed

text \<open>
  C7. A shadow engine never touches the outside: whatever commands it replays, the balances in Redis and
  the messages on Kafka stay as they were.
\<close>

theorem shadow_touches_nothing:
  assumes "e_shadow s \<noteq> None"
  shows "e_redis (serve x k cmds s) = e_redis s \<and> e_kafka (serve x k cmds s) = e_kafka s"
proof -
  have "shadow_quiet s (serve x k cmds s)"
    by (rule stays_serve[OF shq.frame_axioms]) (rule shf.stays_handle_command)
  then show ?thesis using assms by (simp add: shadow_quiet_def)
qed

theorem shadow_touches_nothing_witness:
  "let t = serve demo_env 5 [demo_new ''b'' ''u'' BID 4 100] (demo_asked\<lparr> e_shadow := Some ([], 0) \<rparr>)
   in length (e_objs t) = 2 \<and> length (e_kafka t) = length (e_kafka demo_asked)"
proof -
  let ?s = "demo_asked\<lparr> e_shadow := Some ([], 0) \<rparr>" and ?c = "[demo_new ''b'' ''u'' BID 4 100]"
  have "length (e_objs (serve demo_env 5 ?c ?s)) = 2" by code_simp
  then show ?thesis using shadow_touches_nothing[of ?s demo_env 5 ?c] by (simp add: Let_def)
qed

section \<open>What a command does\<close>

text \<open>
  C8. A limit order of an ordinary user that does not cross the book is accepted: the command ends
  normally, the order joins the end of the queue of its side and price, nothing else in the book
  changes, the store knows it, its status is placed, and no balance moves.
\<close>

theorem new_order_rests:
  assumes "order_book (levels_api x) ok" and "book_repr (levels_api x) ok (e_book s) ab"
    and "cmd_body cmd = NewOrderCommand SINGLE (NewSingle d)"
    and "od_order_type d = LIMIT" and "od_limit_price d = Some p"
    and "limit_crossable (Some p) (od_side d) (e_book s) = Inr False"
    and "od_order_id d \<notin> fst ` set (ab (od_side d) p)" and "store_get s (od_order_id d) = None"
    and "is_uuid x (od_order_id d)" and "is_uuid x (cmd_id cmd)"
  shows "\<exists>t. handle_command x k cmd s = (Inr (), t)
     \<and> book_repr (levels_api x) ok (e_book t)
         (ab_append ab (od_side d) p (od_order_id d) (length (ob_nodes (e_book s))))
     \<and> n_order (ob_nodes (e_book t) ! length (ob_nodes (e_book s))) = length (e_objs s)
     \<and> store_get t (od_order_id d) = Some (length (e_objs s))
     \<and> o_status (obj t (length (e_objs s))) = ''placed'' \<and> e_redis t = e_redis s"
  using new_order_command[OF assms(1-10)] by auto

lemma level_at:
  "book_repr d ok ob ab \<Longrightarrow>
   case sd_lookup d (side_levels ob sd) p of
     None \<Rightarrow> ab sd p = [] | Some l \<Rightarrow> ab sd p \<noteq> [] \<and> level_repr (ob_nodes ob) l (ab sd p)"
  unfolding book_repr_def by blast

lemma repr_tracked:
  assumes "book_repr d ok ob ab" "sd_lookup d (side_levels ob sd) p = Some l" "lv_tracker l i = Some n"
  shows "i \<in> fst ` set (ab sd p)"
  using level_at[OF assms(1), of sd p] assms(2,3)
  by (auto simp: level_repr_def dest!: map_of_SomeD intro: key_of_pair)

lemma demo_crosses: "limit_crossable (Some p) BID (e_book demo_asked) = Inr (100 \<le> p)"
proof -
  have "best_price (e_book demo_asked) ASK = Some 100" by code_simp
  then show ?thesis by (simp add: limit_crossable_def)
qed

lemma demo_asked_repr: "\<exists>ab. book_repr alist_sdict alist_ok (e_book demo_asked) ab"
proof -
  have "book_env demo_env alist_ok" ..
  from book_env.reach_inv[OF this demo_asked_reach] show ?thesis
    by (auto simp: single_inv_def engine_book_inv_def book_inv_def)
qed

theorem new_order_rests_witness:
  "let t = snd (handle_command demo_env 5 (demo_new ''b'' ''u'' BID 4 99) demo_asked)
   in store_get t ''b'' = Some 1 \<and> o_status (obj t 1) = ''placed'' \<and> e_redis t = e_redis demo_asked"
proof -
  obtain ab where ab: "book_repr alist_sdict alist_ok (e_book demo_asked) ab" using demo_asked_repr by blast
  have "sd_lookup alist_sdict (side_levels (e_book demo_asked) BID) 99 = None" by code_simp
  then have "ab BID 99 = []" using level_at[OF ab, of BID 99] by simp
  moreover have "store_get demo_asked ''b'' = None" "length (e_objs demo_asked) = 1" by code_simp+
  ultimately show ?thesis
    using new_order_rests[of demo_env alist_ok demo_asked ab "demo_new ''b'' ''u'' BID 4 99"
        "demo_order ''b'' ''u'' BID 4 99" 99 5]
      alb.order_book_axioms ab demo_crosses[of 99] by (auto simp: demo_new_def demo_order_def Let_def)
qed

text \<open>
  C9. Cancelling a resting single order of an ordinary user ends normally: the order leaves its queue,
  nothing else in the book changes, the store forgets it, and the escrow for the part that is still
  open is subtracted, whether or not it had been taken; no other balance of the instrument moves.
\<close>

theorem cancel_removes_order:
  assumes "order_book (levels_api x) ok" and "redis (redis_of x)"
    and "book_repr (levels_api x) ok (e_book s) ab"
    and "cmd_body cmd = CancelOrderCommand (order_id (obj s r))" and "store_get s (order_id (obj s r)) = Some r"
    and "o_strategy (obj s r) = SINGLE" and "order_price (obj s r) = Inr (Some p)"
    and "order_id (obj s r) \<in> fst ` set (ab (o_side (obj s r)) p)"
    and "executed_quantity (obj s r) < quantity (obj s r)"
    and "user_id (obj s r) \<noteq> system_user x" and "is_uuid x (order_id (obj s r))" and "is_uuid x (cmd_id cmd)"
    and "json_ok (obj s r)" and "attached s" and "e_shadow s = None"
    and "keys_apart x (e_symbol s)" and "fresh_logs x s"
  shows "\<exists>t. handle_command x k cmd s = (Inr (), t)
     \<and> book_repr (levels_api x) ok (e_book t) (ab_remove ab (o_side (obj s r)) p (order_id (obj s r)))
     \<and> store_get t (order_id (obj s r)) = None
     \<and> (\<forall>b \<in> accounts (e_symbol s). \<forall>w. acct x t b w = acct x s b w + released p (e_symbol s) (obj s r) b w)"
  using cancel_command[OF assms] by blast

lemma demo_asked_fresh: "fresh_logs demo_env demo_asked" "e_symbol demo_asked = ''BTC''"
proof -
  have "e_redis demo_asked = demo_funds" "e_symbol demo_asked = ''BTC''" by code_simp+
  then show "fresh_logs demo_env demo_asked" "e_symbol demo_asked = ''BTC''"
    by (simp_all add: fresh_logs_def demo_funds_def maps_redis_def)
qed

theorem cancel_removes_order_witness:
  "let t = snd (handle_command demo_env 0 \<lparr> cmd_id = ''x'', cmd_body = CancelOrderCommand ''a'' \<rparr> demo_asked)
   in store_get t ''a'' = None \<and> acct demo_env t (AssetEscrow ''BTC'') ''v'' = - 10"
proof -
  obtain ab where ab: "book_repr alist_sdict alist_ok (e_book demo_asked) ab" using demo_asked_repr by blast
  let ?c = "\<lparr> cmd_id = ''x'', cmd_body = CancelOrderCommand ''a'' \<rparr>"
  have "map_option (\<lambda>l. lv_tracker l ''a'') (sd_lookup alist_sdict (side_levels (e_book demo_asked) ASK) 100) = Some (Some 0)"
    by code_simp
  then have "''a'' \<in> fst ` set (ab ASK 100)" using repr_tracked[OF ab] by auto
  moreover have "order_id (obj demo_asked 0) = ''a''" "user_id (obj demo_asked 0) = ''v''" "o_side (obj demo_asked 0) = ASK"
    "quantity (obj demo_asked 0) = 10" "executed_quantity (obj demo_asked 0) = 0"
    "order_price (obj demo_asked 0) = Inr (Some 100)" "o_strategy (obj demo_asked 0) = SINGLE" "json_ok (obj demo_asked 0)"
    "store_get demo_asked ''a'' = Some 0" "attached demo_asked" "e_shadow demo_asked = None"
    "acct demo_env demo_asked (AssetEscrow ''BTC'') ''v'' = 0"
    by code_simp+
  ultimately show ?thesis
    using cancel_removes_order[of demo_env alist_ok demo_asked ab ?c 0 100 0] ab
      alb.order_book_axioms mr.redis_axioms demo_asked_fresh demo_keys_apart
    by (auto simp: Let_def accounts_def released_def on_acct_def)
qed

text \<open>The movements of one trade of \<open>q\<close> units at \<open>p\<close> between a buyer and a seller.\<close>

definition trade_moves :: "string \<Rightarrow> string \<Rightarrow> string \<Rightarrow> rat \<Rightarrow> rat \<Rightarrow> account \<Rightarrow> string \<Rightarrow> rat" where
  "trade_moves sy buyer seller q p b w =
     on_acct CashEscrow buyer (- (q * p)) b w + on_acct CashBalance buyer (- (q * p)) b w
     + on_acct (AssetBalance sy) buyer q b w
     + on_acct (AssetEscrow sy) seller (- q) b w + on_acct (AssetBalance sy) seller (- q) b w
     + on_acct CashBalance seller (q * p) b w"

text \<open>
  C10. Settling a trade between two ordinary users moves exactly its value and its quantity: the buyer
  pays from cash and cash escrow and receives the asset, the seller gives from asset and asset escrow
  and receives the cash, whichever side took. No other account of the instrument changes, and between
  two different users neither cash nor assets are created or lost.
\<close>

theorem settlement_moves_trade:
  assumes "redis (redis_of x)" and "keys_apart x (e_symbol s)" and "fresh_logs x s" and "e_shadow s = None"
    and "user_id (obj s t) \<noteq> system_user x" and "user_id (obj s m) \<noteq> system_user x"
    and "buyer = (if o_side (obj s t) = BID then user_id (obj s t) else user_id (obj s m))"
    and "seller = (if o_side (obj s t) = BID then user_id (obj s m) else user_id (obj s t))"
  shows "\<exists>s'. settle x t m q p (Some c) tid mid s = (Inr (), s') \<and> e_book s' = e_book s \<and> e_objs s' = e_objs s
     \<and> (\<forall>b \<in> accounts (e_symbol s). \<forall>w.
          acct x s' b w = acct x s b w + trade_moves (e_symbol s) buyer seller q p b w)
     \<and> (buyer \<noteq> seller \<longrightarrow>
          acct x s' CashBalance buyer + acct x s' CashBalance seller =
            acct x s CashBalance buyer + acct x s CashBalance seller
          \<and> acct x s' (AssetBalance (e_symbol s)) buyer + acct x s' (AssetBalance (e_symbol s)) seller =
            acct x s (AssetBalance (e_symbol s)) buyer + acct x s (AssetBalance (e_symbol s)) seller)"
proof -
  have env: "balance_env x" using assms(1) by (simp add: balance_env_def)
  have "\<exists>s'. settle x t m q p (Some c) tid mid s = (Inr (), s') \<and> e_book s' = e_book s \<and> e_objs s' = e_objs s
     \<and> (\<forall>b \<in> accounts (e_symbol s). \<forall>w.
          acct x s' b w = acct x s b w + trade_moves (e_symbol s) buyer seller q p b w)"
  proof (cases "o_side (obj s t)")
    case BID
    obtain s1 where s1: "settle_bid x (user_id (obj s t)) q p (Some c) tid s = (Inr (), s1)" "outside s s1" "fresh_logs x s1"
        "\<forall>b \<in> accounts (e_symbol s). \<forall>w. acct x s1 b w = acct x s b w + on_acct CashEscrow (user_id (obj s t)) (- (q * p)) b w
          + on_acct CashBalance (user_id (obj s t)) (- (q * p)) b w + on_acct (AssetBalance (e_symbol s)) (user_id (obj s t)) q b w"
      using balance_env.settle_bid_effect[OF env assms(2-5)] by blast
    moreover have "obj s1 m = obj s m" using s1(2) by (simp add: outside_obj)
    ultimately show ?thesis
      using balance_env.settle_ask_effect[OF env, of s1 "user_id (obj s m)" q p c mid] assms BID
      by (auto simp: settle_def act_simps outside_def trade_moves_def algebra_simps)
  next
    case ASK
    obtain s1 where s1: "settle_ask x (user_id (obj s t)) q p (Some c) tid s = (Inr (), s1)" "outside s s1" "fresh_logs x s1"
        "\<forall>b \<in> accounts (e_symbol s). \<forall>w. acct x s1 b w = acct x s b w + on_acct (AssetEscrow (e_symbol s)) (user_id (obj s t)) (- q) b w
          + on_acct (AssetBalance (e_symbol s)) (user_id (obj s t)) (- q) b w + on_acct CashBalance (user_id (obj s t)) (q * p) b w"
      using balance_env.settle_ask_effect[OF env assms(2-5)] by blast
    then show ?thesis
      using balance_env.settle_bid_effect[OF env, of s1 "user_id (obj s m)" q p c mid] assms ASK
      by (auto simp: settle_def act_simps outside_def trade_moves_def algebra_simps)
  qed
  then show ?thesis by (auto simp: accounts_def trade_moves_def on_acct_def)
qed

theorem settlement_moves_trade_witness:
  "let s = demo_market\<lparr> e_objs := [new_order_obj Plain (demo_order ''b'' ''u'' BID 4 100),
                                new_order_obj Plain (demo_order ''a'' ''v'' ASK 10 100)] \<rparr>;
       t = snd (settle demo_env 0 1 4 100 (Some ''c'') 7 8 s)
   in acct demo_env t CashBalance ''u'' = 9600 \<and> acct demo_env t (AssetBalance ''BTC'') ''v'' = 46"
proof -
  let ?s = "demo_market\<lparr> e_objs := [new_order_obj Plain (demo_order ''b'' ''u'' BID 4 100),
                                  new_order_obj Plain (demo_order ''a'' ''v'' ASK 10 100)] \<rparr>"
  have "acct demo_env ?s CashBalance ''u'' = 10000" "acct demo_env ?s (AssetBalance ''BTC'') ''v'' = 50"
    "e_shadow ?s = None" "user_id (obj ?s 0) = ''u''" "user_id (obj ?s 1) = ''v''" "o_side (obj ?s 0) = BID" by code_simp+
  moreover have "fresh_logs demo_env ?s" using demo_market_fresh by (simp add: fresh_logs_def)
  ultimately show ?thesis
    using settlement_moves_trade[of demo_env ?s 0 1 "''u''" "''v''" 4 100 "''c''" 7 8] mr.redis_axioms demo_keys_apart
      demo_market_fresh(2)
    by (auto simp: Let_def accounts_def trade_moves_def on_acct_def)
qed
text \<open>
  The commands an engine cannot carry out, with the exception each of them ends in: market orders, whose
  price is not implemented; pairs of orders of an ordinary user, whose events would have to hold the
  object of the other order; and new prices for limit orders of an ordinary user, whose events lack the
  order.
\<close>

definition failure_of :: "('m, 'r) env \<Rightarrow> ('m, 'r) engine \<Rightarrow> command_body \<Rightarrow> exn option" where
  "failure_of x s b =
     (case b of
        NewOrderCommand SINGLE (NewSingle d) \<Rightarrow>
          if od_order_type d = MARKET then Some NotImplementedError else None
      | NewOrderCommand OCO (NewOCO [da, db]) \<Rightarrow>
          if od_user_id da \<noteq> system_user x \<and> is_uuid x (od_order_id da) then Some TypeError else None
      | ModifyOrderCommand i (Some v) sp \<Rightarrow>
          (case store_get s i of
             None \<Rightarrow> None
           | Some r \<Rightarrow> if user_id (obj s r) \<noteq> system_user x \<and> o_type (obj s r) = LIMIT \<and> o_strategy (obj s r) \<in> {SINGLE, OCO}
                       then Some ValidationError else None)
      | _ \<Rightarrow> None)"

lemma command_failure:
  assumes "attached s" and "is_uuid x (cmd_id cmd)" and "failure_of x s (cmd_body cmd) = Some e"
  shows "\<exists>t. handle_command x k cmd s = (Inl e, t) \<and> e_book t = e_book s \<and> e_store t = e_store s
           \<and> e_redis t = e_redis s \<and> e_kafka t = e_kafka s"
proof -
  consider
      (market) d where "cmd_body cmd = NewOrderCommand SINGLE (NewSingle d)" "od_order_type d = MARKET" "e = NotImplementedError"
    | (oco) da db where "cmd_body cmd = NewOrderCommand OCO (NewOCO [da, db])" "od_user_id da \<noteq> system_user x"
        "is_uuid x (od_order_id da)" "e = TypeError"
    | (modify) i v sp r where "cmd_body cmd = ModifyOrderCommand i (Some v) sp" "store_get s i = Some r"
        "user_id (obj s r) \<noteq> system_user x" "o_type (obj s r) = LIMIT" "o_strategy (obj s r) \<in> {SINGLE, OCO}"
        "e = ValidationError"
    using assms(3)
    by (auto simp: failure_of_def split: command_body.splits strategy_type.splits new_order.splits list.splits
          option.splits if_splits)
  then show ?thesis
  proof cases
    case market
    have "run_handler x k (cmd_body cmd) = Some (single_handle_new x k d)"
      by (simp add: run_handler_def handle_new_order_def market)
    from command_raises[OF this market_raises[OF market(2)]] show ?thesis using assms(1) market by simp
  next
    case oco
    have run: "run_handler x k (cmd_body cmd) = Some (oco_handle_new x [da, db])"
      by (simp add: run_handler_def handle_new_order_def oco)
    show ?thesis
      using oco_raises[OF oco(2,3), of "received cmd s" "cmd_id cmd" db] assms(2) oco
      by (auto dest!: command_raises[OF run])
  next
    case modify
    have run: "run_handler x k (cmd_body cmd) = Some (handle_modify_order x i (Some v) sp)"
      by (simp add: run_handler_def modify)
    have "handle_modify_order x i (Some v) sp (received cmd s) = (Inl ValidationError, received cmd s)"
      using modify modify_raises[of "received cmd s" r x v sp]
      by (auto simp: handle_modify_order_def strategy_modify_def act_simps)
    from command_raises[OF run this] show ?thesis using modify by simp
  qed
qed

text \<open>
  C11. These commands always raise, whatever the state of the market: the exception is the one listed
  above and leaves the handler, and the book, the store, the balances and the published events stay as
  they were.
\<close>

theorem unsupported_commands_raise:
  assumes "attached s" and "is_uuid x (cmd_id cmd)" and "failure_of x s (cmd_body cmd) = Some e"
  shows "\<exists>t. handle_command x k cmd s = (Inl e, t) \<and> e_book t = e_book s \<and> e_store t = e_store s
           \<and> e_redis t = e_redis s \<and> e_kafka t = e_kafka s"
  by (rule command_failure[OF assms])

theorem unsupported_commands_raise_witness:
  "fst (handle_command demo_env 5 \<lparr> cmd_id = ''m'', cmd_body = ModifyOrderCommand ''a'' (Some 120) None \<rparr> demo_asked)
     = Inl ValidationError"
proof -
  let ?c = "\<lparr> cmd_id = ''m'', cmd_body = ModifyOrderCommand ''a'' (Some 120) None \<rparr>"
  have "attached demo_asked" "store_get demo_asked ''a'' = Some 0" "user_id (obj demo_asked 0) = ''v''"
    "o_type (obj demo_asked 0) = LIMIT" "o_strategy (obj demo_asked 0) = SINGLE" by code_simp+
  then show ?thesis
    using unsupported_commands_raise[of demo_asked demo_env ?c ValidationError 5] by (auto simp: failure_of_def)
qed
section \<open>Where the engine departs from its intent\<close>

text \<open>
  Escrow is taken at the limit price and given back at the trade price, so a bid that fills at a
  better price leaves cash locked: after a bid of 4 with limit 110 has been filled completely at 100, 40
  of the buyer's cash stay in escrow, although no order of the buyer is open.
\<close>

theorem escrow_left_over:
  "let s = serve demo_env 6 [demo_new ''a'' ''SYS'' ASK 10 100, demo_new ''t'' ''u'' BID 4 110] demo_market
   in (executed_quantity (obj s 1), store_get s ''t'', acct demo_env s CashEscrow ''u'', acct demo_env s CashBalance ''u'')
      = (4, None, 40, 9600)"
  by code_simp

section \<open>Snapshots and restarts\<close>

text \<open>
  C16. Writing an engine's snapshot and reading it back restores it, as long as no queue is longer than the
  interpreter lets the serialiser recurse: the symbol, the last command id and the price are those of the
  original, the book satisfies its invariant, every queue holds the same orders under the same ids in the
  same order, and so does the store, except that the lists of single fills are lost. The engine read back
  is not attached to its context, and no order object is shared between its book and its store.
\<close>

theorem snapshot_restores_engine:
  assumes "order_book (levels_api x) ok" and "book_repr (levels_api x) ok (e_book s) ab" and "snapshotable s ab"
    and "\<forall>sd p. length (ab sd p) < depth"
  shows "\<exists>sn t ab'. ctx_to_dict depth x s = Inr sn \<and> ctx_from_dict depth x sn w = Inr t
     \<and> book_repr (levels_api x) ok (e_book t) ab' \<and> e_symbol t = e_symbol s \<and> e_cmd t = e_cmd s
     \<and> ob_cur_price (e_book t) = ob_cur_price (e_book s) \<and> \<not> attached t
     \<and> (\<forall>sd p. queue_orders t (ab' sd p) = map without_fills (queue_orders s (ab sd p)))
     \<and> map (\<lambda>(i, r). (i, obj t r)) (e_store t) = map (\<lambda>(i, r). without_fills (i, obj s r)) (e_store s)
     \<and> (\<forall>sd p. \<forall>(i, a) \<in> set (ab' sd p). \<forall>(j, r) \<in> set (e_store t). n_order (ob_nodes (e_book t) ! a) \<noteq> r)"
  by (rule order_book.context_read_back[OF assms(1) refl assms(2,3)]) (use assms(4) in blast)

lemma lone_ask_queues:
  assumes "book_repr alist_sdict alist_ok b ab" and "map fst (ob_bids b) = []" and "map fst (ob_asks b) = [100]"
    and "n_next (ob_nodes b ! 0) = None" and "map_option lv_head (map_of (ob_asks b) 100) = Some (Some 0)"
    and "map_option (\<lambda>l. lv_tracker l ''a'') (map_of (ob_asks b) 100) = Some (Some 0)"
  shows "ab BID p = []" "ab ASK p = (if p = 100 then [(''a'', 0)] else [])"
proof -
  have look: "sd_lookup alist_sdict (side_levels b sd) q = map_of (if sd = BID then ob_bids b else ob_asks b) q" for sd q
    by (cases sd) (simp_all add: alist_sdict_def side_levels_def)
  show "ab BID p = []" using level_at[OF assms(1), of BID p] assms(2) by (simp add: look)
  obtain l where l: "map_of (ob_asks b) 100 = Some l" "lv_head l = Some 0" "lv_tracker l ''a'' = Some 0"
    using assms(5,6) by auto
  then have q: "ab ASK 100 \<noteq> []" "level_repr (ob_nodes b) l (ab ASK 100)"
    using level_at[OF assms(1), of ASK 100] by (simp_all add: look)
  then obtain i a q' where "ab ASK 100 = (i, a) # q'" by (metis list.exhaust surj_pair)
  then have "ab ASK 100 = [(''a'', 0)]"
    using q(2) l assms(4) hd_opt_None[of "map snd q'"] by (auto simp: level_repr_def eq_commute[of None] split: if_splits)
  moreover have "map_of (ob_asks b) p = None" if "p \<noteq> 100"
    using assms(3) that by (metis map_of_eq_None_iff list.set_map empty_iff insert_iff list.set(1,2))
  ultimately show "ab ASK p = (if p = 100 then [(''a'', 0)] else [])"
    using level_at[OF assms(1), of ASK p] by (auto simp: look)
qed

lemma demo_asked_queues:
  assumes "book_repr alist_sdict alist_ok (e_book demo_asked) ab"
  shows "ab BID p = []" "ab ASK p = (if p = 100 then [(''a'', 0)] else [])"
proof -
  let ?b = "e_book demo_asked"
  have f: "map fst (ob_bids ?b) = []" "map fst (ob_asks ?b) = [100]" "n_next (ob_nodes ?b ! 0) = None"
    "map_option lv_head (map_of (ob_asks ?b) 100) = Some (Some 0)"
    "map_option (\<lambda>l. lv_tracker l ''a'') (map_of (ob_asks ?b) 100) = Some (Some 0)" by code_simp+
  show "ab BID p = []" "ab ASK p = (if p = 100 then [(''a'', 0)] else [])" by (rule lone_ask_queues[OF assms f])+
qed

lemma demo_asked_snapshotable:
  assumes "book_repr alist_sdict alist_ok (e_book demo_asked) ab"
  shows "snapshotable demo_asked ab" "length (ab sd p) < 2"
proof -
  have "map links (e_objs demo_asked) = [Plain]" "map n_order (ob_nodes (e_book demo_asked)) = [0]"
    "e_store demo_asked = [(''a'', 0)]" "order_id (obj demo_asked 0) = ''a''" by code_simp+
  then have "\<forall>od \<in> set (e_objs demo_asked). links od = Plain" "length (e_objs demo_asked) = 1"
    "length (ob_nodes (e_book demo_asked)) = 1" "n_order (ob_nodes (e_book demo_asked) ! 0) = 0"
    "n_order ` set (ob_nodes (e_book demo_asked)) = {0}"
    by (auto simp: map_eq_Cons_conv)
  note f = this \<open>e_store demo_asked = _\<close> \<open>order_id (obj demo_asked 0) = _\<close>
  have "ids_match (e_objs demo_asked) (ob_nodes (e_book demo_asked)) (ab sd p)" for sd p
    using demo_asked_queues[OF assms, of p] f by (cases sd) (simp_all add: ids_match_def node_id_def obj_def)
  then show "snapshotable demo_asked ab" using f by (simp add: snapshotable_def)
  show "length (ab sd p) < 2" using demo_asked_queues[OF assms, of p] by (cases sd) simp_all
qed

theorem snapshot_restores_engine_witness:
  "\<exists>sn t. ctx_to_dict 2 demo_env demo_asked = Inr sn \<and> ctx_from_dict 2 demo_env sn demo_asked = Inr t
     \<and> e_symbol t = ''BTC'' \<and> \<not> attached t \<and> length (e_store t) = 1"
proof -
  obtain ab where ab: "book_repr alist_sdict alist_ok (e_book demo_asked) ab" using demo_asked_repr by blast
  have one: "length (e_store demo_asked) = 1" by code_simp
  obtain sn t where "ctx_to_dict 2 demo_env demo_asked = Inr sn" "ctx_from_dict 2 demo_env sn demo_asked = Inr t"
      "e_symbol t = e_symbol demo_asked" "\<not> attached t"
      "map (\<lambda>(i, r). (i, obj t r)) (e_store t) = map (\<lambda>(i, r). without_fills (i, obj demo_asked r)) (e_store demo_asked)"
    using snapshot_restores_engine[of demo_env alist_ok demo_asked ab 2 demo_asked] ab demo_asked_snapshotable[OF ab]
      alb.order_book_axioms by auto
  then show ?thesis using demo_asked_fresh(2) one by (metis length_map)
qed

text \<open>
  A snapshot is written by nested calls, one per order of a queue: as soon as some queue of the book is
  longer than the calls the interpreter allows, writing it raises a RecursionError.
\<close>

theorem long_queue_breaks_snapshot:
  assumes "order_book (levels_api x) ok" and "book_repr (levels_api x) ok (e_book s) ab" and "depth < length (ab sd p)"
  shows "ctx_to_dict depth x s = Inl RecursionError"
  using order_book.book_too_long[OF assms, of "e_objs s"] by (simp add: ctx_to_dict_def)

theorem long_queue_breaks_snapshot_witness: "ctx_to_dict 0 demo_env demo_asked = Inl RecursionError"
proof -
  obtain ab where ab: "book_repr alist_sdict alist_ok (e_book demo_asked) ab" using demo_asked_repr by blast
  then show ?thesis
    using long_queue_breaks_snapshot[of demo_env alist_ok demo_asked ab 0 ASK 100] demo_asked_queues(2)[OF ab, of 100]
      alb.order_book_axioms by simp
qed

section \<open>Price-time priority\<close>

text \<open>
  C3. A limit order that crosses the book trades in price-time priority: the loop over the levels and their linked
  lists does what the reference sweep does to the list of the resting orders, best price first and oldest first within
  a price. Each maker in turn trades as much as both sides have left, at its own price, or is cancelled when its
  owner lacks the funds, which cannot happen to the system user. The order objects carry exactly these fills, the other side
  of the book holds exactly what the sweep leaves, what is left of the new order rests at the end of its own
  queue, and the engine stays orderly.
\<close>

theorem crossing_order_sweeps:
  assumes "order_book (levels_api x) ok" and "orderly x ok s ab"
    and "cmd_body cmd = NewOrderCommand SINGLE (NewSingle d)" and "is_uuid x (cmd_id cmd)" and "limit_order x s d p"
    and "limit_crossable (Some p) (od_side d) (e_book s) = Inr True" and "funded x s d"
    and "2 * length (book_depth s ab (opposite (od_side d))) \<le> k"
  shows "\<exists>f t ab' ts rest. handle_command x k cmd s = (Inr (), t) \<and> orderly x ok t ab'
    \<and> (\<forall>m \<in> sure x s. f m) \<and> sweep f (od_quantity d) (book_depth s ab (opposite (od_side d))) = (ts, rest)
    \<and> book_depth t ab' (opposite (od_side d)) = rest \<and> order_taken s ab d p ts t ab'
    \<and> executed_quantity (obj t (length (e_objs s))) = volume ts"
proof -
  have env: "book_env x ok" using assms(1) by (simp add: book_env_def)
  obtain f t ab' ts rest where t: "handle_command x k cmd s = (Inr (), t)" "orderly x ok t ab'" "\<forall>m \<in> sure x s. f m"
      "sweep f (od_quantity d) (book_depth s ab (opposite (od_side d))) = (ts, rest)"
      "book_depth t ab' (opposite (od_side d)) = rest" "order_taken s ab d p ts t ab'"
    using book_env.crossing_command[OF env assms(2-8)] by blast
  have "fresh_limit d p" "rests x s ab (opposite (od_side d))"
    using assms(2,5) accountedD(1) by (auto simp: orderly_def limit_order_def)
  from order_taken_executed[OF t(6) this sweep_makers[OF t(4)]] show ?thesis
    using t by (intro exI[of _ f] exI[of _ t] exI[of _ ab'] exI[of _ ts] exI[of _ rest]) simp
qed

text \<open>
  The limit of the new order is compared with the best price only, before the loop: as long as the makers have the
  funds and the other side holds enough, the order is filled completely, however bad the prices it reaches.
\<close>

theorem taker_limit_ignored:
  assumes "order_book (levels_api x) ok" and "orderly x ok s ab"
    and "cmd_body cmd = NewOrderCommand SINGLE (NewSingle d)" and "is_uuid x (cmd_id cmd)" and "limit_order x s d p"
    and "limit_crossable (Some p) (od_side d) (e_book s) = Inr True" and "funded x s d"
    and "2 * length (book_depth s ab (opposite (od_side d))) \<le> k"
    and "fst ` set (book_depth s ab (opposite (od_side d))) \<subseteq> sure x s"
    and "od_quantity d \<le> volume (book_depth s ab (opposite (od_side d)))"
  shows "\<exists>t. handle_command x k cmd s = (Inr (), t) \<and> store_get t (od_order_id d) = None
    \<and> executed_quantity (obj t (length (e_objs s))) = od_quantity d"
proof -
  have env: "book_env x ok" using assms(1) by (simp add: book_env_def)
  obtain f t ab' ts rest where t: "handle_command x k cmd s = (Inr (), t)" "\<forall>m \<in> sure x s. f m"
      "sweep f (od_quantity d) (book_depth s ab (opposite (od_side d))) = (ts, rest)" "order_taken s ab d p ts t ab'"
    using book_env.crossing_command[OF env assms(2-8)] by blast
  have d: "fresh_limit d p" and rs: "rests x s ab (opposite (od_side d))"
    using assms(2,5) accountedD(1) by (auto simp: orderly_def limit_order_def)
  have "volume ts = od_quantity d"
    using sweep_fills[OF t(3)] t(2) d assms(9,10) by (auto simp: fresh_limit_def)
  then show ?thesis
    using t(1,4) order_taken_executed[OF t(4) d rs sweep_makers[OF t(3)]] by (auto simp: order_taken_def Let_def)
qed

lemma demo_limits:
  "limit_command demo_env s (demo_new i u sd q p) \<longleftrightarrow> store_get s i = None \<and> 0 < q \<and> (u = ''SYS'' \<or> i \<noteq> [])"
  "placed_id (demo_new i u sd q p) = [i]"
  by (auto simp: limit_command_def plain_command_def placed_id_def demo_new_def demo_order_def fresh_limit_def)

definition demo_seeded :: "((rat \<times> price_level) list, redis_maps) engine" where
  "demo_seeded = snd (handle_command demo_env 0 (demo_new ''a'' ''SYS'' ASK 10 100) demo_market)"

lemma demo_seeded_reach: "limit_reach demo_env demo_seeded"
proof (rule limit_more)
  show "limit_reach demo_env demo_market" by (rule limit_start) (simp add: untouched_def demo_market_def new_engine_def)
  show "limit_command demo_env demo_market (demo_new ''a'' ''SYS'' ASK 10 100)" "2 * length (e_objs demo_market) \<le> 0"
    by (simp_all add: demo_limits demo_market_def new_engine_def store_get_def)
  show "handle_command demo_env 0 (demo_new ''a'' ''SYS'' ASK 10 100) demo_market =
      (fst (handle_command demo_env 0 (demo_new ''a'' ''SYS'' ASK 10 100) demo_market), demo_seeded)"
    by (simp add: demo_seeded_def)
qed

lemma demo_seeded_book: "\<exists>ab. orderly demo_env alist_ok demo_seeded ab \<and> book_depth demo_seeded ab ASK = [(0, 100, 10)]"
proof -
  obtain ab where o: "orderly demo_env alist_ok demo_seeded ab"
    using demo_book.limit_reach_orderly[OF demo_seeded_reach] by blast
  then have ab: "book_repr alist_sdict alist_ok (e_book demo_seeded) ab" by (simp add: orderly_def)
  let ?b = "e_book demo_seeded"
  have b: "map fst (ob_bids ?b) = []" "map fst (ob_asks ?b) = [100]" "n_next (ob_nodes ?b ! 0) = None"
    "map_option lv_head (map_of (ob_asks ?b) 100) = Some (Some 0)"
    "map_option (\<lambda>l. lv_tracker l ''a'') (map_of (ob_asks ?b) 100) = Some (Some 0)" by code_simp+
  note q = lone_ask_queues[OF ab b]
  have f: "order_at demo_seeded 0 = 0" "unfilled demo_seeded 0 = 10" by code_simp+
  have "{p. ab ASK p \<noteq> []} = {100}" using q(2) by auto
  then have "prices ab ASK = [100]" by (simp add: prices_def)
  then have "book_depth demo_seeded ab ASK = [(0, 100, 10)]" using q(2)[of 100] f by (simp add: book_depth_def)
  then show ?thesis using o by blast
qed

theorem crossing_order_sweeps_witness:
  "\<exists>t ab. handle_command demo_env 5 (demo_new ''b'' ''u'' BID 4 100) demo_seeded = (Inr (), t)
     \<and> orderly demo_env alist_ok t ab \<and> book_depth t ab ASK = [(0, 100, 6)] \<and> executed_quantity (obj t 1) = 4"
proof -
  obtain ab where ab: "orderly demo_env alist_ok demo_seeded ab" "book_depth demo_seeded ab ASK = [(0, 100, 10)]"
    using demo_seeded_book by blast
  let ?d = "demo_order ''b'' ''u'' BID 4 100"
  have s: "funded demo_env demo_seeded ?d" "store_get demo_seeded ''b'' = None"
    "length (e_objs demo_seeded) = 1" "best_price (e_book demo_seeded) ASK = Some 100"
    "e_shadow demo_seeded = None" "user_id (obj demo_seeded 0) = ''SYS''" by code_simp+
  have d: "limit_order demo_env demo_seeded ?d 100" "od_side ?d = BID" "od_quantity ?d = 4" "od_order_id ?d = ''b''"
    using s(2) by (simp_all add: limit_order_def fresh_limit_def demo_order_def)
  obtain f t ab' ts rest where
    t: "handle_command demo_env 5 (demo_new ''b'' ''u'' BID 4 100) demo_seeded = (Inr (), t)"
      "orderly demo_env alist_ok t ab'" "\<forall>m \<in> sure demo_env demo_seeded. f m"
      "sweep f 4 [(0, 100, 10)] = (ts, rest)" "book_depth t ab' ASK = rest" "executed_quantity (obj t 1) = volume ts"
    using crossing_order_sweeps[of demo_env alist_ok demo_seeded ab "demo_new ''b'' ''u'' BID 4 100" ?d 100 5]
      alb.order_book_axioms ab s d
    by (auto simp: demo_new_def limit_crossable_def)
  moreover have "f 0" using t(3) s by (simp add: sure_def)
  ultimately show ?thesis by (intro exI[of _ t] exI[of _ ab']) auto
qed

text \<open>
  C12. The invariant of a market of limit orders: after any new limit orders and cancellations no bid reaches an ask, in
  the queues and in the cached best prices, the order store knows exactly the orders that rest in the book, and each of
  them lies on its side, at its price, under its id, with something left to trade.
\<close>

theorem limit_market_invariant:
  assumes "order_book (levels_api x) ok" and "limit_reach x s"
  shows "\<exists>ab. book_repr (levels_api x) ok (e_book s) ab
    \<and> (\<forall>p q. \<not> (ab BID p \<noteq> [] \<and> ab ASK q \<noteq> [] \<and> q \<le> p))
    \<and> (\<forall>p q. \<not> (best_price (e_book s) BID = Some p \<and> best_price (e_book s) ASK = Some q \<and> q \<le> p))
    \<and> (\<forall>i r. store_get s i = Some r \<longleftrightarrow> (\<exists>sd p a. (i, a) \<in> set (ab sd p) \<and> order_at s a = r))
    \<and> (\<forall>sd p. \<forall>(i, a) \<in> set (ab sd p). let od = obj s (order_at s a) in
         order_id od = i \<and> o_side od = sd \<and> order_price od = Inr (Some p) \<and> executed_quantity od < quantity od)"
proof -
  have env: "book_env x ok" using assms(1) by (simp add: book_env_def)
  obtain ab where o: "orderly x ok s ab" using book_env.limit_reach_orderly[OF env assms(2)] by blast
  have b: "\<not> (best_price (e_book s) BID = Some p \<and> best_price (e_book s) ASK = Some q \<and> q \<le> p)" for p q
    using book_env.orderly_best[OF env o, of p q] by auto
  have r: "\<forall>(i, a) \<in> set (ab sd p). let od = obj s (order_at s a) in
      order_id od = i \<and> o_side od = sd \<and> order_price od = Inr (Some p) \<and> executed_quantity od < quantity od" for sd p
    using restsD[of x s ab sd _ _ p] o by (auto simp: orderly_def accounted_def unfilled_def Let_def)
  have "ab BID p \<noteq> [] \<Longrightarrow> ab ASK q \<noteq> [] \<Longrightarrow> p < q" for p q using o unfolding orderly_def uncrossed_def by blast
  then have u: "\<not> (ab BID p \<noteq> [] \<and> ab ASK q \<noteq> [] \<and> q \<le> p)" for p q by (meson leD)
  have "book_repr (levels_api x) ok (e_book s) ab"
    "\<forall>i r. store_get s i = Some r \<longleftrightarrow> (\<exists>sd p a. (i, a) \<in> set (ab sd p) \<and> order_at s a = r)"
    using o by (auto simp: orderly_def accounted_def stored_def)
  then show ?thesis using b r u by (intro exI[of _ ab] conjI) simp_all
qed

definition demo_two_sided :: "((rat \<times> price_level) list, redis_maps) engine" where
  "demo_two_sided = snd (handle_command demo_env 5 (demo_new ''b'' ''u'' BID 4 99) demo_seeded)"

theorem limit_market_invariant_witness:
  "\<exists>ab. book_repr alist_sdict alist_ok (e_book demo_two_sided) ab \<and> (\<exists>a. (''b'', a) \<in> set (ab BID 99) \<and> order_at demo_two_sided a = 1)"
proof -
  have s: "store_get demo_seeded ''b'' = None" "2 * length (e_objs demo_seeded) \<le> 5" by code_simp+
  have "limit_reach demo_env demo_two_sided"
    by (rule limit_more[OF demo_seeded_reach _ s(2), of "demo_new ''b'' ''u'' BID 4 99"])
      (use s(1) in \<open>simp_all add: demo_limits demo_two_sided_def prod_eq_iff\<close>)
  from limit_market_invariant[of demo_env alist_ok, OF _ this] obtain ab where
    ab: "book_repr alist_sdict alist_ok (e_book demo_two_sided) ab"
      "\<forall>i r. store_get demo_two_sided i = Some r \<longleftrightarrow> (\<exists>sd p a. (i, a) \<in> set (ab sd p) \<and> order_at demo_two_sided a = r)"
      "\<forall>sd p. \<forall>(i, a) \<in> set (ab sd p). let od = obj demo_two_sided (order_at demo_two_sided a) in
         order_id od = i \<and> o_side od = sd \<and> order_price od = Inr (Some p) \<and> executed_quantity od < quantity od"
    using alb.order_book_axioms by auto
  have f: "store_get demo_two_sided ''b'' = Some 1" "o_side (obj demo_two_sided 1) = BID"
    "order_price (obj demo_two_sided 1) = Inr (Some 99)" by code_simp+
  then obtain sd p a where a: "(''b'', a) \<in> set (ab sd p)" "order_at demo_two_sided a = 1" using ab(2) by blast
  then have "sd = BID" "p = 99" using ab(3) f(2,3) by (fastforce simp: Let_def)+
  then show ?thesis using ab(1) a by blast
qed

section \<open>From the request to the consumers\<close>

text \<open>
  C19. Producer and consumers agree on the form of an order event: after any sequence of commands, failing
  ones included, the messages on Kafka are those from before followed by new ones, and every order event among the
  new ones is of a type the database handler knows and passes the validation of its class, whatever id and
  time the consumer gives it.
\<close>

theorem published_events_validate:
  assumes "is_uuid x i"
  shows "\<exists>new. e_kafka (serve x k cmds s) = e_kafka s @ new \<and> list_all (accepted_msg (is_uuid x) i now) new"
proof -
  have "feeds x s (serve x k cmds s)"
    by (rule stays_serve[OF fd.frame_axioms]) (rule fdf.stays_handle_command)
  then show ?thesis using sound_msg_accepted[OF _ assms] by (auto simp: feeds_def list_all_iff)
qed

theorem published_events_validate_witness:
  "let t = serve demo_env 5 [demo_new ''b'' ''u'' BID 4 99] demo_asked; km = last (e_kafka t)
   in accepted_msg (\<lambda>i. i \<noteq> []) ''e'' 7 km \<and> published_orders t \<noteq> published_orders demo_asked"
proof -
  let ?t = "serve demo_env 5 [demo_new ''b'' ''u'' BID 4 99] demo_asked"
  obtain new where new: "e_kafka ?t = e_kafka demo_asked @ new" "list_all (accepted_msg (is_uuid demo_env) ''e'' 7) new"
    using published_events_validate[of demo_env "''e''" 5 "[demo_new ''b'' ''u'' BID 4 99]" demo_asked 7] by auto
  have n: "length (e_kafka ?t) \<noteq> length (e_kafka demo_asked)" "length (published_orders ?t) \<noteq> length (published_orders demo_asked)"
    by code_simp+
  then have "new \<noteq> []" "published_orders ?t \<noteq> published_orders demo_asked" using new(1) by auto
  moreover from this have "accepted_msg (is_uuid demo_env) ''e'' 7 (last (e_kafka ?t))"
    using new by (simp add: list_all_iff del: serve.simps)
  ultimately show ?thesis unfolding Let_def demo_env_simps by blast
qed

text \<open>
  C20. The way of an order in. An accepted limit order that does not cross the book of its engine is the same
  order everywhere: the API stores its row and sends one command; the engine, served that command, puts
  the order at the end of its queue and publishes one order event; the database handler turns the row to placed, and
  touches no other order; and the published book gains its quantity at its price and side.
\<close>

theorem accepted_order_is_placed_everywhere:
  assumes "order_book (levels_api x) ok" and "book_repr (levels_api x) ok (e_book s) ab"
    and "e_symbol s = sy" and "e_shadow s = None" and "u \<noteq> system_user x"
    and "ids_fresh gen a" and "u \<in> set (db_users (api_db a))" and "is_uuid x u" and "\<And>n. is_uuid x (gen n)"
    and "validate_request rq = Inr (SingleOrderCreate SINGLE sy sp)"
    and "sp_type sp = LIMIT" and "sp_limit sp = Some p" and "p \<noteq> 0" and "0 < sp_quantity sp"
    and "limit_crossable (Some p) (sp_side sp) (e_book s) = Inr False"
    and "gen (api_drawn a) \<notin> fst ` set (ab (sp_side sp) p)" and "store_get s (gen (api_drawn a)) = None"
    and "order_tables_ok (api_db a)" and "is_uuid x j" and "j \<notin> oer_event_id ` set (db_order_events (api_db a))"
  shows "\<exists>row a' cmd t ev.
      create_order gen (is_uuid x) u rq a = (Inr [row], a') \<and> api_sent a' = api_sent a @ [(sy, cmd)]
    \<and> handle_command x k cmd s = (Inr (), t)
    \<and> book_repr (levels_api x) ok (e_book t)
        (ab_append ab (sp_side sp) p (or_order_id row) (length (ob_nodes (e_book s))))
    \<and> published_orders t = published_orders s @ [ev]
    \<and> get_order (handle_order_event (is_uuid x) (order_msg_of j now ev) (api_db a')) =
        (get_order (api_db a))(or_order_id row \<mapsto> row\<lparr> or_status := PLACED \<rparr>)
    \<and> (\<forall>sd v. level_qty (book_side (book_of (consume_book_msg (book_msg_of (is_uuid x) j ev) pb) sy) sd) v =
        level_qty (book_side (book_of pb sy) sd) v + (if sd = sp_side sp \<and> v = Some p then sp_quantity sp else 0))"
proof -
  let ?i = "gen (api_drawn a)"
  let ?row = "build_db_order sy u sp ?i SINGLE" and ?d = "to_order_dict ?i u sp sy SINGLE"
  let ?od = "(new_order_obj Plain ?d)\<lparr> o_status := ''placed'' \<rparr>"
  obtain a' c where a': "create_order gen (is_uuid x) u rq a = (Inr [?row], a')" "api_db a' = add_orders [?row] (api_db a)"
      "api_sent a' = api_sent a @ [(sy, \<lparr> cmd_id = gen c, cmd_body = NewOrderCommand SINGLE (NewSingle ?d) \<rparr>)]"
    using create_single_done[where uuid = "is_uuid x", OF assms(6,7,8,10)] by blast
  let ?cmd = "\<lparr> cmd_id = gen c, cmd_body = NewOrderCommand SINGLE (NewSingle ?d) \<rparr>"
  define ev where "ev = order_event_of (received ?cmd s) ORDER_PLACED (order_id ?od) None (Some ?od)"
  have od: "order_id ?od = ?i" "user_id ?od = u" "limit_price ?od = Some p" "o_side ?od = sp_side sp"
      "quantity ?od = sp_quantity sp" "executed_quantity ?od = 0"
    using assms(12) by (simp_all add: to_order_dict_def new_order_obj_def)
  obtain t where t: "handle_command x k ?cmd s = (Inr (), t)"
      "book_repr (levels_api x) ok (e_book t) (ab_append ab (sp_side sp) p ?i (length (ob_nodes (e_book s))))"
      "published_orders t = published_orders s @ [ev]"
    using new_order_command[of x ok s ab ?cmd ?d p k] assms(1,2,4,5,9,11,12,15,16,17) od
    by (auto simp: to_order_dict_def own_events_def ev_def)
  have i: "or_order_id ?row = ?i" "oe_order_id ev = ?i" by (simp_all add: ev_def od build_db_order_def)
  note stored = new_row_stored[OF assms(6,18) i(1) a'(2)]
  have valid: "valid_order_event x ev" unfolding ev_def using assms(9) od by (intro own_event_valid) simp_all
  have "get_order (handle_order_event (is_uuid x) (order_msg_of j now ev) (api_db a')) =
      (get_order (api_db a))(?i \<mapsto> ?row\<lparr> or_status := PLACED \<rparr>)"
    using event_reaches_row[OF valid assms(19) _ stored(2), of ?row now] stored(1,3,4) assms(20) i by (auto simp: ev_def)
  moreover have "level_qty (book_side (book_of (consume_book_msg (book_msg_of (is_uuid x) j ev) pb) sy) sd) v =
      level_qty (book_side (book_of pb sy) sd) v + (if sd = sp_side sp \<and> v = Some p then sp_quantity sp else 0)" for sd v
    using placed_reaches_book(1)[OF valid assms(19) _ _ od(3) assms(13), of pb sy sd v] od assms(3,14) by (simp add: ev_def)
  ultimately show ?thesis using a'(1,3) t i(1) by metis
qed

definition demo_gen :: "nat \<Rightarrow> string" where
  "demo_gen n = replicate (Suc n) (CHR ''x'')"

lemma demo_gen_fresh: "ids_fresh demo_gen sample_api" "demo_gen n \<noteq> []"
proof -
  have "inj demo_gen" unfolding inj_def demo_gen_def by (metis length_replicate nat.inject)
  then show "ids_fresh demo_gen sample_api" by (simp add: ids_fresh_def sample_api_def empty_db_def)
qed (simp add: demo_gen_def)

lemma demo_level_free: "book_repr alist_sdict alist_ok (e_book demo_asked) ab \<Longrightarrow> ab BID 99 = []"
proof -
  assume ab: "book_repr alist_sdict alist_ok (e_book demo_asked) ab"
  have "sd_lookup alist_sdict (side_levels (e_book demo_asked) BID) 99 = None" by code_simp
  then show "ab BID 99 = []" using level_at[OF ab, of BID 99] by simp
qed

theorem accepted_order_is_placed_everywhere_witness:
  "\<exists>row a' cmd t ev.
      create_order demo_gen (\<lambda>i. i \<noteq> []) ''u'' (SingleOrderCreate SINGLE ''BTC'' (sample_spec BID 5 (Some 99))) sample_api = (Inr [row], a')
    \<and> handle_command demo_env 5 cmd demo_asked = (Inr (), t)
    \<and> get_order (handle_order_event (\<lambda>i. i \<noteq> []) (order_msg_of ''e'' 7 ev) (api_db a')) (or_order_id row) = Some (row\<lparr> or_status := PLACED \<rparr>)
    \<and> level_qty (book_side (book_of (consume_book_msg (book_msg_of (\<lambda>i. i \<noteq> []) ''e'' ev) no_books) ''BTC'') BID) (Some 99) = 5"
proof -
  let ?sp = "sample_spec BID 5 (Some 99)"
  obtain ab where ab: "book_repr alist_sdict alist_ok (e_book demo_asked) ab" using demo_asked_repr by blast
  have v: "validate_request (SingleOrderCreate SINGLE ''BTC'' ?sp) = Inr (SingleOrderCreate SINGLE ''BTC'' ?sp)"
    by (simp add: validate_request_def sample_valid)
  have e: "e_symbol demo_asked = ''BTC''" "e_shadow demo_asked = None" "store_get demo_asked (demo_gen 0) = None" by code_simp+
  have db: "order_tables_ok (api_db sample_api)" "api_drawn sample_api = 0" "db_order_events (api_db sample_api) = []"
    by (simp_all add: order_tables_ok_def sample_api_def empty_db_def orders_keyed_def)
  have sp: "sp_type ?sp = LIMIT" "sp_limit ?sp = Some 99" "sp_quantity ?sp = 5" "sp_side ?sp = BID" by (simp_all add: sample_spec_def)
  have "level_qty (book_side (book_of no_books ''BTC'') BID) (Some 99) = 0"
    by (simp add: level_qty_def book_of_def no_books_def new_book_def book_side_def)
  moreover obtain row a' cmd t ev where
    "create_order demo_gen (is_uuid demo_env) ''u'' (SingleOrderCreate SINGLE ''BTC'' ?sp) sample_api = (Inr [row], a')"
    "handle_command demo_env 5 cmd demo_asked = (Inr (), t)"
    "get_order (handle_order_event (is_uuid demo_env) (order_msg_of ''e'' 7 ev) (api_db a')) =
       (get_order (api_db sample_api))(or_order_id row \<mapsto> row\<lparr> or_status := PLACED \<rparr>)"
    "\<forall>sd v. level_qty (book_side (book_of (consume_book_msg (book_msg_of (is_uuid demo_env) ''e'' ev) no_books) ''BTC'') sd) v =
       level_qty (book_side (book_of no_books ''BTC'') sd) v + (if sd = BID \<and> v = Some 99 then 5 else 0)"
    using accepted_order_is_placed_everywhere[of demo_env alist_ok demo_asked ab "''BTC''" "''u''" demo_gen sample_api
        "SingleOrderCreate SINGLE ''BTC'' ?sp" ?sp 99 "''e''" 5 7 no_books]
      alb.order_book_axioms ab e demo_gen_fresh sample_fresh(2) v sp demo_crosses[of 99] demo_level_free[OF ab] db
    by auto
  ultimately show ?thesis unfolding demo_env_simps
    by (intro exI[of _ row] exI[of _ a'] exI[of _ cmd] exI[of _ t] exI[of _ ev]) simp
qed

text \<open>
  C21. The way of an order out. When the owner cancels a resting order, the API sends one command; the engine, served
  that command, takes the order out of its queue and publishes one event; the database handler turns the row to
  cancelled, and touches no other order; and the published book loses what was left of the order at its price and
  side, and forgets the order.
\<close>

theorem cancelled_order_leaves_everywhere:
  assumes "order_book (levels_api x) ok" and "redis (redis_of x)" and "book_repr (levels_api x) ok (e_book s) ab"
    and "store_get s (order_id (obj s r)) = Some r" and "o_strategy (obj s r) = SINGLE"
    and "order_price (obj s r) = Inr (Some p)" and "order_id (obj s r) \<in> fst ` set (ab (o_side (obj s r)) p)"
    and "executed_quantity (obj s r) < quantity (obj s r)" and "user_id (obj s r) \<noteq> system_user x"
    and "is_uuid x (order_id (obj s r))" and "\<And>n. is_uuid x (gen n)" and "json_ok (obj s r)" and "attached s"
    and "e_shadow s = None" and "keys_apart x (e_symbol s)" and "fresh_logs x s"
    and "orders_keyed (api_db a)" and "get_order (api_db a) (order_id (obj s r)) = Some row"
    and "or_user_id row = user_id (obj s r)" and "or_symbol row = e_symbol s"
    and "gen (api_drawn a) \<notin> oer_command_id ` set (db_order_events (api_db a))"
    and "is_uuid x j" and "j \<notin> oer_event_id ` set (db_order_events (api_db a))"
    and "map_of (pb_active pb) (order_id (obj s r)) = Some \<lparr> oi_price = Some p, oi_side = o_side (obj s r), oi_remaining = q \<rparr>"
  shows "\<exists>a' cmd t ev.
      cancel_order_route gen (user_id (obj s r)) (order_id (obj s r)) a = (Inr (), a')
    \<and> api_sent a' = api_sent a @ [(e_symbol s, cmd)] \<and> handle_command x k cmd s = (Inr (), t)
    \<and> book_repr (levels_api x) ok (e_book t) (ab_remove ab (o_side (obj s r)) p (order_id (obj s r)))
    \<and> published_orders t = published_orders s @ [ev]
    \<and> get_order (handle_order_event (is_uuid x) (order_msg_of j now ev) (api_db a')) =
        (get_order (api_db a))(order_id (obj s r) \<mapsto> row\<lparr> or_status := CANCELLED \<rparr>)
    \<and> (\<forall>sd. book_side (book_of (consume_book_msg (book_msg_of (is_uuid x) j ev) pb) (e_symbol s)) sd =
        (if sd = o_side (obj s r) then decrement_level (Some p) q (book_side (book_of pb (e_symbol s)) sd)
         else book_side (book_of pb (e_symbol s)) sd))
    \<and> order_id (obj s r) \<notin> dom (map_of (pb_active (consume_book_msg (book_msg_of (is_uuid x) j ev) pb)))"
proof -
  let ?od = "obj s r" and ?cmd = "\<lparr> cmd_id = gen (api_drawn a), cmd_body = CancelOrderCommand (order_id (obj s r)) \<rparr>"
  define ev where "ev = order_event_of (received ?cmd s) ORDER_CANCELLED (order_id ?od) (Some (Reason ''User cancelled order.'')) (Some ?od)"
  obtain a' where a': "cancel_order_route gen (user_id ?od) (order_id ?od) a = (Inr (), a')"
      "api_sent a' = api_sent a @ [(e_symbol s, ?cmd)]" "api_db a' = api_db a"
    using assms(18-20) by (simp add: cancel_order_route_def own_order_def put_command_def uuid4_def act_simps)
  obtain t where t: "handle_command x k ?cmd s = (Inr (), t)"
      "book_repr (levels_api x) ok (e_book t) (ab_remove ab (o_side ?od) p (order_id ?od))"
      "published_orders t = published_orders s @ [ev]"
    using cancel_command[of x ok s ab ?cmd r p k] assms(1-16) by (auto simp: ev_def)
  have valid: "valid_order_event x ev" 
    using own_event_valid[of x ?od "received ?cmd s" "gen (api_drawn a)"] assms(10,11) by (simp add: ev_def)
  have "get_order (handle_order_event (is_uuid x) (order_msg_of j now ev) (api_db a')) =
      (get_order (api_db a))(order_id ?od \<mapsto> row\<lparr> or_status := CANCELLED \<rparr>)"
    using event_reaches_row[OF valid assms(22) _ assms(17) _ _ assms(23), of row now] assms(18,21) unfolding a'(3)
    by (force simp: ev_def)
  moreover note cancelled_reaches_book[OF valid assms(22), of ?od pb, unfolded ev_def order_event_of_simps, OF refl refl assms(24)]
  ultimately show ?thesis using a'(1,2) t
    by (intro exI[of _ a'] exI[of _ ?cmd] exI[of _ t] exI[of _ ev]) (auto simp: ev_def)
qed

definition demo_rows :: api where
  "demo_rows = sample_api\<lparr> api_db := add_orders [build_db_order ''BTC'' ''v'' (sample_spec ASK 10 (Some 100)) ''a'' SINGLE] empty_db \<rparr>"

definition demo_books :: publisher where
  "demo_books = \<lparr> pb_books = [(''BTC'', new_book\<lparr> bs_asks := [(Some 100, 12)] \<rparr>)],
                  pb_active = [(''a'', \<lparr> oi_price = Some 100, oi_side = ASK, oi_remaining = 10 \<rparr>)] \<rparr>"

lemma demo_rows_simps:
  "orders_keyed (api_db demo_rows)" "api_sent demo_rows = []" "api_drawn demo_rows = 0" "db_order_events (api_db demo_rows) = []"
  "get_order (api_db demo_rows) ''a'' = Some (build_db_order ''BTC'' ''v'' (sample_spec ASK 10 (Some 100)) ''a'' SINGLE)"
  by (simp_all add: demo_rows_def sample_api_def orders_keyed_def add_orders_def empty_db_def get_order_def build_db_order_def)

theorem cancelled_order_leaves_everywhere_witness:
  "\<exists>a' cmd t ev.
      cancel_order_route demo_gen ''v'' ''a'' demo_rows = (Inr (), a') \<and> api_sent a' = [(''BTC'', cmd)]
    \<and> handle_command demo_env 0 cmd demo_asked = (Inr (), t)
    \<and> map_option or_status (get_order (handle_order_event (\<lambda>i. i \<noteq> []) (order_msg_of ''e'' 7 ev) (api_db a')) ''a'') = Some CANCELLED
    \<and> book_side (book_of (consume_book_msg (book_msg_of (\<lambda>i. i \<noteq> []) ''e'' ev) demo_books) ''BTC'') ASK = [(Some 100, 2)]"
proof -
  let ?row = "build_db_order ''BTC'' ''v'' (sample_spec ASK 10 (Some 100)) ''a'' SINGLE"
  obtain ab where ab: "book_repr alist_sdict alist_ok (e_book demo_asked) ab" using demo_asked_repr by blast
  have "map_option (\<lambda>l. lv_tracker l ''a'') (sd_lookup alist_sdict (side_levels (e_book demo_asked) ASK) 100) = Some (Some 0)"
    by code_simp
  then have q: "''a'' \<in> fst ` set (ab ASK 100)" using repr_tracked[OF ab] by auto
  have od: "order_id (obj demo_asked 0) = ''a''" "user_id (obj demo_asked 0) = ''v''" "o_side (obj demo_asked 0) = ASK"
    "quantity (obj demo_asked 0) = 10" "executed_quantity (obj demo_asked 0) = 0"
    "order_price (obj demo_asked 0) = Inr (Some 100)" "o_strategy (obj demo_asked 0) = SINGLE" "json_ok (obj demo_asked 0)"
    "store_get demo_asked ''a'' = Some 0" "attached demo_asked" "e_shadow demo_asked = None" by code_simp+
  have row: "or_user_id ?row = ''v''" "or_symbol ?row = ''BTC''" by (simp_all add: build_db_order_def)
  have pb: "map_of (pb_active demo_books) ''a'' = Some \<lparr> oi_price = Some 100, oi_side = ASK, oi_remaining = 10 \<rparr>"
    "decrement_level (Some 100) 10 (book_side (book_of demo_books ''BTC'') ASK) = [(Some 100, 2)]" by code_simp+
  have ids: "is_uuid demo_env ''a''" "is_uuid demo_env ''e''" "\<And>n. is_uuid demo_env (demo_gen n)" "''v'' \<noteq> system_user demo_env"
    using demo_gen_fresh(2) by simp_all
  have "\<exists>a' cmd t ev. cancel_order_route demo_gen ''v'' ''a'' demo_rows = (Inr (), a')
    \<and> api_sent a' = api_sent demo_rows @ [(''BTC'', cmd)] \<and> handle_command demo_env 0 cmd demo_asked = (Inr (), t)
    \<and> book_repr (levels_api demo_env) alist_ok (e_book t) (ab_remove ab ASK 100 ''a'')
    \<and> published_orders t = published_orders demo_asked @ [ev]
    \<and> get_order (handle_order_event (is_uuid demo_env) (order_msg_of ''e'' 7 ev) (api_db a')) =
        (get_order (api_db demo_rows))(''a'' \<mapsto> ?row\<lparr> or_status := CANCELLED \<rparr>)
    \<and> (\<forall>sd. book_side (book_of (consume_book_msg (book_msg_of (is_uuid demo_env) ''e'' ev) demo_books) ''BTC'') sd =
        (if sd = ASK then decrement_level (Some 100) 10 (book_side (book_of demo_books ''BTC'') sd)
         else book_side (book_of demo_books ''BTC'') sd))
    \<and> ''a'' \<notin> dom (map_of (pb_active (consume_book_msg (book_msg_of (is_uuid demo_env) ''e'' ev) demo_books)))"
    by (rule cancelled_order_leaves_everywhere[of demo_env alist_ok demo_asked ab 0 100 demo_gen demo_rows ?row "''e''" demo_books 10 0 7,
          unfolded od(1-3) demo_asked_fresh(2)])
      (use alb.order_book_axioms mr.redis_axioms demo_asked_fresh demo_keys_apart ab q od row pb ids demo_rows_simps in simp_all)
  then obtain a' cmd t ev where
    "cancel_order_route demo_gen ''v'' ''a'' demo_rows = (Inr (), a')" "api_sent a' = api_sent demo_rows @ [(''BTC'', cmd)]"
    "handle_command demo_env 0 cmd demo_asked = (Inr (), t)"
    "get_order (handle_order_event (is_uuid demo_env) (order_msg_of ''e'' 7 ev) (api_db a')) =
       (get_order (api_db demo_rows))(''a'' \<mapsto> ?row\<lparr> or_status := CANCELLED \<rparr>)"
    "\<forall>sd. book_side (book_of (consume_book_msg (book_msg_of (is_uuid demo_env) ''e'' ev) demo_books) ''BTC'') sd =
       (if sd = ASK then decrement_level (Some 100) 10 (book_side (book_of demo_books ''BTC'') sd)
        else book_side (book_of demo_books ''BTC'') sd)"
    by (elim exE conjE)
  then show ?thesis unfolding demo_env_simps
    by (intro exI[of _ a'] exI[of _ cmd] exI[of _ t] exI[of _ ev]) (simp add: demo_rows_simps pb)
qed

section \<open>The running engine\<close>

text \<open>
  C18. The orchestrator serves the commands for its symbol and nothing else, each once and in the order of the topic. The
  messages for the symbol are those whose last category header is the one of commands and whose last symbol header is the
  symbol. They split into the ones before the end, each of which carried a command, found the shadow alive (when
  there is one) and was handled without an exception in the state the one before it left, and the rest. When
  there is no rest the loop has ended normally in the state that served all commands. Otherwise the first message of the rest
  is the one that stopped the loop, in the state and with the exception it must: it carries no command, or there is a shadow and
  it is dead, or its handler raised. (When the very first message has no command, the error report reads a variable
  that was never assigned and raises another exception.)
\<close>

theorem orchestrator_serves_in_order:
  "\<exists>before rest u. own_messages sy ms = before @ rest \<and> all_served x k before s u \<and> u = serve x k (own_commands sy before) s
     \<and> (case rest of
          [] \<Rightarrow> orchestrate x k sy ms s = (Inr (), u)
        | m # _ \<Rightarrow> \<exists>e t. stops_with x k m u e t
            \<and> orchestrate x k sy ms s =
                (Inl (if for_symbol sy (fst (hd ms)) \<and> cr_value (fst (hd ms)) = None then UnboundLocalError else e), t))"
proof -
  obtain before rest u where o: "own_messages sy ms = before @ rest" "all_served x k before s u"
      "case rest of [] \<Rightarrow> command_loop x k sy ms s = (Inr (), u)
       | m # _ \<Rightarrow> \<exists>e t. stops_with x k m u e t \<and> command_loop x k sy ms s = (Inl e, t)"
    using loop_outcome[of sy ms x k s] by (elim exE conjE)
  have "list_all (\<lambda>m. for_symbol sy (fst m)) (own_messages sy ms)" by (auto simp: own_messages_def list_all_iff)
  then have u: "serve x k (own_commands sy before) s = u" using all_served_serve[OF o(2)] o(1) by simp
  have "cmd_unbound sy ms \<longleftrightarrow> for_symbol sy (fst (hd ms)) \<and> cr_value (fst (hd ms)) = None" if "rest \<noteq> []"
    using o(1) that
    by (cases ms) (auto simp: cmd_unbound_def own_messages_Cons parse_message_eq split: option.splits if_splits)
  then show ?thesis using o u
    by (intro exI[of _ before] exI[of _ rest] exI[of _ u]) (cases rest, auto simp: orchestrate_def)
qed

definition demo_message :: "command \<Rightarrow> consumer_record" where
  "demo_message cmd = \<lparr> cr_headers = [(''event_category'', ''command''), (''symbol'', ''BTC'')], cr_value = Some cmd \<rparr>"

lemma parse_demo: "parse_message ''BTC'' (demo_message cmd) = Inr (Some cmd)"
  by (simp add: parse_message_def demo_message_def read_header_def)

lemma demo_for_symbol [simp]: "for_symbol sy (demo_message cmd) \<longleftrightarrow> sy = ''BTC''" "cr_value (demo_message cmd) = Some cmd"
  by (auto simp: for_symbol_def header_value_def demo_message_def)

theorem orchestrator_serves_in_order_witness:
  "let b = demo_message (demo_new ''b'' ''u'' BID 4 99);
       foreign = \<lparr> cr_headers = [(''event_category'', ''command''), (''symbol'', ''ETH'')], cr_value = Some (demo_new ''c'' ''u'' BID 4 98) \<rparr>;
       broken = b\<lparr> cr_value := None \<rparr>
   in orchestrate demo_env 5 ''BTC'' [(b, True), (foreign, True), (broken, True)] demo_asked
        = (Inl ValueError, serve demo_env 5 [demo_new ''b'' ''u'' BID 4 99] demo_asked)"
proof -
  let ?b = "demo_message (demo_new ''b'' ''u'' BID 4 99)"
  let ?foreign = "\<lparr> cr_headers = [(''event_category'', ''command''), (''symbol'', ''ETH'')], cr_value = Some (demo_new ''c'' ''u'' BID 4 98) \<rparr>"
  let ?broken = "?b\<lparr> cr_value := None \<rparr>"
  let ?ms = "[(?b, True), (?foreign, True), (?broken, True)]"
  have "own_messages ''BTC'' ?ms = [(?b, True), (?broken, True)]"
    by (simp add: own_messages_def for_symbol_def header_value_def demo_message_def)
  moreover have "fst (handle_command demo_env 5 (demo_new ''b'' ''u'' BID 4 99) demo_asked) = Inr ()" by code_simp
  ultimately show ?thesis
    using orchestrator_serves_in_order[of "''BTC''" ?ms demo_env 5 demo_asked]
    by (auto simp: Cons_eq_append_conv serves_def stops_with_def own_commands_Cons Let_def simp del: serve.simps)
qed

text \<open>
  C13. A new instrument keeps running: its load seeds the book, and the orchestrator handles every stream of messages in
  which the commands for its symbol are new limit orders under different ids and cancellations, whether they cross or
  not and whether their owners have the funds or not. The loop ends with the stream and without an exception, every
  command has been served, and no bid reaches an ask.
\<close>

theorem new_market_keeps_running:
  assumes "order_book (levels_api x) ok" and "inj gen" and "\<forall>n. is_uuid x (gen n)"
    and "readable sy ms" and "list_all (plain_command x) (own_commands sy ms)" and "distinct (placed_ids (own_commands sy ms))"
    and "set (placed_ids (own_commands sy ms)) \<inter> range gen = {}" and "2 * (10 + length (own_commands sy ms)) \<le> k"
  shows "\<exists>s t. load_engine x depth k gen w (i, None) = Inr \<lparr> lc_engine = s, lc_position = None \<rparr>
    \<and> orchestrate x k sy ms (s\<lparr> e_queue := q \<rparr>) = (Inr (), t) \<and> t = serve x k (own_commands sy ms) (s\<lparr> e_queue := q \<rparr>)
    \<and> (\<forall>b a. \<not> (best_price (e_book t) BID = Some b \<and> best_price (e_book t) ASK = Some a \<and> a \<le> b))"
proof -
  have env: "book_env x ok" using assms(1) by (simp add: book_env_def)
  obtain s where s: "load_engine x depth k gen w (i, None) = Inr \<lparr> lc_engine = s, lc_position = None \<rparr>" "limit_reach x s"
      "length (e_objs s) \<le> 10" "\<And>j. store_get s j \<noteq> None \<Longrightarrow> j \<in> range gen"
    using book_env.new_market_reach[OF env assms(2), of k depth w i] assms(3,8) by auto
  have ids: "store_get (s\<lparr> e_queue := q \<rparr>) j = None" if "j \<in> set (placed_ids (own_commands sy ms))" for j
    using s(4)[of j] assms(7) that by (auto simp: store_get_def)
  have "2 * (length (e_objs (s\<lparr> e_queue := q \<rparr>)) + length (own_commands sy ms)) \<le> k" using s(3) assms(8) by simp
  note run = book_env.limit_stream_runs[OF env limit_shadow[OF s(2)] assms(4-6) ids this]
  obtain ab where "orderly x ok (serve x k (own_commands sy ms) (s\<lparr> e_queue := q \<rparr>)) ab"
    using book_env.limit_reach_orderly[OF env] run by blast
  then show ?thesis using s(1) run book_env.orderly_best[OF env] by (fastforce simp: not_le)
qed

theorem new_market_keeps_running_witness:
  "\<exists>s t. load_engine demo_env 0 26 (\<lambda>n. CHR ''x'' # replicate n (CHR ''x'')) (new_engine demo_env ''W'' demo_funds 0)
        (\<lparr> ir_id = ''i'', ir_symbol = ''BTC'', ir_starting_price = 200, ir_status = DEAD \<rparr>, None)
        = Inr \<lparr> lc_engine = s, lc_position = None \<rparr>
     \<and> orchestrate demo_env 26 ''BTC''
        [(demo_message (demo_new ''b'' ''u'' BID 4 201), True), (demo_message (demo_new ''c'' ''v'' ASK 7 190), True),
         (demo_message \<lparr> cmd_id = ''m'', cmd_body = CancelOrderCommand ''b'' \<rparr>, True)] (s\<lparr> e_queue := None \<rparr>) = (Inr (), t)"
proof -
  let ?gen = "\<lambda>n. CHR ''x'' # replicate n (CHR ''x'')"
  let ?cmds = "[demo_new ''b'' ''u'' BID 4 201, demo_new ''c'' ''v'' ASK 7 190, \<lparr> cmd_id = ''m'', cmd_body = CancelOrderCommand ''b'' \<rparr>]"
  let ?ms = "map (\<lambda>cmd. (demo_message cmd, True)) ?cmds"
  have "inj ?gen" unfolding inj_def by (metis length_replicate list.inject)
  moreover have own: "own_commands ''BTC'' ?ms = ?cmds" "readable ''BTC'' ?ms"
    by (simp_all add: own_commands_Cons readable_def)
  moreover have "list_all (plain_command demo_env) ?cmds"
    using demo_limits(1)[of demo_market] by (simp add: plain_command_def demo_new_def demo_order_def fresh_limit_def)
  moreover have "placed_ids ?cmds = [''b'', ''c'']" by (simp add: placed_ids_def placed_id_def demo_new_def demo_order_def)
  ultimately show ?thesis
    using new_market_keeps_running[of demo_env alist_ok ?gen "''BTC''" ?ms 26 0 "new_engine demo_env ''W'' demo_funds 0"
        "\<lparr> ir_id = ''i'', ir_symbol = ''BTC'', ir_starting_price = 200, ir_status = DEAD \<rparr>" None] alb.order_book_axioms
    by auto
qed

text \<open>
  One command that the engine cannot carry out stops the whole instrument: when such a command of any
  user arrives, the loop ends with its exception, and whatever messages follow are never handled.
\<close>

theorem unsupported_command_stops_engine:
  assumes "orchestrate x k sy before s = (Inr (), t)" and "parse_message sy msg = Inr (Some cmd)"
    and "e_queue t = None \<or> alive" and "attached t" and "is_uuid x (cmd_id cmd)"
    and "failure_of x t (cmd_body cmd) = Some e"
  shows "\<exists>u. e_book u = e_book t \<and> e_redis u = e_redis t
           \<and> (\<forall>later. orchestrate x k sy (before @ (msg, alive) # later) s = (Inl e, u))"
proof -
  obtain u where u: "handle_command x k cmd t = (Inl e, u)" "e_book u = e_book t" "e_redis u = e_redis t"
    using command_failure[OF assms(4-6)] by blast
  have runs: "command_loop x k sy before s = (Inr (), t)"
    using assms(1) by (auto simp: orchestrate_def split: prod.splits sum.splits)
  then have "command_loop x k sy (before @ (msg, alive) # later) s = (Inl e, u)" for later
  proof (induction before arbitrary: s)
    case Nil
    then show ?case using assms(2,3) u(1) by auto
  next
    case (Cons m ms)
    then show ?case by (cases m) (auto split: sum.splits option.splits prod.splits if_splits)
  qed
  moreover have "\<not> cmd_unbound sy (before @ (msg, alive) # later)" for later
    using runs assms(2) by (cases before) (auto simp: cmd_unbound_def split: sum.splits)
  ultimately show ?thesis using u(2,3) by (auto simp: orchestrate_def)
qed

theorem unsupported_command_stops_engine_witness:
  "let stop = \<lparr> cmd_id = ''m'', cmd_body = ModifyOrderCommand ''a'' (Some 120) None \<rparr> in
   fst (orchestrate demo_env 5 ''BTC'' [(demo_message stop, True), (demo_message (demo_new ''b'' ''u'' BID 4 99), True)] demo_asked)
     = Inl ValidationError"
proof -
  let ?c = "\<lparr> cmd_id = ''m'', cmd_body = ModifyOrderCommand ''a'' (Some 120) None \<rparr>"
  have "attached demo_asked" "store_get demo_asked ''a'' = Some 0" "user_id (obj demo_asked 0) = ''v''"
    "o_type (obj demo_asked 0) = LIMIT" "o_strategy (obj demo_asked 0) = SINGLE" by code_simp+
  then have "failure_of demo_env demo_asked (cmd_body ?c) = Some ValidationError" "attached demo_asked"
    by (simp_all add: failure_of_def)
  moreover have "orchestrate demo_env 5 ''BTC'' [] demo_asked = (Inr (), demo_asked)" by (simp add: orchestrate_def)
  ultimately obtain u where "\<forall>later. orchestrate demo_env 5 ''BTC'' ([] @ (demo_message ?c, True) # later) demo_asked = (Inl ValidationError, u)"
    using unsupported_command_stops_engine[of demo_env 5 "''BTC''" "[]" demo_asked demo_asked "demo_message ?c" ?c True ValidationError]
    by (auto simp: parse_demo)
  then show ?thesis by (simp add: Let_def)
qed

text \<open>
  The shadow engine does not follow the engine when an order is rejected for lack of funds: its funds
  check looks one event too far into the engine's events. Here the engine rejects a bid of a user without
  the funds and leaves the resting ask untouched, and the shadow, fed with the engine's messages, fills
  both orders.
\<close>

theorem shadow_misses_rejection:
  "(case create_shadow demo_env 9 demo_asked of
      Inl e \<Rightarrow> None
    | Inr (s, sh) \<Rightarrow>
        (case handle_command demo_env 6 (demo_new ''b'' ''z'' BID 10 2000) s of
           (r, t) \<Rightarrow>
             (case shadow_run demo_env 9 6 100 (\<lambda>_. \<lparr> kp_topic = [], kp_partition = 0, kp_offset = 0 \<rparr>) (the (e_queue t)) sh of
                Inl e \<Rightarrow> None
              | Inr sh' \<Rightarrow> Some (r, map executed_quantity (e_objs t), map executed_quantity (e_objs (sh_engine sh'))))))
   = Some (Inr (), [0, 0], [10, 0, 10])"
  by code_simp

end
